(* ===== verification/Bpm_Prelude.thy ===== *)
theory Bpm_Prelude
  imports Main "HOL-Library.Word"
begin

text \<open>
  What every component of the acquisition server shares: the fixed-width types of the
  MicroBlaze target, the log of input and output events through which the code talks to the
  FPGA cores, the codec interface of the wire format, and the lemmas on words, logs and lists
  that the component proofs use.

  Hardware is a parameter. A \<open>device\<close> answers every register read from the whole history of
  the run (all reads, writes, stores and delays so far), so that a statement about an
  arbitrary \<open>device\<close> is a statement about every behaviour the cores can show. The code's own
  effects are exactly the events it appends to the log.
\<close>

unbundle bit_operations_syntax

section \<open>Machine types\<close>

type_synonym u8 = "8 word"
type_synonym u16 = "16 word"
type_synonym u32 = "32 word"
type_synonym u64 = "64 word"

text \<open>
  Facts that unfold one layer of the machine (register accesses, waits) are collected in
  \<open>machine\<close>; facts about the bytes of an encoding in \<open>wire\<close>.
\<close>

named_theorems machine "register accesses and waits"
named_theorems wire "byte encodings"

section \<open>Two's complement\<close>

lemma sint_cases:
  fixes w :: "'a::len word"
  shows "sint w = (if uint w < 2 ^ (LENGTH('a) - 1) then uint w else uint w - 2 ^ LENGTH('a))"
proof -
  obtain n where n: "LENGTH('a) = Suc n"
    using len_gt_0 gr0_conv_Suc by blast
  have hi: "uint w < 2 * 2 ^ n" and lo: "0 \<le> uint w"
    using uint_lt2p [of w] n by simp_all
  have "bit (uint w) n \<longleftrightarrow> \<not> uint w < 2 ^ n"
  proof (cases "uint w < 2 ^ n")
    case True
    with lo show ?thesis by (simp add: bit_iff_odd)
  next
    case False
    with hi have "uint w div 2 ^ n = 1"
      by (intro int_div_pos_eq [of _ _ _ "uint w - 2 ^ n"]) simp_all
    with False show ?thesis by (simp add: bit_iff_odd)
  qed
  moreover have "take_bit (Suc n) (uint w) = uint w"
    using hi lo by (simp add: take_bit_int_eq_self)
  ultimately show ?thesis
    by (simp add: sint_uint n signed_take_bit_eq_take_bit_minus)
qed

lemma sint_nonneg_iff:
  fixes w :: "'a::len word"
  shows "0 \<le> sint w \<longleftrightarrow> uint w < 2 ^ (LENGTH('a) - 1)"
  by (simp add: sint_cases linorder_not_le)

section \<open>Bytes of a word\<close>

lemma bit_u8_high [simp]: "8 \<le> n \<Longrightarrow> \<not> bit (b :: u8) n"
  by (auto dest: bit_imp_le_length)

lemma bit_byte_field [wire]:
  "bit (push_bit k (ucast (ucast (drop_bit k i) :: u8)) :: 'a::len word) n
     \<longleftrightarrow> k \<le> n \<and> n < k + 8 \<and> bit (i :: 'a word) n"
  by (auto simp: bit_simps dest: bit_imp_le_length)

lemma bit_byte_field0 [wire]:
  "bit (ucast (ucast i :: u8) :: 'a::len word) n \<longleftrightarrow> n < 8 \<and> bit (i :: 'a word) n"
  by (auto simp: bit_simps dest: bit_imp_le_length)

section \<open>The codec interface\<close>

text \<open>
  What \<open>pack\<close> and \<open>unpack\<close> rely on for every scalar of the wire format: \<open>enc\<close> writes a
  fixed number of bytes and \<open>dec\<close> reads them back, whatever follows in the buffer.
\<close>

locale codec =
  fixes enc :: "'a \<Rightarrow> u8 list"
    and dec :: "u8 list \<Rightarrow> 'a"
    and width :: nat
  assumes enc_width: "length (enc x) = width"
    and dec_enc: "dec (enc x @ rest) = x"
begin

lemma enc_inject: "enc x = enc y \<Longrightarrow> x = y"
  using dec_enc [of x "[]"] dec_enc [of y "[]"] by simp

lemma enc_prefix_free: "enc x @ r = enc y @ s \<Longrightarrow> x = y \<and> r = s"
proof -
  assume eq: "enc x @ r = enc y @ s"
  then have "x = y" using dec_enc [of x r] dec_enc [of y s] by simp
  with eq show ?thesis by simp
qed

lemma drop_enc: "drop width (enc x @ rest) = rest"
  by (simp add: enc_width)

end

text \<open>A codec that is also onto: any \<open>width\<close> bytes are the encoding of what they decode to.\<close>

locale bijective_codec = codec +
  assumes enc_dec: "length bs = width \<Longrightarrow> enc (dec bs) = bs"
begin

lemma dec_inject:
  "length bs = width \<Longrightarrow> length cs = width \<Longrightarrow> dec bs = dec cs \<Longrightarrow> bs = cs"
  by (metis enc_dec)

end

section \<open>Input and output\<close>

text \<open>
  \<open>Rd a v\<close> and \<open>Wr a v\<close> are 32-bit accesses of a memory-mapped register or of a word that
  the processor shares with a DMA engine (a buffer descriptor), \<open>St a bs\<close> is a store of bytes
  into the DDR sample memory, \<open>Fls a\<close> and \<open>Inv a\<close> flush and invalidate the data cache for the
  descriptor or the buffer at \<open>a\<close>, \<open>Sync\<close> is the memory barrier, and \<open>Dly n\<close> is a call of the busy loop
  \<open>delay\<close>. The newest event is the last one.
\<close>

datatype io_event =
  Rd u32 u32 | Wr u32 u32 | St u32 "u8 list" | Fls u32 | Inv u32 | Sync | Dly int

type_synonym trace = "io_event list"

record device =
  reg :: "trace \<Rightarrow> u32 \<Rightarrow> u32"   \<comment> \<open>the answer to a register read\<close>
  ram :: "trace \<Rightarrow> u32 \<Rightarrow> u8"    \<comment> \<open>the byte the processor sees at an address\<close>

definition In32 :: "device \<Rightarrow> u32 \<Rightarrow> trace \<Rightarrow> u32 \<times> trace" where
  "In32 dev a t = (let v = reg dev t a in (v, t @ [Rd a v]))"

definition Out32 :: "u32 \<Rightarrow> u32 \<Rightarrow> trace \<Rightarrow> trace" where
  "Out32 a v t = t @ [Wr a v]"

lemma fst_In32 [simp]: "fst (In32 dev a t) = reg dev t a"
  by (simp add: In32_def Let_def)

lemma snd_In32 [simp]: "snd (In32 dev a t) = t @ [Rd a (reg dev t a)]"
  by (simp add: In32_def Let_def)

lemma In32_split [machine]: "In32 dev a t = (reg dev t a, t @ [Rd a (reg dev t a)])"
  by (simp add: In32_def Let_def)

lemmas [machine] = Out32_def

text \<open>The register writes of a log, in order: what the hardware was told to do.\<close>

fun writes :: "trace \<Rightarrow> (u32 \<times> u32) list" where
  "writes [] = []"
| "writes (Wr a v # t) = (a, v) # writes t"
| "writes (Rd a v # t) = writes t"
| "writes (St a bs # t) = writes t"
| "writes (Fls a # t) = writes t"
| "writes (Inv a # t) = writes t"
| "writes (Sync # t) = writes t"
| "writes (Dly n # t) = writes t"

lemma writes_append [simp]: "writes (s @ t) = writes s @ writes t"
  by (induction s rule: writes.induct) simp_all

text \<open>A later log extends an earlier one: the code never takes an event back.\<close>

definition extends :: "trace \<Rightarrow> trace \<Rightarrow> bool" where
  "extends t t' \<longleftrightarrow> (\<exists>s. t' = t @ s)"

lemma extends_refl [simp, intro]: "extends t t"
  by (simp add: extends_def)

lemma extends_trans [trans]: "extends t t' \<Longrightarrow> extends t' t'' \<Longrightarrow> extends t t''"
  by (auto simp: extends_def)

lemma extends_append [simp, intro]: "extends t (t @ s)"
  by (auto simp: extends_def)

lemma extends_appendI [intro]: "extends t t' \<Longrightarrow> extends t (t' @ s)"
  by (auto simp: extends_def)

text \<open>
  Documented behaviour of memory, used by name where a proof reads back what it has stored:
  the bytes of the latest store are the bytes read.
\<close>

definition ram_holds_stores :: "device \<Rightarrow> bool" where
  "ram_holds_stores dev \<longleftrightarrow>
     (\<forall>t a bs i. i < length bs \<longrightarrow> length bs \<le> 2 ^ 32 \<longrightarrow>
        ram dev (t @ [St a bs]) (a + of_nat i) = bs ! i)"

definition ram_bytes :: "device \<Rightarrow> trace \<Rightarrow> u32 \<Rightarrow> nat \<Rightarrow> u8 list" where
  "ram_bytes dev t a n = map (\<lambda>i. ram dev t (a + of_nat i)) [0..<n]"

lemma length_ram_bytes [simp]: "length (ram_bytes dev t a n) = n"
  by (simp add: ram_bytes_def)

lemma ram_bytes_stored:
  assumes "ram_holds_stores dev" and "length bs \<le> 2 ^ 32"
  shows "ram_bytes dev (t @ [St a bs]) a (length bs) = bs"
  using assms by (intro nth_equalityI) (simp_all add: ram_bytes_def ram_holds_stores_def)

end
