(* ===== verification/Float754.thy ===== *)
theory Float754
  imports Bpm_Prelude Complex_Main
begin

text \<open>
  The two floating-point converters of \<open>pack/pack.c\<close>. A finite \<open>long double\<close> (a 64-bit
  IEEE double on the MicroBlaze target) is a rational number; multiplication and division by
  2, subtraction of 1 in \<open>[1, 2)\<close> and the conversions of integers below \<open>2 ^ 53\<close> are exact
  there. The one product that is not, \<open>fnorm * ((1LL << significandbits) + 0.5f)\<close>, is rounded
  to 53 bits as the hardware-independent IEEE rule says. Infinities and NaNs are not values
  of the model: on an infinity the first loop of \<open>pack754\<close> does not end.
\<close>

section \<open>Scaling loops\<close>

text \<open>\<open>while (fnorm >= 2.0) { fnorm /= 2.0; shift++; }\<close>\<close>

function scale_down :: "rat \<Rightarrow> int \<Rightarrow> rat \<times> int" where
  "scale_down x s = (if 2 \<le> x then scale_down (x / 2) (s + 1) else (x, s))"
  by pat_completeness auto
termination
proof (relation "measure (\<lambda>(x, s). nat \<lfloor>x\<rfloor>)")
  fix x :: rat and s :: int
  assume x: "2 \<le> x"
  have "\<lfloor>x / 2\<rfloor> < \<lfloor>x\<rfloor>"
  proof -
    have "x / 2 \<le> x - 1" using x by simp
    then have "\<lfloor>x / 2\<rfloor> \<le> \<lfloor>x - 1\<rfloor>" by (rule floor_mono)
    then show ?thesis by simp
  qed
  moreover have "0 < \<lfloor>x\<rfloor>" using x by linarith
  ultimately show "((x / 2, s + 1), x, s) \<in> measure (\<lambda>(x, s). nat \<lfloor>x\<rfloor>)"
    by (simp only: in_measure prod.case nat_mono_iff)
qed simp

text \<open>
  \<open>while (fnorm < 1.0) { fnorm *= 2.0; shift--; }\<close>. The loop is reached with a positive
  \<open>fnorm\<close> only (zero has returned before); at 0 the source would not stop.
\<close>

function scale_up :: "rat \<Rightarrow> int \<Rightarrow> rat \<times> int" where
  "scale_up x s = (if 0 < x \<and> x < 1 then scale_up (2 * x) (s - 1) else (x, s))"
  by pat_completeness auto
termination
proof (relation "measure (\<lambda>(x, s). nat \<lceil>1 / x\<rceil>)")
  fix x :: rat and s :: int
  assume x: "0 < x \<and> x < 1"
  define y where "y = 1 / x"
  have y: "1 < y" and half: "1 / (2 * x) = y / 2" using x by (simp_all add: y_def)
  have "\<lceil>y / 2\<rceil> < \<lceil>y\<rceil>"
  proof (cases "y \<le> 2")
    case True
    have "\<lceil>y / 2\<rceil> \<le> 1" using True by (simp add: ceiling_le_iff)
    moreover have "1 < \<lceil>y\<rceil>" using y by (simp add: less_ceiling_iff)
    ultimately show ?thesis by linarith
  next
    case False
    then have "y / 2 \<le> y - 1" by simp
    then have "\<lceil>y / 2\<rceil> \<le> \<lceil>y - 1\<rceil>" by (rule ceiling_mono)
    then show ?thesis by simp
  qed
  moreover have "0 < \<lceil>y\<rceil>" using y by (simp add: less_ceiling_iff)
  ultimately show "((2 * x, s - 1), x, s) \<in> measure (\<lambda>(x, s). nat \<lceil>1 / x\<rceil>)"
    by (simp add: half y_def [symmetric])
qed simp

declare scale_down.simps [simp del] scale_up.simps [simp del]



text \<open>Both loops, one after the other, as the source runs them.\<close>

definition normalize754 :: "rat \<Rightarrow> rat \<times> int" where
  "normalize754 x = (case scale_down x 0 of (y, s) \<Rightarrow> scale_up y s)"

definition pow2 :: "int \<Rightarrow> rat" where
  "pow2 e = (if 0 \<le> e then 2 ^ nat e else 1 / 2 ^ nat (- e))"




lemma pow2_0 [simp]: "pow2 0 = 1"
  by (simp add: pow2_def)




text \<open>The scaling loop of \<open>unpack754\<close>, both directions.\<close>

function scale_by :: "rat \<Rightarrow> int \<Rightarrow> rat" where
  "scale_by x n =
     (if 0 < n then scale_by (x * 2) (n - 1) else if n < 0 then scale_by (x / 2) (n + 1) else x)"
  by pat_completeness auto
termination
  by (relation "measure (\<lambda>(x, n). nat \<bar>n\<bar>)") auto

declare scale_by.simps [simp del]






section \<open>Rounding\<close>

definition round_half_even :: "rat \<Rightarrow> int" where
  "round_half_even x =
     (let f = \<lfloor>x\<rfloor>; d = x - of_int f
      in if d < 1 / 2 then f else if 1 / 2 < d then f + 1 else if even f then f else f + 1)"

text \<open>Round a non-negative number to \<open>p\<close> significant bits, ties to even.\<close>

definition round_prec :: "nat \<Rightarrow> rat \<Rightarrow> rat" where
  "round_prec p x =
     (if x \<le> 0 then x
      else case normalize754 x of (m, s) \<Rightarrow>
        of_int (round_half_even (m * 2 ^ (p - 1))) * pow2 (s - int (p - 1)))"

text \<open>
  \<open>(1LL << significandbits) + 0.5f\<close> is computed in \<open>float\<close> (24 bits): the half survives
  for fewer than 23 bits and is rounded away (tie to even, or below half a unit) from 23 on.
\<close>

definition significand_scale :: "nat \<Rightarrow> rat" where
  "significand_scale sb = (if sb < 23 then 2 ^ sb + 1 / 2 else 2 ^ sb)"

definition significandbits :: "nat \<Rightarrow> nat \<Rightarrow> nat" where
  "significandbits bits expbits = bits - expbits - 1"



section \<open>pack754 and unpack754\<close>

text \<open>
  \<open>exp\<close> and \<open>sign\<close> are \<open>long long\<close>; the result is assembled in 64 bits, so a biased
  exponent that is negative or too wide runs into the sign and beyond, as in the code.
\<close>

definition pack754 :: "rat \<Rightarrow> nat \<Rightarrow> nat \<Rightarrow> u64" where
  "pack754 f bits expbits =
     (if f = 0 then 0
      else
        let sb = significandbits bits expbits;
            sign = (if f < 0 then 1 else 0 :: u64);
            (fnorm, shift) = normalize754 (if f < 0 then - f else f);
            significand = \<lfloor>round_prec 53 ((fnorm - 1) * significand_scale sb)\<rfloor>;
            ex = shift + (2 ^ (expbits - 1) - 1)
        in push_bit (bits - 1) sign OR push_bit sb (word_of_int ex) OR word_of_int significand)"

definition unpack754 :: "u64 \<Rightarrow> nat \<Rightarrow> nat \<Rightarrow> rat" where
  "unpack754 i bits expbits =
     (if i = 0 then 0
      else
        let sb = significandbits bits expbits;
            result = of_int (uint (i AND (push_bit sb 1 - 1))) / 2 ^ sb + 1;
            bias = 2 ^ (expbits - 1) - 1;
            shift = uint (drop_bit sb i AND (push_bit expbits 1 - 1)) - bias
        in scale_by result shift * (if drop_bit (bits - 1) i AND 1 = 1 then - 1 else 1))"

section \<open>Round trip\<close>















text \<open>
  Outside that domain the half-precision format goes wrong by a factor of two: the fraction of
  \<open>8191 / 4096\<close> rounds up to \<open>2 ^ 10\<close>, and or-ing it in hits an exponent bit that is
  already set instead of carrying. The number just below 2 is packed as 1.
\<close>

lemma pack754_half_overflow:
  "pack754 (8191 / 4096) 16 5 = 0x3C00 \<and> unpack754 0x3C00 16 5 = 1"
  by code_simp

end
