(* ===== verification/Pack.thy ===== *)
theory Pack
  imports Float754 "HOL-Library.Char_ord"
begin

text \<open>
  \<open>pack/pack.c\<close>: big-endian storing and loading of integers, and the format-driven
  \<open>pack\<close> and \<open>unpack\<close>. A buffer that is written is the list of bytes written so far; a
  buffer that is read is the list of bytes from the read pointer on. \<open>None\<close> is undefined
  behaviour of the C code: an argument that does not fit its conversion, or a read past the
  bytes that are there.
\<close>

section \<open>Storing integers\<close>

definition packi16 :: "u16 \<Rightarrow> u8 list" where
  "packi16 i = [ucast (drop_bit 8 i), ucast i]"

definition packi32 :: "u32 \<Rightarrow> u8 list" where
  "packi32 i = [ucast (drop_bit 24 i), ucast (drop_bit 16 i), ucast (drop_bit 8 i), ucast i]"

definition packi64 :: "u64 \<Rightarrow> u8 list" where
  "packi64 i =
     [ucast (drop_bit 56 i), ucast (drop_bit 48 i), ucast (drop_bit 40 i), ucast (drop_bit 32 i),
      ucast (drop_bit 24 i), ucast (drop_bit 16 i), ucast (drop_bit 8 i), ucast i]"

section \<open>Loading integers\<close>

fun unpacku16 :: "u8 list \<Rightarrow> u16" where
  "unpacku16 (a # b # _) = push_bit 8 (ucast a) OR ucast b"
| "unpacku16 _ = 0"

fun unpacku32 :: "u8 list \<Rightarrow> u32" where
  "unpacku32 (a # b # c # d # _) =
     push_bit 24 (ucast a) OR push_bit 16 (ucast b) OR push_bit 8 (ucast c) OR ucast d"
| "unpacku32 _ = 0"

fun unpacku64 :: "u8 list \<Rightarrow> u64" where
  "unpacku64 (a # b # c # d # e # f # g # h # _) =
     push_bit 56 (ucast a) OR push_bit 48 (ucast b) OR push_bit 40 (ucast c) OR
     push_bit 32 (ucast d) OR push_bit 24 (ucast e) OR push_bit 16 (ucast f) OR
     push_bit 8 (ucast g) OR ucast h"
| "unpacku64 _ = 0"

text \<open>
  \<open>change unsigned numbers to signed\<close>: the C values of type \<open>short\<close>, \<open>int\<close> and
  \<open>long long int\<close> as mathematical integers.
\<close>

definition unpacki16 :: "u8 list \<Rightarrow> int" where
  "unpacki16 buf =
     (let i2 = unpacku16 buf
      in if i2 \<le> 0x7fff then uint i2 else - 1 - uint (0xffff - i2))"

definition unpacki32 :: "u8 list \<Rightarrow> int" where
  "unpacki32 buf =
     (let i2 = unpacku32 buf
      in if i2 \<le> 0x7fffffff then uint i2 else - 1 - uint (0xffffffff - i2))"

definition unpacki64 :: "u8 list \<Rightarrow> int" where
  "unpacki64 buf =
     (let i2 = unpacku64 buf
      in if i2 \<le> 0x7fffffffffffffff then uint i2 else - 1 - uint (0xffffffffffffffff - i2))"

section \<open>Round trips of the integer codecs\<close>

lemma complement_sub:
  fixes w :: "'a::len word"
  shows "uint (- 1 - w) = 2 ^ LENGTH('a) - 1 - uint w"
proof -
  have "uint w \<le> uint (- 1 :: 'a word)" by (rule word_le_def [THEN iffD1]) simp
  then have "uint (- 1 - w) = uint (- 1 :: 'a word) - uint w"
    by (simp add: uint_sub_lem [THEN iffD1])
  then show ?thesis by (simp add: unsigned_minus_1_eq_mask mask_eq_exp_minus_1)
qed

interpretation u16: bijective_codec packi16 unpacku16 2
proof
  fix x rest show "unpacku16 (packi16 x @ rest) = x"
    by (rule bit_word_eqI) (auto simp: packi16_def wire bit_or_iff)
next
  fix bs :: "u8 list" assume "length bs = 2"
  then obtain a b where "bs = [a, b]" by (auto simp: length_Suc_conv numeral_2_eq_2)
  then show "packi16 (unpacku16 bs) = bs"
    by (auto simp: packi16_def bit_simps dest: bit_imp_le_length intro!: bit_word_eqI)
qed (simp add: packi16_def)

interpretation u32: bijective_codec packi32 unpacku32 4
proof
  fix x rest show "unpacku32 (packi32 x @ rest) = x"
    by (rule bit_word_eqI) (auto simp: packi32_def wire bit_or_iff)
next
  fix bs :: "u8 list" assume "length bs = 4"
  then obtain a b c d where "bs = [a, b, c, d]" by (auto simp: length_Suc_conv eval_nat_numeral)
  then show "packi32 (unpacku32 bs) = bs"
    by (auto simp: packi32_def bit_simps dest: bit_imp_le_length intro!: bit_word_eqI)
qed (simp add: packi32_def)

interpretation u64: bijective_codec packi64 unpacku64 8
proof
  fix x rest show "unpacku64 (packi64 x @ rest) = x"
    by (rule bit_word_eqI) (auto simp: packi64_def wire bit_or_iff)
next
  fix bs :: "u8 list" assume "length bs = 8"
  then obtain a b c d e f g h where "bs = [a, b, c, d, e, f, g, h]"
    by (auto simp: length_Suc_conv eval_nat_numeral)
  then show "packi64 (unpacku64 bs) = bs"
    by (auto simp: packi64_def bit_simps dest: bit_imp_le_length intro!: bit_word_eqI)
qed (simp add: packi64_def)

text \<open>The hand-written sign conversion is two's complement, at every width.\<close>

lemma resign_16:
  "(if w \<le> 0x7fff then uint w else - 1 - uint (0xffff - w)) = sint (w :: u16)"
proof -
  have m: "(0xffff :: u16) = - 1" by simp
  have "uint (0xffff - w) = 0xffff - uint w"
    unfolding m using complement_sub [of w] by simp
  then show ?thesis by (simp add: sint_cases word_le_def)
qed

lemma resign_32:
  "(if w \<le> 0x7fffffff then uint w else - 1 - uint (0xffffffff - w)) = sint (w :: u32)"
proof -
  have m: "(0xffffffff :: u32) = - 1" by simp
  have "uint (0xffffffff - w) = 0xffffffff - uint w"
    unfolding m using complement_sub [of w] by simp
  then show ?thesis by (simp add: sint_cases word_le_def)
qed

lemma resign_64:
  "(if w \<le> 0x7fffffffffffffff then uint w else - 1 - uint (0xffffffffffffffff - w)) = sint (w :: u64)"
proof -
  have m: "(0xffffffffffffffff :: u64) = - 1" by simp
  have "uint (0xffffffffffffffff - w) = 0xffffffffffffffff - uint w"
    unfolding m using complement_sub [of w] by simp
  then show ?thesis by (simp add: sint_cases word_le_def)
qed

lemma unpacki16_sint: "unpacki16 buf = sint (unpacku16 buf)"
  by (simp only: unpacki16_def Let_def resign_16)

lemma unpacki32_sint: "unpacki32 buf = sint (unpacku32 buf)"
  by (simp only: unpacki32_def Let_def resign_32)

lemma unpacki64_sint: "unpacki64 buf = sint (unpacku64 buf)"
  by (simp only: unpacki64_def Let_def resign_64)

section \<open>pack\<close>

text \<open>
  An argument of the variable list: an \<open>int\<close> or \<open>unsigned int\<close> (32 bits), a 64-bit
  integer, a floating-point value, or a pointer to characters (the memory it points to).
\<close>

datatype pack_arg = A_int u32 | A_ll u64 | A_fp rat | A_str "u8 list"

definition strlen :: "u8 list \<Rightarrow> nat option" where
  "strlen s = (if 0 \<in> set s then Some (length (takeWhile (\<lambda>b. b \<noteq> 0) s)) else None)"

text \<open>
  One conversion: the bytes stored, the amount added to \<open>size\<close> and the remaining arguments.
  A character that is no conversion (a digit, say) is skipped. \<open>(float)\<close> rounds to 24 bits.
\<close>

definition pack_one :: "char \<Rightarrow> pack_arg list \<Rightarrow> (u8 list \<times> u32 \<times> pack_arg list) option" where
  "pack_one c args =
     (if c = CHR ''c'' \<or> c = CHR ''C'' then
        (case args of A_int v # as \<Rightarrow> Some ([ucast v], 1, as) | _ \<Rightarrow> None)
      else if c = CHR ''h'' \<or> c = CHR ''H'' then
        (case args of A_int v # as \<Rightarrow> Some (packi16 (ucast v), 2, as) | _ \<Rightarrow> None)
      else if c = CHR ''l'' \<or> c = CHR ''L'' then
        (case args of A_int v # as \<Rightarrow> Some (packi32 v, 4, as) | _ \<Rightarrow> None)
      else if c = CHR ''q'' \<or> c = CHR ''Q'' then
        (case args of A_ll v # as \<Rightarrow> Some (packi64 v, 8, as) | _ \<Rightarrow> None)
      else if c = CHR ''f'' then
        (case args of
           A_fp x # as \<Rightarrow>
             let f = (if x < 0 then - round_prec 24 (- x) else round_prec 24 x)
             in Some (packi16 (ucast (pack754 f 16 5)), 2, as)
         | _ \<Rightarrow> None)
      else if c = CHR ''d'' then
        (case args of A_fp x # as \<Rightarrow> Some (packi32 (ucast (pack754 x 32 8)), 4, as) | _ \<Rightarrow> None)
      else if c = CHR ''g'' then
        (case args of A_fp x # as \<Rightarrow> Some (packi64 (pack754 x 64 11), 8, as) | _ \<Rightarrow> None)
      else if c = CHR ''s'' then
        (case args of
           A_str s # as \<Rightarrow>
             (case strlen s of
                None \<Rightarrow> None
              | Some len \<Rightarrow> Some (packi16 (of_nat len) @ take len s, of_nat (len + 2), as))
         | _ \<Rightarrow> None)
      else Some ([], 0, args))"

fun pack :: "string \<Rightarrow> pack_arg list \<Rightarrow> (u8 list \<times> u32) option" where
  "pack [] args = Some ([], 0)"
| "pack (c # format) args =
     (case pack_one c args of
        None \<Rightarrow> None
      | Some (bs, n, args') \<Rightarrow>
          (case pack format args' of None \<Rightarrow> None | Some (rest, sz) \<Rightarrow> Some (bs @ rest, n + sz)))"

section \<open>unpack\<close>

text \<open>What is stored through the next pointer argument, in the type the conversion names.\<close>

datatype unpack_val =
    U_c int | U_C u8 | U_h int | U_H u16 | U_l int | U_L u32 | U_q int | U_Q u64
  | U_f rat | U_s "u8 list"

definition isdigit :: "char \<Rightarrow> bool" where
  "isdigit c \<longleftrightarrow> CHR ''0'' \<le> c \<and> c \<le> CHR ''9''"

text \<open>The buffer after a load of \<open>n\<close> bytes, if it has that many.\<close>

definition load :: "nat \<Rightarrow> (u8 list \<Rightarrow> unpack_val) \<Rightarrow> u8 list \<Rightarrow> (unpack_val list \<times> u8 list) option" where
  "load n f buf = (if n \<le> length buf then Some ([f buf], drop n buf) else None)"

text \<open>
  One conversion under the maximal string length \<open>m\<close>. In the branch for \<open>c\<close> the read pointer
  moves only when the byte is at most \<open>0x7f\<close>.
\<close>

definition unpack_one :: "char \<Rightarrow> u8 list \<Rightarrow> u32 \<Rightarrow> (unpack_val list \<times> u8 list) option" where
  "unpack_one c buf m =
     (if c = CHR ''c'' then
        (case buf of
           [] \<Rightarrow> None
         | b # rest \<Rightarrow>
             if b \<le> 0x7f then Some ([U_c (uint b)], rest)
             else Some ([U_c (- 1 - uint (0xff - b))], buf))
      else if c = CHR ''C'' then load 1 (\<lambda>b. U_C (hd b)) buf
      else if c = CHR ''h'' then load 2 (\<lambda>b. U_h (unpacki16 b)) buf
      else if c = CHR ''H'' then load 2 (\<lambda>b. U_H (unpacku16 b)) buf
      else if c = CHR ''l'' then load 4 (\<lambda>b. U_l (unpacki32 b)) buf
      else if c = CHR ''L'' then load 4 (\<lambda>b. U_L (unpacku32 b)) buf
      else if c = CHR ''q'' then load 8 (\<lambda>b. U_q (unpacki64 b)) buf
      else if c = CHR ''Q'' then load 8 (\<lambda>b. U_Q (unpacku64 b)) buf
      else if c = CHR ''f'' then load 2 (\<lambda>b. U_f (unpack754 (ucast (unpacku16 b)) 16 5)) buf
      else if c = CHR ''d'' then load 4 (\<lambda>b. U_f (unpack754 (ucast (unpacku32 b)) 32 8)) buf
      else if c = CHR ''g'' then load 8 (\<lambda>b. U_f (unpack754 (unpacku64 b) 64 11)) buf
      else if c = CHR ''s'' then
        (if length buf < 2 then None
         else
           let len = (ucast (unpacku16 buf) :: u32);
               count = (if 0 < m \<and> m < len then m - 1 else len);
               buf' = drop 2 buf
           in if length buf' < unat count then None
              else Some ([U_s (take (unat count) buf' @ [0])], drop (unat len) buf'))
      else Some ([], buf))"

text \<open>\<open>maxstrlen\<close> after a format character: a digit extends it, anything else clears it.\<close>

definition next_maxstrlen :: "char \<Rightarrow> u32 \<Rightarrow> u32" where
  "next_maxstrlen c m = (if isdigit c then m * 10 + (of_char c - of_char (CHR ''0'')) else 0)"

fun unpack_loop :: "string \<Rightarrow> u8 list \<Rightarrow> u32 \<Rightarrow> (unpack_val list \<times> u8 list) option" where
  "unpack_loop [] buf m = Some ([], buf)"
| "unpack_loop (c # format) buf m =
     (case unpack_one c buf m of
        None \<Rightarrow> None
      | Some (vs, buf') \<Rightarrow>
          (case unpack_loop format buf' (next_maxstrlen c m) of
             None \<Rightarrow> None
           | Some (ws, buf'') \<Rightarrow> Some (vs @ ws, buf'')))"

definition unpack :: "u8 list \<Rightarrow> string \<Rightarrow> unpack_val list option" where
  "unpack buf format = map_option fst (unpack_loop format buf 0)"

section \<open>Correctness of pack and unpack\<close>

lemma strlen_le: "strlen s = Some n \<Longrightarrow> n \<le> length s"
  by (auto simp: strlen_def length_takeWhile_le split: if_splits)
lemma pack_one_default:
  "c \<notin> set ''cChHlLqQfdgs'' \<Longrightarrow> pack_one c args = Some ([], 0, args)"
  by (simp add: pack_one_def)
lemma pack_one_size:
  assumes "pack_one c args = Some (bs, n, args')"
  shows "n = of_nat (length bs)"
proof (cases "c \<in> set ''cChHlLqQfdgs''")
  case False
  with assms show ?thesis by (simp add: pack_one_default)
next
  case True
  then show ?thesis
    using assms by (simp only: list.set insert_iff empty_iff, elim disjE FalseE)
      (clarsimp simp: pack_one_def Let_def u16.enc_width u32.enc_width u64.enc_width
        min_absorb2 strlen_le split: list.splits pack_arg.splits option.splits)+
qed
text \<open>
  the size that \<open>pack\<close> accumulates and returns is the number of bytes it stored, for every
  format and argument list (modulo \<open>2 ^ 32\<close>, the width of \<open>size\<close>). The senders advance
  their buffer pointer by it.
\<close>

theorem pack_size:
  "case pack format args of None \<Rightarrow> True | Some (bs, sz) \<Rightarrow> sz = of_nat (length bs)"
proof (induction format args rule: pack.induct)
  case (1 args)
  show ?case by simp
next
  case (2 c format args)
  then show ?case by (auto dest: pack_one_size split: option.splits)
qed

text \<open>What the conversions that keep their value give back for one argument.\<close>

fun decoded_arg :: "char \<Rightarrow> pack_arg \<Rightarrow> unpack_val" where
  "decoded_arg c (A_int v) =
     (if c = CHR ''C'' then U_C (ucast v)
      else if c = CHR ''h'' then U_h (sint (ucast v :: u16))
      else if c = CHR ''H'' then U_H (ucast v)
      else if c = CHR ''l'' then U_l (sint v)
      else U_L v)"
| "decoded_arg c (A_ll v) = (if c = CHR ''q'' then U_q (sint v) else U_Q v)"
| "decoded_arg c (A_fp x) = U_f x"
| "decoded_arg c (A_str s) = U_s (take (the (strlen s)) s @ [0])"

definition short_string :: "pack_arg \<Rightarrow> bool" where
  "short_string a \<longleftrightarrow>
     (case a of A_str s \<Rightarrow> (case strlen s of None \<Rightarrow> True | Some n \<Rightarrow> n < 2 ^ 16) | _ \<Rightarrow> True)"

lemma unpack_one_string:
  assumes "strlen s = Some len" and "len < 2 ^ 16"
  shows "unpack_one CHR ''s'' (packi16 (of_nat len) @ take len s @ rest) 0
    = Some ([U_s (take len s @ [0])], rest)"
proof -
  have "unat (ucast (of_nat len :: u16) :: u32) = len"
    using assms(2) by (simp add: unsigned_ucast_eq unsigned_of_nat take_bit_nat_eq_self)
  then show ?thesis
    using strlen_le [OF assms(1)]
    by (simp add: unpack_one_def u16.enc_width u16.dec_enc u16.drop_enc Let_def)
qed

lemmas scalar_codecs =
  u16.enc_width u32.enc_width u64.enc_width u16.dec_enc u32.dec_enc u64.dec_enc
  unpacki16_sint unpacki32_sint unpacki64_sint

lemma unpack_one_pack_one:
  assumes c: "c \<in> set ''ChHlLqQs''" and p: "pack_one c args = Some (bs, n, args')"
    and short: "\<forall>a \<in> set args. short_string a"
  shows "\<exists>a. args = a # args' \<and> unpack_one c (bs @ rest) 0 = Some ([decoded_arg c a], rest)"
proof (cases "c = CHR ''s''")
  case True
  with p obtain s len where "args = A_str s # args'" "strlen s = Some len"
      "bs = packi16 (of_nat len) @ take len s"
    by (auto simp: pack_one_def split: list.splits pack_arg.splits option.splits)
  with short show ?thesis
    by (simp add: True short_string_def unpack_one_string)
next
  case False
  with c have "c \<in> set ''ChHlLqQ''" by simp
  then show ?thesis
    using p by (simp only: list.set insert_iff empty_iff, elim disjE FalseE)
      (clarsimp simp: pack_one_def unpack_one_def load_def scalar_codecs
        split: list.splits pack_arg.splits)+
qed

lemma unpack_loop_pack:
  assumes "set format \<subseteq> set ''ChHlLqQs''" and "pack format args = Some (bs, sz)"
    and "\<forall>a \<in> set args. short_string a"
  shows "unpack_loop format (bs @ rest) 0 = Some (map2 decoded_arg format args, rest)"
  using assms
proof (induction format arbitrary: args bs sz)
  case Nil
  then show ?case by simp
next
  case (Cons c format)
  from Cons.prems(2) obtain b1 n1 args' b2 n2
    where one: "pack_one c args = Some (b1, n1, args')"
      and tl: "pack format args' = Some (b2, n2)" and bs: "bs = b1 @ b2"
    by (auto split: option.splits prod.splits)
  obtain a where a: "args = a # args'"
    and un: "unpack_one c (b1 @ b2 @ rest) 0 = Some ([decoded_arg c a], b2 @ rest)"
    using unpack_one_pack_one [OF _ one Cons.prems(3), of "b2 @ rest"] Cons.prems(1) by auto
  have "next_maxstrlen c 0 = 0"
    using Cons.prems(1) by (auto simp: next_maxstrlen_def isdigit_def)
  moreover have "unpack_loop format (b2 @ rest) 0 = Some (map2 decoded_arg format args', rest)"
    using Cons.IH [OF _ tl] Cons.prems a by simp
  ultimately show ?case using un by (simp add: bs a)
qed

text \<open>
  C31: \<open>unpack\<close> under the same format gives back every value that \<open>pack\<close> stored, whatever
  bytes follow, for formats of the conversions \<open>C h H l L q Q\<close> (signed results in two's complement) and \<open>s\<close>
  with strings of fewer than \<open>2 ^ 16\<close> characters (the length prefix has 16 bits). For \<open>c\<close> this does not
  hold (\<open>unpack_negative_char_stuck\<close>), and the floating-point conversions have their own theorem.
\<close>

theorem pack_unpack_roundtrip:
  assumes "set format \<subseteq> set ''ChHlLqQs''" and "pack format args = Some (bs, sz)"
    and "\<forall>a \<in> set args. short_string a"
  shows "unpack (bs @ rest) format = Some (map2 decoded_arg format args)"
  using unpack_loop_pack [OF assms] by (simp add: unpack_def)

theorem pack_unpack_roundtrip_witness:
  "unpack ([0, 0, 1, 0, 255, 254, 0, 2, 72, 105] @ [7]) ''Lhs''
     = Some [U_L 256, U_h (- 2), U_s [72, 105, 0]]"
proof -
  have "pack ''Lhs'' [A_int 256, A_int (- 2), A_str [72, 105, 0]]
      = Some ([0, 0, 1, 0, 255, 254, 0, 2, 72, 105], 10)"
    by code_simp
  from pack_unpack_roundtrip [OF _ this, of "[7]"] show ?thesis
    by (simp add: short_string_def strlen_def)
qed

text \<open>
  a negative \<open>signed char\<close> is decoded to the right value, but \<open>unpack\<close> does not step
  over its byte: the next conversion reads the same byte again instead of the value that
  \<open>pack\<close> stored for it. The round trip of C2 fails for the conversion \<open>c\<close>.
\<close>

theorem unpack_negative_char_stuck:
  assumes "sint (ucast v :: u8) < 0"
  shows "pack ''cC'' [A_int v, A_int w] = Some ([ucast v, ucast w], 2) \<and>
    unpack [ucast v, ucast w] ''cC'' = Some [U_c (sint (ucast v :: u8)), U_C (ucast v)]"
proof
  show "pack ''cC'' [A_int v, A_int w] = Some ([ucast v, ucast w], 2)"
    by (simp add: pack_one_def)
  define b :: u8 where "b = ucast v"
  have m: "(0xff :: u8) = - 1" by simp
  have big: "\<not> b \<le> 0x7f"
    using assms sint_nonneg_iff [of b] by (simp add: b_def word_le_def)
  have "- 1 - uint (0xff - b) = sint b"
    unfolding m using complement_sub [of b] assms by (simp add: sint_cases b_def split: if_splits)
  with big show "unpack [ucast v, ucast w] ''cC'' = Some [U_c (sint (ucast v :: u8)), U_C (ucast v)]"
    unfolding b_def [symmetric] by (simp add: unpack_def unpack_one_def load_def)
qed

theorem unpack_negative_char_stuck_witness:
  "unpack [255, 5] ''cC'' = Some [U_c (- 1), U_C 255]"
  using unpack_negative_char_stuck [of 255 5] by simp

text \<open>
  with a maximal length \<open>m\<close> in front of \<open>s\<close>, at most \<open>m + 1\<close> bytes are stored through
  the string pointer, and exactly \<open>m + 1\<close> when the string on the wire has \<open>m\<close> characters:
  the terminating zero then lands one past a buffer of the announced size.
\<close>

theorem unpack_string_bound:
  assumes "0 < m" and "unpack_one CHR ''s'' buf m = Some ([U_s out], buf')"
  shows "length out \<le> unat m + 1 \<and>
    (unpacku16 buf = ucast m \<and> m < 2 ^ 16 \<longrightarrow> length out = unat m + 1)"
proof -
  define len :: u32 where "len = ucast (unpacku16 buf)"
  define count where "count = (if 0 < m \<and> m < len then m - 1 else len)"
  have out: "length out = unat count + 1"
    using assms(2) unfolding unpack_one_def
    by (auto simp: Let_def len_def [symmetric] count_def [symmetric] split: if_splits)
  have "unat (m - 1) \<le> unat m"
    by (metis assms(1) unat_minus_one diff_le_self word_not_simps(1))
  moreover have "\<not> m < len \<Longrightarrow> unat len \<le> unat m"
    by (simp add: word_le_nat_alt not_less)
  ultimately have "length out \<le> unat m + 1"
    using assms(1) by (auto simp: out count_def)
  moreover have "length out = unat m + 1" if m: "unpacku16 buf = ucast m \<and> m < 2 ^ 16"
  proof -
    from m have "unat m < 2 ^ 16" by (simp add: word_less_nat_alt)
    with m have "len = m"
      by (simp add: len_def word_unat_eq_iff unsigned_ucast_eq take_bit_nat_eq_self)
    then show ?thesis by (simp add: out count_def)
  qed
  ultimately show ?thesis by blast
qed

theorem unpack_string_bound_witness:
  "length ([65, 66, 67, 0] :: u8 list) = unat (3 :: u32) + 1 \<and>
   unpack_one CHR ''s'' [0, 3, 65, 66, 67] 3 = Some ([U_s [65, 66, 67, 0]], [])"
proof -
  have u: "unpack_one CHR ''s'' [0, 3, 65, 66, 67] 3 = Some ([U_s [65, 66, 67, 0]], [])"
    by code_simp
  moreover have "unpacku16 [0, 3, 65, 66, 67] = ucast (3 :: u32)" by simp
  ultimately show ?thesis
    using unpack_string_bound [OF _ u] by (simp only: simp_thms) simp
qed

end
