(* ===== verification/Axi_Bd.thy ===== *)
theory Axi_Bd
  imports Bpm_Prelude
begin

text \<open>
  The register map of the AXI DMA engine (\<open>xaxidma_hw.h\<close>) and the operations on one buffer
  descriptor (\<open>xaxidma_bd.h\<close>, \<open>xaxidma_bd.c\<close>). A descriptor is 16 words of memory at an
  address; because the engine writes the status word behind the processor's back, every
  access is an event of the log and every read is answered by the device.
\<close>

section \<open>Constants\<close>

datatype xst =
    XST_SUCCESS | XST_FAILURE | XST_INVALID_PARAM | XST_DEVICE_IS_STARTED | XST_IS_STARTED
  | XST_DMA_SG_NO_LIST | XST_DMA_SG_LIST_ERROR | XST_DMA_ERROR | XST_NOT_SGDMA

abbreviation "XAXIDMA_DMA_TO_DEVICE \<equiv> (0 :: u32)"
abbreviation "XAXIDMA_DEVICE_TO_DMA \<equiv> (1 :: u32)"
abbreviation "XAXIDMA_BD_MINIMUM_ALIGNMENT \<equiv> (0x40 :: u32)"
abbreviation "XAXIDMA_MAX_TRANSFER_LEN \<equiv> (0x7FFFFF :: u32)"

abbreviation "XAXIDMA_TX_OFFSET \<equiv> (0x00 :: u32)"
abbreviation "XAXIDMA_RX_OFFSET \<equiv> (0x30 :: u32)"
abbreviation "XAXIDMA_CR_OFFSET \<equiv> (0x00 :: u32)"
abbreviation "XAXIDMA_SR_OFFSET \<equiv> (0x04 :: u32)"
abbreviation "XAXIDMA_CDESC_OFFSET \<equiv> (0x08 :: u32)"
abbreviation "XAXIDMA_TDESC_OFFSET \<equiv> (0x10 :: u32)"
abbreviation "XAXIDMA_SRCADDR_OFFSET \<equiv> (0x18 :: u32)"
abbreviation "XAXIDMA_DESTADDR_OFFSET \<equiv> (0x18 :: u32)"
abbreviation "XAXIDMA_BUFFLEN_OFFSET \<equiv> (0x28 :: u32)"

abbreviation "XAXIDMA_CR_RUNSTOP_MASK \<equiv> (0x1 :: u32)"
abbreviation "XAXIDMA_CR_RESET_MASK \<equiv> (0x4 :: u32)"
abbreviation "XAXIDMA_HALTED_MASK \<equiv> (0x1 :: u32)"
abbreviation "XAXIDMA_IDLE_MASK \<equiv> (0x2 :: u32)"
abbreviation "XAXIDMA_ERR_ALL_MASK \<equiv> (0x770 :: u32)"
abbreviation "XAXIDMA_IRQ_ALL_MASK \<equiv> (0x7000 :: u32)"
abbreviation "XAXIDMA_DELAY_MASK \<equiv> (0xFF000000 :: u32)"
abbreviation "XAXIDMA_COALESCE_MASK \<equiv> (0x00FF0000 :: u32)"

abbreviation "XAXIDMA_BD_NDESC_OFFSET \<equiv> (0x00 :: u32)"
abbreviation "XAXIDMA_BD_BUFA_OFFSET \<equiv> (0x08 :: u32)"
abbreviation "XAXIDMA_BD_CTRL_LEN_OFFSET \<equiv> (0x18 :: u32)"
abbreviation "XAXIDMA_BD_STS_OFFSET \<equiv> (0x1C :: u32)"
abbreviation "XAXIDMA_BD_USR0_OFFSET \<equiv> (0x20 :: u32)"
abbreviation "XAXIDMA_BD_ID_OFFSET \<equiv> (0x34 :: u32)"
abbreviation "XAXIDMA_BD_HAS_STSCNTRL_OFFSET \<equiv> (0x38 :: u32)"
abbreviation "XAXIDMA_BD_HAS_DRE_OFFSET \<equiv> (0x3C :: u32)"
abbreviation "XAXIDMA_BD_HAS_DRE_MASK \<equiv> (0xF00 :: u32)"
abbreviation "XAXIDMA_BD_WORDLEN_MASK \<equiv> (0xFF :: u32)"
abbreviation "XAXIDMA_LAST_APPWORD \<equiv> (4 :: int)"

abbreviation "XAXIDMA_BD_CTRL_LENGTH_MASK \<equiv> (0x007FFFFF :: u32)"
abbreviation "XAXIDMA_BD_CTRL_TXSOF_MASK \<equiv> (0x08000000 :: u32)"
abbreviation "XAXIDMA_BD_CTRL_TXEOF_MASK \<equiv> (0x04000000 :: u32)"
abbreviation "XAXIDMA_BD_CTRL_ALL_MASK \<equiv> (0x0C000000 :: u32)"
abbreviation "XAXIDMA_BD_STS_ACTUAL_LEN_MASK \<equiv> (0x007FFFFF :: u32)"
abbreviation "XAXIDMA_BD_STS_COMPLETE_MASK \<equiv> (0x80000000 :: u32)"
abbreviation "XAXIDMA_BD_STS_RXEOF_MASK \<equiv> (0x04000000 :: u32)"
abbreviation "XAXIDMA_BD_STS_ALL_MASK \<equiv> (0xFC000000 :: u32)"

section \<open>Access macros\<close>

definition BdRead :: "device \<Rightarrow> u32 \<Rightarrow> u32 \<Rightarrow> trace \<Rightarrow> u32 \<times> trace" where
  "BdRead dev bd off t = In32 dev (bd + off) t"

definition BdWrite :: "u32 \<Rightarrow> u32 \<Rightarrow> u32 \<Rightarrow> trace \<Rightarrow> trace" where
  "BdWrite bd off v t = Out32 (bd + off) v t"

lemma BdRead_split [machine]:
  "BdRead dev bd off t = (reg dev t (bd + off), t @ [Rd (bd + off) (reg dev t (bd + off))])"
  by (simp add: BdRead_def In32_split)

lemma BdWrite_append [machine]: "BdWrite bd off v t = t @ [Wr (bd + off) v]"
  by (simp add: BdWrite_def Out32_def)

text \<open>\<open>memset\<close> of \<open>n\<close> words to zero, as it is used on descriptors.\<close>

fun zero_words :: "u32 \<Rightarrow> nat \<Rightarrow> trace \<Rightarrow> trace" where
  "zero_words a 0 t = t"
| "zero_words a (Suc n) t = zero_words (a + 4) n (Out32 a 0 t)"

text \<open>\<open>XAxiDma_BdClear\<close>: 48 bytes from offset 8.\<close>

definition BdClear :: "u32 \<Rightarrow> trace \<Rightarrow> trace" where
  "BdClear bd t = zero_words (bd + 8) 12 t"

definition BdGetCtrl :: "device \<Rightarrow> u32 \<Rightarrow> trace \<Rightarrow> u32 \<times> trace" where
  "BdGetCtrl dev bd t =
     (let (v, t) = BdRead dev bd XAXIDMA_BD_CTRL_LEN_OFFSET t in (v AND XAXIDMA_BD_CTRL_ALL_MASK, t))"

definition BdGetSts :: "device \<Rightarrow> u32 \<Rightarrow> trace \<Rightarrow> u32 \<times> trace" where
  "BdGetSts dev bd t =
     (let (v, t) = BdRead dev bd XAXIDMA_BD_STS_OFFSET t in (v AND XAXIDMA_BD_STS_ALL_MASK, t))"

definition BdGetLength :: "device \<Rightarrow> u32 \<Rightarrow> trace \<Rightarrow> u32 \<times> trace" where
  "BdGetLength dev bd t =
     (let (v, t) = BdRead dev bd XAXIDMA_BD_CTRL_LEN_OFFSET t
      in (v AND XAXIDMA_BD_CTRL_LENGTH_MASK, t))"

definition BdSetId :: "u32 \<Rightarrow> u32 \<Rightarrow> trace \<Rightarrow> trace" where
  "BdSetId bd ident t = BdWrite bd XAXIDMA_BD_ID_OFFSET ident t"

definition BdGetId :: "device \<Rightarrow> u32 \<Rightarrow> trace \<Rightarrow> u32 \<times> trace" where
  "BdGetId dev bd t = BdRead dev bd XAXIDMA_BD_ID_OFFSET t"

definition BdGetBufAddr :: "device \<Rightarrow> u32 \<Rightarrow> trace \<Rightarrow> u32 \<times> trace" where
  "BdGetBufAddr dev bd t = BdRead dev bd XAXIDMA_BD_BUFA_OFFSET t"

definition BdHwCompleted :: "device \<Rightarrow> u32 \<Rightarrow> trace \<Rightarrow> bool \<times> trace" where
  "BdHwCompleted dev bd t =
     (let (v, t) = BdRead dev bd XAXIDMA_BD_STS_OFFSET t
      in (v AND XAXIDMA_BD_STS_COMPLETE_MASK \<noteq> 0, t))"

definition BdGetActualLength :: "device \<Rightarrow> u32 \<Rightarrow> trace \<Rightarrow> u32 \<times> trace" where
  "BdGetActualLength dev bd t =
     (let (v, t) = BdRead dev bd XAXIDMA_BD_STS_OFFSET t
      in (v AND XAXIDMA_BD_STS_ACTUAL_LEN_MASK, t))"

section \<open>Descriptor operations\<close>

definition BdSetLength :: "device \<Rightarrow> u32 \<Rightarrow> u32 \<Rightarrow> trace \<Rightarrow> xst \<times> trace" where
  "BdSetLength dev bd len t =
     (if len \<le> 0 \<or> XAXIDMA_MAX_TRANSFER_LEN < len then (XST_INVALID_PARAM, t)
      else
        let (v, t) = BdRead dev bd XAXIDMA_BD_CTRL_LEN_OFFSET t
        in (XST_SUCCESS,
            BdWrite bd XAXIDMA_BD_CTRL_LEN_OFFSET
              ((v AND NOT XAXIDMA_BD_CTRL_LENGTH_MASK) OR len) t))"

text \<open>\<open>WordLen\<close> is a \<open>u8\<close> promoted to \<open>int\<close>: for 0 the mask \<open>WordLen - 1\<close> is all ones.\<close>

definition BdSetBufAddr :: "device \<Rightarrow> u32 \<Rightarrow> u32 \<Rightarrow> trace \<Rightarrow> xst \<times> trace" where
  "BdSetBufAddr dev bd addr t =
     (let (has_dre, t) = BdRead dev bd XAXIDMA_BD_HAS_DRE_OFFSET t;
          word_len = has_dre AND XAXIDMA_BD_WORDLEN_MASK
      in if addr AND (word_len - 1) \<noteq> 0 \<and> has_dre AND XAXIDMA_BD_HAS_DRE_MASK = 0
         then (XST_INVALID_PARAM, t)
         else (XST_SUCCESS, BdWrite bd XAXIDMA_BD_BUFA_OFFSET addr t))"

definition BdSetAppWord :: "device \<Rightarrow> u32 \<Rightarrow> int \<Rightarrow> u32 \<Rightarrow> trace \<Rightarrow> xst \<times> trace" where
  "BdSetAppWord dev bd off w t =
     (let (sts, t) = BdRead dev bd XAXIDMA_BD_HAS_STSCNTRL_OFFSET t
      in if sts = 0 then (XST_INVALID_PARAM, t)
         else if off < 0 \<or> XAXIDMA_LAST_APPWORD < off then (XST_INVALID_PARAM, t)
         else (XST_SUCCESS, BdWrite bd (XAXIDMA_BD_USR0_OFFSET + of_int (off * 4)) w t))"

text \<open>The result is the word and the flag stored through \<open>Valid\<close>.\<close>

definition BdGetAppWord :: "device \<Rightarrow> u32 \<Rightarrow> int \<Rightarrow> trace \<Rightarrow> (u32 \<times> bool) \<times> trace" where
  "BdGetAppWord dev bd off t =
     (let (sts, t) = BdRead dev bd XAXIDMA_BD_HAS_STSCNTRL_OFFSET t
      in if sts = 0 then ((0, False), t)
         else if off < 0 \<or> XAXIDMA_LAST_APPWORD < off then ((0, False), t)
         else
           let (w, t) = BdRead dev bd (XAXIDMA_BD_USR0_OFFSET + of_int (off * 4)) t
           in ((w, True), t))"

definition BdSetCtrl :: "device \<Rightarrow> u32 \<Rightarrow> u32 \<Rightarrow> trace \<Rightarrow> trace" where
  "BdSetCtrl dev bd d t =
     (let (v, t) = BdRead dev bd XAXIDMA_BD_CTRL_LEN_OFFSET t
      in BdWrite bd XAXIDMA_BD_CTRL_LEN_OFFSET
           ((v AND NOT XAXIDMA_BD_CTRL_ALL_MASK) OR (d AND XAXIDMA_BD_CTRL_ALL_MASK)) t)"

section \<open>Two fields in one word\<close>

text \<open>Writing the field under the mask \<open>m\<close> sets it and keeps every field under a disjoint mask.\<close>

lemma field_written:
  fixes v x m :: u32
  assumes "x AND m = x"
  shows "((v AND NOT m) OR x) AND m = x"
proof (rule bit_word_eqI)
  fix n assume "n < LENGTH(32)"
  have "bit x n \<longrightarrow> bit m n" using assms by (metis bit_and_iff)
  then show "bit (((v AND NOT m) OR x) AND m) n = bit x n" by (auto simp: bit_simps)
qed

lemma field_kept:
  fixes v x m k :: u32
  assumes "x AND m = x" and "m AND k = 0"
  shows "((v AND NOT m) OR x) AND k = v AND k"
proof (rule bit_word_eqI)
  fix n assume n: "n < LENGTH(32)"
  have "bit x n \<longrightarrow> bit m n" using assms(1) by (metis bit_and_iff)
  moreover have "\<not> (bit m n \<and> bit k n)" using assms(2) by (metis bit_and_iff bit_0_eq bot_apply bot_bool_def)
  ultimately show "bit (((v AND NOT m) OR x) AND k) n = bit (v AND k) n" using n by (auto simp: bit_simps)
qed

text \<open>Documented behaviour of the memory that holds the descriptors: a word reads as last written.\<close>

definition word_memory :: "device \<Rightarrow> bool" where
  "word_memory dev \<longleftrightarrow> (\<forall>t a v. reg dev (t @ [Wr a v]) a = v)"

text \<open>The length and the control bits of a descriptor share a word: a length that
  \<open>XAxiDma_BdSetLength\<close> accepts is the length read back and leaves the control bits alone,
  control bits that are set are read back and leave the length alone, and a length of 0 or
  above the hardware's maximum is refused without a write.\<close>

theorem bd_fields_independent:
  assumes "word_memory dev"
  shows "(case BdSetLength dev bd len t of (st, t') \<Rightarrow>
      if len = 0 \<or> 0x7FFFFF < len then st = XST_INVALID_PARAM \<and> t' = t
      else st = XST_SUCCESS \<and> fst (BdGetLength dev bd t') = len \<and> fst (BdGetCtrl dev bd t') = fst (BdGetCtrl dev bd t)) \<and>
    fst (BdGetCtrl dev bd (BdSetCtrl dev bd c t)) = c AND XAXIDMA_BD_CTRL_ALL_MASK \<and>
    fst (BdGetLength dev bd (BdSetCtrl dev bd c t)) = fst (BdGetLength dev bd t)"
proof -
  have mem: "reg dev (s @ [e, Wr a v]) a = v" for s e a v
    using assms [unfolded word_memory_def, rule_format, of "s @ [e]" a v] by simp
  have disj: "(0x7FFFFF :: u32) AND 0x0C000000 = 0" "(0x0C000000 :: u32) AND 0x7FFFFF = 0" by simp_all
  have "case BdSetLength dev bd len t of (st, t') \<Rightarrow>
      if len = 0 \<or> 0x7FFFFF < len then st = XST_INVALID_PARAM \<and> t' = t
      else st = XST_SUCCESS \<and> fst (BdGetLength dev bd t') = len \<and> fst (BdGetCtrl dev bd t') = fst (BdGetCtrl dev bd t)"
  proof (cases "len = 0 \<or> 0x7FFFFF < len")
    case True
    then show ?thesis by (simp add: BdSetLength_def)
  next
    case False
    then have "uint len < 2 ^ 23" by (simp add: word_less_def not_less word_le_def)
    then have "len AND mask 23 = len" by (simp add: mask_eq_iff)
    then have len: "len AND 0x7FFFFF = len" by (simp add: mask_eq_exp_minus_1)
    have "(v AND - 0x800000 OR len) AND 0x7FFFFF = len" "(v AND - 0x800000 OR len) AND 0x0C000000 = v AND 0x0C000000" for v
      using field_written [OF len, of v] field_kept [OF len disj(1), of v] by simp_all
    with False show ?thesis
      by (simp add: BdSetLength_def BdGetLength_def BdGetCtrl_def machine mem)
  qed
  moreover have c: "(c AND 0x0C000000) AND 0x0C000000 = c AND 0x0C000000" by simp
  have "(v AND - 0x0C000001 OR c AND 0x0C000000) AND 0x0C000000 = c AND 0x0C000000"
    "(v AND - 0x0C000001 OR c AND 0x0C000000) AND 0x7FFFFF = v AND 0x7FFFFF" for v
    using field_written [OF c, of v] field_kept [OF c disj(2), of v] by simp_all
  then have "fst (BdGetCtrl dev bd (BdSetCtrl dev bd c t)) = c AND XAXIDMA_BD_CTRL_ALL_MASK"
    "fst (BdGetLength dev bd (BdSetCtrl dev bd c t)) = fst (BdGetLength dev bd t)"
    by (simp_all add: BdSetCtrl_def BdGetLength_def BdGetCtrl_def machine mem)
  ultimately show ?thesis by simp
qed

definition one_word :: device where
  "one_word = \<lparr>reg = (\<lambda>t a. case rev t of Wr b v # _ \<Rightarrow> if b = a then v else 0 | _ \<Rightarrow> 0x0C000010), ram = (\<lambda>t a. 0)\<rparr>"

theorem bd_fields_independent_witness:
  "\<exists>t'. BdSetLength one_word 0x1000 4096 [] = (XST_SUCCESS, t') \<and>
     fst (BdGetLength one_word 0x1000 t') = 4096 \<and> fst (BdGetCtrl one_word 0x1000 t') = 0x0C000000"
proof -
  have m: "word_memory one_word" by (simp add: word_memory_def one_word_def)
  have "fst (BdGetCtrl one_word 0x1000 []) = 0x0C000000" by code_simp
  with bd_fields_independent [OF m, where bd = "0x1000" and len = 4096 and t = "[]"] show ?thesis
    by (auto split: prod.splits)
qed

end
