(* ===== verification/Bd_Ring.thy ===== *)
theory Bd_Ring
  imports Axi_Bd
begin

text \<open>
  The descriptor ring of one DMA channel: \<open>xaxidma_bdring.h\<close> and \<open>xaxidma_bdring.c\<close>. A ring
  is an array of descriptors in memory, divided into four consecutive groups (free, in
  preparation, owned by the hardware, completed), each given by its head pointer and its
  counter. The operations move descriptors from one group to the next.
\<close>

section \<open>State\<close>

abbreviation "AXIDMA_CHANNEL_NOT_HALTED \<equiv> (1 :: int)"
abbreviation "AXIDMA_CHANNEL_HALTED \<equiv> (2 :: int)"
abbreviation "XAXIDMA_NO_CHANGE \<equiv> (0xFFFFFFFF :: u32)"

record XAxiDma_BdRing =
  ChanBase :: u32
  IsRxChannel :: bool
  RunState :: int
  HasStsCntrlStrm :: u32
  HasDRE :: u32
  DataWidth :: u32
  FirstBdPhysAddr :: u32
  FirstBdAddr :: u32
  LastBdAddr :: u32
  Length :: u32
  Separation :: u32
  FreeHead :: u32
  PreHead :: u32
  HwHead :: u32
  HwTail :: u32
  PostHead :: u32
  BdaRestart :: u32
  FreeCnt :: int
  PreCnt :: int
  HwCnt :: int
  PostCnt :: int
  AllCnt :: int

section \<open>Macros\<close>

text \<open>\<open>sizeof(XAxiDma_Bd)\<close> is 64.\<close>

definition bd_separation :: "u32 \<Rightarrow> u32" where
  "bd_separation alignment = (64 + (alignment - 1)) AND NOT (alignment - 1)"

definition VIRT_TO_PHYS :: "XAxiDma_BdRing \<Rightarrow> u32 \<Rightarrow> u32" where
  "VIRT_TO_PHYS r bd = bd + (FirstBdPhysAddr r - FirstBdAddr r)"

definition RING_SEEKAHEAD :: "XAxiDma_BdRing \<Rightarrow> u32 \<Rightarrow> int \<Rightarrow> u32" where
  "RING_SEEKAHEAD r bd n =
     (let addr = bd + Separation r * of_int n
      in if LastBdAddr r < addr \<or> addr < bd then addr - Length r else addr)"

definition RING_SEEKBACK :: "XAxiDma_BdRing \<Rightarrow> u32 \<Rightarrow> int \<Rightarrow> u32" where
  "RING_SEEKBACK r bd n =
     (let addr = bd - Separation r * of_int n
      in if addr < FirstBdAddr r \<or> bd < addr then addr + Length r else addr)"

definition BdRingNext :: "XAxiDma_BdRing \<Rightarrow> u32 \<Rightarrow> u32" where
  "BdRingNext r bd = (if LastBdAddr r \<le> bd then FirstBdAddr r else bd + Separation r)"

definition BdRingPrev :: "XAxiDma_BdRing \<Rightarrow> u32 \<Rightarrow> u32" where
  "BdRingPrev r bd = (if bd \<le> FirstBdAddr r then LastBdAddr r else bd - Separation r)"

definition ReadReg :: "device \<Rightarrow> u32 \<Rightarrow> u32 \<Rightarrow> trace \<Rightarrow> u32 \<times> trace" where
  "ReadReg dev base off t = In32 dev (base + off) t"

definition WriteReg :: "u32 \<Rightarrow> u32 \<Rightarrow> u32 \<Rightarrow> trace \<Rightarrow> trace" where
  "WriteReg base off v t = Out32 (base + off) v t"

lemma ReadReg_split [machine]:
  "ReadReg dev base off t = (reg dev t (base + off), t @ [Rd (base + off) (reg dev t (base + off))])"
  by (simp add: ReadReg_def In32_split)

lemma WriteReg_append [machine]: "WriteReg base off v t = t @ [Wr (base + off) v]"
  by (simp add: WriteReg_def Out32_def)

text \<open>\<open>CR |= msk\<close> and \<open>CR &= ~msk\<close>, written out in the source at every use.\<close>

definition cr_set :: "device \<Rightarrow> u32 \<Rightarrow> u32 \<Rightarrow> trace \<Rightarrow> trace" where
  "cr_set dev base msk t =
     (let (v, t) = ReadReg dev base XAXIDMA_CR_OFFSET t
      in WriteReg base XAXIDMA_CR_OFFSET (v OR msk) t)"

definition cr_clear :: "device \<Rightarrow> u32 \<Rightarrow> u32 \<Rightarrow> trace \<Rightarrow> trace" where
  "cr_clear dev base msk t =
     (let (v, t) = ReadReg dev base XAXIDMA_CR_OFFSET t
      in WriteReg base XAXIDMA_CR_OFFSET (v AND NOT msk) t)"

definition BdRingSnapShotCurrBd ::
    "device \<Rightarrow> XAxiDma_BdRing \<Rightarrow> trace \<Rightarrow> XAxiDma_BdRing \<times> trace" where
  "BdRingSnapShotCurrBd dev r t =
     (let (v, t) = ReadReg dev (ChanBase r) XAXIDMA_CDESC_OFFSET t in (r\<lparr>BdaRestart := v\<rparr>, t))"

definition BdRingGetError :: "device \<Rightarrow> XAxiDma_BdRing \<Rightarrow> trace \<Rightarrow> u32 \<times> trace" where
  "BdRingGetError dev r t =
     (let (v, t) = ReadReg dev (ChanBase r) XAXIDMA_SR_OFFSET t in (v AND XAXIDMA_ERR_ALL_MASK, t))"

definition BdRingHwIsStarted :: "device \<Rightarrow> XAxiDma_BdRing \<Rightarrow> trace \<Rightarrow> bool \<times> trace" where
  "BdRingHwIsStarted dev r t =
     (let (v, t) = ReadReg dev (ChanBase r) XAXIDMA_SR_OFFSET t in (v AND XAXIDMA_HALTED_MASK = 0, t))"

text \<open>The second read happens only when the channel is started (\<open>&&\<close>).\<close>

definition BdRingBusy :: "device \<Rightarrow> XAxiDma_BdRing \<Rightarrow> trace \<Rightarrow> bool \<times> trace" where
  "BdRingBusy dev r t =
     (let (started, t) = BdRingHwIsStarted dev r t
      in if \<not> started then (False, t)
         else let (v, t) = ReadReg dev (ChanBase r) XAXIDMA_SR_OFFSET t
              in (v AND XAXIDMA_IDLE_MASK = 0, t))"

definition BdRingIntEnable :: "device \<Rightarrow> XAxiDma_BdRing \<Rightarrow> u32 \<Rightarrow> trace \<Rightarrow> trace" where
  "BdRingIntEnable dev r msk t = cr_set dev (ChanBase r) (msk AND XAXIDMA_IRQ_ALL_MASK) t"

definition BdRingIntDisable :: "device \<Rightarrow> XAxiDma_BdRing \<Rightarrow> u32 \<Rightarrow> trace \<Rightarrow> trace" where
  "BdRingIntDisable dev r msk t = cr_clear dev (ChanBase r) (msk AND XAXIDMA_IRQ_ALL_MASK) t"

definition BdRingGetIrq :: "device \<Rightarrow> XAxiDma_BdRing \<Rightarrow> trace \<Rightarrow> u32 \<times> trace" where
  "BdRingGetIrq dev r t =
     (let (v, t) = ReadReg dev (ChanBase r) XAXIDMA_SR_OFFSET t in (v AND XAXIDMA_IRQ_ALL_MASK, t))"

definition BdRingAckIrq :: "XAxiDma_BdRing \<Rightarrow> u32 \<Rightarrow> trace \<Rightarrow> trace" where
  "BdRingAckIrq r msk t =
     WriteReg (ChanBase r) XAXIDMA_SR_OFFSET (msk AND XAXIDMA_IRQ_ALL_MASK) t"

section \<open>Starting the channel\<close>

text \<open>
  The search of \<open>XAxiDma_StartBdRingHw\<close> for a descriptor that is not completed, from the
  test of the loop on. \<open>False\<close> is the return of \<open>XST_DMA_ERROR\<close> after a full turn. A ring
  whose walk never comes back to \<open>BdaRestart\<close> makes the loop run for ever (\<open>None\<close>).
\<close>

partial_function (option) find_cdesc ::
    "device \<Rightarrow> XAxiDma_BdRing \<Rightarrow> u32 \<Rightarrow> trace \<Rightarrow> (bool \<times> trace) option" where
  "find_cdesc dev r bd t =
     (let (done, t1) = BdHwCompleted dev bd t
      in if \<not> done then Some (True, t1)
         else
           let bd' = BdRingNext r bd
           in if bd' = BdaRestart r then Some (False, t1)
              else
                let (done', t2) = BdHwCompleted dev bd' t1
                in if \<not> done'
                   then Some (True, WriteReg (ChanBase r) XAXIDMA_CDESC_OFFSET bd' t2)
                   else find_cdesc dev r bd' t2)"

declare find_cdesc.simps [code]

definition StartBdRingHw ::
    "device \<Rightarrow> XAxiDma_BdRing \<Rightarrow> trace \<Rightarrow> (xst \<times> XAxiDma_BdRing \<times> trace) option" where
  "StartBdRingHw dev r t =
     (let (started, t) = BdRingHwIsStarted dev r t
      in if started then Some (XST_SUCCESS, r, t)
         else
           let bd = BdaRestart r;
               (done, t) = BdHwCompleted dev bd t
           in case (if \<not> done
                    then Some (True, WriteReg (ChanBase r) XAXIDMA_CDESC_OFFSET bd t)
                    else find_cdesc dev r bd t) of
                None \<Rightarrow> None
              | Some (found, t) \<Rightarrow>
                  if \<not> found then Some (XST_DMA_ERROR, r, t)
                  else Some (XST_SUCCESS, r\<lparr>RunState := AXIDMA_CHANNEL_NOT_HALTED\<rparr>,
                             cr_set dev (ChanBase r) XAXIDMA_CR_RUNSTOP_MASK t))"

section \<open>Creating the ring\<close>

text \<open>The hardware information every descriptor carries.\<close>

definition write_hw_info :: "XAxiDma_BdRing \<Rightarrow> u32 \<Rightarrow> trace \<Rightarrow> trace" where
  "write_hw_info r bd t =
     BdWrite bd XAXIDMA_BD_HAS_DRE_OFFSET (push_bit 8 (HasDRE r) OR DataWidth r)
       (BdWrite bd XAXIDMA_BD_HAS_STSCNTRL_OFFSET (HasStsCntrlStrm r) t)"

text \<open>The loop over all descriptors but the last; \<open>n\<close> iterations are left.\<close>

fun link_bds :: "XAxiDma_BdRing \<Rightarrow> nat \<Rightarrow> u32 \<Rightarrow> u32 \<Rightarrow> trace \<Rightarrow> u32 \<times> trace" where
  "link_bds r 0 virt phys t = (virt, t)"
| "link_bds r (Suc n) virt phys t =
     link_bds r n (virt + Separation r) (phys + Separation r)
       (write_hw_info r virt (BdWrite virt XAXIDMA_BD_NDESC_OFFSET phys t) @ [Fls virt])"

definition BdRingCreate ::
    "XAxiDma_BdRing \<Rightarrow> u32 \<Rightarrow> u32 \<Rightarrow> u32 \<Rightarrow> int \<Rightarrow> trace \<Rightarrow> xst \<times> XAxiDma_BdRing \<times> trace" where
  "BdRingCreate r phys virt alignment count t =
     (if count \<le> 0 then (XST_INVALID_PARAM, r, t)
      else
        let r = r\<lparr>AllCnt := 0, FreeCnt := 0, HwCnt := 0, PreCnt := 0, PostCnt := 0\<rparr>
        in if alignment < XAXIDMA_BD_MINIMUM_ALIGNMENT then (XST_INVALID_PARAM, r, t)
           else if (alignment - 1) AND alignment \<noteq> 0 then (XST_INVALID_PARAM, r, t)
           else if phys mod alignment \<noteq> 0 \<or> virt mod alignment \<noteq> 0 then (XST_INVALID_PARAM, r, t)
           else
             let r = r\<lparr>Separation := bd_separation alignment\<rparr>;
                 bytes = Separation r * of_int count
             in if virt + bytes - 1 < virt then (XST_DMA_SG_LIST_ERROR, r, t)
                else
                  let t = zero_words virt (unat bytes div 4) t;
                      (last_virt, t) = link_bds r (nat (count - 1)) virt (phys + Separation r) t;
                      t = write_hw_info r last_virt
                            (BdWrite last_virt XAXIDMA_BD_NDESC_OFFSET phys t)
                  in (XST_SUCCESS,
                      r\<lparr>RunState := AXIDMA_CHANNEL_HALTED, FirstBdAddr := virt,
                        FirstBdPhysAddr := phys, LastBdAddr := last_virt,
                        Length := last_virt - virt + Separation r,
                        AllCnt := count, FreeCnt := count, FreeHead := virt, PreHead := virt,
                        HwHead := virt, HwTail := virt, PostHead := virt, BdaRestart := phys\<rparr>, t))"

text \<open>
  \<open>XAxiDma_BdRingClone\<close> copies words 2 to 13 (48 bytes from offset 8) of the template, with
  the completed bit of the status word (word 7) cleared in the local copy.
\<close>

fun read_words :: "device \<Rightarrow> u32 \<Rightarrow> nat \<Rightarrow> trace \<Rightarrow> u32 list \<times> trace" where
  "read_words dev a 0 t = ([], t)"
| "read_words dev a (Suc n) t =
     (let (v, t) = In32 dev a t; (vs, t) = read_words dev (a + 4) n t in (v # vs, t))"

fun write_words :: "u32 \<Rightarrow> u32 list \<Rightarrow> trace \<Rightarrow> trace" where
  "write_words a [] t = t"
| "write_words a (v # vs) t = write_words (a + 4) vs (Out32 a v t)"

fun clone_loop :: "XAxiDma_BdRing \<Rightarrow> u32 list \<Rightarrow> nat \<Rightarrow> u32 \<Rightarrow> trace \<Rightarrow> trace" where
  "clone_loop r ws 0 bd t = t"
| "clone_loop r ws (Suc n) bd t =
     clone_loop r ws n (bd + Separation r) (write_words (bd + 8) ws t @ [Fls bd])"

definition BdRingClone ::
    "device \<Rightarrow> XAxiDma_BdRing \<Rightarrow> u32 \<Rightarrow> trace \<Rightarrow> xst \<times> trace" where
  "BdRingClone dev r src t =
     (if AllCnt r = 0 then (XST_DMA_SG_NO_LIST, t)
      else if RunState r = AXIDMA_CHANNEL_NOT_HALTED then (XST_DEVICE_IS_STARTED, t)
      else if FreeCnt r \<noteq> AllCnt r then (XST_DMA_SG_LIST_ERROR, t)
      else
        let (tmp, t) = read_words dev src 16 t;
            tmp = tmp[7 := tmp ! 7 AND NOT XAXIDMA_BD_STS_COMPLETE_MASK]
        in (XST_SUCCESS,
            clone_loop r (take 12 (drop 2 tmp)) (nat (AllCnt r)) (FirstBdAddr r) t))"

text \<open>The status that \<open>XAxiDma_StartBdRingHw\<close> returns is ignored; the hardware is asked again.\<close>

definition BdRingStart ::
    "device \<Rightarrow> XAxiDma_BdRing \<Rightarrow> trace \<Rightarrow> (xst \<times> XAxiDma_BdRing \<times> trace) option" where
  "BdRingStart dev r t =
     (if AllCnt r = 0 then Some (XST_DMA_SG_NO_LIST, r, t)
      else if RunState r = AXIDMA_CHANNEL_NOT_HALTED then Some (XST_SUCCESS, r, t)
      else
        let (started, t) = BdRingHwIsStarted dev r t
        in case (if started then Some (r, t)
                 else map_option (\<lambda>(_, r, t). (r, t)) (StartBdRingHw dev r t)) of
             None \<Rightarrow> None
           | Some (r, t) \<Rightarrow>
               let (started, t) = BdRingHwIsStarted dev r t
               in if \<not> started
                  then Some (XST_DMA_ERROR, r, t)
                  else
                    let r = r\<lparr>RunState := AXIDMA_CHANNEL_NOT_HALTED\<rparr>
                    in if HwCnt r > 0
                       then
                         let (sts, t) = BdRead dev (HwTail r) XAXIDMA_BD_STS_OFFSET (t @ [Inv (HwTail r)])
                         in if sts AND XAXIDMA_BD_STS_COMPLETE_MASK = 0
                            then Some (XST_SUCCESS, r,
                              WriteReg (ChanBase r) XAXIDMA_TDESC_OFFSET (VIRT_TO_PHYS r (HwTail r)) t)
                            else Some (XST_SUCCESS, r, t)
                       else Some (XST_SUCCESS, r, t))"

section \<open>Interrupt coalescing\<close>

definition BdRingSetCoalesce ::
    "device \<Rightarrow> XAxiDma_BdRing \<Rightarrow> u32 \<Rightarrow> u32 \<Rightarrow> trace \<Rightarrow> xst \<times> trace" where
  "BdRingSetCoalesce dev r counter timer t =
     (let (cr, t) = ReadReg dev (ChanBase r) XAXIDMA_CR_OFFSET t
      in if counter \<noteq> XAXIDMA_NO_CHANGE \<and> (counter = 0 \<or> 0xFF < counter) then (XST_FAILURE, t)
         else
           let cr = (if counter \<noteq> XAXIDMA_NO_CHANGE
                     then (cr AND NOT XAXIDMA_COALESCE_MASK) OR push_bit 16 counter else cr)
           in if timer \<noteq> XAXIDMA_NO_CHANGE \<and> 0xFF < timer then (XST_FAILURE, t)
              else
                let cr = (if timer \<noteq> XAXIDMA_NO_CHANGE
                          then (cr AND NOT XAXIDMA_DELAY_MASK) OR push_bit 24 timer else cr)
                in (XST_SUCCESS, WriteReg (ChanBase r) XAXIDMA_CR_OFFSET cr t))"

definition BdRingGetCoalesce ::
    "device \<Rightarrow> XAxiDma_BdRing \<Rightarrow> trace \<Rightarrow> (u32 \<times> u32) \<times> trace" where
  "BdRingGetCoalesce dev r t =
     (let (cr, t) = ReadReg dev (ChanBase r) XAXIDMA_CR_OFFSET t
      in ((drop_bit 16 (cr AND XAXIDMA_COALESCE_MASK), drop_bit 24 (cr AND XAXIDMA_DELAY_MASK)), t))"

section \<open>Moving descriptors between the groups\<close>

text \<open>\<open>*BdSetPtr\<close> is the second component; it is written on success only (\<open>None\<close> otherwise).\<close>

definition BdRingAlloc :: "XAxiDma_BdRing \<Rightarrow> int \<Rightarrow> xst \<times> u32 option \<times> XAxiDma_BdRing" where
  "BdRingAlloc r n =
     (if n \<le> 0 then (XST_INVALID_PARAM, None, r)
      else if FreeCnt r < n then (XST_FAILURE, None, r)
      else (XST_SUCCESS, Some (FreeHead r),
            r\<lparr>FreeHead := RING_SEEKAHEAD r (FreeHead r) n,
              FreeCnt := FreeCnt r - n, PreCnt := PreCnt r + n\<rparr>))"

definition BdRingUnAlloc :: "XAxiDma_BdRing \<Rightarrow> int \<Rightarrow> u32 \<Rightarrow> xst \<times> XAxiDma_BdRing" where
  "BdRingUnAlloc r n bd =
     (if n \<le> 0 then (XST_INVALID_PARAM, r)
      else if PreCnt r < n then (XST_FAILURE, r)
      else if RING_SEEKAHEAD r bd n \<noteq> FreeHead r then (XST_FAILURE, r)
      else (XST_SUCCESS,
            r\<lparr>FreeHead := RING_SEEKBACK r (FreeHead r) n,
              FreeCnt := FreeCnt r + n, PreCnt := PreCnt r - n\<rparr>))"

text \<open>
  The loop of \<open>XAxiDma_BdRingToHw\<close> over all descriptors of the set but the last: \<open>n\<close>
  iterations are left. \<open>None\<close> is its failure return for a length of zero.
\<close>

fun tohw_loop ::
    "device \<Rightarrow> XAxiDma_BdRing \<Rightarrow> nat \<Rightarrow> u32 \<Rightarrow> u32 \<Rightarrow> u32 \<Rightarrow> trace
      \<Rightarrow> (u32 \<times> u32 \<times> u32) option \<times> trace" where
  "tohw_loop dev r 0 bd cr sts t = (Some (bd, cr, sts), t)"
| "tohw_loop dev r (Suc n) bd cr sts t =
     (let (len, t) = BdGetLength dev bd t
      in if len = 0 then (None, t)
         else
           let t = BdWrite bd XAXIDMA_BD_STS_OFFSET (sts AND NOT XAXIDMA_BD_STS_COMPLETE_MASK) t
                     @ [Fls bd];
               bd = BdRingNext r bd;
               (cr, t) = BdRead dev bd XAXIDMA_BD_CTRL_LEN_OFFSET t;
               (sts, t) = BdRead dev bd XAXIDMA_BD_STS_OFFSET t
           in tohw_loop dev r n bd cr sts t)"

definition BdRingToHw ::
    "device \<Rightarrow> XAxiDma_BdRing \<Rightarrow> int \<Rightarrow> u32 \<Rightarrow> trace \<Rightarrow> xst \<times> XAxiDma_BdRing \<times> trace" where
  "BdRingToHw dev r n set_ptr t =
     (if n < 0 then (XST_INVALID_PARAM, r, t)
      else if n = 0 then (XST_SUCCESS, r, t)
      else if PreCnt r < n \<or> PreHead r \<noteq> set_ptr then (XST_DMA_SG_LIST_ERROR, r, t)
      else
        let (cr, t) = BdGetCtrl dev set_ptr t;
            (sts, t) = BdGetSts dev set_ptr t
        in if \<not> IsRxChannel r \<and> cr AND XAXIDMA_BD_CTRL_TXSOF_MASK = 0 then (XST_FAILURE, r, t)
           else
             case tohw_loop dev r (nat (n - 1)) set_ptr cr sts t of
               (None, t) \<Rightarrow> (XST_FAILURE, r, t)
             | (Some (bd, cr, sts), t) \<Rightarrow>
                 if \<not> IsRxChannel r \<and> cr AND XAXIDMA_BD_CTRL_TXEOF_MASK = 0 then (XST_FAILURE, r, t)
                 else
                   let (len, t) = BdGetLength dev bd t
                   in if len = 0 then (XST_FAILURE, r, t)
                      else
                        let t = BdWrite bd XAXIDMA_BD_STS_OFFSET
                                  (sts AND NOT XAXIDMA_BD_STS_COMPLETE_MASK) t @ [Fls bd, Sync];
                            r = r\<lparr>PreHead := RING_SEEKAHEAD r (PreHead r) n, PreCnt := PreCnt r - n,
                                  HwTail := bd, HwCnt := HwCnt r + n\<rparr>
                        in (XST_SUCCESS, r,
                            if RunState r = AXIDMA_CHANNEL_NOT_HALTED
                            then WriteReg (ChanBase r) XAXIDMA_TDESC_OFFSET (VIRT_TO_PHYS r (HwTail r)) t
                            else t))"

text \<open>
  The scan of \<open>XAxiDma_BdRingFromHw\<close>: \<open>n\<close> descriptors may still be looked at. The result is
  \<open>BdCount\<close> and \<open>BdPartialCount\<close>.
\<close>

fun fromhw_loop ::
    "device \<Rightarrow> XAxiDma_BdRing \<Rightarrow> nat \<Rightarrow> u32 \<Rightarrow> int \<Rightarrow> int \<Rightarrow> trace \<Rightarrow> (int \<times> int) \<times> trace" where
  "fromhw_loop dev r 0 bd cnt part t = ((cnt, part), t)"
| "fromhw_loop dev r (Suc n) bd cnt part t =
     (let (sts, t) = BdRead dev bd XAXIDMA_BD_STS_OFFSET (t @ [Inv bd]);
          (cr, t) = BdRead dev bd XAXIDMA_BD_CTRL_LEN_OFFSET t
      in if sts AND XAXIDMA_BD_STS_COMPLETE_MASK = 0 then ((cnt, part), t)
         else
           let cnt = cnt + 1;
               eof = (\<not> IsRxChannel r \<and> cr AND XAXIDMA_BD_CTRL_TXEOF_MASK \<noteq> 0 \<or>
                      IsRxChannel r \<and> sts AND XAXIDMA_BD_STS_RXEOF_MASK \<noteq> 0);
               part = (if eof then 0 else part + 1)
           in if bd = HwTail r then ((cnt, part), t)
              else fromhw_loop dev r n (BdRingNext r bd) cnt part t)"

text \<open>The result is the return value, the pointer stored through \<open>BdSetPtr\<close> and the ring.\<close>

definition BdRingFromHw ::
    "device \<Rightarrow> XAxiDma_BdRing \<Rightarrow> int \<Rightarrow> trace \<Rightarrow> int \<times> u32 \<times> XAxiDma_BdRing \<times> trace" where
  "BdRingFromHw dev r limit t =
     (if HwCnt r = 0 then (0, 0, r, t)
      else
        let limit = (if HwCnt r < limit then HwCnt r else limit);
            ((cnt, part), t) = fromhw_loop dev r (nat limit) (HwHead r) 0 0 t;
            cnt = cnt - part
        in if cnt \<noteq> 0
           then (cnt, HwHead r,
                 r\<lparr>HwCnt := HwCnt r - cnt, PostCnt := PostCnt r + cnt,
                   HwHead := RING_SEEKAHEAD r (HwHead r) cnt\<rparr>, t)
           else (0, 0, r, t))"

definition BdRingFree :: "XAxiDma_BdRing \<Rightarrow> int \<Rightarrow> u32 \<Rightarrow> xst \<times> XAxiDma_BdRing" where
  "BdRingFree r n set_ptr =
     (if n < 0 then (XST_INVALID_PARAM, r)
      else if n = 0 then (XST_SUCCESS, r)
      else if PostCnt r < n \<or> PostHead r \<noteq> set_ptr then (XST_DMA_SG_LIST_ERROR, r)
      else (XST_SUCCESS,
            r\<lparr>FreeCnt := FreeCnt r + n, PostCnt := PostCnt r - n,
              PostHead := RING_SEEKAHEAD r (PostHead r) n\<rparr>))"

section \<open>Checking the ring\<close>

definition in_ring :: "XAxiDma_BdRing \<Rightarrow> u32 \<Rightarrow> bool" where
  "in_ring r a \<longleftrightarrow> \<not> (a < FirstBdAddr r \<or> LastBdAddr r < a)"

fun check_links ::
    "device \<Rightarrow> XAxiDma_BdRing \<Rightarrow> nat \<Rightarrow> u32 \<Rightarrow> u32 \<Rightarrow> trace \<Rightarrow> (bool \<times> u32) \<times> trace" where
  "check_links dev r 0 virt phys t = ((True, virt), t)"
| "check_links dev r (Suc n) virt phys t =
     (let (nxt, t) = BdRead dev virt XAXIDMA_BD_NDESC_OFFSET (t @ [Inv virt])
      in if nxt \<noteq> phys then ((False, virt), t)
         else check_links dev r n (virt + Separation r) (phys + Separation r) t)"

definition BdRingCheck :: "device \<Rightarrow> XAxiDma_BdRing \<Rightarrow> trace \<Rightarrow> xst \<times> trace" where
  "BdRingCheck dev r t =
     (if AllCnt r = 0 then (XST_DMA_SG_NO_LIST, t)
      else if RunState r = AXIDMA_CHANNEL_NOT_HALTED then (XST_IS_STARTED, t)
      else if RunState r \<noteq> AXIDMA_CHANNEL_HALTED then (XST_DMA_SG_LIST_ERROR, t)
      else if \<not> in_ring r (FreeHead r) then (XST_DMA_SG_LIST_ERROR, t)
      else if \<not> in_ring r (PreHead r) then (XST_DMA_SG_LIST_ERROR, t)
      else if \<not> in_ring r (HwHead r) then (XST_DMA_SG_LIST_ERROR, t)
      else if \<not> in_ring r (HwTail r) then (XST_DMA_SG_LIST_ERROR, t)
      else if \<not> in_ring r (PostHead r) then (XST_DMA_SG_LIST_ERROR, t)
      else if HwCnt r + PreCnt r + FreeCnt r + PostCnt r \<noteq> AllCnt r then (XST_DMA_SG_LIST_ERROR, t)
      else
        case check_links dev r (nat (AllCnt r - 1)) (FirstBdAddr r)
               (FirstBdPhysAddr r + Separation r) t of
          ((False, virt), t) \<Rightarrow> (XST_DMA_SG_LIST_ERROR, t)
        | ((True, virt), t) \<Rightarrow>
            let (nxt, t) = BdRead dev virt XAXIDMA_BD_NDESC_OFFSET (t @ [Inv virt])
            in if nxt \<noteq> FirstBdPhysAddr r then (XST_DMA_SG_LIST_ERROR, t) else (XST_SUCCESS, t))"

end
