(* ===== verification/Ring_Fifo.thy ===== *)
theory Ring_Fifo
  imports Bd_Ring
begin

text \<open>
  What the descriptor ring of \<open>Bd_Ring\<close> promises. The four groups are read off the ring as
  four lists of descriptor addresses, and every operation is shown to move descriptors from
  the front of one list to the back of the next, in the order the engine visits them.
\<close>

section \<open>Addresses of descriptors\<close>

definition ring_size :: "XAxiDma_BdRing \<Rightarrow> nat" where
  "ring_size r = nat (AllCnt r)"

text \<open>The geometry that \<open>XAxiDma_BdRingCreate\<close> establishes and nothing changes afterwards.\<close>

definition ring_geometry :: "XAxiDma_BdRing \<Rightarrow> bool" where
  "ring_geometry r \<longleftrightarrow>
     0 < AllCnt r \<and> 0 < uint (Separation r) \<and>
     uint (FirstBdAddr r) + uint (Separation r) * AllCnt r \<le> 2 ^ 32 \<and>
     LastBdAddr r = FirstBdAddr r + Separation r * of_int (AllCnt r - 1) \<and>
     Length r = Separation r * of_int (AllCnt r)"

text \<open>The address of the descriptor number \<open>i\<close>, counted around the ring.\<close>

definition slot :: "XAxiDma_BdRing \<Rightarrow> nat \<Rightarrow> u32" where
  "slot r i = FirstBdAddr r + Separation r * of_nat (i mod ring_size r)"

lemma uint_affine_mod:
  fixes a s :: u32
  shows "uint (a + s * of_nat k) = (uint a + uint s * int k) mod 2 ^ 32"
proof -
  have "a + s * of_nat k = word_of_int (uint a + uint s * int k)"
    by simp
  then show ?thesis
    by (simp only: uint_word_of_int) simp
qed

lemma uint_affine:
  fixes a s :: u32
  assumes "uint a + uint s * int k < 2 ^ 32"
  shows "uint (a + s * of_nat k) = uint a + uint s * int k"
  using assms by (simp add: uint_affine_mod)

lemma mod_wrap: "m \<le> x \<Longrightarrow> x < 2 * m \<Longrightarrow> x mod m = x - (m :: int)"
  by (metis add_diff_cancel_left' diff_ge_0_iff_ge diff_less_eq mod_add_self2 mod_pos_pos_trivial
      diff_add_cancel mult_2)

lemma slot_bound:
  assumes "ring_geometry r" and "k < ring_size r"
  shows "uint (FirstBdAddr r) + uint (Separation r) * int k < 2 ^ 32"
    and "uint (Separation r) * int k \<le> uint (Separation r) * (AllCnt r - 1)"
proof -
  from assms show le: "uint (Separation r) * int k \<le> uint (Separation r) * (AllCnt r - 1)"
    by (intro mult_left_mono) (auto simp: ring_geometry_def ring_size_def)
  from assms le show "uint (FirstBdAddr r) + uint (Separation r) * int k < 2 ^ 32"
    by (simp add: ring_geometry_def algebra_simps)
qed

lemma ring_size_pos: "ring_geometry r \<Longrightarrow> 0 < ring_size r"
  by (simp add: ring_geometry_def ring_size_def)

lemma uint_slot:
  assumes "ring_geometry r"
  shows "uint (slot r i) = uint (FirstBdAddr r) + uint (Separation r) * int (i mod ring_size r)"
  unfolding slot_def using assms ring_size_pos [OF assms]
  by (intro uint_affine slot_bound(1)) simp_all

lemma slot_cong: "i mod ring_size r = j mod ring_size r \<Longrightarrow> slot r i = slot r j"
  by (simp add: slot_def)

lemma slot_mod [simp]: "slot r (i mod ring_size r) = slot r i"
  by (simp add: slot_def)

lemma slot_wrap [simp]: "slot r (i + ring_size r) = slot r i"
  by (simp add: slot_def)

lemma slot_inject:
  assumes "ring_geometry r"
  shows "slot r i = slot r j \<longleftrightarrow> i mod ring_size r = j mod ring_size r"
proof
  assume "slot r i = slot r j"
  then have "uint (slot r i) = uint (slot r j)" by simp
  then have "uint (Separation r) * int (i mod ring_size r) = uint (Separation r) * int (j mod ring_size r)"
    unfolding uint_slot [OF assms] by linarith
  moreover have "uint (Separation r) \<noteq> 0"
    using assms by (simp add: ring_geometry_def)
  ultimately show "i mod ring_size r = j mod ring_size r"
    by (metis mult_left_cancel of_nat_eq_iff)
qed (rule slot_cong)

lemma last_slot:
  assumes "ring_geometry r"
  shows "LastBdAddr r = slot r (ring_size r - 1)"
    and "uint (LastBdAddr r) = uint (FirstBdAddr r) + uint (Separation r) * (AllCnt r - 1)"
proof -
  have pos: "0 < AllCnt r" and last: "LastBdAddr r = FirstBdAddr r + Separation r * of_int (AllCnt r - 1)"
    using assms by (simp_all add: ring_geometry_def)
  have m: "(ring_size r - 1) mod ring_size r = ring_size r - 1"
    using ring_size_pos [OF assms] by simp
  have i: "int (ring_size r - 1) = AllCnt r - 1"
    using pos by (simp add: ring_size_def)
  have "(of_nat (ring_size r - 1) :: u32) = of_int (AllCnt r - 1)"
    using i by (metis of_int_of_nat_eq)
  with last m show eq: "LastBdAddr r = slot r (ring_size r - 1)"
    by (simp add: slot_def)
  then show "uint (LastBdAddr r) = uint (FirstBdAddr r) + uint (Separation r) * (AllCnt r - 1)"
    using uint_slot [OF assms, of "ring_size r - 1"] m i by simp
qed

lemma first_slot: "ring_geometry r \<Longrightarrow> FirstBdAddr r = slot r 0"
  by (simp add: slot_def)

lemma slot_in_ring:
  assumes "ring_geometry r"
  shows "in_ring r (slot r i)"
  using uint_slot [OF assms, of i] last_slot(2) [OF assms]
    slot_bound(2) [OF assms, of "i mod ring_size r"] ring_size_pos [OF assms]
  by (simp add: in_ring_def word_less_def linorder_not_less)


lemma mod_inj_window:
  fixes x y :: nat
  assumes "i \<le> x" "x < i + n" "i \<le> y" "y < i + n" "n \<le> m" "x mod m = y mod m"
  shows "x = y"
proof (rule ccontr)
  assume "x \<noteq> y"
  then have "m dvd (if x < y then y - x else x - y)"
    using assms(6) by (auto simp flip: mod_eq_dvd_iff_nat)
  moreover have "0 < (if x < y then y - x else x - y)" "(if x < y then y - x else x - y) < m"
    using assms \<open>x \<noteq> y\<close> by auto
  ultimately show False using nat_dvd_not_less by blast
qed

lemma mod_wrap_neg: "x < 0 \<Longrightarrow> - m < x \<Longrightarrow> x mod m = x + (m :: int)"
  by (metis add_less_same_cancel2 less_add_same_cancel2 mod_add_self2 mod_pos_pos_trivial
      neg_less_iff_less add.commute diff_add_cancel less_le minus_less_iff add.inverse_inverse
      diff_minus_eq_add less_diff_eq add_0)

section \<open>Walking the ring\<close>

theorem seekahead_slot:
  assumes g: "ring_geometry r" and n: "n \<le> ring_size r"
  shows "RING_SEEKAHEAD r (slot r i) (int n) = slot r (i + n)"
proof -
  define F S N k where "F = uint (FirstBdAddr r)" and "S = uint (Separation r)"
    and "N = ring_size r" and "k = i mod N"
  have N: "0 < N" "int N = AllCnt r" and kN: "k < N"
    using g ring_size_pos [OF g] by (auto simp: N_def k_def ring_size_def ring_geometry_def)
  have S: "0 < S" and fit: "F + S * int N \<le> 2 ^ 32" and F: "0 \<le> F"
    using g N by (simp_all add: F_def S_def ring_geometry_def)
  define addr where "addr = slot r i + Separation r * of_nat n"
  have bd: "uint (slot r i) = F + S * int k"
    using uint_slot [OF g] by (simp add: F_def S_def k_def N_def)
  have last: "uint (LastBdAddr r) = F + S * (int N - 1)"
    using last_slot(2) [OF g] N by (simp add: F_def S_def)
  have addr_eq: "addr = FirstBdAddr r + Separation r * of_nat (k + n)"
    by (simp add: addr_def slot_def k_def N_def distrib_left add.assoc)
  show ?thesis
  proof (cases "k + n < N")
    case True
    then have "slot r (i + n) = addr"
      by (simp add: addr_eq slot_def k_def N_def flip: mod_add_left_eq [of i])
    moreover from this have "uint addr = F + S * int (k + n)"
      using uint_slot [OF g, of "i + n"] True
      by (simp add: F_def S_def k_def N_def flip: mod_add_left_eq [of i])
    moreover have "S * int (k + n) \<le> S * (int N - 1)" "S * int k \<le> S * int (k + n)"
      using S True by (simp_all add: mult_left_mono)
    ultimately show ?thesis
      using bd last by (simp add: RING_SEEKAHEAD_def addr_def word_less_def)
  next
    case False
    have "k + n - N < N" using kN n by (simp add: N_def)
    moreover have "(i + n) mod N = (k + n - N) mod N"
      using False by (metis k_def le_mod_geq linorder_not_le mod_add_left_eq mod_mod_trivial)
    ultimately have m: "(i + n) mod N = k + n - N" by simp
    have "addr - Length r = FirstBdAddr r + Separation r * of_nat (k + n - N)"
      using False N g
      by (simp add: addr_eq ring_geometry_def of_nat_diff algebra_simps flip: N(2))
    with m have to: "slot r (i + n) = addr - Length r"
      by (simp add: slot_def N_def)
    have "addr = slot r (i + n) \<or> LastBdAddr r < addr \<or> addr < slot r i"
    proof (cases "S * int n = 2 ^ 32")
      case True
      have "S * int n \<le> S * int N" using S n by (simp add: mult_left_mono N_def)
      with True fit F have "S * int n = S * int N" by linarith
      with S have "n = N" by simp
      then have "slot r (i + n) = slot r i" by (simp add: N_def)
      moreover have "0 \<le> F + S * int k" using F S by simp
      with True have "uint addr = uint (slot r i)"
        using uint_affine_mod [of "slot r i" "Separation r" n] bd uint_lt2p [of "slot r i"]
        by (simp add: addr_def S_def)
      ultimately show ?thesis by (simp add: word_uint_eq_iff)
    next
      case neq: False
      have "S * int n \<le> S * int N" "S * int N \<le> S * int (k + n)"
        using S n False by (simp_all add: mult_left_mono N_def)
      with fit F neq have lo: "S * int n < 2 ^ 32" and hi: "F + S * int N \<le> F + S * int k + S * int n"
        by (simp_all add: distrib_left)
      have u: "uint addr = (F + S * int k + S * int n) mod 2 ^ 32"
        using uint_affine_mod [of "slot r i" "Separation r" n] bd by (simp add: addr_def S_def)
      show ?thesis
      proof (cases "F + S * int k + S * int n < 2 ^ 32")
        case True
        moreover have "0 \<le> F + S * int k + S * int n" using F S by simp
        ultimately have "uint addr = F + S * int k + S * int n" using u by simp
        with hi last S show ?thesis by (simp add: word_less_def algebra_simps)
      next
        case big: False
        have "F + S * int k < 2 ^ 32" using bd uint_lt2p [of "slot r i"] by simp
        with lo big have "(F + S * int k + S * int n) mod 2 ^ 32 = F + S * int k + S * int n - 2 ^ 32"
          by (intro mod_wrap) simp_all
        with u lo bd show ?thesis by (simp add: word_less_def)
      qed
    qed
    then show ?thesis
      using to by (auto simp: RING_SEEKAHEAD_def addr_def Let_def)
  qed
qed

lemma next_slot:
  assumes g: "ring_geometry r"
  shows "BdRingNext r (slot r i) = slot r (Suc i)"
proof -
  let ?N = "ring_size r" let ?k = "i mod ?N"
  have N: "0 < ?N" "int ?N = AllCnt r" and S: "0 < uint (Separation r)"
    using g ring_size_pos [OF g] by (auto simp: ring_size_def ring_geometry_def)
  have k: "?k < ?N" using N by simp
  have "LastBdAddr r \<le> slot r i \<longleftrightarrow> AllCnt r - 1 \<le> int ?k"
    using S by (simp add: word_le_def uint_slot [OF g] last_slot(2) [OF g])
  then have iff: "LastBdAddr r \<le> slot r i \<longleftrightarrow> ?k = ?N - 1"
    using k N by linarith
  show ?thesis
  proof (cases "?k = ?N - 1")
    case True
    then have "Suc i mod ?N = 0" using N by (simp add: mod_Suc)
    with True iff show ?thesis by (simp add: BdRingNext_def slot_def)
  next
    case False
    with k have "Suc i mod ?N = Suc ?k" by (simp add: mod_Suc)
    then have "slot r (Suc i) = slot r i + Separation r"
      by (simp add: slot_def algebra_simps)
    with False iff show ?thesis by (simp add: BdRingNext_def)
  qed
qed

lemma prev_slot:
  assumes g: "ring_geometry r"
  shows "BdRingPrev r (slot r (Suc i)) = slot r i"
proof -
  let ?N = "ring_size r" let ?k = "Suc i mod ?N"
  have N: "0 < ?N" and S: "0 < uint (Separation r)"
    using g ring_size_pos [OF g] by (auto simp: ring_geometry_def)
  have iff: "slot r (Suc i) \<le> FirstBdAddr r \<longleftrightarrow> ?k = 0"
    using S by (auto simp: word_le_def uint_slot [OF g] mult_le_0_iff)
  show ?thesis
  proof (cases "?k = 0")
    case True
    then have "i mod ?N = ?N - 1" using N by (simp add: mod_Suc split: if_splits)
    then have "slot r i = slot r (?N - 1)" using N by (intro slot_cong) simp
    with True iff show ?thesis
      by (simp add: BdRingPrev_def last_slot(1) [OF g])
  next
    case False
    then have "?k = Suc (i mod ?N)" by (simp add: mod_Suc split: if_splits)
    then have "slot r i = slot r (Suc i) - Separation r"
      by (simp add: slot_def algebra_simps)
    with False iff show ?thesis by (simp add: BdRingPrev_def)
  qed
qed

lemma seekback_slot:
  assumes g: "ring_geometry r" and n: "n \<le> ring_size r"
  shows "RING_SEEKBACK r (slot r (i + n)) (int n) = slot r i"
proof -
  define F S N k where "F = uint (FirstBdAddr r)" and "S = uint (Separation r)"
    and "N = ring_size r" and "k = (i + n) mod N"
  have N: "0 < N" "int N = AllCnt r" and kN: "k < N"
    using g ring_size_pos [OF g] by (auto simp: N_def k_def ring_size_def ring_geometry_def)
  have S: "0 < S" and fit: "F + S * int N \<le> 2 ^ 32" and F: "0 \<le> F"
    using g N by (simp_all add: F_def S_def ring_geometry_def)
  define addr where "addr = slot r (i + n) - Separation r * of_nat n"
  have bd: "uint (slot r (i + n)) = F + S * int k"
    using uint_slot [OF g] by (simp add: F_def S_def k_def N_def)
  have kj: "k = (i mod N + n) mod N" and jN: "i mod N < N"
    using N by (simp_all add: k_def mod_add_left_eq)
  have cong: "i mod N = (if n \<le> k then k - n else k + N - n)"
  proof (cases "i mod N + n < N")
    case True
    with kj show ?thesis by simp
  next
    case False
    have "i mod N + n - N < N" using jN n by (simp add: N_def)
    with False kj have "k = i mod N + n - N" by (simp add: le_mod_geq)
    with False jN n show ?thesis by (simp add: N_def)
  qed
  have lt: "F + S * int k < 2 ^ 32" using bd uint_lt2p [of "slot r (i + n)"] by simp
  have "addr = word_of_int (uint (slot r (i + n)) - S * int n)"
    by (simp add: addr_def S_def)
  then have u: "uint addr = (F + S * int k - S * int n) mod 2 ^ 32"
    unfolding bd by (simp only: uint_word_of_int) simp
  have Sk: "0 \<le> S * int k" and Sn: "0 \<le> S * int n" using S by simp_all
  have nN: "S * int n \<le> S * int N" using S n by (simp add: mult_left_mono N_def)
  show ?thesis
  proof (cases "n \<le> k")
    case True
    with cong have "slot r i = addr"
      by (simp add: addr_def slot_def flip: N_def k_def) (simp add: of_nat_diff algebra_simps)
    moreover from this have "uint addr = F + S * int (k - n)"
      using uint_slot [OF g, of i] True cong by (simp add: F_def S_def flip: N_def)
    moreover have "S * int (k - n) \<le> S * int k" "0 \<le> S * int (k - n)"
      using S by (simp_all add: mult_left_mono)
    ultimately show ?thesis
      using bd by (simp add: RING_SEEKBACK_def addr_def word_less_def flip: F_def S_def)
  next
    case False
    then have "slot r i = FirstBdAddr r + Separation r * of_nat (k + N - n)"
      using cong by (simp add: slot_def flip: N_def)
    also have "\<dots> = addr + Length r"
      using n g by (simp add: addr_def slot_def flip: N_def k_def)
        (simp add: of_nat_diff algebra_simps ring_geometry_def N_def flip: N(2))
    finally have to: "slot r i = addr + Length r" .
    have "S * int k < S * int n" using S False by simp
    have "addr = slot r i \<or> addr < FirstBdAddr r \<or> slot r (i + n) < addr"
    proof (cases "S * int n \<le> F + S * int k")
      case True
      then have "uint addr = F + S * int k - S * int n"
        using u lt Sn by simp
      with \<open>S * int k < S * int n\<close> show ?thesis
        by (simp add: word_less_def F_def)
    next
      case neg: False
      show ?thesis
      proof (cases "S * int n = 2 ^ 32")
        case True
        with nN fit F have "S * int n = S * int N" by linarith
        with S have "n = N" by simp
        then have "slot r (i + n) = slot r i" by (simp add: N_def)
        moreover from True F Sk lt have "uint addr = uint (slot r (i + n))"
          using u bd by simp
        ultimately show ?thesis by (simp add: word_uint_eq_iff)
      next
        case False
        with nN fit F have "S * int n < 2 ^ 32" by linarith
        with neg F Sk have "uint addr = F + S * int k - S * int n + 2 ^ 32"
          using u by (intro trans [OF u mod_wrap_neg]) simp_all
        with \<open>S * int n < 2 ^ 32\<close> bd show ?thesis by (simp add: word_less_def)
      qed
    qed
    then show ?thesis
      using to by (auto simp: RING_SEEKBACK_def addr_def Let_def)
  qed
qed

section \<open>The four groups\<close>

fun walk :: "XAxiDma_BdRing \<Rightarrow> u32 \<Rightarrow> nat \<Rightarrow> u32 list" where
  "walk r a 0 = []"
| "walk r a (Suc n) = a # walk r (BdRingNext r a) n"

definition post_group :: "XAxiDma_BdRing \<Rightarrow> u32 list" where
  "post_group r = walk r (PostHead r) (nat (PostCnt r))"

definition hw_group :: "XAxiDma_BdRing \<Rightarrow> u32 list" where
  "hw_group r = walk r (HwHead r) (nat (HwCnt r))"

definition pre_group :: "XAxiDma_BdRing \<Rightarrow> u32 list" where
  "pre_group r = walk r (PreHead r) (nat (PreCnt r))"

definition free_group :: "XAxiDma_BdRing \<Rightarrow> u32 list" where
  "free_group r = walk r (FreeHead r) (nat (FreeCnt r))"

lemma walk_slot: "ring_geometry r \<Longrightarrow> walk r (slot r i) n = map (slot r) [i..<i + n]"
  by (induction n arbitrary: i) (simp_all add: next_slot upt_conv_Cons del: upt_Suc)

text \<open>
  The invariant of the ring: the counters add up and the groups follow one another around the
  ring, completed first, then hardware, in preparation and free. \<open>HwTail\<close> is the last
  descriptor given to the hardware; it is a descriptor of the ring even when there is none.
\<close>

definition ring_shape :: "XAxiDma_BdRing \<Rightarrow> nat \<Rightarrow> nat \<Rightarrow> nat \<Rightarrow> nat \<Rightarrow> nat \<Rightarrow> bool" where
  "ring_shape r i a b c d \<longleftrightarrow>
     ring_geometry r \<and> a + b + c + d = ring_size r \<and>
     PostCnt r = int a \<and> HwCnt r = int b \<and> PreCnt r = int c \<and> FreeCnt r = int d \<and>
     PostHead r = slot r i \<and> HwHead r = slot r (i + a) \<and> PreHead r = slot r (i + a + b) \<and>
     FreeHead r = slot r (i + a + b + c) \<and>
     (0 < b \<longrightarrow> HwTail r = slot r (i + a + b - 1)) \<and> (\<exists>j<ring_size r. HwTail r = slot r j)"

definition ring_inv :: "XAxiDma_BdRing \<Rightarrow> bool" where
  "ring_inv r \<longleftrightarrow> (\<exists>i<ring_size r.
     ring_shape r i (nat (PostCnt r)) (nat (HwCnt r)) (nat (PreCnt r)) (nat (FreeCnt r)))"

lemma ring_invE:
  assumes "ring_inv r"
  obtains i a b c d where "ring_shape r i a b c d"
  using assms by (auto simp: ring_inv_def)

lemma slot_shift: "slot r (i mod ring_size r + k) = slot r (i + k)"
  by (intro slot_cong) (simp add: mod_add_left_eq)

lemma ring_invI:
  assumes "ring_shape r i a b c d"
  shows "ring_inv r"
proof -
  have pos: "0 < ring_size r"
    using assms by (auto simp: ring_shape_def intro: ring_size_pos)
  have "ring_shape r (i mod ring_size r) a b c d"
    using assms slot_shift [of r i a] slot_shift [of r i "a + b"] slot_shift [of r i "a + b + c"]
      slot_shift [of r i "a + b - 1"]
    by (auto simp: ring_shape_def add.assoc)
  moreover have "a = nat (PostCnt r)" "b = nat (HwCnt r)" "c = nat (PreCnt r)" "d = nat (FreeCnt r)"
    using assms by (simp_all add: ring_shape_def)
  ultimately show ?thesis
    using pos unfolding ring_inv_def by (metis mod_less_divisor)
qed

lemma shape_groups:
  assumes "ring_shape r i a b c d"
  shows "post_group r = map (slot r) [i..<i + a]"
    and "hw_group r = map (slot r) [i + a..<i + a + b]"
    and "pre_group r = map (slot r) [i + a + b..<i + a + b + c]"
    and "free_group r = map (slot r) [i + a + b + c..<i + a + b + c + d]"
  using assms
  by (simp_all add: ring_shape_def post_group_def hw_group_def pre_group_def free_group_def walk_slot)

lemma distinct_slots:
  assumes "ring_geometry r" and "n \<le> ring_size r"
  shows "distinct (map (slot r) [i..<i + n])"
proof -
  have "x = y" if "x \<in> {i..<i + n}" "y \<in> {i..<i + n}" "x mod ring_size r = y mod ring_size r" for x y
    using that assms(2)
    by (metis (no_types) atLeastLessThan_iff mod_inj_window)
  then show ?thesis
    by (auto simp: distinct_map inj_on_def slot_inject [OF assms(1)])
qed

lemma upt_join: "i \<le> j \<Longrightarrow> j \<le> k \<Longrightarrow> [i..<j] @ [j..<k] = [i..<k]"
  by (metis le_add_diff_inverse upt_add_eq_append)

lemma slot_window:
  assumes "ring_geometry r"
  shows "slot r ` {i..<i + ring_size r} = slot r ` {0..<ring_size r}"
proof (induction i)
  case (Suc i)
  have "{i..<i + ring_size r} = insert i {Suc i..<i + ring_size r}"
    and "{Suc i..<Suc i + ring_size r} = insert (i + ring_size r) {Suc i..<i + ring_size r}"
    using ring_size_pos [OF assms] by auto
  with Suc show ?case by simp
qed simp

theorem groups_partition:
  assumes "ring_inv r"
  shows "distinct (post_group r @ hw_group r @ pre_group r @ free_group r) \<and>
         set (post_group r @ hw_group r @ pre_group r @ free_group r)
           = slot r ` {0..<ring_size r}"
proof -
  from assms obtain i a b c d where shape: "ring_shape r i a b c d"
    by (elim ring_invE)
  then have g: "ring_geometry r" and sum: "a + b + c + d = ring_size r"
    by (simp_all add: ring_shape_def)
  have "post_group r @ hw_group r @ pre_group r @ free_group r
          = map (slot r) [i..<i + ring_size r]"
    unfolding shape_groups [OF shape] sum [symmetric]
    by (simp add: upt_join add.assoc flip: map_append)
  then show ?thesis
    using distinct_slots [OF g order_refl] slot_window [OF g] by simp
qed

section \<open>The operations on the groups\<close>

text \<open>No operation changes the geometry once the ring exists.\<close>

lemma slot_update [simp]:
  "slot (r\<lparr>FreeHead := x\<rparr>) = slot r" "slot (r\<lparr>PreHead := x\<rparr>) = slot r"
  "slot (r\<lparr>HwHead := x\<rparr>) = slot r" "slot (r\<lparr>HwTail := x\<rparr>) = slot r"
  "slot (r\<lparr>PostHead := x\<rparr>) = slot r" "slot (r\<lparr>FreeCnt := n\<rparr>) = slot r"
  "slot (r\<lparr>PreCnt := n\<rparr>) = slot r" "slot (r\<lparr>HwCnt := n\<rparr>) = slot r"
  "slot (r\<lparr>PostCnt := n\<rparr>) = slot r" "slot (r\<lparr>RunState := n\<rparr>) = slot r"
  "slot (r\<lparr>BdaRestart := x\<rparr>) = slot r"
  by (simp_all add: fun_eq_iff slot_def ring_size_def)

lemma ring_size_update [simp]:
  "ring_size (r\<lparr>FreeHead := x\<rparr>) = ring_size r" "ring_size (r\<lparr>PreHead := x\<rparr>) = ring_size r"
  "ring_size (r\<lparr>HwHead := x\<rparr>) = ring_size r" "ring_size (r\<lparr>HwTail := x\<rparr>) = ring_size r"
  "ring_size (r\<lparr>PostHead := x\<rparr>) = ring_size r" "ring_size (r\<lparr>FreeCnt := n\<rparr>) = ring_size r"
  "ring_size (r\<lparr>PreCnt := n\<rparr>) = ring_size r" "ring_size (r\<lparr>HwCnt := n\<rparr>) = ring_size r"
  "ring_size (r\<lparr>PostCnt := n\<rparr>) = ring_size r" "ring_size (r\<lparr>RunState := n\<rparr>) = ring_size r"
  "ring_size (r\<lparr>BdaRestart := x\<rparr>) = ring_size r"
  by (simp_all add: ring_size_def)

lemma ring_geometry_update [simp]:
  "ring_geometry (r\<lparr>FreeHead := x\<rparr>) = ring_geometry r"
  "ring_geometry (r\<lparr>PreHead := x\<rparr>) = ring_geometry r"
  "ring_geometry (r\<lparr>HwHead := x\<rparr>) = ring_geometry r"
  "ring_geometry (r\<lparr>HwTail := x\<rparr>) = ring_geometry r"
  "ring_geometry (r\<lparr>PostHead := x\<rparr>) = ring_geometry r"
  "ring_geometry (r\<lparr>FreeCnt := n\<rparr>) = ring_geometry r"
  "ring_geometry (r\<lparr>PreCnt := n\<rparr>) = ring_geometry r"
  "ring_geometry (r\<lparr>HwCnt := n\<rparr>) = ring_geometry r"
  "ring_geometry (r\<lparr>PostCnt := n\<rparr>) = ring_geometry r"
  "ring_geometry (r\<lparr>RunState := n\<rparr>) = ring_geometry r"
  "ring_geometry (r\<lparr>BdaRestart := x\<rparr>) = ring_geometry r"
  by (simp_all add: ring_geometry_def)

lemma alloc_shape:
  assumes "ring_shape r i a b c d" and "BdRingAlloc r (int n) = (XST_SUCCESS, p, r')"
  shows "ring_shape r' i a b (c + n) (d - n) \<and> n \<le> d \<and> 0 < n \<and> slot r' = slot r"
  using assms
  by (auto simp: BdRingAlloc_def ring_shape_def seekahead_slot add.assoc split: if_splits)

lemma unalloc_shape:
  assumes "ring_shape r i a b c d" and "BdRingUnAlloc r (int n) p = (XST_SUCCESS, r')"
  shows "ring_shape r' i a b (c - n) (d + n) \<and> n \<le> c \<and> 0 < n \<and> slot r' = slot r"
proof -
  have g: "ring_geometry r" and n: "n \<le> c" "0 < n" "n \<le> ring_size r"
    and r': "r' = r\<lparr>FreeHead := RING_SEEKBACK r (FreeHead r) (int n),
                FreeCnt := FreeCnt r + int n, PreCnt := PreCnt r - int n\<rparr>"
    using assms by (auto simp: BdRingUnAlloc_def ring_shape_def split: if_splits)
  moreover have "RING_SEEKBACK r (slot r (i + a + b + c)) (int n) = slot r (i + a + b + (c - n))"
    using seekback_slot [OF g n(3), of "i + a + b + (c - n)"] n by (simp add: add.assoc)
  ultimately show ?thesis
    using assms(1) by (simp add: ring_shape_def)
qed

lemma free_shape:
  assumes "ring_shape r i a b c d" and "BdRingFree r (int n) p = (XST_SUCCESS, r')"
  shows "ring_shape r' (i + n) (a - n) b c (d + n) \<and> n \<le> a \<and> slot r' = slot r"
  using assms seekahead_slot [of r n i]
  by (auto simp: BdRingFree_def ring_shape_def add.assoc split: if_splits)

lemma tohw_loop_last:
  assumes "ring_geometry r"
    and "tohw_loop dev r k (slot r i) cr sts t = (Some (bd, cr', sts'), t')"
  shows "bd = slot r (i + k)"
  using assms(2)
proof (induction k arbitrary: i cr sts t)
  case (Suc k)
  from Suc.prems have "\<exists>cr sts t. tohw_loop dev r k (slot r (Suc i)) cr sts t = (Some (bd, cr', sts'), t')"
    by (auto simp: Let_def next_slot [OF assms(1)] split: if_splits prod.splits)
  with Suc.IH show ?case by fastforce
qed simp

lemma tohw_result:
  assumes step: "BdRingToHw dev r n p t = (XST_SUCCESS, r', t')" and n: "n \<noteq> 0"
  shows "0 < n \<and> n \<le> PreCnt r \<and>
         (\<exists>bd cr sts cr' sts' t1 t2. tohw_loop dev r (nat (n - 1)) (PreHead r) cr sts t1 = (Some (bd, cr', sts'), t2) \<and>
            r' = r\<lparr>PreHead := RING_SEEKAHEAD r (PreHead r) n, PreCnt := PreCnt r - n,
                   HwTail := bd, HwCnt := HwCnt r + n\<rparr>)"
proof -
  have bounds: "0 < n" "n \<le> PreCnt r" and p: "p = PreHead r"
    using step n by (auto simp: BdRingToHw_def split: if_splits)
  obtain cr t1 where c: "BdGetCtrl dev p t = (cr, t1)" by fastforce
  obtain sts t2 where s: "BdGetSts dev p t1 = (sts, t2)" by fastforce
  from step bounds p c s obtain bd cr' sts' t3
    where loop: "tohw_loop dev r (nat (n - 1)) p cr sts t2 = (Some (bd, cr', sts'), t3)"
    by (auto simp: BdRingToHw_def split: if_splits prod.splits option.splits)
  have "r' = r\<lparr>PreHead := RING_SEEKAHEAD r (PreHead r) n, PreCnt := PreCnt r - n,
                   HwTail := bd, HwCnt := HwCnt r + n\<rparr>"
    using step bounds p c s loop
    by (auto simp: BdRingToHw_def Let_def split: if_splits prod.splits)
  with bounds loop p show ?thesis by blast
qed

lemma tohw_shape:
  assumes shape: "ring_shape r i a b c d" and step: "BdRingToHw dev r (int n) p t = (XST_SUCCESS, r', t')"
  shows "ring_shape r' i a (b + n) (c - n) d \<and> n \<le> c \<and> slot r' = slot r"
proof (cases "n = 0")
  case True
  with step shape show ?thesis by (auto simp: BdRingToHw_def)
next
  case False
  with tohw_result [OF step] obtain bd cr sts cr' sts' t1 t2
    where n: "int n \<le> PreCnt r"
      and loop: "tohw_loop dev r (nat (int n - 1)) (PreHead r) cr sts t1 = (Some (bd, cr', sts'), t2)"
      and r': "r' = r\<lparr>PreHead := RING_SEEKAHEAD r (PreHead r) (int n), PreCnt := PreCnt r - int n,
                   HwTail := bd, HwCnt := HwCnt r + int n\<rparr>"
    by auto
  have g: "ring_geometry r" using shape by (simp add: ring_shape_def)
  have "nat (int n - 1) = n - 1" by simp
  with tohw_loop_last [OF g, of dev "n - 1" "i + a + b" cr sts t1 bd cr' sts' t2] loop shape
  have "bd = slot r (i + a + b + (n - 1))"
    by (simp add: ring_shape_def)
  then have bd: "bd = slot r (i + a + (b + n) - 1)" using False by (simp add: add.assoc)
  moreover have "\<exists>j<ring_size r. bd = slot r j"
    using bd ring_size_pos [OF g]
    by (intro exI [of _ "(i + a + (b + n) - 1) mod ring_size r"]) simp
  ultimately show ?thesis
    using shape n r' seekahead_slot [OF g, of n "i + a + b"]
    by (simp add: ring_shape_def add.assoc)
qed

lemma fromhw_loop_bounds:
  assumes "fromhw_loop dev r n bd cnt part t = ((cnt', part'), t')" and "0 \<le> part" "part \<le> cnt"
  shows "0 \<le> part' \<and> part' \<le> cnt' \<and> cnt' \<le> cnt + int n"
  using assms
proof (induction n arbitrary: bd cnt part t)
  case (Suc n)
  define eof where "eof sts cr \<longleftrightarrow> (\<not> IsRxChannel r \<and> cr AND XAXIDMA_BD_CTRL_TXEOF_MASK \<noteq> 0 \<or>
                      IsRxChannel r \<and> sts AND XAXIDMA_BD_STS_RXEOF_MASK \<noteq> 0)" for sts cr :: u32
  obtain sts t1 where s: "BdRead dev bd XAXIDMA_BD_STS_OFFSET (t @ [Inv bd]) = (sts, t1)" by fastforce
  obtain cr t2 where c: "BdRead dev bd XAXIDMA_BD_CTRL_LEN_OFFSET t1 = (cr, t2)" by fastforce
  have step: "fromhw_loop dev r (Suc n) bd cnt part t =
     (if sts AND XAXIDMA_BD_STS_COMPLETE_MASK = 0 then ((cnt, part), t2)
      else if bd = HwTail r then ((cnt + 1, if eof sts cr then 0 else part + 1), t2)
      else fromhw_loop dev r n (BdRingNext r bd) (cnt + 1) (if eof sts cr then 0 else part + 1) t2)"
    by (simp add: s c Let_def eof_def)
  show ?case
    using Suc.prems Suc.IH [of "BdRingNext r bd" "cnt + 1" "if eof sts cr then 0 else part + 1" t2]
    unfolding step by (auto split: if_splits)
qed simp

lemma fromhw_shape:
  assumes shape: "ring_shape r i a b c d" and step: "BdRingFromHw dev r limit t = (int n, p, r', t')"
  shows "ring_shape r' i (a + n) (b - n) c d \<and> n \<le> b \<and> slot r' = slot r \<and> (0 < n \<longrightarrow> int n \<le> limit \<and> p = HwHead r)"
proof (cases "HwCnt r = 0")
  case True
  with step shape show ?thesis by (auto simp: BdRingFromHw_def)
next
  case False
  define lim where "lim = (if HwCnt r < limit then HwCnt r else limit)"
  obtain cnt part t1 where loop: "fromhw_loop dev r (nat lim) (HwHead r) 0 0 t = ((cnt, part), t1)"
    by (metis surj_pair)
  have bnd: "0 \<le> part" "part \<le> cnt" "cnt \<le> int (nat lim)"
    using fromhw_loop_bounds [OF loop] by simp_all
  have g: "ring_geometry r" and b: "HwCnt r = int b" "b \<le> ring_size r"
    using shape by (simp_all add: ring_shape_def)
  have n: "int n = cnt - part"
    and r': "r' = (if cnt - part \<noteq> 0 then r\<lparr>HwCnt := HwCnt r - (cnt - part),
       PostCnt := PostCnt r + (cnt - part), HwHead := RING_SEEKAHEAD r (HwHead r) (cnt - part)\<rparr> else r)"
    and p: "p = (if cnt - part \<noteq> 0 then HwHead r else 0)"
    using step False loop by (auto simp: BdRingFromHw_def lim_def Let_def split: if_splits)
  have "n \<le> b" using n bnd b by (auto simp: lim_def split: if_splits)
  moreover have "0 < n \<longrightarrow> int n \<le> limit" using n bnd b by (auto simp: lim_def split: if_splits)
  ultimately show ?thesis
    using shape r' p b seekahead_slot [OF g, of n "i + a"]
    by (auto simp: ring_shape_def add.assoc simp flip: n)
qed

section \<open>The groups as queues\<close>

text \<open>
  The interface of a stage of the ring: a step takes descriptors from the front of one queue
  and puts them, in the same order, at the back of another.
\<close>

locale descriptor_stage =
  fixes inv :: "'r \<Rightarrow> bool"
    and src :: "'r \<Rightarrow> 'b list"
    and dst :: "'r \<Rightarrow> 'b list"
    and move :: "'r \<Rightarrow> nat \<Rightarrow> 'r \<Rightarrow> bool"
  assumes keeps_inv: "inv r \<Longrightarrow> move r n r' \<Longrightarrow> inv r'"
    and takes: "inv r \<Longrightarrow> move r n r' \<Longrightarrow> n \<le> length (src r) \<and> src r' = drop n (src r)"
    and puts: "inv r \<Longrightarrow> move r n r' \<Longrightarrow> dst r' = dst r @ take n (src r)"
begin

lemma conserves: "inv r \<Longrightarrow> move r n r' \<Longrightarrow> dst r' @ src r' = dst r @ src r"
  using takes puts by simp

lemma in_order:
  assumes "inv r" "move r n r1" "move r1 m r2"
  shows "dst r2 = dst r @ take (n + m) (src r) \<and> src r2 = drop (n + m) (src r)"
  using assms keeps_inv [OF assms(1,2)] takes [of r n r1] takes [of r1 m r2] puts [of r n r1] puts [of r1 m r2]
  by (simp add: take_add) (simp add: add.commute)

lemma drains: "inv r \<Longrightarrow> move r (length (src r)) r' \<Longrightarrow> src r' = [] \<and> dst r' = dst r @ src r"
  using takes puts by simp

end

text \<open>
  Two stages in a row, each of which leaves the queue of the other alone: the concatenation of
  the three queues never changes, whatever the interleaving, so descriptors leave in the order
  in which they came.
\<close>

locale descriptor_pipeline =
  enter: descriptor_stage inv src mid move_in + leave: descriptor_stage inv mid dst move_out
  for inv :: "'r \<Rightarrow> bool" and src mid dst :: "'r \<Rightarrow> 'b list"
    and move_in move_out :: "'r \<Rightarrow> nat \<Rightarrow> 'r \<Rightarrow> bool" +
  assumes in_frame: "inv r \<Longrightarrow> move_in r n r' \<Longrightarrow> dst r' = dst r"
    and out_frame: "inv r \<Longrightarrow> move_out r n r' \<Longrightarrow> src r' = src r"
begin

lemma order_kept:
  assumes "inv r" and "move_in r n r' \<or> move_out r n r'"
  shows "dst r' @ mid r' @ src r' = dst r @ mid r @ src r \<and> inv r'"
  using assms enter.conserves [of r n r'] leave.conserves [of r n r'] in_frame [of r n r']
    out_frame [of r n r'] enter.keeps_inv [of r n r'] leave.keeps_inv [of r n r']
  by (metis append_assoc)

lemma through:
  assumes "inv r" "move_in r n r1" "move_out r1 (length (mid r) + n) r2"
  shows "dst r2 = dst r @ mid r @ take n (src r) \<and> mid r2 = [] \<and> src r2 = drop n (src r)"
proof -
  have r1: "inv r1" "mid r1 = mid r @ take n (src r)" "n \<le> length (src r)"
    "src r1 = drop n (src r)" "dst r1 = dst r"
    using assms enter.keeps_inv [of r n r1] enter.takes [of r n r1] enter.puts [of r n r1]
      in_frame [of r n r1] by auto
  with assms leave.takes [of r1 "length (mid r) + n" r2] leave.puts [of r1 "length (mid r) + n" r2]
    out_frame [of r1 "length (mid r) + n" r2]
  show ?thesis by simp
qed

end

definition alloc_step :: "XAxiDma_BdRing \<Rightarrow> nat \<Rightarrow> XAxiDma_BdRing \<Rightarrow> bool" where
  "alloc_step r n r' \<longleftrightarrow> (\<exists>p. BdRingAlloc r (int n) = (XST_SUCCESS, p, r'))"

definition tohw_step :: "XAxiDma_BdRing \<Rightarrow> nat \<Rightarrow> XAxiDma_BdRing \<Rightarrow> bool" where
  "tohw_step r n r' \<longleftrightarrow> (\<exists>dev t p t'. BdRingToHw dev r (int n) p t = (XST_SUCCESS, r', t'))"

definition fromhw_step :: "XAxiDma_BdRing \<Rightarrow> nat \<Rightarrow> XAxiDma_BdRing \<Rightarrow> bool" where
  "fromhw_step r n r' \<longleftrightarrow> (\<exists>dev limit t p t'. BdRingFromHw dev r limit t = (int n, p, r', t'))"

definition free_step :: "XAxiDma_BdRing \<Rightarrow> nat \<Rightarrow> XAxiDma_BdRing \<Rightarrow> bool" where
  "free_step r n r' \<longleftrightarrow> (\<exists>p. BdRingFree r (int n) p = (XST_SUCCESS, r'))"

lemma alloc_groups:
  assumes "ring_inv r" and "alloc_step r n r'"
  shows "ring_inv r' \<and> n \<le> length (free_group r) \<and> free_group r' = drop n (free_group r) \<and>
    pre_group r' = pre_group r @ take n (free_group r) \<and>
    hw_group r' = hw_group r \<and> post_group r' = post_group r"
proof -
  from assms obtain i a b c d p where s: "ring_shape r i a b c d"
    and op: "BdRingAlloc r (int n) = (XST_SUCCESS, p, r')"
    by (auto simp: alloc_step_def elim: ring_invE)
  from alloc_shape [OF s op] have s': "ring_shape r' i a b (c + n) (d - n)" and n: "n \<le> d"
    and slot: "slot r' = slot r" by simp_all
  show ?thesis
    using ring_invI [OF s'] n
    by (simp add: shape_groups [OF s] shape_groups [OF s'] slot take_map drop_map upt_join
        add.assoc flip: map_append)
qed

lemma tohw_groups:
  assumes "ring_inv r" and "tohw_step r n r'"
  shows "ring_inv r' \<and> n \<le> length (pre_group r) \<and> pre_group r' = drop n (pre_group r) \<and>
    hw_group r' = hw_group r @ take n (pre_group r) \<and>
    free_group r' = free_group r \<and> post_group r' = post_group r"
proof -
  from assms obtain i a b c d p dev t t' where s: "ring_shape r i a b c d"
    and op: "BdRingToHw dev r (int n) p t = (XST_SUCCESS, r', t')"
    by (auto simp: tohw_step_def elim: ring_invE)
  from tohw_shape [OF s op] have s': "ring_shape r' i a (b + n) (c - n) d" and n: "n \<le> c"
    and slot: "slot r' = slot r" by simp_all
  show ?thesis
    using ring_invI [OF s'] n
    by (simp add: shape_groups [OF s] shape_groups [OF s'] slot take_map drop_map upt_join
        add.assoc flip: map_append)
qed

lemma fromhw_groups:
  assumes "ring_inv r" and "fromhw_step r n r'"
  shows "ring_inv r' \<and> n \<le> length (hw_group r) \<and> hw_group r' = drop n (hw_group r) \<and>
    post_group r' = post_group r @ take n (hw_group r) \<and>
    free_group r' = free_group r \<and> pre_group r' = pre_group r"
proof -
  from assms obtain i a b c d p dev t t' lim where s: "ring_shape r i a b c d"
    and op: "BdRingFromHw dev r lim t = (int n, p, r', t')"
    by (auto simp: fromhw_step_def elim: ring_invE)
  from fromhw_shape [OF s op] have s': "ring_shape r' i (a + n) (b - n) c d" and n: "n \<le> b"
    and slot: "slot r' = slot r" by simp_all
  show ?thesis
    using ring_invI [OF s'] n
    by (simp add: shape_groups [OF s] shape_groups [OF s'] slot take_map drop_map upt_join
        add.assoc flip: map_append)
qed

lemma slot_wrap_run: "map (slot r) [i + ring_size r..<i + ring_size r + n] = map (slot r) [i..<i + n]"
proof (induction n)
  case (Suc n)
  then show ?case using slot_wrap [of r "i + n"] by (simp add: add.commute add.left_commute)
qed simp

lemma free_groups:
  assumes "ring_inv r" and "free_step r n r'"
  shows "ring_inv r' \<and> n \<le> length (post_group r) \<and> post_group r' = drop n (post_group r) \<and>
    free_group r' = free_group r @ take n (post_group r) \<and>
    hw_group r' = hw_group r \<and> pre_group r' = pre_group r"
proof -
  from assms obtain i a b c d p where s: "ring_shape r i a b c d"
    and op: "BdRingFree r (int n) p = (XST_SUCCESS, r')"
    by (auto simp: free_step_def elim: ring_invE)
  from free_shape [OF s op] have s': "ring_shape r' (i + n) (a - n) b c (d + n)" and n: "n \<le> a"
    and slot: "slot r' = slot r" by simp_all
  let ?k = "i + a + b + c"
  have k: "?k + d = i + ring_size r" using s by (simp add: ring_shape_def)
  have "free_group r' = map (slot r) [?k..<?k + d] @ map (slot r) [?k + d..<?k + d + n]"
    using n by (simp add: shape_groups [OF s'] slot upt_join add.assoc flip: map_append)
  also have "map (slot r) [?k + d..<?k + d + n] = map (slot r) [i..<i + n]"
    unfolding k by (rule slot_wrap_run)
  finally have "free_group r' = free_group r @ take n (post_group r)"
    using n by (simp add: shape_groups [OF s] take_map)
  moreover have "post_group r' = drop n (post_group r)" "hw_group r' = hw_group r"
    "pre_group r' = pre_group r"
    using n by (simp_all add: shape_groups [OF s] shape_groups [OF s'] slot drop_map add.assoc)
  ultimately show ?thesis
    using ring_invI [OF s'] n by (simp add: shape_groups [OF s])
qed

interpretation enqueue: descriptor_pipeline ring_inv free_group pre_group hw_group alloc_step tohw_step
  using alloc_groups tohw_groups by unfold_locales blast+

interpretation transfer: descriptor_pipeline ring_inv pre_group hw_group post_group tohw_step fromhw_step
  using tohw_groups fromhw_groups by unfold_locales blast+

interpretation recycle: descriptor_pipeline ring_inv hw_group post_group free_group fromhw_step free_step
  using fromhw_groups free_groups by unfold_locales blast+

lemma unalloc_groups:
  assumes "ring_inv r" and "BdRingUnAlloc r (int n) p = (XST_SUCCESS, r')"
  shows "ring_inv r' \<and> (\<exists>m. pre_group r = pre_group r' @ m \<and> free_group r' = m @ free_group r \<and> length m = n) \<and>
    hw_group r' = hw_group r \<and> post_group r' = post_group r"
proof -
  from assms obtain i a b c d where s: "ring_shape r i a b c d"
    by (auto elim: ring_invE)
  from unalloc_shape [OF s assms(2)] have s': "ring_shape r' i a b (c - n) (d + n)" and n: "n \<le> c"
    and slot: "slot r' = slot r" by simp_all
  let ?m = "map (slot r) [i + a + b + (c - n)..<i + a + b + c]"
  have "pre_group r = pre_group r' @ ?m" "free_group r' = ?m @ free_group r" "length ?m = n"
    using n by (simp_all add: shape_groups [OF s] shape_groups [OF s'] slot upt_join add.assoc flip: map_append)
  moreover have "hw_group r' = hw_group r" "post_group r' = post_group r"
    by (simp_all add: shape_groups [OF s] shape_groups [OF s'] slot)
  ultimately show ?thesis
    using ring_invI [OF s'] by blast
qed

section \<open>Runs of the driver\<close>

text \<open>
  Any sequence of calls, with any arguments and whatever the engine answers. A call that fails
  may have touched descriptors in memory but leaves the ring itself alone.
\<close>

inductive ring_step :: "XAxiDma_BdRing \<Rightarrow> XAxiDma_BdRing \<Rightarrow> bool" where
  step_alloc: "BdRingAlloc r n = (st, p, r') \<Longrightarrow> ring_step r r'"
| step_unalloc: "BdRingUnAlloc r n p = (st, r') \<Longrightarrow> ring_step r r'"
| step_tohw: "BdRingToHw dev r n p t = (st, r', t') \<Longrightarrow> ring_step r r'"
| step_fromhw: "BdRingFromHw dev r limit t = (n, p, r', t') \<Longrightarrow> ring_step r r'"
| step_free: "BdRingFree r n p = (st, r') \<Longrightarrow> ring_step r r'"
| step_start: "BdRingStart dev r t = Some (st, r', t') \<Longrightarrow> ring_step r r'"
| step_snapshot: "BdRingSnapShotCurrBd dev r t = (r', t') \<Longrightarrow> ring_step r r'"

inductive ring_run :: "XAxiDma_BdRing \<Rightarrow> XAxiDma_BdRing \<Rightarrow> bool" where
  run_refl: "ring_run r r"
| run_step: "ring_run r r' \<Longrightarrow> ring_step r' r'' \<Longrightarrow> ring_run r r''"

lemma failed_call:
  "BdRingAlloc r n = (st, p, r') \<Longrightarrow> st \<noteq> XST_SUCCESS \<Longrightarrow> r' = r"
  "BdRingUnAlloc r n q = (st, r') \<Longrightarrow> st \<noteq> XST_SUCCESS \<Longrightarrow> r' = r"
  "BdRingFree r n q = (st, r') \<Longrightarrow> st \<noteq> XST_SUCCESS \<Longrightarrow> r' = r"
  by (auto simp: BdRingAlloc_def BdRingUnAlloc_def BdRingFree_def split: if_splits)

lemma failed_tohw:
  "BdRingToHw dev r n q t = (st, r', t') \<Longrightarrow> st \<noteq> XST_SUCCESS \<Longrightarrow> r' = r"
  by (auto simp: BdRingToHw_def Let_def split: if_splits prod.splits option.splits)

lemma ring_inv_update [simp]:
  "ring_inv (r\<lparr>RunState := n\<rparr>) = ring_inv r" "ring_inv (r\<lparr>BdaRestart := x\<rparr>) = ring_inv r"
  by (simp_all add: ring_inv_def ring_shape_def)

lemma start_ring:
  "BdRingStart dev r t = Some (st, r', t') \<Longrightarrow> r' = r \<or> (\<exists>n. r' = r\<lparr>RunState := n\<rparr>)"
  by (auto simp: BdRingStart_def StartBdRingHw_def Let_def
      split: if_splits prod.splits option.splits)

lemma fromhw_count_nonneg: "BdRingFromHw dev r limit t = (n, p, r', t') \<Longrightarrow> 0 \<le> n"
  using fromhw_loop_bounds
  by (fastforce simp: BdRingFromHw_def Let_def split: if_splits prod.splits)

lemma ring_step_inv:
  assumes "ring_step r r'" and "ring_inv r"
  shows "ring_inv r'"
  using assms
proof (induction rule: ring_step.induct)
  case (step_alloc r n st p r')
  show ?case
  proof (cases "st = XST_SUCCESS")
    case True
    with step_alloc(1) have "n = int (nat n)" by (auto simp: BdRingAlloc_def split: if_splits)
    with step_alloc True have "alloc_step r (nat n) r'" by (auto simp: alloc_step_def)
    with step_alloc(2) show ?thesis using alloc_groups by blast
  qed (use step_alloc failed_call in blast)
next
  case (step_unalloc r n p st r')
  show ?case
  proof (cases "st = XST_SUCCESS")
    case True
    with step_unalloc(1) have "n = int (nat n)" by (auto simp: BdRingUnAlloc_def split: if_splits)
    with step_unalloc True unalloc_groups [of r "nat n" p r'] show ?thesis by simp
  qed (use step_unalloc failed_call in blast)
next
  case (step_tohw dev r n p t st r' t')
  show ?case
  proof (cases "st = XST_SUCCESS")
    case True
    with step_tohw(1) have "n = int (nat n)" by (auto simp: BdRingToHw_def split: if_splits)
    with step_tohw True have "tohw_step r (nat n) r'" by (auto simp: tohw_step_def)
    with step_tohw(2) show ?thesis using tohw_groups by blast
  qed (use step_tohw failed_tohw in blast)
next
  case (step_fromhw dev r limit t n p r' t')
  have "fromhw_step r (nat n) r'"
    using step_fromhw(1) fromhw_count_nonneg [OF step_fromhw(1)] unfolding fromhw_step_def by (intro exI) simp
  with step_fromhw(2) show ?case using fromhw_groups by blast
next
  case (step_free r n p st r')
  show ?case
  proof (cases "st = XST_SUCCESS")
    case True
    with step_free(1) have "n = int (nat n)" by (auto simp: BdRingFree_def split: if_splits)
    with step_free True have "free_step r (nat n) r'" by (auto simp: free_step_def)
    with step_free(2) show ?thesis using free_groups by blast
  qed (use step_free failed_call in blast)
next
  case (step_start dev r t st r' t')
  with start_ring show ?case by fastforce
next
  case (step_snapshot dev r t r' t')
  then show ?case by (auto simp: BdRingSnapShotCurrBd_def machine)
qed

lemma ring_run_inv: "ring_run r r' \<Longrightarrow> ring_inv r \<Longrightarrow> ring_inv r'"
  by (induction rule: ring_run.induct) (auto dest: ring_step_inv)

section \<open>Creation\<close>

lemma power_of_two:
  fixes w :: "'a::len word"
  assumes "(w - 1) AND w = 0" and "w \<noteq> 0"
  obtains k where "w = 2 ^ k" "k < LENGTH('a)"
proof -
  have pos: "1 \<le> unat w" using assms(2) by (simp add: unat_gt_0 Suc_leI)
  then obtain k where k: "2 ^ k \<le> unat w" "unat w < 2 ^ (k + 1)"
    using ex_power_ivl1 [of 2 "unat w"] by auto
  have kl: "k < LENGTH('a)"
    using le_less_trans [OF k(1) unsigned_less [of w]]
    by (simp add: power_strict_increasing_iff)
  have bit_top: "bit x k" if "2 ^ k \<le> unat x" "unat x < 2 ^ (k + 1)" for x :: "'a word"
  proof -
    have "unat x div 2 ^ k = 1" using that by (simp add: div_nat_eqI)
    
    have "uint x = int (unat x)" by simp
    then have "uint x div 2 ^ k = int (unat x div 2 ^ k)" by (simp only: zdiv_int of_nat_power of_nat_numeral)
    with \<open>unat x div 2 ^ k = 1\<close> have "bit (uint x) k" by (simp add: bit_iff_odd)
    then show ?thesis by (simp add: bit_uint_iff)
  qed
  have "unat w = 2 ^ k"
  proof (rule ccontr)
    assume "unat w \<noteq> 2 ^ k"
    with k have "2 ^ k \<le> unat (w - 1)" "unat (w - 1) < 2 ^ (k + 1)"
      using pos by (simp_all add: unat_minus_one assms(2))
    then have "bit ((w - 1) AND w) k" using bit_top k by (simp add: bit_and_iff)
    with assms(1) show False by simp
  qed
  moreover have "w = of_nat (unat w)" by simp
  ultimately have "w = of_nat (2 ^ k)" by (simp only:)
  then have "w = 2 ^ k" by simp
  then show ?thesis using kl by (rule that)
qed

lemma bd_separation_alignment:
  assumes "(al - 1) AND al = 0" and "64 \<le> al"
  shows "bd_separation al = al"
proof -
  from assms(2) have "al \<noteq> 0" by auto
  from power_of_two [OF assms(1) this] obtain k where k: "al = 2 ^ k" "k < 32" by auto
  have "6 \<le> k"
  proof (rule ccontr)
    assume "\<not> 6 \<le> k"
    then have "k \<in> {0, 1, 2, 3, 4, 5}" by auto
    with k(1) assms(2) show False by (auto simp: word_le_def)
  qed
  have "[6..<32] = [6,7,8,9,10,11,12,13,14,15,16,17,18,19,20,21,22,23,24,25,26,27,28,29,30,31 :: nat]"
    by (simp add: upt_rec)
  moreover from \<open>6 \<le> k\<close> k(2) have "k \<in> set [6..<32]"
    by (simp only: set_upt atLeastLessThan_iff)
  ultimately have "k \<in> set [6,7,8,9,10,11,12,13,14,15,16,17,18,19,20,21,22,23,24,25,26,27,28,29,30,31]" by (simp only:)
  then show ?thesis unfolding k(1)
    by (simp only: list.set insert_iff empty_iff) (elim disjE FalseE; simp add: bd_separation_def)
qed

lemma link_bds_last: "fst (link_bds r n v p t) = v + Separation r * of_nat n"
  by (induction n arbitrary: v p t) (simp_all add: algebra_simps)

lemma link_bds_last': "link_bds r n v p t = (x, t') \<Longrightarrow> x = v + Separation r * of_nat n"
  using link_bds_last [of r n v p t] by simp

lemma create_ring:
  assumes step: "BdRingCreate r phys virt al n t = (XST_SUCCESS, r', t')"
    and fits: "uint al * n < 2 ^ 32"
  shows "ring_inv r' \<and> ring_size r' = nat n \<and> FirstBdAddr r' = virt \<and> Separation r' = al \<and>
    FreeCnt r' = n \<and> HwCnt r' = 0 \<and> PreCnt r' = 0 \<and> PostCnt r' = 0"
proof -
  have n: "0 < n" and al: "64 \<le> al" "(al - 1) AND al = 0"
    using step by (auto simp: BdRingCreate_def Let_def not_less split: if_splits)
  note sep = bd_separation_alignment [OF al(2,1)]
  have no_wrap: "\<not> virt + al * of_int n - 1 < virt"
    using step n al by (auto simp: BdRingCreate_def Let_def sep not_less split: if_splits)
  have fields: "Separation r' = al" "FirstBdAddr r' = virt" "LastBdAddr r' = virt + al * of_int (n - 1)"
      "Length r' = al * of_int n" "AllCnt r' = n" "FreeCnt r' = n" "HwCnt r' = 0" "PreCnt r' = 0"
      "PostCnt r' = 0" "FreeHead r' = virt" "PreHead r' = virt" "HwHead r' = virt" "HwTail r' = virt"
      "PostHead r' = virt"
    using step n al
    by (auto simp: BdRingCreate_def Let_def sep of_nat_nat right_diff_distrib dest!: link_bds_last'
        split: if_splits prod.splits)
  define B where "B = uint al * n"
  have alpos: "64 \<le> uint al" using al by (simp add: word_le_def)
  have B: "0 < B" "B < 2 ^ 32" using fits n alpos by (simp_all add: B_def)
  have bytes: "al * of_int n = word_of_int B" by (simp add: B_def)
  have "virt + al * of_int n - 1 = word_of_int (uint virt + B - 1)" by (simp add: bytes)
  then have u: "uint (virt + al * of_int n - 1) = (uint virt + B - 1) mod 2 ^ 32"
    by (simp only: uint_word_of_int) simp
  have "uint virt + B \<le> 2 ^ 32"
  proof (rule ccontr)
    assume "\<not> ?thesis"
    then have "(uint virt + B - 1) mod 2 ^ 32 = uint virt + B - 1 - 2 ^ 32"
      using B uint_lt2p [of virt] by (intro mod_wrap) simp_all
    with u B no_wrap show False by (simp add: word_less_def)
  qed
  then have g: "ring_geometry r'"
    using n alpos by (simp add: ring_geometry_def fields B_def)
  have "ring_shape r' 0 0 0 0 (nat n)"
    using g n ring_size_pos [OF g]
    by (auto simp: ring_shape_def fields slot_def ring_size_def intro!: exI [of _ 0])
  then show ?thesis
    using fields ring_invI by (auto simp: ring_size_def)
qed

end
