(* ===== verification/Ring_Runs.thy ===== *)
theory Ring_Runs
  imports Ring_Fifo
begin

text \<open>
  What the descriptor ring guarantees to its users over whole runs: packets are taken back
  whole and in order, descriptors are flushed before the engine may look at them, starting a
  channel terminates, and the groups partition the ring whatever sequence of calls is made.
\<close>

section \<open>What is collected from the engine\<close>

text \<open>
  An observation of a descriptor is its status and control word. The specification of the scan
  is stated on the list of observations: of the completed descriptors at the front, the longest
  prefix that ends with the end of a packet is handed out.
\<close>

definition bd_done :: "u32 \<times> u32 \<Rightarrow> bool" where
  "bd_done ob \<longleftrightarrow> fst ob AND XAXIDMA_BD_STS_COMPLETE_MASK \<noteq> 0"

definition packet_end :: "bool \<Rightarrow> u32 \<times> u32 \<Rightarrow> bool" where
  "packet_end rx ob \<longleftrightarrow>
     \<not> rx \<and> snd ob AND XAXIDMA_BD_CTRL_TXEOF_MASK \<noteq> 0 \<or>
     rx \<and> fst ob AND XAXIDMA_BD_STS_RXEOF_MASK \<noteq> 0"

definition whole_packets :: "bool \<Rightarrow> (u32 \<times> u32) list \<Rightarrow> nat" where
  "whole_packets rx obs = length (dropWhile (\<lambda>ob. \<not> packet_end rx ob) (rev obs))"

fun scan_log :: "u32 list \<Rightarrow> (u32 \<times> u32) list \<Rightarrow> trace" where
  "scan_log (bd # bds) ((sts, cr) # obs) =
     [Inv bd, Rd (bd + XAXIDMA_BD_STS_OFFSET) sts, Rd (bd + XAXIDMA_BD_CTRL_LEN_OFFSET) cr]
       @ scan_log bds obs"
| "scan_log _ _ = []"

definition tally :: "bool \<Rightarrow> u32 \<times> u32 \<Rightarrow> int \<times> int \<Rightarrow> int \<times> int" where
  "tally rx ob cp = (fst cp + 1, if packet_end rx ob then 0 else snd cp + 1)"

lemma tally_pair [simp]: "tally rx ob (c, p) = (c + 1, if packet_end rx ob then 0 else p + 1)"
  by (simp add: tally_def)

lemma tally_whole:
  "fold (tally rx) obs (0, 0) = (int (length obs), int (length obs) - int (whole_packets rx obs))"
  by (induction obs rule: rev_induct) (auto simp: tally_def whole_packets_def)

lemma whole_packets_le: "whole_packets rx obs \<le> length obs"
  by (metis length_dropWhile_le length_rev whole_packets_def)

lemma whole_packets_ends:
  assumes "0 < whole_packets rx obs"
  shows "packet_end rx (obs ! (whole_packets rx obs - 1))"
proof -
  let ?P = "\<lambda>ob. \<not> packet_end rx ob"
  have ne: "dropWhile ?P (rev obs) \<noteq> []" using assms by (auto simp: whole_packets_def)
  have "rev obs = takeWhile ?P (rev obs) @ dropWhile ?P (rev obs)" by simp
  then have "obs = rev (dropWhile ?P (rev obs)) @ rev (takeWhile ?P (rev obs))"
    by (metis rev_append rev_rev_ident)
  then have "obs ! (whole_packets rx obs - 1) = rev (dropWhile ?P (rev obs)) ! (whole_packets rx obs - 1)"
    using assms by (metis (no_types, lifting) diff_less length_rev nth_append whole_packets_def zero_less_one)
  also have "\<dots> = hd (dropWhile ?P (rev obs))"
    using ne assms by (simp add: whole_packets_def rev_nth hd_conv_nth)
  finally show ?thesis using hd_dropWhile [OF ne] by simp
qed

lemma fromhw_loop_scan:
  assumes g: "ring_geometry r" and tail: "HwTail r = slot r (i + b - 1)"
    and b: "n \<le> b" "b \<le> ring_size r"
    and loop: "fromhw_loop dev r n (slot r i) cnt part t = (cp', t')"
  shows "\<exists>obs. length obs \<le> n \<and> t' = t @ scan_log (map (slot r) [i..<i + length obs]) obs \<and>
    cp' = fold (tally (IsRxChannel r)) (takeWhile bd_done obs) (cnt, part) \<and>
    (\<forall>ob\<in>set (butlast obs). bd_done ob) \<and> (length obs < n \<longrightarrow> obs \<noteq> [] \<and> \<not> bd_done (last obs))"
  using tail b loop
proof (induction n arbitrary: i b cnt part t)
  case 0
  then show ?case by (intro exI [of _ "[]"]) simp
next
  case (Suc n)
  obtain sts t1 where s: "BdRead dev (slot r i) XAXIDMA_BD_STS_OFFSET (t @ [Inv (slot r i)]) = (sts, t1)"
    by fastforce
  obtain cr t2 where c: "BdRead dev (slot r i) XAXIDMA_BD_CTRL_LEN_OFFSET t1 = (cr, t2)" by fastforce
  let ?rx = "IsRxChannel r" and ?ob = "(sts, cr)"
  have t2: "t2 = t @ scan_log [slot r i] [?ob]"
    using s c by (auto simp: machine)
  have step: "fromhw_loop dev r (Suc n) (slot r i) cnt part t =
     (if \<not> bd_done ?ob then ((cnt, part), t2)
      else if slot r i = HwTail r then (tally ?rx ?ob (cnt, part), t2)
      else fromhw_loop dev r n (slot r (Suc i)) (cnt + 1) (if packet_end ?rx ?ob then 0 else part + 1) t2)"
    by (simp add: s c Let_def bd_done_def packet_end_def next_slot [OF g])
  show ?case
  proof (cases "bd_done ?ob \<and> n \<noteq> 0")
    case False
    then show ?thesis
      using Suc.prems step t2
      by (intro exI [of _ "[?ob]"]) (auto split: if_splits)
  next
    case True
    have "slot r i \<noteq> HwTail r"
    proof
      assume "slot r i = HwTail r"
      then have "i mod ring_size r = (i + b - 1) mod ring_size r"
        using Suc.prems(1) by (simp add: slot_inject [OF g])
      then have "i = i + b - 1"
        using Suc.prems(2,3) by (intro mod_inj_window [of i i b "i + b - 1"]) auto
      moreover have "0 < n" using True by simp
      ultimately show False using Suc.prems(2) by linarith
    qed
    with True step Suc.prems have rest: "fromhw_loop dev r n (slot r (Suc i)) (cnt + 1) (if packet_end ?rx ?ob then 0 else part + 1) t2 = (cp', t')"
      by simp
    have "HwTail r = slot r (Suc i + (b - 1) - 1)" "n \<le> b - 1" "b - 1 \<le> ring_size r"
      using Suc.prems by simp_all
    from Suc.IH [OF this rest] obtain obs where obs: "length obs \<le> n"
      "t' = t2 @ scan_log (map (slot r) [Suc i..<Suc i + length obs]) obs"
      "cp' = fold (tally ?rx) (takeWhile bd_done obs) (cnt + 1, if packet_end ?rx ?ob then 0 else part + 1)"
      "\<forall>ob\<in>set (butlast obs). bd_done ob" "length obs < n \<longrightarrow> obs \<noteq> [] \<and> \<not> bd_done (last obs)"
      by blast
    have "obs \<noteq> []" using obs(5) True by auto
    with obs True t2 show ?thesis
      by (intro exI [of _ "?ob # obs"])
        (auto simp: upt_conv_Cons simp del: upt_Suc)
  qed
qed

text \<open>C18: whatever the engine has written, \<open>XAxiDma_BdRingFromHw\<close> reads the status and control
  word of the descriptors the hardware owns in ring order, at most \<open>BdLimit\<close> of them and none
  after the first one that is not completed, and hands out exactly the longest prefix of
  completed descriptors that ends at a packet boundary: never a part of a packet, never a
  descriptor whose completed bit was not read as set.\<close>

theorem fromhw_whole_packets:
  assumes "ring_inv r" and "BdRingFromHw dev r limit t = (n, p, r', t')"
  shows "\<exists>obs. length obs \<le> nat (min limit (HwCnt r)) \<and>
    t' = t @ scan_log (take (length obs) (hw_group r)) obs \<and>
    n = int (whole_packets (IsRxChannel r) (takeWhile bd_done obs)) \<and>
    (\<forall>ob\<in>set (butlast obs). bd_done ob) \<and>
    (length obs < nat (min limit (HwCnt r)) \<longrightarrow> obs \<noteq> [] \<and> \<not> bd_done (last obs)) \<and>
    post_group r' = post_group r @ take (nat n) (hw_group r) \<and>
    hw_group r' = drop (nat n) (hw_group r)"
proof -
  from assms(1) obtain i a b c d where s: "ring_shape r i a b c d" by (elim ring_invE)
  have g: "ring_geometry r" and hw: "HwCnt r = int b" "HwHead r = slot r (i + a)"
    and b: "b \<le> ring_size r" and tail: "0 < b \<longrightarrow> HwTail r = slot r (i + a + b - 1)"
    using s by (auto simp: ring_shape_def)
  have "fromhw_step r (nat n) r'"
    using assms(2) fromhw_count_nonneg [OF assms(2)] unfolding fromhw_step_def by (intro exI) simp
  note groups = fromhw_groups [OF assms(1) this]
  show ?thesis
  proof (cases "b = 0")
    case True
    with hw assms(2) groups show ?thesis
      by (intro exI [of _ "[]"]) (simp add: BdRingFromHw_def whole_packets_def)
  next
    case False
    define lim where "lim = (if HwCnt r < limit then HwCnt r else limit)"
    obtain cnt part t1 where loop: "fromhw_loop dev r (nat lim) (slot r (i + a)) 0 0 t = ((cnt, part), t1)"
      by (metis surj_pair)
    have lim: "nat lim \<le> b" "nat lim = nat (min limit (HwCnt r))"
      using hw by (auto simp: lim_def min_def)
    from fromhw_loop_scan [OF g _ lim(1) b loop] tail False obtain obs where obs: "length obs \<le> nat lim"
      "t1 = t @ scan_log (map (slot r) [i + a..<i + a + length obs]) obs"
      "(cnt, part) = fold (tally (IsRxChannel r)) (takeWhile bd_done obs) (0, 0)"
      "\<forall>ob\<in>set (butlast obs). bd_done ob" "length obs < nat lim \<longrightarrow> obs \<noteq> [] \<and> \<not> bd_done (last obs)"
      by auto
    have n: "n = cnt - part" and t': "t' = t1"
      using assms(2) loop hw False by (auto simp: BdRingFromHw_def lim_def Let_def split: if_splits)
    have "take (length obs) (hw_group r) = map (slot r) [i + a..<i + a + length obs]"
      using obs(1) lim(1) by (simp add: shape_groups [OF s] take_map)
    with obs n t' groups lim show ?thesis
      by (intro exI [of _ obs]) (auto simp: tally_whole)
  qed
qed

text \<open>A ring of four descriptors for the concrete runs: one completed, two with the hardware.\<close>

definition sample_ring :: XAxiDma_BdRing where
  "sample_ring =
     \<lparr>ChanBase = 0x41E00030, IsRxChannel = True, RunState = 1, HasStsCntrlStrm = 0, HasDRE = 0,
      DataWidth = 4, FirstBdPhysAddr = 0x1000, FirstBdAddr = 0x1000, LastBdAddr = 0x10C0,
      Length = 0x100, Separation = 0x40, FreeHead = 0x1000, PreHead = 0x1000, HwHead = 0x1080,
      HwTail = 0x10C0, PostHead = 0x1040, BdaRestart = 0x1000, FreeCnt = 1, PreCnt = 0,
      HwCnt = 2, PostCnt = 1, AllCnt = 4\<rparr>"

lemma sample_ring_inv: "ring_inv sample_ring"
  by (rule ring_invI [of _ 1 1 2 0 1])
    (auto simp: ring_shape_def sample_ring_def ring_geometry_def slot_def ring_size_def intro!: exI [of _ 3])

text \<open>An engine whose every descriptor is completed and ends a packet.\<close>

definition done_device :: device where
  "done_device = \<lparr>reg = (\<lambda>t a. 0x84000040), ram = (\<lambda>t a. 0)\<rparr>"

theorem fromhw_whole_packets_witness:
  "BdRingFromHw done_device sample_ring 8 [] = (2, 0x1080, sample_ring\<lparr>HwCnt := 0, PostCnt := 3, HwHead := 0x1000\<rparr>,
     scan_log [0x1080, 0x10C0] [(0x84000040, 0x84000040), (0x84000040, 0x84000040)]) \<and>
   post_group (sample_ring\<lparr>HwCnt := 0, PostCnt := 3, HwHead := 0x1000\<rparr>) = [0x1040, 0x1080, 0x10C0]"
proof -
  have run: "BdRingFromHw done_device sample_ring 8 [] = (2, 0x1080, sample_ring\<lparr>HwCnt := 0, PostCnt := 3, HwHead := 0x1000\<rparr>,
     scan_log [0x1080, 0x10C0] [(0x84000040, 0x84000040), (0x84000040, 0x84000040)])"
    by code_simp
  have "post_group sample_ring = [0x1040]" "hw_group sample_ring = [0x1080, 0x10C0]"
    by code_simp+
  with run fromhw_whole_packets [OF sample_ring_inv run] show ?thesis by auto
qed

section \<open>Handing descriptors to the engine\<close>

text \<open>What one descriptor of a submitted set leaves in the log.\<close>

definition submitted :: "u32 \<Rightarrow> trace \<Rightarrow> bool" where
  "submitted bd ev \<longleftrightarrow>
     (\<exists>e1 v e2. ev = e1 @ [Wr (bd + XAXIDMA_BD_STS_OFFSET) v, Fls bd] @ e2 \<and>
        v AND XAXIDMA_BD_STS_COMPLETE_MASK = 0)"

lemma submittedI:
  "ev = e1 @ [Wr (bd + XAXIDMA_BD_STS_OFFSET) v, Fls bd] @ e2 \<Longrightarrow>
   v AND XAXIDMA_BD_STS_COMPLETE_MASK = 0 \<Longrightarrow> submitted bd ev"
  by (auto simp: submitted_def)

lemma submitted_append: "submitted bd ev \<Longrightarrow> submitted bd (pre @ ev @ post)"
proof -
  assume "submitted bd ev"
  then obtain e1 v e2 where "ev = e1 @ [Wr (bd + XAXIDMA_BD_STS_OFFSET) v, Fls bd] @ e2"
    "v AND XAXIDMA_BD_STS_COMPLETE_MASK = 0" by (auto simp: submitted_def)
  then show ?thesis
    unfolding submitted_def by (intro exI [of _ "pre @ e1"] exI [of _ v] exI [of _ "e2 @ post"]) simp
qed

lemma cleared_complete: "(v AND NOT XAXIDMA_BD_STS_COMPLETE_MASK) AND XAXIDMA_BD_STS_COMPLETE_MASK = (0 :: u32)"
  by (simp add: and.assoc)

lemma BdGetCtrl_log: "BdGetCtrl dev bd t = (v, t') \<Longrightarrow> \<exists>x. t' = t @ [Rd (bd + XAXIDMA_BD_CTRL_LEN_OFFSET) x]"
  and BdGetSts_log: "BdGetSts dev bd t = (v, t') \<Longrightarrow> \<exists>x. t' = t @ [Rd (bd + XAXIDMA_BD_STS_OFFSET) x]"
  and BdGetLength_log: "BdGetLength dev bd t = (v, t') \<Longrightarrow> \<exists>x. t' = t @ [Rd (bd + XAXIDMA_BD_CTRL_LEN_OFFSET) x]"
  and BdRead_log: "BdRead dev bd off t = (v, t') \<Longrightarrow> \<exists>x. t' = t @ [Rd (bd + off) x]"
  by (auto simp: BdGetCtrl_def BdGetSts_def BdGetLength_def machine)

lemma tohw_loop_log:
  assumes g: "ring_geometry r"
    and loop: "tohw_loop dev r k (slot r i) cr sts t = (Some (bd, cr', sts'), t')"
  shows "\<exists>ev. t' = t @ ev \<and> (\<forall>j<k. submitted (slot r (i + j)) ev) \<and>
    (\<forall>a v. Wr a v \<in> set ev \<longrightarrow> (\<exists>j<k. a = slot r (i + j) + XAXIDMA_BD_STS_OFFSET))"
  using loop
proof (induction k arbitrary: i cr sts t)
  case 0
  then show ?case by (intro exI [of _ "[]"]) simp
next
  case (Suc k)
  obtain len t1 where l: "BdGetLength dev (slot r i) t = (len, t1)" by fastforce
  define t2 where "t2 = BdWrite (slot r i) XAXIDMA_BD_STS_OFFSET (sts AND NOT XAXIDMA_BD_STS_COMPLETE_MASK) t1 @ [Fls (slot r i)]"
  obtain cr1 t3 where c: "BdRead dev (slot r (Suc i)) XAXIDMA_BD_CTRL_LEN_OFFSET t2 = (cr1, t3)" by fastforce
  obtain sts1 t4 where s: "BdRead dev (slot r (Suc i)) XAXIDMA_BD_STS_OFFSET t3 = (sts1, t4)" by fastforce
  have "tohw_loop dev r k (slot r (Suc i)) cr1 sts1 t4 = (Some (bd, cr', sts'), t')"
    using Suc.prems l c [unfolded t2_def] s by (simp add: next_slot [OF g] Let_def split: if_splits)
  from Suc.IH [OF this] obtain ev where ev: "t' = t4 @ ev"
    "\<And>j. j < k \<Longrightarrow> submitted (slot r (Suc i + j)) ev"
    "\<And>a v. Wr a v \<in> set ev \<Longrightarrow> \<exists>j<k. a = slot r (Suc i + j) + XAXIDMA_BD_STS_OFFSET"
    by blast
  obtain x y z where "t1 = t @ [x]" "t3 = t2 @ [y]" "t4 = t3 @ [z]" "\<forall>a v. Wr a v \<notin> {x, y, z}"
    using BdGetLength_log [OF l] BdRead_log [OF c] BdRead_log [OF s] by auto
  then obtain e1 e2 where e: "t4 = t @ e1 @ [Wr (slot r i + XAXIDMA_BD_STS_OFFSET) (sts AND NOT XAXIDMA_BD_STS_COMPLETE_MASK),
      Fls (slot r i)] @ e2" and nowr: "\<And>a v. Wr a v \<notin> set e1" "\<And>a v. Wr a v \<notin> set e2"
    by (intro that [of "[x]" "[y, z]"]) (auto simp: t2_def machine)
  let ?ev = "e1 @ [Wr (slot r i + XAXIDMA_BD_STS_OFFSET) (sts AND NOT XAXIDMA_BD_STS_COMPLETE_MASK),
      Fls (slot r i)] @ e2 @ ev"
  have "submitted (slot r (i + j)) ?ev" if "j < Suc k" for j
  proof (cases j)
    case 0
    then show ?thesis
      by (intro submittedI [OF _ cleared_complete [of sts], of _ e1 _ "e2 @ ev"]) simp
  next
    case (Suc j')
    with ev(2) [of j'] that show ?thesis
      using submitted_append [of "slot r (Suc i + j')" ev "e1 @ [Wr (slot r i + XAXIDMA_BD_STS_OFFSET)
        (sts AND NOT XAXIDMA_BD_STS_COMPLETE_MASK), Fls (slot r i)] @ e2" "[]"] by simp
  qed
  moreover have "\<exists>j<Suc k. a = slot r (i + j) + XAXIDMA_BD_STS_OFFSET" if "Wr a v \<in> set ?ev" for a v
  proof (cases "Wr a v \<in> set ev")
    case True
    from ev(3) [OF this] obtain j where "j < k" "a = slot r (Suc i + j) + XAXIDMA_BD_STS_OFFSET" by blast
    then show ?thesis by (intro exI [of _ "Suc j"]) simp
  next
    case False
    with that nowr have "a = slot r i + XAXIDMA_BD_STS_OFFSET" by auto
    then show ?thesis by (intro exI [of _ 0]) simp
  qed
  moreover have "t' = t @ ?ev" using ev(1) e by simp
  ultimately show ?case by blast
qed

text \<open>C19: when \<open>XAxiDma_BdRingToHw\<close> succeeds on a running channel, the one register write that
  lets the engine look at the set, the tail pointer, is the last thing it does; it carries the
  physical address of the last descriptor of the set, it comes after a memory barrier, and
  before it every descriptor of the set had its completed bit cleared and was flushed from the
  cache.\<close>

theorem tohw_flush_before_tail:
  assumes inv: "ring_inv r" and run: "RunState r = AXIDMA_CHANNEL_NOT_HALTED" and n: "0 < n"
    and step: "BdRingToHw dev r (int n) p t = (XST_SUCCESS, r', t')"
  shows "\<exists>ev. t' = t @ ev @ [Sync, Wr (ChanBase r + XAXIDMA_TDESC_OFFSET)
                           (VIRT_TO_PHYS r (last (take n (pre_group r))))] \<and>
    (\<forall>bd\<in>set (take n (pre_group r)). submitted bd ev) \<and>
    (\<forall>a v. Wr a v \<in> set ev \<longrightarrow> (\<exists>bd\<in>set (take n (pre_group r)). a = bd + XAXIDMA_BD_STS_OFFSET))"
proof -
  from inv obtain i a b c d where s: "ring_shape r i a b c d" by (elim ring_invE)
  have g: "ring_geometry r" and pre: "PreHead r = slot r (i + a + b)" "PreCnt r = int c"
    using s by (auto simp: ring_shape_def)
  let ?h = "i + a + b"
  have c: "n \<le> c" and p: "p = slot r ?h"
    using step n pre by (auto simp: BdRingToHw_def split: if_splits)
  have grp: "take n (pre_group r) = map (slot r) [?h..<?h + n]"
    using c by (simp add: shape_groups [OF s] take_map)
  obtain cr t1 where ct: "BdGetCtrl dev p t = (cr, t1)" by fastforce
  obtain sts t2 where st: "BdGetSts dev p t1 = (sts, t2)" by fastforce
  from step n c pre p ct st obtain bd cr' sts' t3
    where loop: "tohw_loop dev r (n - 1) (slot r ?h) cr sts t2 = (Some (bd, cr', sts'), t3)"
    by (auto simp: BdRingToHw_def nat_diff_distrib split: if_splits prod.splits option.splits)
  obtain len t4 where ln: "BdGetLength dev bd t3 = (len, t4)" by fastforce
  let ?w = "[Wr (bd + XAXIDMA_BD_STS_OFFSET) (sts' AND NOT XAXIDMA_BD_STS_COMPLETE_MASK), Fls bd]"
  have t': "t' = t4 @ ?w @ [Sync, Wr (ChanBase r + XAXIDMA_TDESC_OFFSET) (VIRT_TO_PHYS r bd)]"
    using step n c pre p ct st loop ln run
    by (auto simp: BdRingToHw_def Let_def nat_diff_distrib machine VIRT_TO_PHYS_def split: if_splits prod.splits)
  obtain x y z where reads: "t2 = t @ [x, y]" "t4 = t3 @ [z]" "\<forall>a v. Wr a v \<notin> {x, y, z}"
    using BdGetCtrl_log [OF ct] BdGetSts_log [OF st] BdGetLength_log [OF ln] by auto
  from tohw_loop_log [OF g loop] obtain ev where ev: "t3 = t2 @ ev"
    "\<And>j. j < n - 1 \<Longrightarrow> submitted (slot r (?h + j)) ev"
    "\<And>a v. Wr a v \<in> set ev \<Longrightarrow> \<exists>j<n - 1. a = slot r (?h + j) + XAXIDMA_BD_STS_OFFSET"
    by blast
  have bd: "bd = slot r (?h + (n - 1))"
    by (rule tohw_loop_last [OF g loop])
  let ?ev = "[x, y] @ ev @ z # ?w"
  have sub: "submitted (slot r (?h + j)) ?ev" if "j < n" for j
  proof (cases "j = n - 1")
    case True
    with bd show ?thesis
      by (intro submittedI [OF _ cleared_complete [of sts'], of _ "[x, y] @ ev @ [z]" _ "[]"]) simp
  next
    case False
    with that ev(2) show ?thesis by (intro submitted_append) simp
  qed
  have wr: "\<exists>j<n. a = slot r (?h + j) + XAXIDMA_BD_STS_OFFSET" if "Wr a v \<in> set ?ev" for a v
  proof (cases "Wr a v \<in> set ev")
    case True
    with ev(3) show ?thesis by (meson less_imp_diff_less less_le_trans diff_le_self)
  next
    case False
    with that reads bd have "a = slot r (?h + (n - 1)) + XAXIDMA_BD_STS_OFFSET" by auto
    with n show ?thesis by (intro exI [of _ "n - 1"]) simp
  qed
  have mem: "x \<in> set (take n (pre_group r)) \<longleftrightarrow> (\<exists>j<n. x = slot r (?h + j))" for x
    unfolding grp by (auto simp: image_iff) (metis add.commute add_diff_cancel_left' diff_less_mono le_iff_add less_diff_conv2)
  have "\<forall>bd\<in>set (take n (pre_group r)). submitted bd ?ev"
  proof
    fix x assume "x \<in> set (take n (pre_group r))"
    then obtain j where "j < n" "x = slot r (?h + j)" unfolding mem by blast
    then show "submitted x ?ev" using sub [of j] by (simp only:)
  qed
  moreover have "\<forall>a v. Wr a v \<in> set ?ev \<longrightarrow> (\<exists>bd\<in>set (take n (pre_group r)). a = bd + XAXIDMA_BD_STS_OFFSET)"
  proof (intro allI impI)
    fix x v assume "Wr x v \<in> set ?ev"
    from wr [OF this] obtain j where j: "j < n" "x = slot r (?h + j) + XAXIDMA_BD_STS_OFFSET" by blast
    then have "slot r (?h + j) \<in> set (take n (pre_group r))" using mem by blast
    with j(2) show "\<exists>bd\<in>set (take n (pre_group r)). x = bd + XAXIDMA_BD_STS_OFFSET" by blast
  qed
  moreover have "last (take n (pre_group r)) = bd"
    using n bd by (simp add: grp last_map)
  moreover from this have "t' = t @ ?ev @ [Sync, Wr (ChanBase r + XAXIDMA_TDESC_OFFSET) (VIRT_TO_PHYS r (last (take n (pre_group r))))]"
    using t' ev(1) reads(1,2) by simp
  ultimately show ?thesis by blast
qed

text \<open>The same ring before the two descriptors were handed over.\<close>

definition filled_ring :: XAxiDma_BdRing where
  "filled_ring = sample_ring\<lparr>HwCnt := 0, HwTail := 0x1040, PreHead := 0x1080, PreCnt := 2\<rparr>"

lemma filled_ring_inv: "ring_inv filled_ring"
  by (rule ring_invI [of _ 1 1 0 2 1])
    (auto simp: ring_shape_def filled_ring_def sample_ring_def ring_geometry_def slot_def ring_size_def
      intro!: exI [of _ 1])

theorem tohw_flush_before_tail_witness:
  "\<exists>t' ev. BdRingToHw done_device filled_ring 2 0x1080 [] = (XST_SUCCESS, sample_ring, t') \<and>
     t' = ev @ [Sync, Wr 0x41E00040 0x10C0] \<and> submitted 0x1080 ev \<and> submitted 0x10C0 ev"
proof -
  define t' where "t' = snd (snd (BdRingToHw done_device filled_ring (int 2) 0x1080 []))"
  have run: "BdRingToHw done_device filled_ring (int 2) 0x1080 [] = (XST_SUCCESS, sample_ring, t')"
    unfolding t'_def by code_simp
  have grp: "take 2 (pre_group filled_ring) = [0x1080, 0x10C0]" by code_simp
  have regs: "RunState filled_ring = AXIDMA_CHANNEL_NOT_HALTED" "ChanBase filled_ring + 0x10 = 0x41E00040"
    "VIRT_TO_PHYS filled_ring 0x10C0 = 0x10C0"
    by (simp_all add: filled_ring_def sample_ring_def VIRT_TO_PHYS_def)
  from tohw_flush_before_tail [OF filled_ring_inv regs(1) _ run] obtain ev
    where "t' = ev @ [Sync, Wr 0x41E00040 0x10C0]" "submitted 0x1080 ev" "submitted 0x10C0 ev"
    unfolding grp using regs by auto
  with run show ?thesis by (metis of_nat_numeral)
qed

section \<open>Starting a channel\<close>

text \<open>The search for a descriptor to start with makes at most one turn around the ring.\<close>

lemma find_cdesc_returns:
  assumes g: "ring_geometry r" and restart: "BdaRestart r = slot r j"
    and d: "d < ring_size r" "slot r (i + Suc d) = slot r j"
  shows "find_cdesc dev r (slot r i) t \<noteq> None"
  using d
proof (induction d arbitrary: i t)
  case 0
  then show ?case
    by (subst find_cdesc.simps) (simp add: Let_def next_slot [OF g] restart del: not_None_eq split: prod.splits)
next
  case (Suc d)
  then have "find_cdesc dev r (slot r (Suc i)) t' \<noteq> None" for t' by simp
  then show ?case
    by (subst find_cdesc.simps) (auto simp: Let_def next_slot [OF g] simp del: not_None_eq split: prod.splits)
qed

lemma start_hw_returns:
  assumes g: "ring_geometry r" and restart: "BdaRestart r = slot r j"
  shows "StartBdRingHw dev r t \<noteq> None"
proof -
  have "slot r (j + Suc (ring_size r - 1)) = slot r j"
    using ring_size_pos [OF g] by (simp add: slot_wrap)
  then have "find_cdesc dev r (slot r j) t' \<noteq> None" for t'
    using find_cdesc_returns [OF g restart, of "ring_size r - 1" j] ring_size_pos [OF g] by simp
  then show ?thesis
    unfolding StartBdRingHw_def restart
    by (auto simp: Let_def simp del: not_None_eq split: prod.splits option.splits)
qed

text \<open>Starting a channel terminates, whatever the descriptors and the registers hold, when the
  restart address is a descriptor of the ring (it is after creation and after a snapshot, if
  physical and virtual addresses coincide); a ring reported as started is one that the
  hardware reports as not halted, and no other field of the ring changes.\<close>

theorem start_terminates:
  assumes g: "ring_geometry r" and restart: "BdaRestart r = slot r j"
  shows "\<exists>st r' t'. BdRingStart dev r t = Some (st, r', t') \<and> (r' = r \<or> (\<exists>n. r' = r\<lparr>RunState := n\<rparr>)) \<and>
     (st = XST_SUCCESS \<and> RunState r \<noteq> AXIDMA_CHANNEL_NOT_HALTED \<longrightarrow>
        (\<exists>v. Rd (ChanBase r + XAXIDMA_SR_OFFSET) v \<in> set t' \<and> v AND XAXIDMA_HALTED_MASK = 0 \<and>
           RunState r' = AXIDMA_CHANNEL_NOT_HALTED))"
proof -
  from start_hw_returns [OF assms] have "BdRingStart dev r t \<noteq> None"
    by (auto simp: BdRingStart_def Let_def simp del: not_None_eq split: prod.splits option.splits)
  then obtain st r' t' where run: "BdRingStart dev r t = Some (st, r', t')" by auto
  have "\<exists>v. Rd (ChanBase r + XAXIDMA_SR_OFFSET) v \<in> set t' \<and> v AND XAXIDMA_HALTED_MASK = 0 \<and>
           RunState r' = AXIDMA_CHANNEL_NOT_HALTED"
    if success: "st = XST_SUCCESS" "RunState r \<noteq> AXIDMA_CHANNEL_NOT_HALTED"
  proof -
    obtain started t0 where s0: "BdRingHwIsStarted dev r t = (started, t0)" by fastforce
    obtain r1 t1 where mid: "(if started then Some (r, t0)
         else map_option (\<lambda>(_, r, t). (r, t)) (StartBdRingHw dev r t0)) = Some (r1, t1)"
      using run success s0
      by (cases "if started then Some (r, t0) else map_option (\<lambda>(_, r, t). (r, t)) (StartBdRingHw dev r t0)")
        (auto simp: BdRingStart_def split: if_splits)
    have base: "ChanBase r1 = ChanBase r"
      using mid by (auto simp: StartBdRingHw_def Let_def split: if_splits prod.splits option.splits)
    obtain started' t2 where s1: "BdRingHwIsStarted dev r1 t1 = (started', t2)" by fastforce
    have t2: "t2 = t1 @ [Rd (ChanBase r + XAXIDMA_SR_OFFSET) (reg dev t1 (ChanBase r + XAXIDMA_SR_OFFSET))]"
        "started' \<longleftrightarrow> reg dev t1 (ChanBase r + XAXIDMA_SR_OFFSET) AND XAXIDMA_HALTED_MASK = 0"
      using s1 base by (auto simp: BdRingHwIsStarted_def machine)
    have rest: "BdRingStart dev r t = (if \<not> started' then Some (XST_DMA_ERROR, r1, t2)
       else let r = r1\<lparr>RunState := AXIDMA_CHANNEL_NOT_HALTED\<rparr>; t = t2
            in if HwCnt r > 0
                       then
                         let (sts, t) = BdRead dev (HwTail r) XAXIDMA_BD_STS_OFFSET (t @ [Inv (HwTail r)])
                         in if sts AND XAXIDMA_BD_STS_COMPLETE_MASK = 0
                            then Some (XST_SUCCESS, r,
                              WriteReg (ChanBase r) XAXIDMA_TDESC_OFFSET (VIRT_TO_PHYS r (HwTail r)) t)
                            else Some (XST_SUCCESS, r, t)
                       else Some (XST_SUCCESS, r, t))"
      using success run s0 mid s1 unfolding BdRingStart_def by (auto simp: Let_def split: if_splits)
    then have "started'" "RunState r' = AXIDMA_CHANNEL_NOT_HALTED" "set t2 \<subseteq> set t'"
      using run success by (auto simp: Let_def machine split: if_splits prod.splits)
    with t2 show ?thesis by auto
  qed
  with run start_ring [OF run] show ?thesis by blast
qed

theorem start_terminates_witness:
  "\<exists>t'. BdRingStart done_device (sample_ring\<lparr>RunState := 2\<rparr>) [] = Some (XST_SUCCESS, sample_ring, t') \<and>
        (\<exists>v. Rd 0x41E00034 v \<in> set t' \<and> v AND 1 = 0)"
proof -
  let ?r = "sample_ring\<lparr>RunState := 2\<rparr>"
  have g: "ring_geometry ?r" using sample_ring_inv by (auto simp: ring_shape_def elim: ring_invE)
  have restart: "BdaRestart ?r = slot ?r 0" by (simp add: sample_ring_def slot_def ring_size_def)
  have "fst (the (BdRingStart done_device ?r [])) = XST_SUCCESS"
    "fst (snd (the (BdRingStart done_device ?r []))) = sample_ring"
    by (simp_all add: BdRingStart_def Let_def machine BdRingHwIsStarted_def sample_ring_def done_device_def)
  with start_terminates [OF g restart, of done_device "[]"] show ?thesis
    by (auto simp: sample_ring_def)
qed

section \<open>Properties of whole runs\<close>

text \<open>C4: from creation on, under any sequence of calls of the driver with any arguments, and
  whatever the engine answers, every descriptor of the ring is in exactly one of the four
  groups, the groups together are all the descriptors, and the four counters are non-negative
  and add up to the size of the ring. (\<open>alignment * count\<close> must be below \<open>2^32\<close>; the creation
  does not check that.)\<close>

theorem ring_partition:
  assumes "BdRingCreate r0 phys virt al n t = (XST_SUCCESS, r1, t')" and "uint al * n < 2 ^ 32"
    and "ring_run r1 r"
  shows "distinct (post_group r @ hw_group r @ pre_group r @ free_group r) \<and>
    set (post_group r @ hw_group r @ pre_group r @ free_group r) = slot r ` {0..<ring_size r} \<and>
    length (post_group r @ hw_group r @ pre_group r @ free_group r) = ring_size r \<and>
    0 \<le> PostCnt r \<and> 0 \<le> HwCnt r \<and> 0 \<le> PreCnt r \<and> 0 \<le> FreeCnt r \<and>
    PostCnt r + HwCnt r + PreCnt r + FreeCnt r = AllCnt r"
proof -
  have inv: "ring_inv r"
    using create_ring [OF assms(1,2)] ring_run_inv [OF assms(3)] by blast
  then obtain i a b c d where s: "ring_shape r i a b c d" by (elim ring_invE)
  then have "AllCnt r = int (ring_size r)"
    by (auto simp: ring_shape_def ring_size_def ring_geometry_def)
  with groups_partition [OF inv] s show ?thesis
    by (auto simp: shape_groups [OF s]) (auto simp: ring_shape_def)
qed

text \<open>Calls that hand descriptors to the engine and take them back, in any interleaving.\<close>

inductive transfer_run :: "XAxiDma_BdRing \<Rightarrow> XAxiDma_BdRing \<Rightarrow> bool" where
  transfer_refl: "transfer_run r r"
| transfer_tohw: "transfer_run r r' \<Longrightarrow> BdRingToHw dev r' n p t = (st, r'', t') \<Longrightarrow> transfer_run r r''"
| transfer_fromhw: "transfer_run r r' \<Longrightarrow> BdRingFromHw dev r' limit t = (m, p, r'', t') \<Longrightarrow> transfer_run r r''"

text \<open>C14: descriptors come back completed in the order in which they were prepared: over any
  interleaving of \<open>XAxiDma_BdRingToHw\<close> and \<open>XAxiDma_BdRingFromHw\<close>, failed calls included,
  the completed group grows by a prefix of what was with the hardware followed by what was in
  preparation, and nothing is lost, duplicated or reordered.\<close>

theorem transfer_order:
  assumes "transfer_run r r'" and "ring_inv r"
  shows "ring_inv r' \<and> post_group r' @ hw_group r' @ pre_group r' = post_group r @ hw_group r @ pre_group r \<and>
    free_group r' = free_group r"
  using assms
proof (induction rule: transfer_run.induct)
  case (transfer_tohw r r' dev n p t st r'' t')
  show ?case
  proof (cases "st = XST_SUCCESS")
    case True
    with transfer_tohw(2) have "n = int (nat n)" by (auto simp: BdRingToHw_def split: if_splits)
    with transfer_tohw(2) True have "tohw_step r' (nat n) r''" by (auto simp: tohw_step_def)
    then show ?thesis
      using transfer_tohw.IH [OF transfer_tohw.prems] transfer.order_kept [of r' "nat n" r''] tohw_groups [of r' "nat n" r'']
      by simp
  qed (use transfer_tohw failed_tohw in blast)
next
  case (transfer_fromhw r r' dev limit t m p r'' t')
  have "fromhw_step r' (nat m) r''"
    using transfer_fromhw(2) fromhw_count_nonneg [OF transfer_fromhw(2)] unfolding fromhw_step_def by (intro exI) simp
  then show ?case
    using transfer_fromhw.IH [OF transfer_fromhw.prems] transfer.order_kept [of r' "nat m" r''] fromhw_groups [of r' "nat m" r'']
    by simp
qed simp

text \<open>\<open>XAxiDma_BdRingCreate\<close> checks that the list does not wrap around the end of memory with
  a product that itself wraps: 67,108,865 descriptors of 64 bytes (4 GB and 64 bytes) are
  accepted at any aligned address, and only the first 64 bytes are counted as the ring.\<close>

theorem create_accepts_too_many:
  "\<exists>r'. fst (BdRingCreate r 0x1000 0x1000 64 67108865 t) = XST_SUCCESS \<and>
     fst (snd (BdRingCreate r 0x1000 0x1000 64 67108865 t)) = r' \<and>
     AllCnt r' = 67108865 \<and> Length r' = 64 \<and> LastBdAddr r' = FirstBdAddr r'"
proof -
  have "bd_separation 64 = 64" by (simp add: bd_separation_def)
  then show ?thesis
    by (simp add: BdRingCreate_def Let_def link_bds_last case_prod_beta)
qed

theorem ring_partition_witness:
  "\<exists>r. ring_run (fst (snd (BdRingCreate sample_ring 0x1000 0x1000 64 4 []))) r \<and>
     PreCnt r = 2 \<and> FreeCnt r = 2 \<and>
     distinct (post_group r @ hw_group r @ pre_group r @ free_group r)"
proof -
  let ?c = "BdRingCreate sample_ring 0x1000 0x1000 64 4 []"
  let ?a = "BdRingAlloc (fst (snd ?c)) 2"
  have create: "?c = (XST_SUCCESS, fst (snd ?c), snd (snd ?c))" by code_simp
  have run: "ring_run (fst (snd ?c)) (snd (snd ?a))"
    by (rule run_step [OF run_refl step_alloc [of _ 2 "fst ?a" "fst (snd ?a)"]]) simp
  have "PreCnt (snd (snd ?a)) = 2" "FreeCnt (snd (snd ?a)) = 2" by code_simp+
  moreover have "uint (64 :: u32) * 4 < 2 ^ 32" by simp
  ultimately show ?thesis
    using ring_partition [OF create _ run] run by blast
qed

theorem transfer_order_witness:
  "\<exists>r. transfer_run filled_ring r \<and> post_group r = [0x1040, 0x1080, 0x10C0] \<and>
     post_group r @ hw_group r @ pre_group r = [0x1040, 0x1080, 0x10C0]"
proof -
  let ?h = "BdRingToHw done_device filled_ring 2 0x1080 []"
  let ?f = "BdRingFromHw done_device sample_ring 8 []"
  let ?r = "sample_ring\<lparr>HwCnt := 0, PostCnt := 3, HwHead := 0x1000\<rparr>"
  have h: "?h = (XST_SUCCESS, sample_ring, snd (snd ?h))" by code_simp
  have f: "?f = (2, 0x1080, ?r, snd (snd (snd ?f)))" by code_simp
  have run: "transfer_run filled_ring ?r"
    by (rule transfer_fromhw [OF transfer_tohw [OF transfer_refl h] f])
  have "post_group filled_ring @ hw_group filled_ring @ pre_group filled_ring = [0x1040, 0x1080, 0x10C0]"
    "post_group ?r = [0x1040, 0x1080, 0x10C0]"
    by code_simp+
  with transfer_order [OF run filled_ring_inv] run show ?thesis by auto
qed

text \<open>C33: moving \<open>n\<close> descriptors ahead with one addition on addresses is the same as \<open>n\<close> single
  steps around the ring, and moving back undoes it, for every ring that fits in memory, one
  that ends at the very top of the address space included.\<close>

theorem seek_steps:
  assumes "ring_geometry r" and "n \<le> ring_size r"
  shows "RING_SEEKAHEAD r (slot r i) (int n) = (BdRingNext r ^^ n) (slot r i) \<and>
    RING_SEEKBACK r (RING_SEEKAHEAD r (slot r i) (int n)) (int n) = slot r i \<and>
    BdRingPrev r (BdRingNext r (slot r i)) = slot r i"
proof -
  have "(BdRingNext r ^^ k) (slot r i) = slot r (i + k)" for k
    by (induction k) (simp_all add: next_slot [OF assms(1)])
  with assms show ?thesis
    by (simp add: seekahead_slot seekback_slot next_slot prev_slot)
qed

theorem seek_steps_witness:
  "RING_SEEKAHEAD sample_ring 0x1080 3 = (BdRingNext sample_ring ^^ 3) 0x1080 \<and>
   (BdRingNext sample_ring ^^ 3) 0x1080 = 0x1040"
proof -
  have g: "ring_geometry sample_ring" using sample_ring_inv by (auto simp: ring_shape_def elim: ring_invE)
  have "slot sample_ring 2 = 0x1080" "ring_size sample_ring = 4" by code_simp+
  moreover have "(BdRingNext sample_ring ^^ 3) 0x1080 = 0x1040" by code_simp
  ultimately show ?thesis using seek_steps [OF g, of 3 2] by simp
qed

end
