(* ===== verification/Axi_Dma.thy ===== *)
theory Axi_Dma
  imports Ring_Fifo
begin

text \<open>
  The DMA engine as a whole: \<open>xaxidma.h\<close>, \<open>xaxidma.c\<close>, the configuration table
  \<open>xaxidma_g.c\<close> with the parameters of this design, and \<open>xaxidma_sinit.c\<close>. The engine has a
  transmit and a receive channel; the two engines that capture ADC and DDC samples have a
  receive channel only and no scatter-gather, so the server uses \<open>XAxiDma_SimpleTransfer\<close>.
\<close>

section \<open>State\<close>

record XAxiDma =
  RegBase :: u32
  HasMm2S :: bool
  HasS2Mm :: bool
  Initialized :: bool
  HasSg :: bool
  TxBdRing :: XAxiDma_BdRing
  RxBdRing :: XAxiDma_BdRing

record XAxiDma_Config =
  DeviceId :: u32
  BaseAddr :: u32
  CfgHasStsCntrlStrm :: u32
  CfgHasMm2S :: bool
  CfgHasMm2SDRE :: u32
  Mm2SDataWidth :: u32
  CfgHasS2Mm :: bool
  CfgHasS2MmDRE :: u32
  S2MmDataWidth :: u32
  CfgHasSg :: bool

definition XAxiDma_ConfigTable :: "XAxiDma_Config list" where
  "XAxiDma_ConfigTable =
     [\<lparr>DeviceId = 0, BaseAddr = 0x41E20000, CfgHasStsCntrlStrm = 1, CfgHasMm2S = True,
       CfgHasMm2SDRE = 1, Mm2SDataWidth = 32, CfgHasS2Mm = True, CfgHasS2MmDRE = 1,
       S2MmDataWidth = 32, CfgHasSg = True\<rparr>,
      \<lparr>DeviceId = 1, BaseAddr = 0x41E40000, CfgHasStsCntrlStrm = 1, CfgHasMm2S = False,
       CfgHasMm2SDRE = 0, Mm2SDataWidth = 32, CfgHasS2Mm = True, CfgHasS2MmDRE = 0,
       S2MmDataWidth = 32, CfgHasSg = False\<rparr>,
      \<lparr>DeviceId = 2, BaseAddr = 0x41E00000, CfgHasStsCntrlStrm = 1, CfgHasMm2S = False,
       CfgHasMm2SDRE = 0, Mm2SDataWidth = 32, CfgHasS2Mm = True, CfgHasS2MmDRE = 0,
       S2MmDataWidth = 128, CfgHasSg = False\<rparr>]"

definition LookupConfig :: "u32 \<Rightarrow> XAxiDma_Config option" where
  "LookupConfig ident = List.find (\<lambda>c. DeviceId c = ident) XAxiDma_ConfigTable"

text \<open>The instance after \<open>memset\<close>.\<close>

definition zero_ring :: XAxiDma_BdRing where
  "zero_ring =
     \<lparr>ChanBase = 0, IsRxChannel = False, RunState = 0, HasStsCntrlStrm = 0, HasDRE = 0,
      DataWidth = 0, FirstBdPhysAddr = 0, FirstBdAddr = 0, LastBdAddr = 0, Length = 0,
      Separation = 0, FreeHead = 0, PreHead = 0, HwHead = 0, HwTail = 0, PostHead = 0,
      BdaRestart = 0, FreeCnt = 0, PreCnt = 0, HwCnt = 0, PostCnt = 0, AllCnt = 0\<rparr>"

definition zero_dma :: XAxiDma where
  "zero_dma =
     \<lparr>RegBase = 0, HasMm2S = False, HasS2Mm = False, Initialized = False, HasSg = False,
      TxBdRing = zero_ring, RxBdRing = zero_ring\<rparr>"

section \<open>Reset and initialization\<close>

definition Reset :: "device \<Rightarrow> XAxiDma \<Rightarrow> trace \<Rightarrow> XAxiDma \<times> trace" where
  "Reset dev d t =
     (let (d, t) =
            (if HasSg d
             then let (tx, t) = BdRingSnapShotCurrBd dev (TxBdRing d) t;
                      (rx, t) = BdRingSnapShotCurrBd dev (RxBdRing d) t
                  in (d\<lparr>TxBdRing := tx, RxBdRing := rx\<rparr>, t)
             else (d, t));
          base = RegBase d + (if HasMm2S d then XAXIDMA_TX_OFFSET else XAXIDMA_RX_OFFSET);
          t = WriteReg base XAXIDMA_CR_OFFSET XAXIDMA_CR_RESET_MASK t;
          d = (if HasMm2S d then d\<lparr>TxBdRing := (TxBdRing d)\<lparr>RunState := AXIDMA_CHANNEL_HALTED\<rparr>\<rparr> else d);
          d = (if HasS2Mm d then d\<lparr>RxBdRing := (RxBdRing d)\<lparr>RunState := AXIDMA_CHANNEL_HALTED\<rparr>\<rparr> else d)
      in (d, t))"

text \<open>One channel of \<open>XAxiDma_ResetIsDone\<close>; an absent channel is not read.\<close>

definition reset_bit :: "device \<Rightarrow> bool \<Rightarrow> u32 \<Rightarrow> trace \<Rightarrow> bool \<times> trace" where
  "reset_bit dev present base t =
     (if present
      then let (v, t) = ReadReg dev base XAXIDMA_CR_OFFSET t
           in (v AND XAXIDMA_CR_RESET_MASK \<noteq> 0, t)
      else (False, t))"

definition ResetIsDone :: "device \<Rightarrow> XAxiDma \<Rightarrow> trace \<Rightarrow> bool \<times> trace" where
  "ResetIsDone dev d t =
     (let (pending, t) = reset_bit dev (HasMm2S d) (ChanBase (TxBdRing d)) t
      in if pending then (False, t)
         else let (pending, t) = reset_bit dev (HasS2Mm d) (ChanBase (RxBdRing d)) t
              in (\<not> pending, t))"

abbreviation "XAXIDMA_RESET_TIMEOUT \<equiv> (500 :: nat)"

fun wait_reset :: "device \<Rightarrow> XAxiDma \<Rightarrow> nat \<Rightarrow> trace \<Rightarrow> nat \<times> trace" where
  "wait_reset dev d 0 t = (0, t)"
| "wait_reset dev d (Suc n) t =
     (let (ok, t) = ResetIsDone dev d t in if ok then (Suc n, t) else wait_reset dev d n t)"

definition channel_ring :: "u32 \<Rightarrow> bool \<Rightarrow> u32 \<Rightarrow> u32 \<Rightarrow> u32 \<Rightarrow> XAxiDma_BdRing \<Rightarrow> XAxiDma_BdRing" where
  "channel_ring base present strm dre width r =
     (if present then r\<lparr>ChanBase := base, HasStsCntrlStrm := strm, HasDRE := dre,
                        DataWidth := drop_bit 3 width\<rparr> else r)"

definition CfgInitialize ::
    "device \<Rightarrow> XAxiDma \<Rightarrow> XAxiDma_Config option \<Rightarrow> trace \<Rightarrow> xst \<times> XAxiDma \<times> trace" where
  "CfgInitialize dev d cfg t =
     (case cfg of
        None \<Rightarrow> (XST_INVALID_PARAM, d\<lparr>Initialized := False\<rparr>, t)
      | Some c \<Rightarrow>
          let d = zero_dma\<lparr>RegBase := BaseAddr c, HasMm2S := CfgHasMm2S c,
                HasS2Mm := CfgHasS2Mm c, HasSg := CfgHasSg c,
                TxBdRing := channel_ring (BaseAddr c + XAXIDMA_TX_OFFSET) (CfgHasMm2S c)
                  (CfgHasStsCntrlStrm c) (CfgHasMm2SDRE c) (Mm2SDataWidth c)
                  (zero_ring\<lparr>RunState := AXIDMA_CHANNEL_HALTED, IsRxChannel := False\<rparr>),
                RxBdRing := channel_ring (BaseAddr c + XAXIDMA_RX_OFFSET) (CfgHasS2Mm c)
                  (CfgHasStsCntrlStrm c) (CfgHasS2MmDRE c) (S2MmDataWidth c)
                  (zero_ring\<lparr>RunState := AXIDMA_CHANNEL_HALTED, IsRxChannel := True\<rparr>)\<rparr>;
              (d, t) = Reset dev d t;
              (timeout, t) = wait_reset dev d XAXIDMA_RESET_TIMEOUT t
          in if timeout = 0 then (XST_DMA_ERROR, d\<lparr>Initialized := False\<rparr>, t)
             else (XST_SUCCESS, d\<lparr>Initialized := True\<rparr>, t))"

section \<open>Running the engine\<close>

text \<open>
  One channel of \<open>XAxiDma_Start\<close>: a halted channel is started through its ring with
  scatter-gather and by its run bit without. \<open>None\<close> inside the option is the error return.
\<close>

definition start_channel ::
    "device \<Rightarrow> bool \<Rightarrow> XAxiDma_BdRing \<Rightarrow> trace \<Rightarrow> (bool \<times> XAxiDma_BdRing \<times> trace) option" where
  "start_channel dev sg r t =
     (if RunState r \<noteq> AXIDMA_CHANNEL_HALTED then Some (True, r, t)
      else if sg
           then case StartBdRingHw dev r t of
                  None \<Rightarrow> None
                | Some (st, r, t) \<Rightarrow>
                    if st \<noteq> XST_SUCCESS then Some (False, r, t)
                    else Some (True, r\<lparr>RunState := AXIDMA_CHANNEL_NOT_HALTED\<rparr>, t)
           else Some (True, r\<lparr>RunState := AXIDMA_CHANNEL_NOT_HALTED\<rparr>,
                      cr_set dev (ChanBase r) XAXIDMA_CR_RUNSTOP_MASK t))"

definition Start :: "device \<Rightarrow> XAxiDma \<Rightarrow> trace \<Rightarrow> (xst \<times> XAxiDma \<times> trace) option" where
  "Start dev d t =
     (if \<not> Initialized d then Some (XST_NOT_SGDMA, d, t)
      else
        case (if HasMm2S d then start_channel dev (HasSg d) (TxBdRing d) t
              else Some (True, TxBdRing d, t)) of
          None \<Rightarrow> None
        | Some (ok, tx, t) \<Rightarrow>
            let d = d\<lparr>TxBdRing := tx\<rparr>
            in if \<not> ok then Some (XST_DMA_ERROR, d, t)
               else case (if HasS2Mm d then start_channel dev (HasSg d) (RxBdRing d) t
                          else Some (True, RxBdRing d, t)) of
                      None \<Rightarrow> None
                    | Some (ok, rx, t) \<Rightarrow>
                        Some (if ok then XST_SUCCESS else XST_DMA_ERROR, d\<lparr>RxBdRing := rx\<rparr>, t))"

definition Pause :: "device \<Rightarrow> XAxiDma \<Rightarrow> trace \<Rightarrow> xst \<times> XAxiDma \<times> trace" where
  "Pause dev d t =
     (if \<not> Initialized d then (XST_NOT_SGDMA, d, t)
      else
        let (d, t) =
              (if HasMm2S d
               then (d\<lparr>TxBdRing := (TxBdRing d)\<lparr>RunState := AXIDMA_CHANNEL_HALTED\<rparr>\<rparr>,
                     if \<not> HasSg d then cr_clear dev (ChanBase (TxBdRing d)) XAXIDMA_CR_RUNSTOP_MASK t else t)
               else (d, t));
            (d, t) =
              (if HasS2Mm d
               then (d\<lparr>RxBdRing := (RxBdRing d)\<lparr>RunState := AXIDMA_CHANNEL_HALTED\<rparr>\<rparr>,
                     if \<not> HasSg d then cr_clear dev (ChanBase (RxBdRing d)) XAXIDMA_CR_RUNSTOP_MASK t else t)
               else (d, t))
        in (XST_SUCCESS, d, t))"

definition Started :: "device \<Rightarrow> XAxiDma \<Rightarrow> trace \<Rightarrow> bool \<times> trace" where
  "Started dev d t =
     (if \<not> Initialized d then (False, t)
      else
        let (tx, t) = (if HasMm2S d then BdRingHwIsStarted dev (TxBdRing d) t else (True, t))
        in if \<not> tx then (False, t)
           else if HasS2Mm d then BdRingHwIsStarted dev (RxBdRing d) t else (True, t))"

text \<open>One channel of the last part of \<open>XAxiDma_Resume\<close>.\<close>

definition resume_channel ::
    "device \<Rightarrow> bool \<Rightarrow> XAxiDma_BdRing \<Rightarrow> trace \<Rightarrow> (bool \<times> XAxiDma_BdRing \<times> trace) option" where
  "resume_channel dev sg r t =
     (if sg
      then case BdRingStart dev r t of
             None \<Rightarrow> None
           | Some (st, r, t) \<Rightarrow>
               if st \<noteq> XST_SUCCESS then Some (False, r, t)
               else Some (True, r\<lparr>RunState := AXIDMA_CHANNEL_NOT_HALTED\<rparr>, t)
      else Some (True, r\<lparr>RunState := AXIDMA_CHANNEL_NOT_HALTED\<rparr>, t))"

definition Resume :: "device \<Rightarrow> XAxiDma \<Rightarrow> trace \<Rightarrow> (xst \<times> XAxiDma \<times> trace) option" where
  "Resume dev d t =
     (if \<not> Initialized d then Some (XST_NOT_SGDMA, d, t)
      else
        let (started, t) = Started dev d t
        in case (if started then Some (XST_SUCCESS, d, t) else Start dev d t) of
             None \<Rightarrow> None
           | Some (st, d, t) \<Rightarrow>
               if st \<noteq> XST_SUCCESS then Some (st, d, t)
               else
                 case (if HasMm2S d then resume_channel dev (HasSg d) (TxBdRing d) t
                       else Some (True, TxBdRing d, t)) of
                   None \<Rightarrow> None
                 | Some (ok, tx, t) \<Rightarrow>
                     let d = d\<lparr>TxBdRing := tx\<rparr>
                     in if \<not> ok then Some (XST_DMA_ERROR, d, t)
                        else case (if HasS2Mm d then resume_channel dev (HasSg d) (RxBdRing d) t
                                   else Some (True, RxBdRing d, t)) of
                               None \<Rightarrow> None
                             | Some (ok, rx, t) \<Rightarrow>
                                 Some (if ok then XST_SUCCESS else XST_DMA_ERROR, d\<lparr>RxBdRing := rx\<rparr>, t))"

section \<open>Simple transfers\<close>

definition Busy :: "device \<Rightarrow> XAxiDma \<Rightarrow> u32 \<Rightarrow> trace \<Rightarrow> bool \<times> trace" where
  "Busy dev d dir t =
     (let (v, t) = ReadReg dev (RegBase d + XAXIDMA_RX_OFFSET * dir) XAXIDMA_SR_OFFSET t
      in (v AND XAXIDMA_IDLE_MASK = 0, t))"

text \<open>
  The two branches of \<open>XAxiDma_SimpleTransfer\<close> differ in the channel only: its presence and
  its ring. The address register has the same offset for both directions.
\<close>

definition simple_channel ::
    "device \<Rightarrow> XAxiDma \<Rightarrow> bool \<Rightarrow> XAxiDma_BdRing \<Rightarrow> u32 \<Rightarrow> int \<Rightarrow> u32 \<Rightarrow> trace \<Rightarrow> xst \<times> trace" where
  "simple_channel dev d present r buf len dir t =
     (if \<not> present then (XST_FAILURE, t)
      else
        let (v, t) = ReadReg dev (ChanBase r) XAXIDMA_SR_OFFSET t;
            (busy, t) = (if v AND XAXIDMA_HALTED_MASK = 0 then Busy dev d dir t else (False, t))
        in if busy then (XST_FAILURE, t)
           else if buf AND (DataWidth r - 1) \<noteq> 0 \<and> HasDRE r = 0 then (XST_INVALID_PARAM, t)
           else (XST_SUCCESS,
                 WriteReg (ChanBase r) XAXIDMA_BUFFLEN_OFFSET (of_int len)
                   (cr_set dev (ChanBase r) XAXIDMA_CR_RUNSTOP_MASK
                     (WriteReg (ChanBase r) XAXIDMA_DESTADDR_OFFSET buf t))))"

definition SimpleTransfer ::
    "device \<Rightarrow> XAxiDma \<Rightarrow> u32 \<Rightarrow> int \<Rightarrow> u32 \<Rightarrow> trace \<Rightarrow> xst \<times> trace" where
  "SimpleTransfer dev d buf len dir t =
     (if HasSg d then (XST_FAILURE, t)
      else if len < 1 \<or> 0x7FFFFF < len then (XST_INVALID_PARAM, t)
      else if dir = XAXIDMA_DMA_TO_DEVICE
           then simple_channel dev d (HasMm2S d) (TxBdRing d) buf len dir t
      else if dir = XAXIDMA_DEVICE_TO_DMA
           then simple_channel dev d (HasS2Mm d) (RxBdRing d) buf len dir t
      else (XST_SUCCESS, t))"

section \<open>Interrupts of one direction\<close>

definition IntrEnable :: "device \<Rightarrow> XAxiDma \<Rightarrow> u32 \<Rightarrow> u32 \<Rightarrow> trace \<Rightarrow> trace" where
  "IntrEnable dev d msk dir t =
     cr_set dev (RegBase d + XAXIDMA_RX_OFFSET * dir) (msk AND XAXIDMA_IRQ_ALL_MASK) t"

definition IntrDisable :: "device \<Rightarrow> XAxiDma \<Rightarrow> u32 \<Rightarrow> u32 \<Rightarrow> trace \<Rightarrow> trace" where
  "IntrDisable dev d msk dir t =
     cr_clear dev (RegBase d + XAXIDMA_RX_OFFSET * dir) (msk AND XAXIDMA_IRQ_ALL_MASK) t"

definition IntrGetIrq :: "device \<Rightarrow> XAxiDma \<Rightarrow> u32 \<Rightarrow> trace \<Rightarrow> u32 \<times> trace" where
  "IntrGetIrq dev d dir t =
     (let (v, t) = ReadReg dev (RegBase d + XAXIDMA_RX_OFFSET * dir) XAXIDMA_SR_OFFSET t
      in (v AND XAXIDMA_IRQ_ALL_MASK, t))"

definition IntrAckIrq :: "XAxiDma \<Rightarrow> u32 \<Rightarrow> u32 \<Rightarrow> trace \<Rightarrow> trace" where
  "IntrAckIrq d msk dir t =
     WriteReg (RegBase d + XAXIDMA_RX_OFFSET * dir) XAXIDMA_SR_OFFSET (msk AND XAXIDMA_IRQ_ALL_MASK) t"

section \<open>What the engine is told\<close>

text \<open>The reads of a log that show a channel able to take a transfer: halted, or running and idle.\<close>

definition saw_free :: "u32 \<Rightarrow> u32 \<Rightarrow> trace \<Rightarrow> bool" where
  "saw_free chan base ev \<longleftrightarrow>
     (\<exists>sr. Rd (chan + XAXIDMA_SR_OFFSET) sr \<in> set ev \<and> sr AND XAXIDMA_HALTED_MASK \<noteq> 0) \<or>
     (\<exists>sr. Rd (base + XAXIDMA_SR_OFFSET) sr \<in> set ev \<and> sr AND XAXIDMA_IDLE_MASK \<noteq> 0)"

lemma simple_channel_log:
  assumes "simple_channel dev d present r buf len dir t = (st, t')"
  shows "\<exists>ev. t' = t @ ev \<and>
    (st \<noteq> XST_SUCCESS \<and> writes ev = [] \<or>
     st = XST_SUCCESS \<and> present \<and> (buf AND (DataWidth r - 1) = 0 \<or> HasDRE r \<noteq> 0) \<and>
     (\<exists>cr. writes ev = [(ChanBase r + XAXIDMA_DESTADDR_OFFSET, buf),
          (ChanBase r + XAXIDMA_CR_OFFSET, cr OR XAXIDMA_CR_RUNSTOP_MASK),
          (ChanBase r + XAXIDMA_BUFFLEN_OFFSET, of_int len)]) \<and>
     saw_free (ChanBase r) (RegBase d + XAXIDMA_RX_OFFSET * dir) ev)"
proof (cases present)
  case False
  with assms show ?thesis by (simp add: simple_channel_def)
next
  case True
  define sr where "sr = reg dev t (ChanBase r + XAXIDMA_SR_OFFSET)"
  define t1 where "t1 = t @ [Rd (ChanBase r + XAXIDMA_SR_OFFSET) sr]"
  define b where "b = RegBase d + XAXIDMA_RX_OFFSET * dir"
  define idle where "idle = reg dev t1 (b + XAXIDMA_SR_OFFSET)"
  define ev where "ev = (if sr AND XAXIDMA_HALTED_MASK = 0
     then [Rd (ChanBase r + XAXIDMA_SR_OFFSET) sr, Rd (b + XAXIDMA_SR_OFFSET) idle]
     else [Rd (ChanBase r + XAXIDMA_SR_OFFSET) sr])"
  define busy where "busy \<longleftrightarrow> sr AND XAXIDMA_HALTED_MASK = 0 \<and> idle AND XAXIDMA_IDLE_MASK = 0"
  have nw: "writes ev = []" by (simp add: ev_def)
  have free: "\<not> busy \<Longrightarrow> saw_free (ChanBase r) b (ev @ rest)" for rest
    by (auto simp: saw_free_def ev_def busy_def)
  have run: "simple_channel dev d present r buf len dir t =
    (if busy then (XST_FAILURE, t @ ev)
     else if buf AND (DataWidth r - 1) \<noteq> 0 \<and> HasDRE r = 0 then (XST_INVALID_PARAM, t @ ev)
     else (XST_SUCCESS,
                 WriteReg (ChanBase r) XAXIDMA_BUFFLEN_OFFSET (of_int len)
                   (cr_set dev (ChanBase r) XAXIDMA_CR_RUNSTOP_MASK
                     (WriteReg (ChanBase r) XAXIDMA_DESTADDR_OFFSET buf (t @ ev)))))"
    using True
    by (auto simp: simple_channel_def Busy_def machine Let_def busy_def ev_def sr_def t1_def b_def idle_def)
  show ?thesis
  proof (cases "busy \<or> buf AND (DataWidth r - 1) \<noteq> 0 \<and> HasDRE r = 0")
    case True
    with assms run nw show ?thesis by (intro exI [of _ ev]) (auto split: if_splits)
  next
    case False
    let ?a = "ChanBase r + XAXIDMA_DESTADDR_OFFSET"
    let ?cr = "reg dev (t @ ev @ [Wr ?a buf]) (ChanBase r + XAXIDMA_CR_OFFSET)"
    let ?ev = "ev @ [Wr ?a buf, Rd (ChanBase r + XAXIDMA_CR_OFFSET) ?cr,
      Wr (ChanBase r + XAXIDMA_CR_OFFSET) (?cr OR XAXIDMA_CR_RUNSTOP_MASK),
      Wr (ChanBase r + XAXIDMA_BUFFLEN_OFFSET) (of_int len)]"
    have "t' = t @ ?ev" "st = XST_SUCCESS"
      using assms run False by (auto simp: machine cr_set_def)
    with False nw free \<open>present\<close> show ?thesis
      unfolding b_def by (intro exI [of _ ?ev]) auto
  qed
qed

lemma simple_transfer_log:
  assumes "SimpleTransfer dev d buf len XAXIDMA_DEVICE_TO_DMA t = (st, t')"
  shows "\<exists>ev. t' = t @ ev \<and>
    (st \<noteq> XST_SUCCESS \<and> writes ev = [] \<or>
     st = XST_SUCCESS \<and> \<not> HasSg d \<and> HasS2Mm d \<and> 1 \<le> len \<and> len \<le> 0x7FFFFF \<and>
     (buf AND (DataWidth (RxBdRing d) - 1) = 0 \<or> HasDRE (RxBdRing d) \<noteq> 0) \<and>
     (\<exists>cr. writes ev = [(ChanBase (RxBdRing d) + XAXIDMA_DESTADDR_OFFSET, buf),
          (ChanBase (RxBdRing d) + XAXIDMA_CR_OFFSET, cr OR XAXIDMA_CR_RUNSTOP_MASK),
          (ChanBase (RxBdRing d) + XAXIDMA_BUFFLEN_OFFSET, of_int len)]) \<and>
     saw_free (ChanBase (RxBdRing d)) (RegBase d + XAXIDMA_RX_OFFSET) ev)"
proof -
  consider "HasSg d \<or> len < 1 \<or> 0x7FFFFF < len" | "\<not> HasSg d" "1 \<le> len" "len \<le> 0x7FFFFF"
    by linarith
  then show ?thesis
  proof cases
    case 1
    with assms show ?thesis by (auto simp: SimpleTransfer_def split: if_splits)
  next
    case 2
    with assms have "simple_channel dev d (HasS2Mm d) (RxBdRing d) buf len XAXIDMA_DEVICE_TO_DMA t = (st, t')"
      by (simp add: SimpleTransfer_def)
    from simple_channel_log [OF this] 2 show ?thesis by simp
  qed
qed

text \<open>\<open>XAxiDma_SimpleTransfer\<close> refuses without writing a register, or accepts a length between
  1 and \<open>2^23 - 1\<close> and an aligned buffer and then writes exactly three registers of the right
  channel: the buffer address, the control register with the run bit, and last the length, which
  is what starts the transfer. It does so only after reading that the channel is halted or idle.\<close>

theorem simple_transfer_registers:
  assumes "SimpleTransfer dev d buf len XAXIDMA_DEVICE_TO_DMA t = (st, t')"
  shows "\<exists>ev. t' = t @ ev \<and>
    (st \<noteq> XST_SUCCESS \<and> writes ev = [] \<or>
     st = XST_SUCCESS \<and> \<not> HasSg d \<and> HasS2Mm d \<and> 1 \<le> len \<and> len \<le> 0x7FFFFF \<and>
     (buf AND (DataWidth (RxBdRing d) - 1) = 0 \<or> HasDRE (RxBdRing d) \<noteq> 0) \<and>
     (\<exists>cr. writes ev = [(ChanBase (RxBdRing d) + XAXIDMA_DESTADDR_OFFSET, buf),
          (ChanBase (RxBdRing d) + XAXIDMA_CR_OFFSET, cr OR XAXIDMA_CR_RUNSTOP_MASK),
          (ChanBase (RxBdRing d) + XAXIDMA_BUFFLEN_OFFSET, of_int len)]) \<and>
     saw_free (ChanBase (RxBdRing d)) (RegBase d + XAXIDMA_RX_OFFSET) ev)"
  by (rule simple_transfer_log [OF assms])

lemma ResetIsDone_log:
  "ResetIsDone dev d t = (ok, t') \<Longrightarrow> \<exists>ev. t' = t @ ev \<and> writes ev = [] \<and> length ev \<le> 2"
  by (auto simp: ResetIsDone_def reset_bit_def machine split: if_splits)

lemma wait_reset_log:
  "wait_reset dev d n t = (k, t') \<Longrightarrow> \<exists>ev. t' = t @ ev \<and> writes ev = [] \<and> length ev \<le> 2 * n"
proof (induction n arbitrary: t)
  case (Suc n)
  obtain ok t1 where r: "ResetIsDone dev d t = (ok, t1)" by fastforce
  from ResetIsDone_log [OF r] obtain ev where ev: "t1 = t @ ev" "writes ev = []" "length ev \<le> 2" by auto
  show ?case
  proof (cases ok)
    case True
    with Suc.prems r ev show ?thesis by auto
  next
    case False
    with Suc.prems r have "wait_reset dev d n t1 = (k, t')" by simp
    from Suc.IH [OF this] ev show ?thesis by auto
  qed
qed simp

text \<open>A channel of a simple engine that is ready for transfers into memory.\<close>

definition dma_ready :: "XAxiDma \<Rightarrow> XAxiDma_Config \<Rightarrow> bool" where
  "dma_ready d c \<longleftrightarrow>
     RegBase d = BaseAddr c \<and> HasMm2S d = CfgHasMm2S c \<and> HasS2Mm d = CfgHasS2Mm c \<and>
     HasSg d = CfgHasSg c \<and>
     (CfgHasS2Mm c \<longrightarrow> ChanBase (RxBdRing d) = BaseAddr c + XAXIDMA_RX_OFFSET \<and>
        HasDRE (RxBdRing d) = CfgHasS2MmDRE c \<and> DataWidth (RxBdRing d) = drop_bit 3 (S2MmDataWidth c))"

lemma cfg_initialize_simple:
  assumes run: "CfgInitialize dev d (Some c) t = (st, d', t')" and sg: "\<not> CfgHasSg c"
  shows "dma_ready d' c \<and> (st = XST_SUCCESS \<or> st = XST_DMA_ERROR) \<and>
    (Initialized d' \<longleftrightarrow> st = XST_SUCCESS) \<and>
    (\<exists>ev. t' = t @ [Wr (BaseAddr c + (if CfgHasMm2S c then XAXIDMA_TX_OFFSET else XAXIDMA_RX_OFFSET)) XAXIDMA_CR_RESET_MASK] @ ev \<and>
       writes ev = [] \<and> length ev \<le> 1000)"
proof -
  define d0 where "d0 = zero_dma\<lparr>RegBase := BaseAddr c, HasMm2S := CfgHasMm2S c,
                HasS2Mm := CfgHasS2Mm c, HasSg := CfgHasSg c,
                TxBdRing := channel_ring (BaseAddr c + XAXIDMA_TX_OFFSET) (CfgHasMm2S c)
                  (CfgHasStsCntrlStrm c) (CfgHasMm2SDRE c) (Mm2SDataWidth c)
                  (zero_ring\<lparr>RunState := AXIDMA_CHANNEL_HALTED, IsRxChannel := False\<rparr>),
                RxBdRing := channel_ring (BaseAddr c + XAXIDMA_RX_OFFSET) (CfgHasS2Mm c)
                  (CfgHasStsCntrlStrm c) (CfgHasS2MmDRE c) (S2MmDataWidth c)
                  (zero_ring\<lparr>RunState := AXIDMA_CHANNEL_HALTED, IsRxChannel := True\<rparr>)\<rparr>"
  obtain d1 t1 where r: "Reset dev d0 t = (d1, t1)" by fastforce
  have ready: "dma_ready d1 c" "t1 = t @ [Wr (BaseAddr c + (if CfgHasMm2S c then XAXIDMA_TX_OFFSET else XAXIDMA_RX_OFFSET)) XAXIDMA_CR_RESET_MASK]"
    by (cases "CfgHasMm2S c"; cases "CfgHasS2Mm c";
        use r sg in \<open>auto simp: Reset_def d0_def Let_def machine dma_ready_def channel_ring_def\<close>)+
  obtain k t2 where w: "wait_reset dev d1 XAXIDMA_RESET_TIMEOUT t1 = (k, t2)" by fastforce
  have res: "CfgInitialize dev d (Some c) t =
      (if k = 0 then (XST_DMA_ERROR, d1\<lparr>Initialized := False\<rparr>, t2) else (XST_SUCCESS, d1\<lparr>Initialized := True\<rparr>, t2))"
    using r w unfolding CfgInitialize_def d0_def by (simp add: Let_def)
  from wait_reset_log [OF w] obtain ev where "t2 = t1 @ ev" "writes ev = []" "length ev \<le> 1000" by auto
  with res run ready show ?thesis
    by (auto simp: dma_ready_def split: if_splits)
qed

text \<open>Initialising an engine without scatter-gather always returns: it writes the reset bit of
  one channel and nothing else, polls at most 500 times, and reports success exactly when it
  marks the instance as initialised; channel base, data width and alignment capability are those
  of the configuration.\<close>

theorem cfg_initialize_ready:
  assumes "CfgInitialize dev d (Some c) t = (st, d', t')" and "\<not> CfgHasSg c"
  shows "dma_ready d' c \<and> (st = XST_SUCCESS \<or> st = XST_DMA_ERROR) \<and>
    (Initialized d' \<longleftrightarrow> st = XST_SUCCESS) \<and>
    (\<exists>ev. t' = t @ [Wr (BaseAddr c + (if CfgHasMm2S c then XAXIDMA_TX_OFFSET else XAXIDMA_RX_OFFSET)) XAXIDMA_CR_RESET_MASK] @ ev \<and>
       writes ev = [] \<and> length ev \<le> 1000)"
  by (rule cfg_initialize_simple [OF assms])

text \<open>A device whose registers all read 3: reset done, halted and idle; and the ADC engine as it
  is after its initialization.\<close>

definition halted_device :: device where
  "halted_device = \<lparr>reg = (\<lambda>t a. 3), ram = (\<lambda>t a. 0)\<rparr>"

definition adc_config :: XAxiDma_Config where
  "adc_config = XAxiDma_ConfigTable ! 1"

definition adc_dma :: XAxiDma where
  "adc_dma = fst (snd (CfgInitialize halted_device zero_dma (Some adc_config) []))"

theorem cfg_initialize_ready_witness:
  "CfgInitialize halted_device zero_dma (Some adc_config) [] =
     (XST_SUCCESS, adc_dma, [Wr 0x41E40030 4, Rd 0x41E40030 3]) \<and> Initialized adc_dma \<and>
   dma_ready adc_dma adc_config"
proof -
  have run: "CfgInitialize halted_device zero_dma (Some adc_config) [] =
     (XST_SUCCESS, adc_dma, [Wr 0x41E40030 4, Rd 0x41E40030 3])"
    unfolding adc_dma_def by code_simp
  have "\<not> CfgHasSg adc_config" by (simp add: adc_config_def XAxiDma_ConfigTable_def)
  from cfg_initialize_ready [OF run this] run show ?thesis by simp
qed

theorem simple_transfer_registers_witness:
  "\<exists>ev cr. SimpleTransfer halted_device adc_dma 0xC1000000 4096 1 [] = (XST_SUCCESS, ev) \<and>
     writes ev = [(0x41E40048, 0xC1000000), (0x41E40030, cr OR 1), (0x41E40058, 4096)]"
proof -
  define ev where "ev = snd (SimpleTransfer halted_device adc_dma 0xC1000000 4096 1 [])"
  have run: "SimpleTransfer halted_device adc_dma 0xC1000000 4096 1 [] = (XST_SUCCESS, ev)"
    unfolding ev_def by code_simp
  have "ChanBase (RxBdRing adc_dma) = 0x41E40030" by code_simp
  with simple_transfer_registers [OF run] run show ?thesis by auto
qed

end
