(* ===== verification/Low_Level.thy ===== *)
theory Low_Level
  imports Axi_Dma
begin

text \<open>
  The device layer of the server: \<open>low_level_op.h\<close> and \<open>low_level_op.c\<close>. Two capture devices
  (the ADC and the digital down-converter) share \<open>capture_samples\<close> and \<open>get_samples\<close>; each
  keeps the number of samples of the last capture and how many of them have been handed out.
  The registers of the FMC150 card are reached over SPI through its FPGA core.
\<close>

section \<open>Constants\<close>

text \<open>Base addresses are the parameters of this design (\<open>xparameters.h\<close>, \<open>common.h\<close>).\<close>

abbreviation "FMC150_BASEADDR \<equiv> (0x71000000 :: u32)"
abbreviation "FMC150_STATUS_REG_OFFSET \<equiv> (0x24 :: u32)"
abbreviation "BPM_DDC_BASEADDR \<equiv> (0x7E820000 :: u32)"
abbreviation "BPM_DDC_STATUS_REG_OFFSET \<equiv> (0x4 :: u32)"
abbreviation "LED_BASEADDR \<equiv> (0x40000000 :: u32)"
abbreviation "DDR3_BASERADDR \<equiv> (0xC0000000 :: u32)"
abbreviation "DDR3_DMA_ADC_BUFFER \<equiv> DDR3_BASERADDR + (0x1000000 :: u32)"
abbreviation "DDR3_DMA_DDC_BUFFER \<equiv> DDR3_BASERADDR + (0x2000000 :: u32)"

abbreviation "SUCCESS \<equiv> (0 :: int)"
abbreviation "ERROR \<equiv> (- 1 :: int)"
abbreviation "NOFUNC \<equiv> (- 2 :: int)"

abbreviation "MAX_DMA_TRANSFER_SIZE \<equiv> (8388608 :: u32)"
abbreviation "ADC_SAMPLE_SIZE \<equiv> (4 :: u32)"
abbreviation "DDC_SAMPLE_SIZE \<equiv> (16 :: u32)"
abbreviation "ADC_DDC_SAMPLE_SIZE \<equiv> (20 :: u32)"
abbreviation "MAX_ADC_SAMPLES_COUNT \<equiv> (2097151 :: u32)"
abbreviation "MAX_DDC_SAMPLES_COUNT \<equiv> (524287 :: u32)"
abbreviation "MAX_ADC_DDC_SAMPLES_COUNT \<equiv> (419429 :: u32)"
abbreviation "RESPONSE_PACKET_BUF_SIZE \<equiv> (4096 :: u32)"
abbreviation "RESPONSE_PACKET_MAX_ADC_SAMPLES \<equiv> (1024 :: u32)"
abbreviation "RESPONSE_PACKET_MAX_DDC_SAMPLES \<equiv> (256 :: u32)"
abbreviation "MAX_DMA_TRIES \<equiv> (5 :: nat)"

abbreviation "FMC150_FLAGS_PULSE_0 \<equiv> FMC150_BASEADDR"
abbreviation "FMC150_FLAGS_IN_0 \<equiv> FMC150_BASEADDR + (0x4 :: u32)"
abbreviation "FMC150_FLAGS_OUT_0 \<equiv> FMC150_BASEADDR + (0x8 :: u32)"
abbreviation "FMC150_ADDR \<equiv> FMC150_BASEADDR + (0xC :: u32)"
abbreviation "FMC150_DATAIN \<equiv> FMC150_BASEADDR + (0x10 :: u32)"
abbreviation "FMC150_DATAOUT \<equiv> FMC150_BASEADDR + (0x14 :: u32)"
abbreviation "FMC150_CHIPSELECT \<equiv> FMC150_BASEADDR + (0x18 :: u32)"
abbreviation "FMC150_ADC_DELAY_REG \<equiv> FMC150_BASEADDR + (0x1C :: u32)"

abbreviation "MASK_AND_FLAGSIN0_SPI_WRITE \<equiv> (0xFFFFFFFE :: u32)"
abbreviation "MASK_OR_FLAGSIN0_SPI_READ \<equiv> (0x1 :: u32)"
abbreviation "MASK_AND_FLAGSOUT0_SPI_BUSY \<equiv> (0x1 :: u32)"
abbreviation "MASK_AND_FLAGS_OUT_0_FPGA_ADC_CLK_LOCKED \<equiv> (0x4 :: u32)"
abbreviation "CHIPSELECT_CDCE72010 \<equiv> (0x1 :: u32)"
abbreviation "CHIPSELECT_ADS62P49 \<equiv> (0x2 :: u32)"

text \<open>\<open>enum command_types\<close>\<close>

abbreviation "FMC150_ADC_DELAY \<equiv> (1 :: u32)"
abbreviation "FMC150_CAPTURE \<equiv> (2 :: u32)"
abbreviation "FMC150_GET_SAMPLES \<equiv> (3 :: u32)"
abbreviation "FMC150_READ \<equiv> (4 :: u32)"
abbreviation "FMC150_WRITE \<equiv> (5 :: u32)"
abbreviation "DDC_CAPTURE \<equiv> (6 :: u32)"
abbreviation "DDC_GET_SAMPLES \<equiv> (7 :: u32)"
abbreviation "DDC_READ \<equiv> (8 :: u32)"
abbreviation "DDC_WRITE \<equiv> (9 :: u32)"
abbreviation "DDC_FMC150_CAPTURE \<equiv> (10 :: u32)"
abbreviation "DDC_FMC150_GET_SAMPLES \<equiv> (11 :: u32)"
abbreviation "LED_READ \<equiv> (12 :: u32)"
abbreviation "LED_WRITE \<equiv> (13 :: u32)"
abbreviation "SOFT_REG_READ \<equiv> (14 :: u32)"
abbreviation "SOFT_REG_WRITE \<equiv> (15 :: u32)"
abbreviation "QUIT \<equiv> (16 :: u32)"

section \<open>State\<close>

record low_level_attr =
  AxiDma :: XAxiDma
  AxiDmaConfig :: "XAxiDma_Config option"
  sample_size :: u32
  mem_start_addr :: u32
  mem_size :: u32
  max_resp_buffer_packets :: u32

record low_level_handler =
  hid :: u32
  baseaddr :: u32
  attr :: low_level_attr
  samples_count :: u32
  samples_count_pos :: u32

abbreviation "ADC_ID \<equiv> (1 :: u32)"
abbreviation "DDC_ID \<equiv> (2 :: u32)"

definition ddc_dma_attr :: low_level_attr where
  "ddc_dma_attr =
     \<lparr>AxiDma = zero_dma, AxiDmaConfig = None, sample_size = DDC_SAMPLE_SIZE,
      mem_start_addr = DDR3_DMA_DDC_BUFFER, mem_size = MAX_DMA_TRANSFER_SIZE,
      max_resp_buffer_packets = RESPONSE_PACKET_MAX_DDC_SAMPLES\<rparr>"

definition fmc150_adc_dma_attr :: low_level_attr where
  "fmc150_adc_dma_attr =
     \<lparr>AxiDma = zero_dma, AxiDmaConfig = None, sample_size = ADC_SAMPLE_SIZE,
      mem_start_addr = DDR3_DMA_ADC_BUFFER, mem_size = MAX_DMA_TRANSFER_SIZE,
      max_resp_buffer_packets = RESPONSE_PACKET_MAX_ADC_SAMPLES\<rparr>"

definition ddc_low_level_handler :: low_level_handler where
  "ddc_low_level_handler =
     \<lparr>hid = DDC_ID, baseaddr = BPM_DDC_BASEADDR, attr = ddc_dma_attr,
      samples_count = 0, samples_count_pos = 0\<rparr>"

definition fmc150_adc_low_level_handler :: low_level_handler where
  "fmc150_adc_low_level_handler =
     \<lparr>hid = ADC_ID, baseaddr = FMC150_BASEADDR + 0x20, attr = fmc150_adc_dma_attr,
      samples_count = 0, samples_count_pos = 0\<rparr>"

text \<open>The two global handlers; a pointer to one of them is its device.\<close>

datatype ll_device = ADC_dev | DDC_dev

record handlers =
  adc_handler :: low_level_handler
  ddc_handler :: low_level_handler

fun handler_of :: "handlers \<Rightarrow> ll_device \<Rightarrow> low_level_handler" where
  "handler_of hs ADC_dev = adc_handler hs"
| "handler_of hs DDC_dev = ddc_handler hs"

fun set_handler :: "handlers \<Rightarrow> ll_device \<Rightarrow> low_level_handler \<Rightarrow> handlers" where
  "set_handler hs ADC_dev h = hs\<lparr>adc_handler := h\<rparr>"
| "set_handler hs DDC_dev h = hs\<lparr>ddc_handler := h\<rparr>"

text \<open>
  The result is the return value and the pointer stored: \<open>None\<close> when nothing is stored,
  \<open>Some None\<close> for \<open>NULL\<close>.
\<close>

definition get_low_level_handler :: "u32 \<Rightarrow> int \<times> ll_device option option" where
  "get_low_level_handler comm =
     (if comm \<in> {FMC150_CAPTURE, FMC150_GET_SAMPLES, FMC150_READ, FMC150_WRITE}
      then (SUCCESS, Some (Some ADC_dev))
      else if comm \<in> {DDC_CAPTURE, DDC_GET_SAMPLES} then (SUCCESS, Some (Some DDC_dev))
      else if comm \<in> {LED_READ, LED_WRITE, SOFT_REG_READ, SOFT_REG_WRITE} then (SUCCESS, Some None)
      else (ERROR, None))"

section \<open>Registers\<close>

definition delay :: "int \<Rightarrow> trace \<Rightarrow> trace" where
  "delay counts t = t @ [Dly counts]"

definition update_fmc150_adc_delay :: "u8 \<Rightarrow> u8 \<Rightarrow> u8 \<Rightarrow> trace \<Rightarrow> int \<times> trace" where
  "update_fmc150_adc_delay strobe cha chb t =
     (SUCCESS,
      Out32 FMC150_FLAGS_PULSE_0 0x1
        (Out32 FMC150_ADC_DELAY_REG (ucast strobe + push_bit 8 (ucast cha) + push_bit 16 (ucast chb)) t))"

definition read_soft_register :: "device \<Rightarrow> u32 \<Rightarrow> u32 \<Rightarrow> trace \<Rightarrow> int \<times> u32 option \<times> trace" where
  "read_soft_register dev cs addr t = (let (v, t) = In32 dev addr t in (SUCCESS, Some v, t))"

definition write_soft_register :: "u32 \<Rightarrow> u32 \<Rightarrow> u32 \<Rightarrow> trace \<Rightarrow> int \<times> trace" where
  "write_soft_register cs addr v t = (SUCCESS, Out32 addr v t)"

definition led_read :: "device \<Rightarrow> u32 \<Rightarrow> u32 \<Rightarrow> trace \<Rightarrow> int \<times> u32 option \<times> trace" where
  "led_read dev cs addr t = (let (v, t) = In32 dev LED_BASEADDR t in (SUCCESS, Some v, t))"

definition led_write :: "u32 \<Rightarrow> u32 \<Rightarrow> u32 \<Rightarrow> trace \<Rightarrow> int \<times> trace" where
  "led_write cs addr v t = (SUCCESS, Out32 LED_BASEADDR v t)"

text \<open>\<open>*value\<close> is written on success only.\<close>

definition read_fmc150_register ::
    "device \<Rightarrow> u32 \<Rightarrow> u32 \<Rightarrow> trace \<Rightarrow> int \<times> u32 option \<times> trace" where
  "read_fmc150_register dev cs addr t =
     (let (busy, t) = In32 dev FMC150_FLAGS_OUT_0 t
      in if busy AND MASK_AND_FLAGSOUT0_SPI_BUSY \<noteq> MASK_AND_FLAGSOUT0_SPI_BUSY
         then
           let (aux, t) = In32 dev FMC150_FLAGS_IN_0 t;
               t = Out32 FMC150_FLAGS_IN_0 (aux OR MASK_OR_FLAGSIN0_SPI_READ) t;
               t = Out32 FMC150_ADDR addr t;
               (aux, t) = In32 dev FMC150_CHIPSELECT t;
               t = Out32 FMC150_CHIPSELECT (aux XOR cs) t;
               t = delay 10 t;
               (v, t) = In32 dev FMC150_DATAOUT t
           in (SUCCESS, Some v, t)
         else (ERROR, None, t))"

definition write_fmc150_register ::
    "device \<Rightarrow> u32 \<Rightarrow> u32 \<Rightarrow> u32 \<Rightarrow> trace \<Rightarrow> int \<times> trace" where
  "write_fmc150_register dev cs addr v t =
     (let (aux, t) = In32 dev FMC150_FLAGS_IN_0 t;
          t = Out32 FMC150_FLAGS_IN_0 (aux AND MASK_AND_FLAGSIN0_SPI_WRITE) t;
          t = Out32 FMC150_ADDR addr t;
          t = Out32 FMC150_DATAIN v t;
          (aux, t) = In32 dev FMC150_CHIPSELECT t;
          t = Out32 FMC150_CHIPSELECT (aux XOR cs) t
      in (SUCCESS, t))"

definition read_reg_dummy :: "u32 \<Rightarrow> u32 \<Rightarrow> trace \<Rightarrow> int \<times> u32 option \<times> trace" where
  "read_reg_dummy cs addr t = (NOFUNC, None, t)"

definition write_reg_dummy :: "u32 \<Rightarrow> u32 \<Rightarrow> u32 \<Rightarrow> trace \<Rightarrow> int \<times> trace" where
  "write_reg_dummy cs addr v t = (NOFUNC, t)"

section \<open>Samples\<close>

text \<open>\<open>Length\<close> of the transfer is the unsigned product converted to \<open>int\<close>.\<close>

definition capture_samples ::
    "device \<Rightarrow> u32 \<Rightarrow> low_level_handler \<Rightarrow> trace \<Rightarrow> int \<times> low_level_handler \<times> trace" where
  "capture_samples dev qw_count h t =
     (let h = h\<lparr>samples_count_pos := 0, samples_count := qw_count\<rparr>;
          qw_count_fix = (if hid h = ADC_ID then qw_count else qw_count - 1);
          t = (if hid h = ADC_ID
               then snd (write_soft_register 0 (FMC150_BASEADDR + FMC150_STATUS_REG_OFFSET) 0 t)
               else if hid h = DDC_ID
               then snd (write_soft_register 0 (BPM_DDC_BASEADDR + BPM_DDC_STATUS_REG_OFFSET) 0 t)
               else t);
          (st, t) = SimpleTransfer dev (AxiDma (attr h)) (mem_start_addr (attr h))
                      (sint (qw_count * sample_size (attr h))) XAXIDMA_DEVICE_TO_DMA t
      in if st \<noteq> XST_SUCCESS then (ERROR, h, t)
         else (SUCCESS, h,
               Out32 (baseaddr h) (0x00200000 OR qw_count_fix) (Out32 (baseaddr h) 0 t)))"

text \<open>The wait for the DMA engine; \<open>True\<close> when it became idle within the tries left.\<close>

fun wait_dma :: "device \<Rightarrow> XAxiDma \<Rightarrow> nat \<Rightarrow> trace \<Rightarrow> bool \<times> trace" where
  "wait_dma dev d 0 t = (False, t)"
| "wait_dma dev d (Suc n) t =
     (let (busy, t) = Busy dev d XAXIDMA_DEVICE_TO_DMA t
      in if \<not> busy then (True, t) else wait_dma dev d n (delay 1000 t))"

text \<open>
  The result is the return value, the new values of \<open>*size\<close> and \<open>*byte_offset\<close> (\<open>None\<close> when
  it is not written), the handler and the log. \<open>tmp_size\<close> is signed, but compared with the
  unsigned limit it is converted back.
\<close>

definition get_samples ::
    "device \<Rightarrow> u32 \<Rightarrow> low_level_handler \<Rightarrow> trace
      \<Rightarrow> int \<times> u32 \<times> u32 option \<times> low_level_handler \<times> trace" where
  "get_samples dev sz h t =
     (let tmp = (if samples_count h < samples_count_pos h + sz
                 then samples_count h - samples_count_pos h else 1);
          (failed, tmp, h, t) =
            (if sint tmp \<le> 0
             then if sz \<noteq> 0
                  then let (e, h, t) = capture_samples dev sz h t in (e < 0, sz, h, t)
                  else (False, sz, h, t)
             else (False, tmp, h, t))
      in if failed then (ERROR, sz, None, h, t)
         else
           let sz = (if max_resp_buffer_packets (attr h) < tmp
                     then max_resp_buffer_packets (attr h) else tmp);
               (idle, t) = wait_dma dev (AxiDma (attr h)) MAX_DMA_TRIES t
           in if \<not> idle then (ERROR, sz, None, h, t)
              else (SUCCESS, sz, Some (samples_count_pos h * sample_size (attr h)),
                    h\<lparr>samples_count_pos := samples_count_pos h + sz\<rparr>, t))"

definition capture_samples_dummy ::
    "u32 \<Rightarrow> low_level_handler option \<Rightarrow> trace \<Rightarrow> int \<times> low_level_handler option \<times> trace" where
  "capture_samples_dummy qw_count h t = (NOFUNC, h, t)"

definition get_samples_dummy ::
    "u32 \<Rightarrow> low_level_handler option \<Rightarrow> trace \<Rightarrow> int \<times> u32 \<times> u32 option \<times> low_level_handler option \<times> trace"
  where "get_samples_dummy sz h t = (NOFUNC, sz, None, h, t)"

end
