(* ===== verification/Sampling.thy ===== *)
theory Sampling
  imports Low_Level
begin

text \<open>
  What \<open>capture_samples\<close> and \<open>get_samples\<close> guarantee: the invariant of a capture device, the
  window of the buffer that a request is given, the exact programming of the DMA engine and of
  the capture core, and three behaviours a client has to know: one sample at a time while
  captured samples last, no capture of 0 samples, stale samples after a failed capture.
\<close>

section \<open>The sample window\<close>

text \<open>
  What holds of a capture device between requests: its engine is ready, the buffer is the
  8 MB window the DMA may fill, and what has been handed out is within what was captured.
\<close>

definition handler_ok :: "low_level_handler \<Rightarrow> bool" where
  "handler_ok h \<longleftrightarrow>
     (sample_size (attr h) = ADC_SAMPLE_SIZE \<or> sample_size (attr h) = DDC_SAMPLE_SIZE) \<and>
     uint (max_resp_buffer_packets (attr h)) * uint (sample_size (attr h)) = 4096 \<and>
     mem_size (attr h) = MAX_DMA_TRANSFER_SIZE \<and>
     uint (samples_count h) * uint (sample_size (attr h)) < uint (mem_size (attr h)) \<and>
     samples_count_pos h \<le> samples_count h"

lemma handler_ok_initial: "handler_ok fmc150_adc_low_level_handler" "handler_ok ddc_low_level_handler"
  by (simp_all add: handler_ok_def fmc150_adc_low_level_handler_def ddc_low_level_handler_def
      fmc150_adc_dma_attr_def ddc_dma_attr_def)

lemma handler_ok_bounds:
  assumes "handler_ok h"
  shows "uint (samples_count h) < 2097152" and "uint (samples_count_pos h) \<le> uint (samples_count h)"
  using assms by (auto simp: handler_ok_def word_le_def)

lemma capture_fields:
  assumes "capture_samples dev n h t = (e, h', t')"
  shows "h' = h\<lparr>samples_count_pos := 0, samples_count := n\<rparr> \<and> (e = SUCCESS \<or> e = ERROR)"
  using assms by (auto simp: capture_samples_def Let_def split: if_splits prod.splits)

text \<open>The window that a request of \<open>n\<close> samples gets when the engine answers, as numbers.\<close>

definition granted :: "low_level_handler \<Rightarrow> int \<Rightarrow> int" where
  "granted h n =
     (let c = uint (samples_count h); p = uint (samples_count_pos h);
          m = uint (max_resp_buffer_packets (attr h))
      in if p + n \<le> c then min 1 m else if p < c then min (c - p) m else min n m)"

definition recaptures :: "low_level_handler \<Rightarrow> int \<Rightarrow> bool" where
  "recaptures h n \<longleftrightarrow> samples_count h = samples_count_pos h \<and> 0 < n"

lemma max_packets_cases:
  assumes "handler_ok h"
  shows "uint (max_resp_buffer_packets (attr h)) = 1024 \<and> sample_size (attr h) = 4 \<or>
         uint (max_resp_buffer_packets (attr h)) = 256 \<and> sample_size (attr h) = 16"
  using assms by (auto simp: handler_ok_def)

lemma uint_sum: "uint (a :: u32) + uint b < 2 ^ 32 \<Longrightarrow> uint (a + b) = uint a + uint b"
  by (simp add: uint_plus_if')

lemma uint_diff_le: "b \<le> a \<Longrightarrow> uint (a - b :: u32) = uint a - uint b"
  by (simp add: uint_sub_if' word_le_def)

lemma get_samples_window:
  assumes ok: "handler_ok h" and nz: "n \<noteq> 0" and n: "uint n * uint (sample_size (attr h)) < 8388608"
    and run: "get_samples dev n h t = (e, n', off, h', t')"
  shows "(e = SUCCESS \<or> e = ERROR) \<and> attr h' = attr h \<and> hid h' = hid h \<and> baseaddr h' = baseaddr h \<and>
    samples_count h' = (if recaptures h (uint n) then n else samples_count h) \<and>
    (e = SUCCESS \<longrightarrow>
      (let p = (if recaptures h (uint n) then 0 else samples_count_pos h)
       in uint n' = granted h (uint n) \<and> off = Some (p * sample_size (attr h)) \<and>
          uint (samples_count_pos h') = uint p + uint n' \<and> uint p + uint n' \<le> uint (samples_count h'))) \<and>
    (e = ERROR \<longrightarrow> off = None \<and> samples_count_pos h' = (if recaptures h (uint n) then 0 else samples_count_pos h))"
proof -
  define c p where "c = uint (samples_count h)" and "p = uint (samples_count_pos h)"
  have cp: "c < 2097152" "p \<le> c" "0 \<le> p" "uint n < 2097152" "0 \<le> uint n"
    using handler_ok_bounds [OF ok] n max_packets_cases [OF ok] by (auto simp: c_def p_def)
  have sum: "uint (samples_count_pos h + n) = p + uint n"
    using cp by (subst uint_sum) (simp_all add: p_def)
  define tmp where "tmp = (if samples_count h < samples_count_pos h + n
                 then samples_count h - samples_count_pos h else 1)"
  have utmp: "uint tmp = (if c < p + uint n then c - p else 1)"
    using sum cp ok by (simp add: tmp_def word_less_def c_def p_def uint_diff_le handler_ok_def)
  have neg: "sint tmp \<le> 0 \<longleftrightarrow> c = p \<and> 0 < uint n"
    using utmp cp by (simp add: sint_cases)
  have rec: "recaptures h (uint n) \<longleftrightarrow> c = p \<and> 0 < uint n"
    by (auto simp: recaptures_def c_def p_def word_uint_eq_iff)
  have m: "uint (max_resp_buffer_packets (attr h)) = 1024 \<or> uint (max_resp_buffer_packets (attr h)) = 256"
    using max_packets_cases [OF ok] by auto
  define out where "out x h1 t1 =
     (let sz = (if max_resp_buffer_packets (attr h1) < x then max_resp_buffer_packets (attr h1) else x);
          (idle, t) = wait_dma dev (AxiDma (attr h1)) MAX_DMA_TRIES t1
      in if \<not> idle then (ERROR, sz, None, h1, t)
         else (SUCCESS, sz, Some (samples_count_pos h1 * sample_size (attr h1)),
               h1\<lparr>samples_count_pos := samples_count_pos h1 + sz\<rparr>, t))" for x and h1 :: low_level_handler and t1 :: trace
  show ?thesis
  proof (cases "recaptures h (uint n)")
    case True
    then have n0: "n \<noteq> 0" "sint tmp \<le> 0" using rec neg by auto
    obtain e1 h1 t1 where cap: "capture_samples dev n h t = (e1, h1, t1)" by (metis surj_pair)
    from capture_fields [OF cap] have h1: "h1 = h\<lparr>samples_count_pos := 0, samples_count := n\<rparr>"
      and e1: "e1 = SUCCESS \<or> e1 = ERROR" by simp_all
    have res: "get_samples dev n h t = (if e1 < 0 then (ERROR, n, None, h1, t1) else out n h1 t1)"
      using n0 cap unfolding get_samples_def out_def by (simp add: Let_def flip: tmp_def)
    have gr: "granted h (uint n) = min (uint n) (uint (max_resp_buffer_packets (attr h)))"
      using True rec by (simp add: granted_def c_def p_def)
    show ?thesis
      using run True e1 m unfolding res gr out_def Let_def h1
      by (auto simp: word_less_def min_def split: if_splits prod.splits)
  next
    case False
    then have pos: "\<not> sint tmp \<le> 0" using rec neg by simp
    have res: "get_samples dev n h t = out tmp h t"
      using pos unfolding get_samples_def out_def by (simp add: Let_def flip: tmp_def)
    define sz where "sz = (if max_resp_buffer_packets (attr h) < tmp then max_resp_buffer_packets (attr h) else tmp)"
    have sz: "uint sz = min (uint tmp) (uint (max_resp_buffer_packets (attr h)))"
      by (simp add: sz_def word_less_def min_def)
    have npos: "0 < uint n"
      using nz by (simp add: word_uint_eq_iff order_less_le)
    then have gr: "granted h (uint n) = uint sz"
      using sz utmp cp False rec m by (auto simp: granted_def c_def p_def Let_def min_def)
    have fit: "p + uint sz \<le> c"
      using sz utmp cp m npos by (auto simp: min_def split: if_splits)
    have "uint (samples_count_pos h + sz) = p + uint sz"
      using fit cp by (subst uint_sum) (simp_all add: p_def)
    with fit gr False show ?thesis
      using run unfolding res out_def Let_def sz_def [symmetric] p_def c_def
      by (auto split: if_splits prod.splits)
  qed
qed

text \<open>The same fact without the abbreviations: what a successful request hands out.\<close>

lemma granted_pos: "handler_ok h \<Longrightarrow> 0 < n \<Longrightarrow> 0 < granted h n"
  and granted_le: "handler_ok h \<Longrightarrow> granted h n * uint (sample_size (attr h)) \<le> 4096"
  using max_packets_cases [of h] by (auto simp: granted_def Let_def min_def)

lemma get_samples_ok:
  assumes ok: "handler_ok h" and nz: "n \<noteq> 0" and n: "uint n * uint (sample_size (attr h)) < 8388608"
    and run: "get_samples dev n h t = (e, n', off, h', t')"
  shows "handler_ok h'"
  using get_samples_window [OF assms] ok n
  by (auto simp: handler_ok_def recaptures_def word_le_def Let_def split: if_splits)

lemma get_samples_granted:
  assumes "handler_ok h" and "n \<noteq> 0" and "uint n * uint (sample_size (attr h)) < 8388608"
    and "get_samples dev n h t = (SUCCESS, n', off, h', t')"
  shows "\<exists>b. off = Some b \<and> 0 < uint n' \<and>
       uint n' * uint (sample_size (attr h)) \<le> 4096 \<and>
       uint b + uint n' * uint (sample_size (attr h)) \<le> uint (samples_count h') * uint (sample_size (attr h)) \<and>
       uint b + uint n' * uint (sample_size (attr h)) < uint (mem_size (attr h)) \<and>
       uint b = (uint (samples_count_pos h') - uint n') * uint (sample_size (attr h))"
proof -
  note w = get_samples_window [OF assms] and ok' = get_samples_ok [OF assms]
  define p where "p = (if recaptures h (uint n) then 0 else samples_count_pos h)"
  have attr: "attr h' = attr h" using w by simp
  have npos: "0 < uint n" using assms(2) by (simp add: word_uint_eq_iff order_less_le)
  have gr: "uint n' = granted h (uint n)" and off: "off = Some (p * sample_size (attr h))"
    and pos: "uint (samples_count_pos h') = uint p + uint n'" and le: "uint p + uint n' \<le> uint (samples_count h')"
    using w by (auto simp: p_def Let_def)
  let ?s = "uint (sample_size (attr h))"
  have cap: "uint (samples_count h') * ?s < uint (mem_size (attr h))" "mem_size (attr h) = 8388608"
    using ok' attr assms(1) by (auto simp: handler_ok_def)
  have mono: "(uint p + uint n') * ?s \<le> uint (samples_count h') * ?s"
    using le by (intro mult_right_mono) simp_all
  then have fit: "uint p * ?s + uint n' * ?s < 8388608"
    using cap by (simp add: distrib_right)
  have "0 \<le> uint n' * ?s" by simp
  with fit have "uint p * ?s < 4294967296" by linarith
  then have "uint p * ?s < 2 ^ LENGTH(32)" by simp
  then have "uint (p * sample_size (attr h)) = uint p * ?s"
    by (rule iffD1 [OF uint_mult_lem])
  with gr off pos mono fit cap granted_pos [OF assms(1) npos] granted_le [OF assms(1), of "uint n"]
  show ?thesis by (intro exI [of _ "p * sample_size (attr h)"]) (simp add: distrib_right)
qed

text \<open>C20: a successful \<open>get_samples\<close> hands out at least one sample and at most one packet, from
  inside the DMA window of the device: offset plus length never passes the samples of the last
  capture nor the 8 MB buffer; the position moves by exactly what is handed out, and a failed
  one hands out nothing and does not move it.\<close>

theorem get_samples_in_window:
  assumes "handler_ok h" and "n \<noteq> 0" and "uint n * uint (sample_size (attr h)) < 8388608"
    and "get_samples dev n h t = (e, n', off, h', t')"
  shows "handler_ok h' \<and>
    (e = SUCCESS \<longrightarrow> (\<exists>b. off = Some b \<and> 0 < uint n' \<and>
       uint n' * uint (sample_size (attr h)) \<le> 4096 \<and>
       uint b + uint n' * uint (sample_size (attr h)) \<le> uint (samples_count h') * uint (sample_size (attr h)) \<and>
       uint b + uint n' * uint (sample_size (attr h)) < uint (mem_size (attr h)) \<and>
       uint b = (uint (samples_count_pos h') - uint n') * uint (sample_size (attr h)))) \<and>
    (e \<noteq> SUCCESS \<longrightarrow> off = None \<and> (samples_count_pos h' = samples_count_pos h \<or> samples_count_pos h' = 0))"
  using assms get_samples_window [OF assms] get_samples_ok [OF assms] get_samples_granted [OF assms(1-3), of dev t n' off h' t']
  by (auto simp: Let_def split: if_splits)

text \<open>A request that is covered by the samples already captured gets one sample only, whatever
  its size: \<open>tmp_size\<close> keeps its initial value 1 when nothing has to be trimmed.\<close>

theorem get_samples_one_at_a_time:
  assumes "handler_ok h" and "n \<noteq> 0" and "uint (samples_count_pos h) + uint n \<le> uint (samples_count h)"
    and "get_samples dev n h t = (SUCCESS, n', off, h', t')"
  shows "n' = 1 \<and> samples_count_pos h' = samples_count_pos h + 1"
proof -
  have "uint n \<le> uint (samples_count h)" using assms(3) by (smt (verit) uint_ge_0)
  moreover have "uint (samples_count h) * uint (sample_size (attr h)) < 8388608"
    using assms(1) by (auto simp: handler_ok_def)
  ultimately have n: "uint n * uint (sample_size (attr h)) < 8388608"
    by (meson le_less_trans mult_right_mono uint_ge_0)
  have norec: "\<not> recaptures h (uint n)"
    using assms(2,3) by (auto simp: recaptures_def)
  have "granted h (uint n) = 1"
    using assms(3) max_packets_cases [OF assms(1)] by (auto simp: granted_def Let_def)
  with get_samples_window [OF assms(1,2) n assms(4)] norec
  have "uint n' = 1" "uint (samples_count_pos h') = uint (samples_count_pos h) + 1"
    "uint (samples_count_pos h) + 1 \<le> uint (samples_count h')" "samples_count h' = samples_count h"
    by (auto simp: Let_def)
  moreover have "uint (samples_count_pos h + 1) = uint (samples_count_pos h) + 1"
    using handler_ok_bounds [OF assms(1)] by (subst uint_sum) simp_all
  ultimately show ?thesis by (simp add: word_uint_eq_iff)
qed

section \<open>Captures\<close>

definition status_reg :: "low_level_handler \<Rightarrow> u32" where
  "status_reg h = (if hid h = ADC_ID then FMC150_BASEADDR + FMC150_STATUS_REG_OFFSET
                   else BPM_DDC_BASEADDR + BPM_DDC_STATUS_REG_OFFSET)"

text \<open>A device as \<open>init_platform\<close> leaves it: its engine is the one of the configuration table.\<close>

definition device_ready :: "low_level_handler \<Rightarrow> bool" where
  "device_ready h \<longleftrightarrow> handler_ok h \<and>
     (hid h = ADC_ID \<and> sample_size (attr h) = ADC_SAMPLE_SIZE \<and> baseaddr h = FMC150_BASEADDR + 0x20 \<and>
        mem_start_addr (attr h) = DDR3_DMA_ADC_BUFFER \<and> dma_ready (AxiDma (attr h)) (XAxiDma_ConfigTable ! 1) \<or>
      hid h = DDC_ID \<and> sample_size (attr h) = DDC_SAMPLE_SIZE \<and> baseaddr h = BPM_DDC_BASEADDR \<and>
        mem_start_addr (attr h) = DDR3_DMA_DDC_BUFFER \<and> dma_ready (AxiDma (attr h)) (XAxiDma_ConfigTable ! 2))"

lemma device_ready_dma:
  assumes "device_ready h"
  shows "\<not> HasSg (AxiDma (attr h))" "HasS2Mm (AxiDma (attr h))"
    "ChanBase (RxBdRing (AxiDma (attr h))) = RegBase (AxiDma (attr h)) + 0x30"
    "mem_start_addr (attr h) AND (DataWidth (RxBdRing (AxiDma (attr h))) - 1) = 0"
  using assms by (auto simp: device_ready_def dma_ready_def XAxiDma_ConfigTable_def)

lemma sint_product:
  assumes "uint n * uint s < 8388608"
  shows "sint (n * s :: u32) = uint n * uint s"
proof -
  have "uint n * uint s < 2 ^ LENGTH(32)" using assms by simp
  then have "uint (n * s) = uint n * uint s" by (rule iffD1 [OF uint_mult_lem])
  with assms show ?thesis by (simp add: sint_cases)
qed

lemma control_field:
  fixes x :: u32
  assumes "uint x < 2 ^ 21"
  shows "(0x200000 OR x) AND 0x1FFFFF = x"
proof -
  have "x AND mask 21 = x" using assms by (simp add: mask_eq_iff)
  moreover have "(0x200000 :: u32) AND mask 21 = 0" "(0x1FFFFF :: u32) = mask 21"
    by (simp_all add: mask_eq_exp_minus_1)
  ultimately show ?thesis by (simp add: bit.conj_disj_distrib2)
qed

lemma capture_samples_log:
  assumes r: "device_ready h" and n: "uint n * uint (sample_size (attr h)) < 8388608"
    and run: "capture_samples dev n h t = (e, h', t')"
  shows "\<exists>ev. t' = t @ ev \<and>
    (e = ERROR \<and> writes ev = [(status_reg h, 0)] \<or>
     e = SUCCESS \<and> n \<noteq> 0 \<and>
     (\<exists>cr. writes ev =
        [(status_reg h, 0),
         (RegBase (AxiDma (attr h)) + 0x48, mem_start_addr (attr h)),
         (RegBase (AxiDma (attr h)) + 0x30, cr OR XAXIDMA_CR_RUNSTOP_MASK),
         (RegBase (AxiDma (attr h)) + 0x58, n * sample_size (attr h)),
         (baseaddr h, 0),
         (baseaddr h, 0x200000 OR (if hid h = ADC_ID then n else n - 1))]))"
proof -
  define t1 where "t1 = t @ [Wr (status_reg h) 0]"
  obtain st t2 where tr: "SimpleTransfer dev (AxiDma (attr h)) (mem_start_addr (attr h))
      (sint (n * sample_size (attr h))) XAXIDMA_DEVICE_TO_DMA t1 = (st, t2)" by fastforce
  have res: "(e, h', t') = (if st \<noteq> XST_SUCCESS then (ERROR, h\<lparr>samples_count_pos := 0, samples_count := n\<rparr>, t2)
      else (SUCCESS, h\<lparr>samples_count_pos := 0, samples_count := n\<rparr>,
        t2 @ [Wr (baseaddr h) 0, Wr (baseaddr h) (0x200000 OR (if hid h = ADC_ID then n else n - 1))]))"
    using r run tr
    by (auto simp: capture_samples_def Let_def t1_def status_reg_def write_soft_register_def Out32_def device_ready_def
        split: if_splits)
  from simple_transfer_log [OF tr] obtain ev where ev: "t2 = t1 @ ev"
    "st \<noteq> XST_SUCCESS \<and> writes ev = [] \<or> st = XST_SUCCESS \<and> 1 \<le> sint (n * sample_size (attr h)) \<and>
     (\<exists>cr. writes ev = [(ChanBase (RxBdRing (AxiDma (attr h))) + XAXIDMA_DESTADDR_OFFSET, mem_start_addr (attr h)),
          (ChanBase (RxBdRing (AxiDma (attr h))) + XAXIDMA_CR_OFFSET, cr OR XAXIDMA_CR_RUNSTOP_MASK),
          (ChanBase (RxBdRing (AxiDma (attr h))) + XAXIDMA_BUFFLEN_OFFSET, of_int (sint (n * sample_size (attr h))))])"
    by blast
  show ?thesis
  proof (cases "st = XST_SUCCESS")
    case False
    with ev res show ?thesis
      by (intro exI [of _ "Wr (status_reg h) 0 # ev"]) (simp add: t1_def)
  next
    case True
    with ev have "n \<noteq> 0" by auto
    with True ev res device_ready_dma(3) [OF r] show ?thesis
      by (intro exI [of _ "Wr (status_reg h) 0 # ev @ [Wr (baseaddr h) 0, Wr (baseaddr h) (0x200000 OR (if hid h = ADC_ID then n else n - 1))]"])
        (auto simp: t1_def)
  qed
qed

text \<open>C21: a capture that succeeds has programmed the hardware exactly so, in this order: clear the
  status register, point the DMA at the device's own buffer, start the channel, set the length to
  the bytes of \<open>n\<close> samples, which is below the 8 MB of the buffer and of the length register,
  and only then pulse bit 21 of the capture control register with the sample count (one less for
  the DDC) in the 21 bits below it. A capture that fails has cleared the status register only.\<close>

theorem capture_programs_device:
  assumes "device_ready h" and "uint n * uint (sample_size (attr h)) < 8388608"
    and "capture_samples dev n h t = (e, h', t')"
  shows "\<exists>ev. t' = t @ ev \<and>
    (e = ERROR \<and> writes ev = [(status_reg h, 0)] \<or>
     e = SUCCESS \<and>
     (\<exists>cr ctl. writes ev =
        [(status_reg h, 0),
         (RegBase (AxiDma (attr h)) + 0x48, mem_start_addr (attr h)),
         (RegBase (AxiDma (attr h)) + 0x30, cr OR XAXIDMA_CR_RUNSTOP_MASK),
         (RegBase (AxiDma (attr h)) + 0x58, n * sample_size (attr h)),
         (baseaddr h, 0), (baseaddr h, ctl)] \<and>
       uint (n * sample_size (attr h)) = uint n * uint (sample_size (attr h)) \<and>
       0 < uint n \<and> ctl AND 0x200000 \<noteq> 0 \<and>
       ctl AND 0x1FFFFF = (if hid h = ADC_ID then n else n - 1)))"
proof -
  have un: "uint n < 2097152"
    using assms(1,2) by (auto simp: device_ready_def)
  let ?x = "if hid h = ADC_ID then n else n - 1"
  let ?ctl = "0x200000 OR ?x"
  have prod: "uint (n * sample_size (attr h)) = uint n * uint (sample_size (attr h))"
    by (rule iffD1 [OF uint_mult_lem]) (use assms(2) in simp)
  from capture_samples_log [OF assms] obtain ev where t': "t' = t @ ev"
    and ev: "e = ERROR \<and> writes ev = [(status_reg h, 0)] \<or>
     e = SUCCESS \<and> n \<noteq> 0 \<and>
     (\<exists>cr. writes ev =
        [(status_reg h, 0),
         (RegBase (AxiDma (attr h)) + 0x48, mem_start_addr (attr h)),
         (RegBase (AxiDma (attr h)) + 0x30, cr OR XAXIDMA_CR_RUNSTOP_MASK),
         (RegBase (AxiDma (attr h)) + 0x58, n * sample_size (attr h)),
         (baseaddr h, 0), (baseaddr h, ?ctl)])"
    by blast
  show ?thesis
  proof (cases "e = SUCCESS")
    case False
    with t' ev show ?thesis by blast
  next
    case True
    with ev have nz: "n \<noteq> 0" by auto
    then have "0 < uint n" by (simp add: word_uint_eq_iff order_less_le)
    moreover have "uint ?x < 2 ^ 21"
      using un \<open>0 < uint n\<close> uint_diff_le [of 1 n] by (simp add: word_le_def)
    then have "?ctl AND 0x1FFFFF = ?x"
      by (rule control_field)
    moreover have "?ctl AND 0x200000 \<noteq> 0"
    proof
      assume "?ctl AND 0x200000 = 0"
      then have "bit (?ctl AND 0x200000) 21 = False" by simp
      then show False by (simp add: bit_simps)
    qed
    ultimately show ?thesis using t' ev True prod by blast
  qed
qed

text \<open>The ADC device after the initialization of the platform.\<close>

definition adc_device :: low_level_handler where
  "adc_device = fmc150_adc_low_level_handler\<lparr>attr := fmc150_adc_dma_attr\<lparr>AxiDma := adc_dma\<rparr>\<rparr>"

lemma adc_device_ready: "device_ready adc_device"
proof -
  have "CfgInitialize halted_device zero_dma (Some adc_config) [] =
      (XST_SUCCESS, adc_dma, snd (snd (CfgInitialize halted_device zero_dma (Some adc_config) [])))"
    unfolding adc_dma_def by code_simp
  moreover have "\<not> CfgHasSg adc_config" by (simp add: adc_config_def XAxiDma_ConfigTable_def)
  ultimately have "dma_ready adc_dma adc_config" using cfg_initialize_simple by blast
  then show ?thesis
    by (simp add: device_ready_def adc_device_def fmc150_adc_low_level_handler_def fmc150_adc_dma_attr_def
        handler_ok_def adc_config_def)
qed

lemma adc_device_ok: "handler_ok adc_device"
  using adc_device_ready by (simp add: device_ready_def)

theorem get_samples_in_window_witness:
  "\<exists>h' t' b. get_samples halted_device 1500 adc_device [] = (SUCCESS, 1024, Some b, h', t') \<and>
     uint b + 4096 \<le> 6000 \<and> handler_ok h'"
proof -
  define res where "res = get_samples halted_device 1500 adc_device []"
  have v: "fst res = SUCCESS" "fst (snd res) = 1024" "samples_count (fst (snd (snd (snd res)))) = 1500"
    unfolding res_def by code_simp+
  obtain off h' t' where run: "res = (SUCCESS, 1024, off, h', t')"
    using v by (metis prod.collapse)
  have ss: "sample_size (attr adc_device) = 4"
    by (simp add: adc_device_def fmc150_adc_dma_attr_def)
  from get_samples_in_window [OF adc_device_ok, of 1500 halted_device "[]" SUCCESS 1024 off h' t'] run v
  show ?thesis by (auto simp: ss res_def)
qed

theorem get_samples_one_at_a_time_witness:
  "\<exists>off h' t'. get_samples halted_device 1000 (adc_device\<lparr>samples_count := 2000\<rparr>) [] = (SUCCESS, 1, off, h', t') \<and>
     samples_count_pos h' = 1"
proof -
  let ?h = "adc_device\<lparr>samples_count := 2000\<rparr>"
  define res where "res = get_samples halted_device 1000 ?h []"
  have v: "fst res = SUCCESS" unfolding res_def by code_simp
  obtain n' off h' t' where run: "res = (SUCCESS, n', off, h', t')"
    using v by (metis prod.collapse)
  have "handler_ok ?h"
    using adc_device_ok
    by (simp add: handler_ok_def adc_device_def fmc150_adc_dma_attr_def fmc150_adc_low_level_handler_def)
  from get_samples_one_at_a_time [OF this, of 1000 halted_device "[]" n' off h' t'] run
  show ?thesis
    by (auto simp: res_def adc_device_def fmc150_adc_low_level_handler_def)
qed

theorem capture_programs_device_witness:
  "\<exists>ev cr ctl. capture_samples halted_device 1000 adc_device [] = (SUCCESS, adc_device\<lparr>samples_count := 1000\<rparr>, ev) \<and>
     writes ev = [(0x71000024, 0), (0x41E40048, 0xC1000000), (0x41E40030, cr OR 1), (0x41E40058, 4000),
       (0x71000020, 0), (0x71000020, ctl)] \<and> ctl AND 0x1FFFFF = 1000"
proof -
  define res where "res = capture_samples halted_device 1000 adc_device []"
  have v: "fst res = SUCCESS" "fst (snd res) = adc_device\<lparr>samples_count := 1000\<rparr>" unfolding res_def by code_simp+
  obtain ev where run: "res = (SUCCESS, adc_device\<lparr>samples_count := 1000\<rparr>, ev)"
    using v by (metis prod.collapse)
  have f: "sample_size (attr adc_device) = 4" "status_reg adc_device = 0x71000024" "hid adc_device = ADC_ID"
    "baseaddr adc_device = 0x71000020" "mem_start_addr (attr adc_device) = 0xC1000000"
    "RegBase (AxiDma (attr adc_device)) = 0x41E40000"
    by code_simp+
  from capture_programs_device [OF adc_device_ready, of 1000 halted_device "[]" SUCCESS
      "adc_device\<lparr>samples_count := 1000\<rparr>" ev] run
  show ?thesis
    by (auto simp: f res_def)
qed

lemma wait_dma_log: "writes (snd (wait_dma dev d n t)) = writes t"
  by (induction n arbitrary: t) (auto simp: Let_def Busy_def machine delay_def split: prod.splits)

lemma get_samples_no_capture:
  assumes "n \<noteq> 0" and "samples_count_pos h = 0" and "samples_count h = n"
  shows "writes (snd (snd (snd (snd (get_samples dev n h t))))) = writes t"
proof -
  have "\<not> sint (1 :: u32) \<le> 0" by (simp add: sint_cases)
  with assms show ?thesis
    using wait_dma_log [of dev "AxiDma (attr h)" MAX_DMA_TRIES t]
    by (simp add: get_samples_def Let_def case_prod_beta del: wait_dma.simps)
qed

text \<open>Asking for a capture of 0 samples always fails, although the reply to a value that is too
  large says that it must be between 0 and the maximum.\<close>

theorem capture_of_zero_fails:
  assumes "device_ready h" and "capture_samples dev 0 h t = (e, h', t')"
  shows "e = ERROR \<and> samples_count h' = 0"
  using capture_samples_log [OF assms(1) _ assms(2)] capture_fields [OF assms(2)] by auto

theorem capture_of_zero_fails_witness:
  "fst (capture_samples halted_device 0 adc_device []) = ERROR"
  by (metis capture_of_zero_fails [OF adc_device_ready] prod.collapse)

text \<open>C38: a capture that could not be started is remembered as if it had been: the next request
  is answered with success from the buffer, without any transfer having been programmed.\<close>

theorem failed_capture_serves_stale_data:
  assumes "device_ready h" and "n \<noteq> 0" and "uint n * uint (sample_size (attr h)) < 8388608"
    and "capture_samples dev n h t = (ERROR, h1, t1)"
    and "get_samples dev n h1 t1 = (SUCCESS, n', off, h2, t2)"
  shows "n' = 1 \<and> off = Some 0 \<and> writes t2 = writes t @ [(status_reg h, 0)]"
proof -
  have h1: "h1 = h\<lparr>samples_count_pos := 0, samples_count := n\<rparr>"
    using capture_fields [OF assms(4)] by simp
  have ok1: "handler_ok h1"
    using assms(1,3) by (auto simp: device_ready_def handler_ok_def h1)
  have norec: "\<not> recaptures h1 (uint n)" using assms(2) by (simp add: recaptures_def h1)
  have ss: "uint n * uint (sample_size (attr h1)) < 8388608" using assms(3) by (simp add: h1)
  have "granted h1 (uint n) = 1"
    using max_packets_cases [OF ok1] by (auto simp: granted_def Let_def h1)
  with get_samples_window [OF ok1 assms(2) ss assms(5)] norec
  have "uint n' = 1" "off = Some 0" by (auto simp: Let_def h1)
  moreover have "writes t1 = writes t @ [(status_reg h, 0)]"
    using capture_samples_log [OF assms(1,3,4)] by auto
  moreover have "writes t2 = writes t1"
    using assms(2,5) get_samples_no_capture [of n h1 dev t1] by (simp add: h1)
  ultimately show ?thesis by (simp add: word_uint_eq_iff)
qed

text \<open>A device that is busy at first and idle later.\<close>

definition slow_device :: device where
  "slow_device = \<lparr>reg = (\<lambda>t a. if length t < 5 then 0 else 3), ram = (\<lambda>t a. 0)\<rparr>"

theorem failed_capture_serves_stale_data_witness:
  "\<exists>h1 t1 h2 t2. capture_samples slow_device 1000 adc_device [] = (ERROR, h1, t1) \<and>
     get_samples slow_device 1000 h1 t1 = (SUCCESS, 1, Some 0, h2, t2) \<and> writes t2 = [(0x71000024, 0)]"
proof -
  define res where "res = capture_samples slow_device 1000 adc_device []"
  define h1 t1 where "h1 = fst (snd res)" and "t1 = snd (snd res)"
  define res2 where "res2 = get_samples slow_device 1000 h1 t1"
  have v: "fst res = ERROR" unfolding res_def by code_simp
  have v2: "fst res2 = SUCCESS" unfolding res2_def h1_def t1_def res_def by code_simp
  obtain n' off h2 t2 where run2: "res2 = (SUCCESS, n', off, h2, t2)" using v2 by (metis prod.collapse)
  have run: "capture_samples slow_device 1000 adc_device [] = (ERROR, h1, t1)"
    using v by (metis h1_def t1_def res_def prod.collapse)
  have "uint (1000 :: u32) * uint (sample_size (attr adc_device)) < 8388608" "status_reg adc_device = 0x71000024"
    by code_simp+
  with failed_capture_serves_stale_data [OF adc_device_ready _ _ run run2 [unfolded res2_def]] run run2
  show ?thesis by (auto simp: res2_def)
qed

end
