(* ===== verification/Init_Board.thy ===== *)
theory Init_Board
  imports Sampling
begin

text \<open>
  Bringing up the board: \<open>init.c\<close> and \<open>init_platform\<close> of \<open>platform.c\<close>. The clock distributor
  CDCE72010 and the converter ADS62P49 are programmed over SPI; each register read is repeated
  while the SPI core is busy, for as long as it takes, so these functions may not return
  (\<open>None\<close>). Console output, the cache switches and the register and memory dumps that only
  print are not modelled.
\<close>

section \<open>Waiting for the SPI core\<close>

text \<open>\<open>while(read_fmc150_register(cs, addr, &value) < 0) delay(n);\<close>\<close>

partial_function (option) read_until_ready ::
    "device \<Rightarrow> u32 \<Rightarrow> u32 \<Rightarrow> int \<Rightarrow> trace \<Rightarrow> (u32 \<times> trace) option" where
  "read_until_ready dev cs addr n t =
     (case read_fmc150_register dev cs addr t of
        (e, None, t) \<Rightarrow> read_until_ready dev cs addr n (delay n t)
      | (e, Some v, t) \<Rightarrow> Some (v, t))"

declare read_until_ready.simps [code]

section \<open>The clock distributor\<close>

abbreviation "CDCE72010_NUMREG \<equiv> (13 :: nat)"
abbreviation "CDCE72010_PLL_LOCK \<equiv> (0x0400 :: u32)"
abbreviation "CDCE72010_OUTPUT_DIV_MASK \<equiv> (0x0FE0000 :: u32)"
abbreviation "CDCE72010_OUTPUT_DIV_SHIFT \<equiv> (17 :: nat)"

definition cdce72010_reg :: "u32 list" where
  "cdce72010_reg =
     [0x682C0290, 0x68840041, 0x83860002, 0x68400003, 0xE9800004, 0x68000005, 0x68000006,
      0x83800017, 0x68000098, 0x68000049, 0x007C003A, 0x8000050B, 0x0000180C]"

definition enable_ext_clk :: "device \<Rightarrow> trace \<Rightarrow> int \<times> trace" where
  "enable_ext_clk dev t =
     (let (aux, t) = In32 dev FMC150_FLAGS_IN_0 t
      in (SUCCESS, delay 200 (Out32 FMC150_FLAGS_IN_0 (aux OR 0x02) t)))"

text \<open>The body of the loop of \<open>init_cdce72010\<close>, and the loop from register \<open>i\<close> on.\<close>

definition init_cdce72010_one :: "device \<Rightarrow> u32 \<Rightarrow> u32 \<Rightarrow> trace \<Rightarrow> trace option" where
  "init_cdce72010_one dev i v t =
     (case read_until_ready dev CHIPSELECT_CDCE72010 i 1000 t of
        None \<Rightarrow> None
      | Some (_, t) \<Rightarrow>
          let (_, t) = write_fmc150_register dev CHIPSELECT_CDCE72010 i v t;
              t = delay 10 t
          in map_option snd (read_until_ready dev CHIPSELECT_CDCE72010 i 100 t))"

fun init_cdce72010_from :: "device \<Rightarrow> u32 \<Rightarrow> u32 list \<Rightarrow> trace \<Rightarrow> trace option" where
  "init_cdce72010_from dev i [] t = Some t"
| "init_cdce72010_from dev i (v # vs) t =
     (case init_cdce72010_one dev i v t of
        None \<Rightarrow> None
      | Some t \<Rightarrow> init_cdce72010_from dev (i + 1) vs t)"

definition init_cdce72010 :: "device \<Rightarrow> trace \<Rightarrow> (int \<times> trace) option" where
  "init_cdce72010 dev t = map_option (Pair SUCCESS) (init_cdce72010_from dev 0 cdce72010_reg t)"

text \<open>The output divider field of register 2, by which speed mode and delay are chosen.\<close>

definition output_divider :: "u32 \<Rightarrow> u32" where
  "output_divider v = drop_bit CDCE72010_OUTPUT_DIV_SHIFT (v AND CDCE72010_OUTPUT_DIV_MASK)"

definition low_speed_value :: "u32 \<Rightarrow> u32" where
  "low_speed_value d = (if d \<in> {0x20, 0x40, 0x41, 0x42, 0x43, 0x00, 0x01} then 0x00 else 0x04)"

definition init_ads62p49 :: "device \<Rightarrow> trace \<Rightarrow> (int \<times> trace) option" where
  "init_ads62p49 dev t =
     (case read_until_ready dev CHIPSELECT_CDCE72010 0x2 100 t of
        None \<Rightarrow> None
      | Some (v, t) \<Rightarrow>
          let (_, t) = write_fmc150_register dev CHIPSELECT_ADS62P49 0x020
                         (low_speed_value (output_divider v)) t
          in map_option (\<lambda>(_, t). (SUCCESS, t)) (read_until_ready dev CHIPSELECT_ADS62P49 0x020 100 t))"

definition channel_delay :: "u32 \<Rightarrow> u8" where
  "channel_delay d =
     (if d \<in> {0x20, 0x40, 0x41, 0x42, 0x00} then 0x11
      else if d = 0x43 then 0x8
      else if d = 0x01 then 0x06
      else 0x05)"

definition init_fmc150_delay :: "device \<Rightarrow> trace \<Rightarrow> (int \<times> trace) option" where
  "init_fmc150_delay dev t =
     (case read_until_ready dev CHIPSELECT_CDCE72010 0x2 100 t of
        None \<Rightarrow> None
      | Some (v, t) \<Rightarrow>
          let d = channel_delay (output_divider v);
              (e, t) = update_fmc150_adc_delay 0 d d t
          in Some (if e < 0 then ERROR else SUCCESS, t))"

section \<open>Waiting for the clocks\<close>

fun check_ext_lock_tries :: "device \<Rightarrow> nat \<Rightarrow> trace \<Rightarrow> (int \<times> trace) option" where
  "check_ext_lock_tries dev 0 t = Some (ERROR, t)"
| "check_ext_lock_tries dev (Suc n) t =
     (case read_until_ready dev CHIPSELECT_CDCE72010 0xC 100 (delay 10 t) of
        None \<Rightarrow> None
      | Some (v, t) \<Rightarrow>
          if v AND CDCE72010_PLL_LOCK \<noteq> 0 then Some (SUCCESS, t)
          else check_ext_lock_tries dev n (delay 1000 t))"

definition check_ext_lock :: "device \<Rightarrow> trace \<Rightarrow> (int \<times> trace) option" where
  "check_ext_lock dev t = check_ext_lock_tries dev 5 t"

fun check_mmcm_lock_tries :: "device \<Rightarrow> nat \<Rightarrow> trace \<Rightarrow> int \<times> trace" where
  "check_mmcm_lock_tries dev 0 t = (ERROR, t)"
| "check_mmcm_lock_tries dev (Suc n) t =
     (let (v, t) = In32 dev FMC150_FLAGS_OUT_0 t
      in if v AND MASK_AND_FLAGS_OUT_0_FPGA_ADC_CLK_LOCKED \<noteq> 0 then (SUCCESS, t)
         else check_mmcm_lock_tries dev n (delay 100 t))"

definition check_mmcm_lock :: "device \<Rightarrow> trace \<Rightarrow> int \<times> trace" where
  "check_mmcm_lock dev t = check_mmcm_lock_tries dev 5 t"

fun dump_cdce72010_from :: "device \<Rightarrow> u32 \<Rightarrow> nat \<Rightarrow> trace \<Rightarrow> trace option" where
  "dump_cdce72010_from dev i 0 t = Some t"
| "dump_cdce72010_from dev i (Suc n) t =
     (case read_until_ready dev CHIPSELECT_CDCE72010 i 100 t of
        None \<Rightarrow> None
      | Some (_, t) \<Rightarrow> dump_cdce72010_from dev (i + 1) n t)"

definition dump_cdce72010_regs :: "device \<Rightarrow> trace \<Rightarrow> (int \<times> trace) option" where
  "dump_cdce72010_regs dev t =
     map_option (Pair SUCCESS) (dump_cdce72010_from dev 0 CDCE72010_NUMREG (delay 100 t))"

fun calibrate_from :: "u8 \<Rightarrow> nat \<Rightarrow> trace \<Rightarrow> int \<times> trace" where
  "calibrate_from i 0 t = (SUCCESS, t)"
| "calibrate_from i (Suc n) t =
     (let (e, t) = update_fmc150_adc_delay 0 i i t
      in if e < 0 then (- 1, t) else calibrate_from (i + 1) n (delay 2000 t))"

definition calibrate_adc_delay :: "trace \<Rightarrow> int \<times> trace" where
  "calibrate_adc_delay t = calibrate_from 0 32 t"

section \<open>The platform\<close>

definition init_dma :: "device \<Rightarrow> u32 \<Rightarrow> low_level_handler \<Rightarrow> trace \<Rightarrow> bool \<times> low_level_handler \<times> trace" where
  "init_dma dev ident h t =
     (let cfg = LookupConfig ident;
          (st, d, t) = CfgInitialize dev (AxiDma (attr h)) cfg t
      in (st = XST_SUCCESS, h\<lparr>attr := (attr h)\<lparr>AxiDmaConfig := cfg, AxiDma := d\<rparr>\<rparr>, t))"

text \<open>
  \<open>init_platform\<close>: both configurations are looked up first in the code; looking one up has no
  effect. The status of the SPI initializations is ignored.
\<close>

definition init_platform :: "device \<Rightarrow> handlers \<Rightarrow> trace \<Rightarrow> (int \<times> handlers \<times> trace) option" where
  "init_platform dev hs t =
     (let hs = hs\<lparr>ddc_handler := (ddc_handler hs)\<lparr>attr := (attr (ddc_handler hs))\<lparr>AxiDmaConfig := LookupConfig 2\<rparr>\<rparr>,
                  adc_handler := (adc_handler hs)\<lparr>attr := (attr (adc_handler hs))\<lparr>AxiDmaConfig := LookupConfig 1\<rparr>\<rparr>\<rparr>;
          (ok, h, t) = init_dma dev 2 (ddc_handler hs) t;
          hs = hs\<lparr>ddc_handler := h\<rparr>
      in if \<not> ok then Some (- 1, hs, t)
         else
           let (ok, h, t) = init_dma dev 1 (adc_handler hs) t;
               hs = hs\<lparr>adc_handler := h\<rparr>
           in if \<not> ok then Some (- 1, hs, t)
              else
                case init_cdce72010 dev t of None \<Rightarrow> None | Some (_, t) \<Rightarrow>
                case init_ads62p49 dev t of None \<Rightarrow> None | Some (_, t) \<Rightarrow>
                case init_fmc150_delay dev t of None \<Rightarrow> None | Some (_, t) \<Rightarrow>
                let (e, t) = check_mmcm_lock dev t
                in if e < 0 then Some (- 1, hs, t)
                   else case check_ext_lock dev t of
                          None \<Rightarrow> None
                        | Some (e, t) \<Rightarrow> if e < 0 then Some (- 1, hs, t) else Some (0, hs, t))"

definition initial_handlers :: handlers where
  "initial_handlers = \<lparr>adc_handler = fmc150_adc_low_level_handler, ddc_handler = ddc_low_level_handler\<rparr>"

section \<open>What the SPI core is told\<close>













section \<open>Returning and not returning\<close>

text \<open>One round of polling a busy SPI core, and the hypothesis that no run of such rounds goes on
  for ever.\<close>

definition poll_round :: "device \<Rightarrow> int \<Rightarrow> trace \<Rightarrow> trace" where
  "poll_round dev n t = t @ [Rd FMC150_FLAGS_OUT_0 (reg dev t FMC150_FLAGS_OUT_0), Dly n]"

definition spi_free :: "device \<Rightarrow> trace \<Rightarrow> bool" where
  "spi_free dev t \<longleftrightarrow> reg dev t FMC150_FLAGS_OUT_0 AND MASK_AND_FLAGSOUT0_SPI_BUSY \<noteq> MASK_AND_FLAGSOUT0_SPI_BUSY"

definition spi_live :: "device \<Rightarrow> bool" where
  "spi_live dev \<longleftrightarrow> (\<forall>t n. \<exists>m. spi_free dev ((poll_round dev n ^^ m) t))"

lemma read_until_ready_round:
  "read_until_ready dev cs addr n t =
     (if spi_free dev t
      then case read_fmc150_register dev cs addr t of (e, v, t) \<Rightarrow> Some (the v, t)
      else read_until_ready dev cs addr n (poll_round dev n t))"
  by (subst read_until_ready.simps)
    (auto simp: read_fmc150_register_def spi_free_def poll_round_def machine delay_def Let_def)

lemma read_until_ready_returns:
  assumes "spi_live dev"
  shows "read_until_ready dev cs addr n t \<noteq> None"
proof -
  have "read_until_ready dev cs addr n t \<noteq> None" if "spi_free dev ((poll_round dev n ^^ m) t)" for m
    using that
  proof (induction m arbitrary: t)
    case 0
    then show ?case by (subst read_until_ready_round) (simp split: prod.splits)
  next
    case (Suc m)
    then have "read_until_ready dev cs addr n (poll_round dev n t) \<noteq> None"
      by (simp add: funpow_swap1)
    then show ?case
      by (subst read_until_ready_round) (simp del: not_None_eq split: prod.splits)
  qed
  then show ?thesis using assms unfolding spi_live_def by blast
qed

lemma init_cdce72010_returns:
  assumes "spi_live dev"
  shows "init_cdce72010 dev t \<noteq> None"
proof -
  note ready = read_until_ready_returns [OF assms]
  have one: "init_cdce72010_one dev i v t \<noteq> None" for i v t
    using ready
    by (auto simp: init_cdce72010_one_def Let_def simp del: not_None_eq split: option.splits prod.splits)
  have "init_cdce72010_from dev i vs t \<noteq> None" for i vs t
    using one by (induction vs arbitrary: i t) (auto simp del: not_None_eq split: option.splits)
  then show ?thesis by (simp add: init_cdce72010_def)
qed

lemma check_ext_lock_returns: "spi_live dev \<Longrightarrow> check_ext_lock dev t \<noteq> None"
proof -
  assume "spi_live dev"
  note ready = read_until_ready_returns [OF this]
  have "check_ext_lock_tries dev k t \<noteq> None" for k t
    using ready by (induction k arbitrary: t) (auto simp del: not_None_eq split: option.splits)
  then show ?thesis by (simp add: check_ext_lock_def)
qed

lemma read_until_ready_stuck:
  assumes "read_until_ready dev cs addr n t = Some y" and "\<forall>t. \<not> spi_free dev t"
  shows False
  using assms
proof (induction rule: read_until_ready.raw_induct [rotated 1, consumes 1, case_names step])
  case (step rec dev cs addr n t y)
  then have "read_fmc150_register dev cs addr t = (ERROR, None, t @ [Rd FMC150_FLAGS_OUT_0 (reg dev t FMC150_FLAGS_OUT_0)])"
    by (simp add: read_fmc150_register_def spi_free_def machine)
  with step(2) have "rec dev cs addr n (delay n (t @ [Rd FMC150_FLAGS_OUT_0 (reg dev t FMC150_FLAGS_OUT_0)])) = Some y"
    by simp
  from step(1) [OF this step(3)] show ?case .
qed

text \<open>C25: bringing up the platform returns 0 or -1, whatever the registers hold, provided the SPI
  core does not stay busy for ever; all other waits are bounded. If it does stay busy, the
  initialization of the clock distributor never returns.\<close>

theorem init_platform_terminates:
  "(spi_live dev \<longrightarrow> (\<exists>e hs' t'. init_platform dev hs t = Some (e, hs', t') \<and> (e = 0 \<or> e = - 1))) \<and>
   ((\<forall>t. \<not> spi_free dev t) \<longrightarrow> init_cdce72010 dev t = None)"
proof (intro conjI impI)
  assume live: "spi_live dev"
  note ready = read_until_ready_returns [OF live] and parts = init_cdce72010_returns [OF live] check_ext_lock_returns [OF live]
  have ads: "init_ads62p49 dev t \<noteq> None" and del: "init_fmc150_delay dev t \<noteq> None" for t
    using ready by (auto simp: init_ads62p49_def init_fmc150_delay_def Let_def simp del: not_None_eq
        split: option.splits prod.splits)
  have "init_platform dev hs t \<noteq> None"
    using parts ads del
    by (auto simp: init_platform_def Let_def simp del: not_None_eq split: option.splits prod.splits if_splits)
  moreover have "e = 0 \<or> e = - 1" if "init_platform dev hs t = Some (e, hs', t')" for e hs' t'
    using that by (auto simp: init_platform_def Let_def split: option.splits prod.splits if_splits)
  ultimately show "\<exists>e hs' t'. init_platform dev hs t = Some (e, hs', t') \<and> (e = 0 \<or> e = - 1)"
    by (metis option.exhaust surj_pair)
next
  assume stuck: "\<forall>t. \<not> spi_free dev t"
  then have "read_until_ready dev cs addr n t = None" for cs addr n t
    using read_until_ready_stuck by (metis option.exhaust)
  then show "init_cdce72010 dev t = None"
    by (simp add: init_cdce72010_def cdce72010_reg_def init_cdce72010_one_def)
qed

lemma check_mmcm_lock_log:
  "check_mmcm_lock_tries dev n t = (e, t') \<Longrightarrow>
     \<exists>ev. t' = t @ ev \<and> (e = SUCCESS \<longrightarrow> (\<exists>v. Rd FMC150_FLAGS_OUT_0 v \<in> set ev \<and> v AND 0x4 \<noteq> 0))"
proof (induction n arbitrary: t)
  case (Suc n)
  let ?v = "reg dev t FMC150_FLAGS_OUT_0"
  show ?case
  proof (cases "?v AND MASK_AND_FLAGS_OUT_0_FPGA_ADC_CLK_LOCKED = 0")
    case True
    with Suc.prems have "check_mmcm_lock_tries dev n (delay 100 (t @ [Rd FMC150_FLAGS_OUT_0 ?v])) = (e, t')"
      by (simp add: machine)
    from Suc.IH [OF this] show ?thesis by (auto simp: delay_def)
  next
    case False
    with Suc.prems show ?thesis by (auto simp: machine)
  qed
qed simp

lemma init_dma_ready:
  assumes "init_dma dev ident h t = (ok, h', t')" and "LookupConfig ident = Some c" and "\<not> CfgHasSg c"
  shows "hid h' = hid h \<and> baseaddr h' = baseaddr h \<and> samples_count h' = samples_count h \<and>
    samples_count_pos h' = samples_count_pos h \<and> sample_size (attr h') = sample_size (attr h) \<and>
    mem_start_addr (attr h') = mem_start_addr (attr h) \<and> mem_size (attr h') = mem_size (attr h) \<and>
    max_resp_buffer_packets (attr h') = max_resp_buffer_packets (attr h) \<and> dma_ready (AxiDma (attr h')) c \<and>
    (ok \<longrightarrow> Initialized (AxiDma (attr h')))"
proof -
  obtain st d t1 where c: "CfgInitialize dev (AxiDma (attr h)) (Some c) t = (st, d, t1)" by (metis surj_pair)
  with assms have "h' = h\<lparr>attr := (attr h)\<lparr>AxiDmaConfig := Some c, AxiDma := d\<rparr>\<rparr>" "ok \<longleftrightarrow> st = XST_SUCCESS"
    by (auto simp: init_dma_def Let_def)
  with cfg_initialize_simple [OF c assms(3)] show ?thesis by simp
qed

lemma lookup_table: "LookupConfig 1 = Some (XAxiDma_ConfigTable ! 1)" "LookupConfig 2 = Some (XAxiDma_ConfigTable ! 2)"
  by (simp_all add: LookupConfig_def XAxiDma_ConfigTable_def)

lemma table_simple: "\<not> CfgHasSg (XAxiDma_ConfigTable ! 1)" "\<not> CfgHasSg (XAxiDma_ConfigTable ! 2)"
  by (simp_all add: XAxiDma_ConfigTable_def)

text \<open>C26: when \<open>init_platform\<close> reports success, both capture devices are ready for requests, each
  with the engine of its own configuration initialised, and nothing has been captured.\<close>

theorem init_platform_ready:
  assumes run: "init_platform dev initial_handlers t = Some (0, hs, t')"
  shows "device_ready (adc_handler hs) \<and> device_ready (ddc_handler hs) \<and>
    Initialized (AxiDma (attr (adc_handler hs))) \<and> Initialized (AxiDma (attr (ddc_handler hs))) \<and>
    samples_count (adc_handler hs) = 0 \<and> samples_count (ddc_handler hs) = 0"
proof -
  define hs0 where "hs0 = initial_handlers\<lparr>
    ddc_handler := (ddc_handler initial_handlers)\<lparr>attr := (attr (ddc_handler initial_handlers))\<lparr>AxiDmaConfig := LookupConfig 2\<rparr>\<rparr>,
    adc_handler := (adc_handler initial_handlers)\<lparr>attr := (attr (adc_handler initial_handlers))\<lparr>AxiDmaConfig := LookupConfig 1\<rparr>\<rparr>\<rparr>"
  obtain ok2 h2 t2 where d: "init_dma dev 2 (ddc_handler hs0) t = (ok2, h2, t2)" by (metis surj_pair)
  obtain ok1 h1 t1 where a: "init_dma dev 1 (adc_handler hs0) t2 = (ok1, h1, t1)" by (metis surj_pair)
  have hs: "ok2 \<and> ok1 \<and> adc_handler hs = h1 \<and> ddc_handler hs = h2"
    using run d a unfolding init_platform_def hs0_def [symmetric]
    by (auto simp: Let_def hs0_def split: if_splits option.splits prod.splits)
  note r2 = init_dma_ready [OF d lookup_table(2) table_simple(2)] and r1 = init_dma_ready [OF a lookup_table(1) table_simple(1)]
  have i1: "hid h1 = ADC_ID \<and> baseaddr h1 = FMC150_BASEADDR + 0x20 \<and> samples_count h1 = 0 \<and> samples_count_pos h1 = 0 \<and>
      sample_size (attr h1) = 4 \<and> mem_start_addr (attr h1) = DDR3_DMA_ADC_BUFFER \<and> mem_size (attr h1) = 8388608 \<and>
      max_resp_buffer_packets (attr h1) = 1024"
    using r1 by (simp add: hs0_def initial_handlers_def fmc150_adc_low_level_handler_def fmc150_adc_dma_attr_def)
  have i2: "hid h2 = DDC_ID \<and> baseaddr h2 = BPM_DDC_BASEADDR \<and> samples_count h2 = 0 \<and> samples_count_pos h2 = 0 \<and>
      sample_size (attr h2) = 16 \<and> mem_start_addr (attr h2) = DDR3_DMA_DDC_BUFFER \<and> mem_size (attr h2) = 8388608 \<and>
      max_resp_buffer_packets (attr h2) = 256"
    using r2 by (simp add: hs0_def initial_handlers_def ddc_low_level_handler_def ddc_dma_attr_def)
  show ?thesis
    using hs r1 r2 i1 i2 by (simp add: device_ready_def handler_ok_def)
qed

text \<open>A board on which every wait succeeds at the first try.\<close>

definition board_device :: device where
  "board_device = \<lparr>reg = (\<lambda>t a. if a = FMC150_FLAGS_OUT_0 then 0x4 else 0x403), ram = (\<lambda>t a. 0)\<rparr>"

lemma board_spi: "spi_free board_device t"
  by (simp add: spi_free_def board_device_def)

lemma board_live: "spi_live board_device"
  unfolding spi_live_def using board_spi by blast

lemma board_read:
  "read_until_ready board_device cs addr n t =
     Some (0x403, snd (snd (read_fmc150_register board_device cs addr t)))"
  by (subst read_until_ready_round)
    (simp add: board_spi, simp add: read_fmc150_register_def machine board_device_def Let_def)

lemma board_init: "map_option fst (init_platform board_device initial_handlers []) = Some 0"
  by code_simp

theorem init_platform_ready_witness:
  "\<exists>hs t'. init_platform board_device initial_handlers [] = Some (0, hs, t') \<and>
     device_ready (adc_handler hs) \<and> device_ready (ddc_handler hs)"
proof -
  obtain hs t' where run: "init_platform board_device initial_handlers [] = Some (0, hs, t')"
    using board_init by auto
  from init_platform_ready [OF run] run show ?thesis by blast
qed

theorem init_platform_terminates_witness:
  "\<exists>e hs' t'. init_platform board_device initial_handlers [] = Some (e, hs', t') \<and> (e = 0 \<or> e = - 1)"
  using init_platform_terminates [of board_device initial_handlers "[]"] board_live by blast


end
