(* ===== verification/Server.thy ===== *)
theory Server
  imports Init_Board Pack
begin

text \<open>
  The request layer: the packets and handlers of \<open>common.h\<close> and
  \<open>handle_request\<close> with its lookups from \<open>server.c\<close>. Where the code would read
  an uninitialised field, store through a pointer that was never set or dereference \<open>NULL\<close>, the
  model returns a fault instead of making up a result.
\<close>

section \<open>Packets and handlers\<close>

record command_packet =
  c_comm :: u32
  c_cs :: u32
  c_addr :: u32
  c_val :: u32

text \<open>The response packet is a local variable of the session, without an initializer: a field is
  \<open>None\<close> until it is assigned. \<open>r_buf\<close> is a pointer.\<close>

record response_packet =
  r_comm :: "u32 option"
  r_num :: "u32 option"
  r_buf :: "u32 option"

definition fresh_response :: response_packet where
  "fresh_response = \<lparr>r_comm = None, r_num = None, r_buf = None\<rparr>"

datatype fault = Null_handler | Wild_pointer | Uninitialised | Send_buffer_overflow

record command_attr =
  max_samples :: u32
  attr_sample_size :: u32

definition fmc150_comm_attr :: command_attr where
  "fmc150_comm_attr = \<lparr>max_samples = MAX_ADC_SAMPLES_COUNT, attr_sample_size = ADC_SAMPLE_SIZE\<rparr>"

definition ddc_comm_attr :: command_attr where
  "ddc_comm_attr = \<lparr>max_samples = MAX_DDC_SAMPLES_COUNT, attr_sample_size = DDC_SAMPLE_SIZE\<rparr>"

definition fmc150_ddc_comm_attr :: command_attr where
  "fmc150_ddc_comm_attr = \<lparr>max_samples = MAX_ADC_DDC_SAMPLES_COUNT, attr_sample_size = ADC_DDC_SAMPLE_SIZE\<rparr>"

definition soft_reg_attr :: command_attr where
  "soft_reg_attr = \<lparr>max_samples = 0, attr_sample_size = 0\<rparr>"

definition led_comm_attr :: command_attr where
  "led_comm_attr = \<lparr>max_samples = 0, attr_sample_size = 0\<rparr>"

text \<open>
  \<open>struct command_ops\<close>: the function pointers. The handler argument may be \<open>NULL\<close>; a function
  that dereferences it then faults (\<open>None\<close>).
\<close>

record command_ops =
  op_capture :: "device \<Rightarrow> u32 \<Rightarrow> low_level_handler option \<Rightarrow> trace
                   \<Rightarrow> (int \<times> low_level_handler option \<times> trace) option"
  op_get :: "device \<Rightarrow> u32 \<Rightarrow> low_level_handler option \<Rightarrow> trace
               \<Rightarrow> (int \<times> u32 \<times> u32 option \<times> low_level_handler option \<times> trace) option"
  op_read :: "device \<Rightarrow> u32 \<Rightarrow> u32 \<Rightarrow> trace \<Rightarrow> int \<times> u32 option \<times> trace"
  op_write :: "device \<Rightarrow> u32 \<Rightarrow> u32 \<Rightarrow> u32 \<Rightarrow> trace \<Rightarrow> int \<times> trace"

fun call_capture :: "device \<Rightarrow> u32 \<Rightarrow> low_level_handler option \<Rightarrow> trace
    \<Rightarrow> (int \<times> low_level_handler option \<times> trace) option" where
  "call_capture dev n None t = None"
| "call_capture dev n (Some h) t = (let (e, h, t) = capture_samples dev n h t in Some (e, Some h, t))"

fun call_get :: "device \<Rightarrow> u32 \<Rightarrow> low_level_handler option \<Rightarrow> trace
    \<Rightarrow> (int \<times> u32 \<times> u32 option \<times> low_level_handler option \<times> trace) option" where
  "call_get dev n None t = None"
| "call_get dev n (Some h) t =
     (let (e, n, off, h, t) = get_samples dev n h t in Some (e, n, off, Some h, t))"

definition fmc150_comm_ops :: command_ops where
  "fmc150_comm_ops = \<lparr>op_capture = call_capture, op_get = call_get,
     op_read = read_fmc150_register, op_write = write_fmc150_register\<rparr>"

definition ddc_comm_ops :: command_ops where
  "ddc_comm_ops = \<lparr>op_capture = call_capture, op_get = call_get,
     op_read = (\<lambda>dev. read_reg_dummy), op_write = (\<lambda>dev. write_reg_dummy)\<rparr>"

definition soft_reg_ops :: command_ops where
  "soft_reg_ops =
     \<lparr>op_capture = (\<lambda>dev n h t. Some (capture_samples_dummy n h t)),
      op_get = (\<lambda>dev n h t. Some (get_samples_dummy n h t)),
      op_read = read_soft_register, op_write = (\<lambda>dev. write_soft_register)\<rparr>"

definition led_comm_ops :: command_ops where
  "led_comm_ops =
     \<lparr>op_capture = (\<lambda>dev n h t. Some (capture_samples_dummy n h t)),
      op_get = (\<lambda>dev n h t. Some (get_samples_dummy n h t)),
      op_read = (\<lambda>dev. read_reg_dummy), op_write = (\<lambda>dev. write_reg_dummy)\<rparr>"

section \<open>Lookups\<close>

definition prepare_to_handle :: "command_packet \<Rightarrow> int" where
  "prepare_to_handle p =
     (if c_comm p = FMC150_GET_SAMPLES then sint (c_val p * ADC_SAMPLE_SIZE)
      else if c_comm p = DDC_GET_SAMPLES then sint (c_val p * DDC_SAMPLE_SIZE)
      else 1)"

definition get_command_handler :: "u32 \<Rightarrow> (command_attr \<times> command_ops) option" where
  "get_command_handler comm =
     (if comm \<in> {FMC150_CAPTURE, FMC150_GET_SAMPLES, FMC150_READ, FMC150_WRITE}
      then Some (fmc150_comm_attr, fmc150_comm_ops)
      else if comm \<in> {DDC_CAPTURE, DDC_GET_SAMPLES} then Some (ddc_comm_attr, ddc_comm_ops)
      else if comm \<in> {LED_READ, LED_WRITE} then Some (led_comm_attr, led_comm_ops)
      else if comm \<in> {SOFT_REG_READ, SOFT_REG_WRITE} then Some (soft_reg_attr, soft_reg_ops)
      else None)"

text \<open>\<open>enum response_types\<close>\<close>

abbreviation "MESSAGE \<equiv> (1 :: u32)"
abbreviation "FMC150_REG_VALUE \<equiv> (2 :: u32)"
abbreviation "FMC150_NEW_DATA \<equiv> (3 :: u32)"
abbreviation "FMC150_REMAINING_DATA \<equiv> (4 :: u32)"
abbreviation "DDC_NEW_DATA \<equiv> (5 :: u32)"
abbreviation "DDC_REMAINING_DATA \<equiv> (6 :: u32)"
abbreviation "SOFT_REG_NEW_DATA \<equiv> (9 :: u32)"
abbreviation "SOFT_REG_REMAINING_DATA \<equiv> (10 :: u32)"

text \<open>The identifiers of a new and of a continued answer; \<open>byte_offset\<close> is always 0.\<close>

definition get_response_handler :: "u32 \<Rightarrow> (u32 \<times> u32) option" where
  "get_response_handler comm =
     (if comm \<in> {FMC150_CAPTURE, FMC150_GET_SAMPLES, FMC150_READ, FMC150_WRITE}
      then Some (FMC150_NEW_DATA, FMC150_REMAINING_DATA)
      else if comm \<in> {DDC_CAPTURE, DDC_GET_SAMPLES} then Some (DDC_NEW_DATA, DDC_REMAINING_DATA)
      else if comm \<in> {LED_READ, LED_WRITE} then Some (0, 0)
      else if comm \<in> {SOFT_REG_READ, SOFT_REG_WRITE}
      then Some (SOFT_REG_NEW_DATA, SOFT_REG_REMAINING_DATA)
      else None)"

section \<open>Replies\<close>

fun decimal :: "nat \<Rightarrow> string" where
  "decimal n = (if n < 10 then [char_of (48 + n)] else decimal (n div 10) @ [char_of (48 + n mod 10)])"

declare decimal.simps [simp del]

definition hex_digit :: "nat \<Rightarrow> char" where
  "hex_digit d = (if d < 10 then char_of (48 + d) else char_of (55 + d))"

definition hex8 :: "u32 \<Rightarrow> string" where
  "hex8 w = map (\<lambda>k. hex_digit (unat (drop_bit (4 * (7 - k)) w AND 0xF))) [0..<8]"

definition chars :: "string \<Rightarrow> u8 list" where
  "chars s = map of_char s"

text \<open>\<open>num = sprintf(buf, msg) + 1\<close>: the text and its terminator are stored at \<open>buf\<close>.\<close>

definition say ::
    "string \<Rightarrow> response_packet \<Rightarrow> trace \<Rightarrow> fault + (response_packet \<times> trace)" where
  "say msg r t =
     (case r_buf r of
        None \<Rightarrow> Inl Wild_pointer
      | Some a \<Rightarrow> Inr (r\<lparr>r_num := Some (of_nat (length msg) + 1)\<rparr>, t @ [St a (chars msg @ [0])]))"

text \<open>The memory image of a \<open>u32\<close> on this (little-endian) processor.\<close>

definition le_bytes :: "u32 \<Rightarrow> u8 list" where
  "le_bytes v = [ucast v, ucast (drop_bit 8 v), ucast (drop_bit 16 v), ucast (drop_bit 24 v)]"

type_synonym handled = "fault + (bool \<times> response_packet \<times> low_level_handler option \<times> trace)"

definition reply ::
    "bool \<Rightarrow> string \<Rightarrow> response_packet \<Rightarrow> low_level_handler option \<Rightarrow> trace \<Rightarrow> handled" where
  "reply err msg r lh t =
     (case say msg r t of Inl f \<Rightarrow> Inl f | Inr (r, t) \<Rightarrow> Inr (err, r, lh, t))"

definition invalid_value :: "command_attr \<Rightarrow> string" where
  "invalid_value ca = ''Invalid value! Must be between 0 and '' @ decimal (unat (max_samples ca))"

section \<open>The cases of the request switch\<close>

text \<open>Each returns the error flag of \<open>handle_request\<close> and the state. \<open>val < 0\<close> is never true of an
  unsigned value.\<close>

definition handle_adc_delay ::
    "u32 \<Rightarrow> response_packet \<Rightarrow> low_level_handler option \<Rightarrow> trace \<Rightarrow> handled" where
  "handle_adc_delay v r lh t =
     (let (e, t) = update_fmc150_adc_delay (ucast (v AND 0xFF)) (ucast (drop_bit 8 (v AND 0xFF00)))
                     (ucast (drop_bit 16 (v AND 0xFF0000))) t
      in if e < 0 then reply True ''Error updating adc_delay!'' r lh t
         else reply False ''Adc delay successfully updated!'' r lh t)"

definition handle_capture ::
    "device \<Rightarrow> command_attr \<Rightarrow> command_ops \<Rightarrow> u32 \<Rightarrow> response_packet \<Rightarrow> low_level_handler option
      \<Rightarrow> trace \<Rightarrow> handled" where
  "handle_capture dev ca ops v r lh t =
     (if max_samples ca < v then reply True (invalid_value ca) r lh t
      else case op_capture ops dev v lh t of
             None \<Rightarrow> Inl Null_handler
           | Some (e, lh, t) \<Rightarrow>
               if e < 0 then reply True ''Error acquiring data!'' r lh t
               else reply False ''Capture command started successfully!'' r lh t)"

definition handle_get ::
    "device \<Rightarrow> command_attr \<Rightarrow> command_ops \<Rightarrow> u32 \<times> u32 \<Rightarrow> u32 \<Rightarrow> response_packet
      \<Rightarrow> low_level_handler option \<Rightarrow> trace \<Rightarrow> handled" where
  "handle_get dev ca ops ids v r lh t =
     (if max_samples ca < v then reply True (invalid_value ca) r lh t
      else case op_get ops dev v lh t of
             None \<Rightarrow> Inl Null_handler
           | Some (e, v, off, lh, t) \<Rightarrow>
               if e < 0 then reply True ''Error! Could not acquire data!'' r lh t
               else case lh of
                      None \<Rightarrow> Inl Null_handler
                    | Some h \<Rightarrow>
                        let b = (case off of None \<Rightarrow> 0 | Some b \<Rightarrow> b)
                        in Inr (False,
                             r\<lparr>r_buf := Some (mem_start_addr (attr h) + b),
                               r_comm := Some (if b = 0 then fst ids else snd ids),
                               r_num := Some (v * attr_sample_size ca)\<rparr>, lh, t))"

definition handle_read ::
    "device \<Rightarrow> command_ops \<Rightarrow> u32 \<times> u32 \<Rightarrow> u32 \<Rightarrow> u32 \<Rightarrow> u32 \<Rightarrow> response_packet
      \<Rightarrow> low_level_handler option \<Rightarrow> trace \<Rightarrow> handled" where
  "handle_read dev ops ids cs addr v r lh t =
     (let (e, x, t) = op_read ops dev cs addr t
      in if e < 0 then reply True ''Error reading from register!'' r lh t
         else case r_buf r of
                None \<Rightarrow> Inl Wild_pointer
              | Some a \<Rightarrow>
                  Inr (False, r\<lparr>r_comm := Some (fst ids), r_num := Some 4\<rparr>, lh,
                       t @ [St a (le_bytes (case x of None \<Rightarrow> v | Some x \<Rightarrow> x))]))"

definition handle_write ::
    "device \<Rightarrow> command_ops \<Rightarrow> u32 \<Rightarrow> u32 \<Rightarrow> u32 \<Rightarrow> response_packet
      \<Rightarrow> low_level_handler option \<Rightarrow> trace \<Rightarrow> handled" where
  "handle_write dev ops cs addr v r lh t =
     (let (e, t) = op_write ops dev cs addr v t
      in if e < 0 then reply True ''Error writing to register!'' r lh t
         else reply False ''Write to register ok!'' r lh t)"

definition handle_led_read ::
    "device \<Rightarrow> u32 \<Rightarrow> response_packet \<Rightarrow> low_level_handler option \<Rightarrow> trace \<Rightarrow> handled" where
  "handle_led_read dev v r lh t =
     (let (e, x, t) = led_read dev 0 0 t
      in if e < 0 then reply True ''Error read from led!'' r lh t
         else reply False (''Led value: 0x'' @ hex8 (case x of None \<Rightarrow> v | Some x \<Rightarrow> x)) r lh t)"

definition handle_led_write ::
    "u32 \<Rightarrow> response_packet \<Rightarrow> low_level_handler option \<Rightarrow> trace \<Rightarrow> handled" where
  "handle_led_write v r lh t =
     (let (e, t) = led_write 0 0 v t
      in if e < 0 then reply True ''Error writing to led!'' r lh t
         else reply False ''Led successfully written!'' r lh t)"

text \<open>The switch. \<open>QUIT\<close> returns \<open>ERROR\<close> with the error flag set, the other way out of it.\<close>

definition request_switch ::
    "device \<Rightarrow> command_packet \<Rightarrow> command_attr \<Rightarrow> command_ops \<Rightarrow> u32 \<times> u32 \<Rightarrow> response_packet
      \<Rightarrow> low_level_handler option \<Rightarrow> trace \<Rightarrow> handled" where
  "request_switch dev p ca ops ids r lh t =
     (let comm = c_comm p; v = c_val p
      in if comm = FMC150_ADC_DELAY then handle_adc_delay v r lh t
         else if comm \<in> {FMC150_CAPTURE, DDC_CAPTURE, DDC_FMC150_CAPTURE}
           then handle_capture dev ca ops v r lh t
         else if comm \<in> {FMC150_GET_SAMPLES, DDC_GET_SAMPLES, DDC_FMC150_GET_SAMPLES}
           then handle_get dev ca ops ids v r lh t
         else if comm \<in> {FMC150_READ, DDC_READ, SOFT_REG_READ}
           then handle_read dev ops ids (c_cs p) (c_addr p) v r lh t
         else if comm \<in> {FMC150_WRITE, DDC_WRITE, SOFT_REG_WRITE}
           then handle_write dev ops (c_cs p) (c_addr p) v r lh t
         else if comm = LED_READ then handle_led_read dev v r lh t
         else if comm = LED_WRITE then handle_led_write v r lh t
         else if comm = QUIT then reply True ''Server side connection closed!'' r lh t
         else reply False ''Unexpected command!'' r lh t)"

text \<open>\<open>handle_request\<close>: the return value, the response packet, the handlers and the log.\<close>

definition handle_request ::
    "device \<Rightarrow> command_packet \<Rightarrow> response_packet \<Rightarrow> handlers \<Rightarrow> trace
      \<Rightarrow> fault + (int \<times> response_packet \<times> handlers \<times> trace)" where
  "handle_request dev p r hs t =
     (case get_command_handler (c_comm p) of
        None \<Rightarrow> Inr (ERROR, r, hs, t)
      | Some (ca, ops) \<Rightarrow>
     (case get_response_handler (c_comm p) of
        None \<Rightarrow> Inr (ERROR, r, hs, t)
      | Some ids \<Rightarrow>
     (case get_low_level_handler (c_comm p) of
        (e, None) \<Rightarrow> Inr (ERROR, r, hs, t)
      | (e, Some ptr) \<Rightarrow>
          let r = r\<lparr>r_comm := Some MESSAGE\<rparr>
          in case request_switch dev p ca ops ids r (map_option (handler_of hs) ptr) t of
               Inl f \<Rightarrow> Inl f
             | Inr (err, r, lh, t) \<Rightarrow>
                 let hs = (case (ptr, lh) of (Some d, Some h) \<Rightarrow> set_handler hs d h | _ \<Rightarrow> hs)
                 in Inr (if err then ERROR else sint (case r_num r of None \<Rightarrow> 0 | Some n \<Rightarrow> n), r, hs, t))))"

end
