(* ===== verification/Connection.thy ===== *)
theory Connection
  imports Server
begin

text \<open>
  The connection layer: \<open>connection_server.c\<close> and the session loop \<open>process_client_request\<close> of
  \<open>server.c\<close>. The socket is lwIP's, a vendored library, and is a parameter: it answers every
  \<open>lwip_send\<close> and \<open>lwip_recv\<close> from the history of the socket, in the chunks and with the failures
  it likes.
\<close>

section \<open>The socket\<close>

datatype net_event = Sent "u8 list" | Received "u8 list" | Closed

type_synonym net_log = "net_event list"

record socket =
  send_answer :: "net_log \<Rightarrow> u8 list \<Rightarrow> int"
  recv_answer :: "net_log \<Rightarrow> nat \<Rightarrow> int \<times> u8 list"

text \<open>What the socket interface promises: a send takes at most what it is offered, and a receive
  returns as many bytes as it says, at most as many as asked for.\<close>

definition socket_ok :: "socket \<Rightarrow> bool" where
  "socket_ok sk \<longleftrightarrow>
     (\<forall>s bs. send_answer sk s bs \<le> int (length bs)) \<and>
     (\<forall>s k n bs. recv_answer sk s k = (n, bs) \<longrightarrow> 0 \<le> n \<longrightarrow> n = int (length bs) \<and> length bs \<le> k)"

fun sent_bytes :: "net_log \<Rightarrow> u8 list" where
  "sent_bytes [] = []"
| "sent_bytes (Sent bs # s) = bs @ sent_bytes s"
| "sent_bytes (Received bs # s) = sent_bytes s"
| "sent_bytes (Closed # s) = sent_bytes s"

fun received_bytes :: "net_log \<Rightarrow> u8 list" where
  "received_bytes [] = []"
| "received_bytes (Sent bs # s) = received_bytes s"
| "received_bytes (Received bs # s) = bs @ received_bytes s"
| "received_bytes (Closed # s) = received_bytes s"

fun closes :: "net_log \<Rightarrow> nat" where
  "closes [] = 0"
| "closes (Sent bs # s) = closes s"
| "closes (Received bs # s) = closes s"
| "closes (Closed # s) = Suc (closes s)"

lemma sent_bytes_append [simp]: "sent_bytes (s @ s') = sent_bytes s @ sent_bytes s'"
  by (induction s rule: sent_bytes.induct) simp_all

lemma received_bytes_append [simp]: "received_bytes (s @ s') = received_bytes s @ received_bytes s'"
  by (induction s rule: received_bytes.induct) simp_all

lemma closes_append [simp]: "closes (s @ s') = closes s + closes s'"
  by (induction s rule: closes.induct) simp_all

section \<open>Whole buffers\<close>

function sendall :: "socket \<Rightarrow> u8 list \<Rightarrow> nat \<Rightarrow> net_log \<Rightarrow> int \<times> net_log" where
  "sendall sk bs sent s =
     (if length bs \<le> sent then (int sent, s)
      else
        let n = send_answer sk s (drop sent bs)
        in if n < 0 then (ERROR, s)
           else if n = 0 then (0, s)
           else sendall sk bs (sent + nat n) (s @ [Sent (take (nat n) (drop sent bs))]))"
  by pat_completeness auto

termination
  by (relation "measure (\<lambda>(sk, bs, sent, s). length bs - sent)") auto

declare sendall.simps [simp del]

text \<open>\<open>recvall\<close>: the bytes in the buffer so far are the accumulator, which grows by the number of
  bytes that \<open>lwip_recv\<close> reports.\<close>

function recvall :: "socket \<Rightarrow> nat \<Rightarrow> u8 list \<Rightarrow> net_log \<Rightarrow> int \<times> u8 list \<times> net_log" where
  "recvall sk len acc s =
     (if len \<le> length acc then (int (length acc), acc, s)
      else
        let (n, bs) = recv_answer sk s (len - length acc)
        in if n < 0 then (ERROR, acc, s)
           else if n = 0 then (0, acc, s)
           else let got = take (nat n) (bs @ replicate (nat n) 0)
                in recvall sk len (acc @ got) (s @ [Received got]))"
  by pat_completeness auto

termination
  by (relation "measure (\<lambda>(sk, len, acc, s). len - length acc)") auto

declare recvall.simps [simp del]

section \<open>Packets\<close>

abbreviation "RESPONSE_PACKET_HEADER_SIZE \<equiv> (8 :: int)"
abbreviation "COMMAND_PACKET_SIZE \<equiv> (16 :: nat)"
abbreviation "RECV_BUF_SIZE \<equiv> (4104 :: nat)"

definition prepare_to_read_command :: "u8 list \<Rightarrow> int \<Rightarrow> command_packet option" where
  "prepare_to_read_command buf len =
     (if len < int COMMAND_PACKET_SIZE then None
      else case unpack buf ''LLLL'' of
             Some [U_L a, U_L b, U_L c, U_L d] \<Rightarrow>
               Some \<lparr>c_comm = a, c_cs = b, c_addr = c, c_val = d\<rparr>
           | _ \<Rightarrow> None)"

text \<open>\<open>recv_command_packet\<close>: the return value and the packet, if one was unpacked.\<close>

definition recv_command_packet :: "socket \<Rightarrow> net_log \<Rightarrow> int \<times> command_packet option \<times> net_log" where
  "recv_command_packet sk s =
     (let (n, buf, s) = recvall sk COMMAND_PACKET_SIZE [] s
      in if n < 0 then (ERROR, None, s)
         else if n = 0 then (0, None, s @ [Closed])
         else case prepare_to_read_command buf n of
                None \<Rightarrow> (ERROR, None, s)
              | Some p \<Rightarrow> (n, Some p, s))"

text \<open>
  \<open>prepare_to_write_response\<close>, whose caller passes \<open>num + 8\<close> as the length: the bytes put into
  \<open>send_buf\<close>, \<open>None\<close> for its error return. What does not fit the 4104 bytes of that buffer is
  a fault. For a text the payload conversion is \<open>%ds\<close> with the decimal of \<open>num\<close>; \<open>pack\<close> skips
  the digits. A text is read up to its terminator; one without a terminator in the first 4104
  bytes does not fit either.
\<close>

definition data_response :: "u32 \<Rightarrow> bool" where
  "data_response c \<longleftrightarrow>
     c \<in> {FMC150_REG_VALUE, FMC150_NEW_DATA, FMC150_REMAINING_DATA, DDC_NEW_DATA,
          DDC_REMAINING_DATA, SOFT_REG_NEW_DATA, SOFT_REG_REMAINING_DATA}"

definition prepare_to_write_response ::
    "device \<Rightarrow> int \<Rightarrow> response_packet \<Rightarrow> trace \<Rightarrow> fault + u8 list option" where
  "prepare_to_write_response dev len r t =
     (if len \<le> RESPONSE_PACKET_HEADER_SIZE then Inr None
      else
        case (r_comm r, r_num r, r_buf r) of
          (Some c, Some n, Some a) \<Rightarrow>
            (case pack ''LL'' [A_int c, A_int n] of
               None \<Rightarrow> Inl Send_buffer_overflow
             | Some (hdr, _) \<Rightarrow>
                 if data_response c
                 then if RECV_BUF_SIZE < length hdr + unat n then Inl Send_buffer_overflow
                      else Inr (Some (hdr @ ram_bytes dev t a (unat n)))
                 else case pack (decimal (unat n) @ ''s'') [A_str (ram_bytes dev t a RECV_BUF_SIZE)] of
                        None \<Rightarrow> Inl Send_buffer_overflow
                      | Some (body, _) \<Rightarrow>
                          if RECV_BUF_SIZE < length hdr + length body then Inl Send_buffer_overflow
                          else Inr (Some (hdr @ body)))
        | (_, _, None) \<Rightarrow> Inl Wild_pointer
        | _ \<Rightarrow> Inl Uninitialised)"

definition send_response_packet ::
    "device \<Rightarrow> socket \<Rightarrow> response_packet \<Rightarrow> trace \<Rightarrow> net_log \<Rightarrow> fault + int \<times> net_log" where
  "send_response_packet dev sk r t s =
     (case r_num r of
        None \<Rightarrow> Inl Uninitialised
      | Some n \<Rightarrow>
          (case prepare_to_write_response dev (sint (n + 8)) r t of
             Inl f \<Rightarrow> Inl f
           | Inr None \<Rightarrow> Inr (ERROR, s)
           | Inr (Some bs) \<Rightarrow>
               let (n, s) = sendall sk bs 0 s in Inr (if n < 0 then ERROR else n, s)))"

section \<open>A session\<close>

text \<open>
  The state of the thread: the server's handlers, the response packet and the \<open>error\<close> flag, which
  both live across requests, and the logs of the hardware and of the socket.
\<close>

record session =
  s_handlers :: handlers
  s_response :: response_packet
  s_error :: bool
  s_trace :: trace
  s_net :: net_log

text \<open>
  The inner loop of \<open>process_client_request\<close>. Whether it ends is a theorem below; here a loop
  that does not is \<open>None\<close>.
\<close>

partial_function (option) answer_loop ::
    "device \<Rightarrow> socket \<Rightarrow> command_packet \<Rightarrow> int \<Rightarrow> session \<Rightarrow> (fault + session) option" where
  "answer_loop dev sk p remaining st =
     (if \<not> (0 < remaining \<and> \<not> s_error st) then Some (Inr st)
      else
        case handle_request dev p (s_response st) (s_handlers st) (s_trace st) of
          Inl f \<Rightarrow> Some (Inl f)
        | Inr (valid, r, hs, t) \<Rightarrow>
            let st = st\<lparr>s_response := r, s_handlers := hs, s_trace := t, s_error := valid < 0\<rparr>
            in case send_response_packet dev sk r t (s_net st) of
                 Inl f \<Rightarrow> Some (Inl f)
               | Inr (n, s) \<Rightarrow>
                   let st = st\<lparr>s_net := s\<rparr>
                   in if n < 0 then Some (Inr st)
                      else answer_loop dev sk p (remaining - valid) st)"

declare answer_loop.simps [code]

text \<open>One round of the outer loop; the flag tells whether the loop goes on.\<close>

definition session_round :: "device \<Rightarrow> socket \<Rightarrow> session \<Rightarrow> (fault + bool \<times> session) option" where
  "session_round dev sk st =
     (let (n, p, s) = recv_command_packet sk (s_net st); st = st\<lparr>s_net := s\<rparr>
      in if n < 0 then Some (Inr (False, st))
         else if n = 0 then Some (Inr (False, st))
         else case p of
                None \<Rightarrow> Some (Inl Uninitialised)
              | Some p \<Rightarrow>
                  (case answer_loop dev sk p (prepare_to_handle p) st of
                     None \<Rightarrow> None
                   | Some (Inl f) \<Rightarrow> Some (Inl f)
                   | Some (Inr st) \<Rightarrow> Some (Inr (True, st))))"

text \<open>A session of a client that never stops sending never ends: that is \<open>None\<close>.\<close>

partial_function (option) session_loop ::
    "device \<Rightarrow> socket \<Rightarrow> session \<Rightarrow> (fault + session) option" where
  "session_loop dev sk st =
     (case session_round dev sk st of
        None \<Rightarrow> None
      | Some (Inl f) \<Rightarrow> Some (Inl f)
      | Some (Inr (go, st)) \<Rightarrow>
          if go then session_loop dev sk st
          else Some (Inr (st\<lparr>s_net := s_net st @ [Closed]\<rparr>)))"

declare session_loop.simps [code]

definition process_client_request ::
    "device \<Rightarrow> socket \<Rightarrow> handlers \<Rightarrow> trace \<Rightarrow> net_log \<Rightarrow> (fault + session) option" where
  "process_client_request dev sk hs t s =
     session_loop dev sk \<lparr>s_handlers = hs, s_response = fresh_response, s_error = False,
                          s_trace = t, s_net = s\<rparr>"

end
