(* ===== verification/Requests.thy ===== *)
theory Requests
  imports Server
begin

text \<open>
  Handling a request: which faults are possible, the invariant of the server's two devices, what
  every answer carries, and what a request for samples answers.
\<close>

section \<open>Faults of a request\<close>

lemma reply_cases:
  "reply err msg r lh t = (case r_buf r of None \<Rightarrow> Inl Wild_pointer
     | Some a \<Rightarrow> Inr (err, r\<lparr>r_num := Some (of_nat (length msg) + 1)\<rparr>, lh, t @ [St a (chars msg @ [0])]))"
  by (simp add: reply_def say_def split: option.splits)

text \<open>The commands with a handler, by their switch case.\<close>

lemma handled_commands:
  assumes "get_command_handler c = Some (ca, ops)"
  obtains (capture) "c = FMC150_CAPTURE \<or> c = DDC_CAPTURE" "op_capture ops = call_capture"
      "get_low_level_handler c = (SUCCESS, Some (Some (if c = FMC150_CAPTURE then ADC_dev else DDC_dev)))"
    | (get) "c = FMC150_GET_SAMPLES \<or> c = DDC_GET_SAMPLES" "op_get ops = call_get"
      "get_low_level_handler c = (SUCCESS, Some (Some (if c = FMC150_GET_SAMPLES then ADC_dev else DDC_dev)))"
    | (other) "c \<in> {FMC150_READ, FMC150_WRITE, LED_READ, LED_WRITE, SOFT_REG_READ, SOFT_REG_WRITE}"
      "\<exists>p. get_low_level_handler c = (SUCCESS, Some p)"
  using assms
  by (auto simp: get_command_handler_def get_low_level_handler_def fmc150_comm_ops_def ddc_comm_ops_def split: if_splits)

lemma lookups_agree:
  "get_command_handler c = None \<longleftrightarrow> get_response_handler c = None"
  "get_command_handler c = None \<longleftrightarrow> get_low_level_handler c = (ERROR, None)"
  by (auto simp: get_command_handler_def get_response_handler_def get_low_level_handler_def)

lemma unhandled_request:
  "get_command_handler (c_comm p) = None \<Longrightarrow> handle_request dev p r hs t = Inr (ERROR, r, hs, t)"
  by (simp add: handle_request_def)

lemma handled_request:
  assumes "get_command_handler (c_comm p) = Some (ca, ops)"
  obtains ids d where "get_response_handler (c_comm p) = Some ids"
    "get_low_level_handler (c_comm p) = (SUCCESS, Some d)"
    "handle_request dev p r hs t =
       (case request_switch dev p ca ops ids (r\<lparr>r_comm := Some MESSAGE\<rparr>) (map_option (handler_of hs) d) t of
          Inl f \<Rightarrow> Inl f
        | Inr (err, r, lh, t) \<Rightarrow>
            Inr (if err then ERROR else sint (case r_num r of None \<Rightarrow> 0 | Some n \<Rightarrow> n), r,
              (case (d, lh) of (Some d, Some h) \<Rightarrow> set_handler hs d h | _ \<Rightarrow> hs), t))"
proof -
  obtain ids where ids: "get_response_handler (c_comm p) = Some ids"
    using assms lookups_agree(1) [of "c_comm p"] by fastforce
  obtain d where d: "get_low_level_handler (c_comm p) = (SUCCESS, Some d)"
    using handled_commands [OF assms] by metis
  show ?thesis
    by (rule that [OF ids d]) (simp add: handle_request_def assms ids d Let_def split: sum.split prod.split)
qed

text \<open>The switch faults only for want of a buffer: never with a \<open>NULL\<close> handler.\<close>

lemma switch_fault:
  assumes ops: "get_command_handler (c_comm p) = Some (ca, ops)"
    and d: "get_low_level_handler (c_comm p) = (SUCCESS, Some d)"
    and f: "request_switch dev p ca ops ids r (map_option (handler_of hs) d) t = Inl f"
  shows "f = Wild_pointer \<and> r_buf r = None"
  using ops
proof (cases rule: handled_commands)
  case capture
  with d f show ?thesis
    by (auto simp: request_switch_def handle_capture_def reply_cases Let_def split: if_splits option.splits prod.splits)
next
  case get
  with d f show ?thesis
    by (auto simp: request_switch_def handle_get_def reply_cases Let_def split: if_splits option.splits prod.splits)
next
  case other
  with f show ?thesis
    by (auto simp: request_switch_def handle_read_def handle_write_def handle_led_read_def handle_led_write_def
        led_read_def led_write_def reply_cases Let_def split: if_splits option.splits prod.splits)
qed

lemma request_fault:
  assumes "handle_request dev p r hs t = Inl f"
  shows "f = Wild_pointer \<and> r_buf r = None"
proof (cases "get_command_handler (c_comm p)")
  case None
  with assms show ?thesis by (simp add: unhandled_request)
next
  case (Some x)
  then obtain ca ops where ops: "get_command_handler (c_comm p) = Some (ca, ops)" by (cases x) auto
  then obtain ids d where d: "get_low_level_handler (c_comm p) = (SUCCESS, Some d)"
    and run: "handle_request dev p r hs t =
       (case request_switch dev p ca ops ids (r\<lparr>r_comm := Some MESSAGE\<rparr>) (map_option (handler_of hs) d) t of
          Inl f \<Rightarrow> Inl f
        | Inr (err, r, lh, t) \<Rightarrow>
            Inr (if err then ERROR else sint (case r_num r of None \<Rightarrow> 0 | Some n \<Rightarrow> n), r,
              (case (d, lh) of (Some d, Some h) \<Rightarrow> set_handler hs d h | _ \<Rightarrow> hs), t))"
    by (rule handled_request [of p ca ops dev r hs t])
  from assms run have "request_switch dev p ca ops ids (r\<lparr>r_comm := Some MESSAGE\<rparr>) (map_option (handler_of hs) d) t = Inl f"
    by (auto split: sum.splits prod.splits)
  from switch_fault [OF ops d this] show ?thesis by simp
qed

text \<open>C22: whatever a client sends, handling a request never dereferences a \<open>NULL\<close> handler, and
  once the response packet has a buffer it never faults.\<close>

theorem handle_request_safe:
  "case handle_request dev p r hs t of
     Inl f \<Rightarrow> f = Wild_pointer \<and> r_buf r = None
   | Inr (ret, r', hs', t') \<Rightarrow> True"
  by (auto dest: request_fault split: sum.split prod.split)

section \<open>The server's invariant\<close>

definition server_ok :: "handlers \<Rightarrow> bool" where
  "server_ok hs \<longleftrightarrow>
     device_ready (adc_handler hs) \<and> hid (adc_handler hs) = ADC_ID \<and>
     device_ready (ddc_handler hs) \<and> hid (ddc_handler hs) = DDC_ID"

definition device_max :: "ll_device \<Rightarrow> u32" where
  "device_max d = (case d of ADC_dev \<Rightarrow> MAX_ADC_SAMPLES_COUNT | DDC_dev \<Rightarrow> MAX_DDC_SAMPLES_COUNT)"

definition device_sample :: "ll_device \<Rightarrow> u32" where
  "device_sample d = (case d of ADC_dev \<Rightarrow> ADC_SAMPLE_SIZE | DDC_dev \<Rightarrow> DDC_SAMPLE_SIZE)"

lemma server_ok_device:
  assumes "server_ok hs"
  shows "device_ready (handler_of hs d)" and "sample_size (attr (handler_of hs d)) = device_sample d"
    and "v \<le> device_max d \<Longrightarrow> uint v * uint (sample_size (attr (handler_of hs d))) < 8388608"
  using assms
  by (cases d; auto simp: server_ok_def device_sample_def device_ready_def device_max_def word_le_def)+

lemma server_ok_set:
  assumes "server_ok hs" and "device_ready h" and "hid h = hid (handler_of hs d)"
  shows "server_ok (set_handler hs d h)"
  using assms by (cases d) (auto simp: server_ok_def)

lemma device_ready_capture:
  assumes "device_ready h" and "uint n * uint (sample_size (attr h)) < 8388608"
    and "capture_samples dev n h t = (e, h', t')"
  shows "device_ready h' \<and> hid h' = hid h"
  using assms(1,2) capture_fields [OF assms(3)] by (auto simp: device_ready_def handler_ok_def)

lemma device_ready_get:
  assumes r: "device_ready h" and nz: "n \<noteq> 0" and n: "uint n * uint (sample_size (attr h)) < 8388608"
    and run: "get_samples dev n h t = (e, n', off, h', t')"
  shows "device_ready h' \<and> hid h' = hid h"
proof -
  have ok: "handler_ok h" using r by (simp add: device_ready_def)
  have "attr h' = attr h" "hid h' = hid h" "baseaddr h' = baseaddr h"
    using get_samples_window [OF ok nz n run] by simp_all
  moreover have "handler_ok h'" by (rule get_samples_ok [OF ok nz n run])
  ultimately show ?thesis using r by (auto simp: device_ready_def)
qed

text \<open>A request that must not be a request for 0 samples.\<close>

definition proper_request :: "command_packet \<Rightarrow> bool" where
  "proper_request p \<longleftrightarrow> c_comm p \<in> {FMC150_GET_SAMPLES, DDC_GET_SAMPLES} \<longrightarrow> c_val p \<noteq> 0"

definition answered :: "response_packet \<Rightarrow> bool" where
  "answered r \<longleftrightarrow>
     r_comm r \<noteq> None \<and> r_buf r \<noteq> None \<and> (\<exists>n. r_num r = Some n \<and> 0 < uint n \<and> uint n \<le> 4096)"

lemma reply_answered:
  assumes "reply err msg r lh t = Inr (err', r', lh', t')" and "r_comm r \<noteq> None" and "length msg < 4096"
  shows "answered r' \<and> lh' = lh \<and> err' = err \<and> (\<exists>a. t' = t @ [St a (chars msg @ [0])] \<and> r_buf r = Some a \<and> r_buf r' = Some a)
    \<and> r_comm r' = r_comm r"
proof -
  have "uint (of_nat (length msg) + 1 :: u32) = int (length msg) + 1"
  proof -
    have "uint (of_nat (length msg) :: u32) = int (length msg)"
      using assms(3) by (simp add: unsigned_of_nat take_bit_nat_eq_self)
    then show ?thesis using assms(3) by (subst uint_sum) simp_all
  qed
  with assms show ?thesis
    by (auto simp: reply_cases answered_def split: option.splits)
qed

lemma decimal_length: "n < 10 ^ Suc k \<Longrightarrow> length (decimal n) \<le> Suc k"
proof (induction k arbitrary: n)
  case 0
  then show ?case by (simp add: decimal.simps [of n])
next
  case (Suc k)
  then have "n div 10 < 10 ^ Suc k" by auto
  from Suc.IH [OF this] show ?case by (simp add: decimal.simps [of n])
qed

lemma invalid_value_length: "length (invalid_value ca) < 4096"
proof -
  have "unat (max_samples ca) < 10 ^ Suc 9"
    using unsigned_less [of "max_samples ca", where 'a = nat] by simp
  from decimal_length [OF this] show ?thesis by (simp add: invalid_value_def)
qed

lemma handle_capture_ok:
  assumes h: "device_ready h" and v: "\<And>v. v \<le> max_samples ca \<Longrightarrow> uint v * uint (sample_size (attr h)) < 8388608"
    and ops: "op_capture ops = call_capture" and c: "r_comm r \<noteq> None"
    and run: "handle_capture dev ca ops v r (Some h) t = Inr (err, r', lh', t')"
  shows "answered r' \<and> (\<exists>h'. lh' = Some h' \<and> device_ready h' \<and> hid h' = hid h) \<and> r_comm r' = r_comm r"
proof (cases "max_samples ca < v")
  case True
  with run have "reply True (invalid_value ca) r (Some h) t = Inr (err, r', lh', t')"
    by (simp add: handle_capture_def)
  from reply_answered [OF this c invalid_value_length] h show ?thesis by simp
next
  case False
  obtain e h1 t1 where cap: "capture_samples dev v h t = (e, h1, t1)" by (metis surj_pair)
  from device_ready_capture [OF h v cap] False have h1: "device_ready h1 \<and> hid h1 = hid h" by simp
  from run False cap have "reply (e < 0) (if e < 0 then ''Error acquiring data!'' else ''Capture command started successfully!'') r (Some h1) t1
      = Inr (err, r', lh', t')"
    by (auto simp: handle_capture_def ops split: if_splits)
  from reply_answered [OF this c] h1 show ?thesis by (auto split: if_splits)
qed

text \<open>The answer to a request for samples, as a specification: the next samples of the window.\<close>

definition samples_answer ::
    "command_attr \<Rightarrow> u32 \<times> u32 \<Rightarrow> low_level_handler \<Rightarrow> response_packet \<Rightarrow> bool" where
  "samples_answer ca ids h' r' \<longleftrightarrow>
     (\<exists>b n. r_buf r' = Some (mem_start_addr (attr h') + b) \<and> r_num r' = Some (n * sample_size (attr h')) \<and>
        0 < uint n \<and> uint (n * sample_size (attr h')) = uint n * uint (sample_size (attr h')) \<and>
        uint n * uint (sample_size (attr h')) \<le> 4096 \<and>
        uint b = (uint (samples_count_pos h') - uint n) * uint (sample_size (attr h')) \<and>
        uint b + uint n * uint (sample_size (attr h')) < uint (mem_size (attr h')) \<and>
        r_comm r' = Some (if b = 0 then fst ids else snd ids))"

lemma handle_get_ok:
  assumes h: "device_ready h" and v: "\<And>v. v \<le> max_samples ca \<Longrightarrow> uint v * uint (sample_size (attr h)) < 8388608"
    and size: "attr_sample_size ca = sample_size (attr h)"
    and ops: "op_get ops = call_get" and c: "r_comm r \<noteq> None" and nz: "v \<noteq> 0"
    and run: "handle_get dev ca ops ids v r (Some h) t = Inr (err, r', lh', t')"
  shows "answered r' \<and> (\<exists>h'. lh' = Some h' \<and> device_ready h' \<and> hid h' = hid h \<and>
    (if err then r_comm r' = r_comm r
     else samples_answer ca ids h' r' \<and>
       (\<exists>n off. get_samples dev v h t = (SUCCESS, n, off, h', t') \<and> r_num r' = Some (n * sample_size (attr h)))))"
proof (cases "max_samples ca < v")
  case True
  with run have "reply True (invalid_value ca) r (Some h) t = Inr (err, r', lh', t')"
    by (simp add: handle_get_def)
  from reply_answered [OF this c invalid_value_length] h show ?thesis by (auto simp: reply_cases)
next
  case False
  obtain e n off h1 t1 where get: "get_samples dev v h t = (e, n, off, h1, t1)" by (metis surj_pair)
  have v8: "uint v * uint (sample_size (attr h)) < 8388608" using v False by simp
  note ready = device_ready_get [OF h nz v8 get]
  have ok: "handler_ok h" using h by (simp add: device_ready_def)
  have attr: "attr h1 = attr h" "e = SUCCESS \<or> e = ERROR"
    using get_samples_window [OF ok nz v8 get] by simp_all
  note win = get_samples_granted [OF ok nz v8]
  show ?thesis
  proof (cases "e < 0")
    case True
    with run False get have "reply True ''Error! Could not acquire data!'' r (Some h1) t1 = Inr (err, r', lh', t')"
      by (simp add: handle_get_def ops)
    from reply_answered [OF this c] ready show ?thesis by (auto simp: reply_cases)
  next
    case ok': False
    with attr have e: "e = SUCCESS" by auto
    from win [OF get [unfolded e]] obtain b where b: "off = Some b" "0 < uint n"
       "uint n * uint (sample_size (attr h)) \<le> 4096"
       "uint b + uint n * uint (sample_size (attr h)) < uint (mem_size (attr h))"
       "uint b = (uint (samples_count_pos h1) - uint n) * uint (sample_size (attr h))"
      by auto
    have prod: "uint (n * sample_size (attr h)) = uint n * uint (sample_size (attr h))"
      by (rule iffD1 [OF uint_mult_lem]) (use b(3) in simp)
    have "0 < uint (sample_size (attr h))" using ok by (auto simp: handler_ok_def)
    with b(2) have pos: "0 < uint (n * sample_size (attr h))" unfolding prod by simp
    have res: "err = False" "t' = t1" "lh' = Some h1"
      "r' = r\<lparr>r_buf := Some (mem_start_addr (attr h) + b), r_comm := Some (if b = 0 then fst ids else snd ids),
              r_num := Some (n * sample_size (attr h))\<rparr>"
      using run False get e b(1) by (auto simp: handle_get_def ops size attr(1) Let_def)
    have "samples_answer ca ids h1 r'"
      unfolding samples_answer_def attr(1)
      by (intro exI [of _ b] exI [of _ n]) (use res b prod in simp)
    moreover have "answered r'"
      using res pos b(3) prod by (simp add: answered_def)
    ultimately show ?thesis using res ready get e by auto
  qed
qed

lemma handle_read_ok:
  assumes c: "r_comm r \<noteq> None"
    and run: "handle_read dev ops ids cs addr v r lh t = Inr (err, r', lh', t')"
  shows "answered r' \<and> lh' = lh"
proof -
  obtain e x t1 where o: "op_read ops dev cs addr t = (e, x, t1)" by (metis surj_pair)
  show ?thesis
  proof (cases "e < 0")
    case True
    with run o have "reply True ''Error reading from register!'' r lh t1 = Inr (err, r', lh', t')"
      by (simp add: handle_read_def)
    from reply_answered [OF this c] show ?thesis by simp
  next
    case False
    with run o show ?thesis by (auto simp: handle_read_def answered_def split: option.splits)
  qed
qed

lemma handle_write_ok:
  assumes c: "r_comm r \<noteq> None" and run: "handle_write dev ops cs addr v r lh t = Inr (err, r', lh', t')"
  shows "answered r' \<and> lh' = lh"
proof -
  obtain e t1 where o: "op_write ops dev cs addr v t = (e, t1)" by (metis surj_pair)
  have "reply (e < 0) (if e < 0 then ''Error writing to register!'' else ''Write to register ok!'') r lh t1
      = Inr (err, r', lh', t')"
    using run o by (auto simp: handle_write_def split: if_splits)
  from reply_answered [OF this c] show ?thesis by (auto split: if_splits)
qed

lemma handle_led_ok:
  assumes c: "r_comm r \<noteq> None"
  shows "handle_led_read dev v r lh t = Inr (err, r', lh', t') \<Longrightarrow> answered r' \<and> lh' = lh"
    and "handle_led_write v r lh t = Inr (err, r', lh', t') \<Longrightarrow> answered r' \<and> lh' = lh"
proof -
  assume run: "handle_led_read dev v r lh t = Inr (err, r', lh', t')"
  then obtain x where "reply False (''Led value: 0x'' @ hex8 x) r lh (t @ [Rd LED_BASEADDR x]) = Inr (err, r', lh', t')"
    by (auto simp: handle_led_read_def led_read_def machine)
  from reply_answered [OF this c] show "answered r' \<and> lh' = lh" by (auto simp: hex8_def)
next
  assume "handle_led_write v r lh t = Inr (err, r', lh', t')"
  then have "reply False ''Led successfully written!'' r lh (Out32 LED_BASEADDR v t) = Inr (err, r', lh', t')"
    by (simp add: handle_led_write_def led_write_def)
  from reply_answered [OF this c] show "answered r' \<and> lh' = lh" by auto
qed

lemma switch_ok:
  assumes ops: "get_command_handler (c_comm p) = Some (ca, ops)" and hs: "server_ok hs"
    and d: "get_low_level_handler (c_comm p) = (SUCCESS, Some d)" and c: "r_comm r \<noteq> None"
    and proper: "proper_request p"
    and run: "request_switch dev p ca ops ids r (map_option (handler_of hs) d) t = Inr (err, r', lh', t')"
  shows "answered r' \<and> server_ok (case (d, lh') of (Some d, Some h) \<Rightarrow> set_handler hs d h | _ \<Rightarrow> hs)"
  using ops
proof (cases rule: handled_commands)
  case capture
  define dd where "dd = (if c_comm p = FMC150_CAPTURE then ADC_dev else DDC_dev)"
  have dd: "d = Some dd" using capture d by (simp add: dd_def)
  have lim: "max_samples ca = device_max dd"
    using ops capture by (auto simp: dd_def get_command_handler_def fmc150_comm_attr_def ddc_comm_attr_def device_max_def)
  have "handle_capture dev ca ops (c_val p) r (Some (handler_of hs dd)) t = Inr (err, r', lh', t')"
    using run capture dd by (auto simp: request_switch_def Let_def)
  note run' = this
  have "uint v * uint (sample_size (attr (handler_of hs dd))) < 8388608" if "v \<le> max_samples ca" for v
    using server_ok_device(3) [OF hs, of v dd] that lim by simp
  from handle_capture_ok [OF server_ok_device(1) [OF hs] this capture(2) c run'] show ?thesis using server_ok_set [OF hs] dd by auto
next
  case get
  define dd where "dd = (if c_comm p = FMC150_GET_SAMPLES then ADC_dev else DDC_dev)"
  have dd: "d = Some dd" using get d by (simp add: dd_def)
  have lim: "max_samples ca = device_max dd" "attr_sample_size ca = sample_size (attr (handler_of hs dd))"
    using ops get by (auto simp: dd_def get_command_handler_def fmc150_comm_attr_def ddc_comm_attr_def
        device_max_def device_sample_def server_ok_device(2) [OF hs])
  have nz: "c_val p \<noteq> 0" using proper get by (auto simp: proper_request_def)
  have "handle_get dev ca ops ids (c_val p) r (Some (handler_of hs dd)) t = Inr (err, r', lh', t')"
    using run get dd by (auto simp: request_switch_def Let_def)
  note run' = this
  have "uint v * uint (sample_size (attr (handler_of hs dd))) < 8388608" if "v \<le> max_samples ca" for v
    using server_ok_device(3) [OF hs, of v dd] that lim(1) by simp
  from handle_get_ok [OF server_ok_device(1) [OF hs] this lim(2) get(2) c nz run'] show ?thesis using server_ok_set [OF hs] dd by auto
next
  case other
  let ?lh = "map_option (handler_of hs) d" and ?res = "Inr (err, r', lh', t')"
  have "handle_read dev ops ids (c_cs p) (c_addr p) (c_val p) r ?lh t = ?res \<or>
      handle_write dev ops (c_cs p) (c_addr p) (c_val p) r ?lh t = ?res \<or>
      handle_led_read dev (c_val p) r ?lh t = ?res \<or> handle_led_write (c_val p) r ?lh t = ?res"
    using run other(1) by (auto simp: request_switch_def Let_def)
  then have "answered r' \<and> lh' = ?lh"
    using handle_read_ok [OF c, of dev ops ids "c_cs p" "c_addr p" "c_val p" ?lh t err r' lh' t']
      handle_write_ok [OF c, of dev ops "c_cs p" "c_addr p" "c_val p" ?lh t err r' lh' t']
      handle_led_ok(1) [OF c, of dev "c_val p" ?lh t err r' lh' t']
      handle_led_ok(2) [OF c, of "c_val p" ?lh t err r' lh' t'] by blast
  moreover have "set_handler hs x (handler_of hs x) = hs" for x by (cases x) simp_all
  ultimately show ?thesis using hs by (cases d) auto
qed

lemma handle_request_ok:
  assumes hs: "server_ok hs" and proper: "proper_request p"
    and run: "handle_request dev p r hs t = Inr (ret, r', hs', t')"
  shows "server_ok hs' \<and> (if get_command_handler (c_comm p) = None then ret = ERROR \<and> r' = r \<and> hs' = hs \<and> t' = t
    else answered r' \<and> (ret = ERROR \<or> r_num r' = Some (of_int ret) \<and> 1 \<le> ret \<and> ret \<le> 4096))"
proof (cases "get_command_handler (c_comm p)")
  case None
  with run hs show ?thesis by (simp add: unhandled_request)
next
  case (Some x)
  then obtain ca ops where ops: "get_command_handler (c_comm p) = Some (ca, ops)" by (cases x) auto
  then obtain ids d where d: "get_low_level_handler (c_comm p) = (SUCCESS, Some d)"
    and eq: "handle_request dev p r hs t =
       (case request_switch dev p ca ops ids (r\<lparr>r_comm := Some MESSAGE\<rparr>) (map_option (handler_of hs) d) t of
          Inl f \<Rightarrow> Inl f
        | Inr (err, r, lh, t) \<Rightarrow>
            Inr (if err then ERROR else sint (case r_num r of None \<Rightarrow> 0 | Some n \<Rightarrow> n), r,
              (case (d, lh) of (Some d, Some h) \<Rightarrow> set_handler hs d h | _ \<Rightarrow> hs), t))"
    by (rule handled_request [of p ca ops dev r hs t])
  from run eq obtain err lh' where sw: "request_switch dev p ca ops ids (r\<lparr>r_comm := Some MESSAGE\<rparr>) (map_option (handler_of hs) d) t
      = Inr (err, r', lh', t')"
    and ret: "ret = (if err then ERROR else sint (case r_num r' of None \<Rightarrow> 0 | Some n \<Rightarrow> n))"
    and hs': "hs' = (case (d, lh') of (Some d, Some h) \<Rightarrow> set_handler hs d h | _ \<Rightarrow> hs)"
    by (auto split: sum.splits prod.splits)
  from switch_ok [OF ops hs d _ proper sw] have ok: "answered r'" "server_ok hs'"
    unfolding hs' by simp_all
  from ok(1) obtain n where n: "r_num r' = Some n" "0 < uint n" "uint n \<le> 4096"
    by (auto simp: answered_def)
  then have "sint n = uint n" "of_int (uint n) = n" by (simp_all add: sint_cases)
  with ok ret n ops show ?thesis by auto
qed

section \<open>Two ready devices\<close>

definition ddc_config :: XAxiDma_Config where
  "ddc_config = XAxiDma_ConfigTable ! 2"

definition ddc_dma :: XAxiDma where
  "ddc_dma = fst (snd (CfgInitialize halted_device zero_dma (Some ddc_config) []))"

definition ddc_device :: low_level_handler where
  "ddc_device = ddc_low_level_handler\<lparr>attr := ddc_dma_attr\<lparr>AxiDma := ddc_dma\<rparr>\<rparr>"

definition ready_handlers :: handlers where
  "ready_handlers = \<lparr>adc_handler = adc_device, ddc_handler = ddc_device\<rparr>"

lemma ddc_device_ready: "device_ready ddc_device"
proof -
  have "CfgInitialize halted_device zero_dma (Some ddc_config) [] =
      (XST_SUCCESS, ddc_dma, snd (snd (CfgInitialize halted_device zero_dma (Some ddc_config) [])))"
    unfolding ddc_dma_def by code_simp
  moreover have "\<not> CfgHasSg ddc_config" by (simp add: ddc_config_def XAxiDma_ConfigTable_def)
  ultimately have "dma_ready ddc_dma ddc_config" using cfg_initialize_simple by blast
  then show ?thesis
    by (simp add: device_ready_def ddc_device_def ddc_low_level_handler_def ddc_dma_attr_def
        handler_ok_def ddc_config_def)
qed

lemma ready_handlers_ok: "server_ok ready_handlers"
  using adc_device_ready ddc_device_ready
  by (simp add: server_ok_def ready_handlers_def adc_device_def ddc_device_def
      fmc150_adc_low_level_handler_def ddc_low_level_handler_def)

text \<open>C3: handling a proper request keeps the server in order: both devices stay ready with their
  counters inside their buffers. A command without a handler changes nothing and reports an
  error; every other one leaves a complete answer of 1 to 4096 bytes, and the value returned is
  an error or exactly that number.\<close>

theorem handle_request_invariant:
  assumes "server_ok hs" and "proper_request p" and "handle_request dev p r hs t = Inr (ret, r', hs', t')"
  shows "server_ok hs' \<and> (if get_command_handler (c_comm p) = None then ret = ERROR \<and> r' = r \<and> hs' = hs \<and> t' = t
    else answered r' \<and> (ret = ERROR \<or> r_num r' = Some (of_int ret) \<and> 1 \<le> ret \<and> ret \<le> 4096))"
  by (rule handle_request_ok [OF assms])

definition get_1500 :: command_packet where
  "get_1500 = \<lparr>c_comm = FMC150_GET_SAMPLES, c_cs = 0, c_addr = 0, c_val = 1500\<rparr>"

theorem handle_request_invariant_witness:
  "\<exists>r' hs' t'. handle_request halted_device get_1500 fresh_response ready_handlers [] = Inr (4096, r', hs', t') \<and>
     server_ok hs' \<and> r_num r' = Some 4096"
proof -
  define res where "res = handle_request halted_device get_1500 fresh_response ready_handlers []"
  have "case res of Inl f \<Rightarrow> False | Inr x \<Rightarrow> fst x = 4096" unfolding res_def by code_simp
  then obtain r' hs' t' where run: "res = Inr (4096, r', hs', t')"
    by (auto split: sum.splits)
  have "get_command_handler (c_comm get_1500) \<noteq> None" "proper_request get_1500"
    by (simp_all add: get_1500_def get_command_handler_def proper_request_def)
  with handle_request_invariant [OF ready_handlers_ok _ run [unfolded res_def]] run show ?thesis
    by (auto simp: res_def)
qed

section \<open>Requests for samples\<close>

definition get_command :: "ll_device \<Rightarrow> u32" where
  "get_command d = (case d of ADC_dev \<Rightarrow> FMC150_GET_SAMPLES | DDC_dev \<Rightarrow> DDC_GET_SAMPLES)"

definition new_data :: "ll_device \<Rightarrow> u32" where
  "new_data d = (case d of ADC_dev \<Rightarrow> FMC150_NEW_DATA | DDC_dev \<Rightarrow> DDC_NEW_DATA)"

definition remaining_data :: "ll_device \<Rightarrow> u32" where
  "remaining_data d = (case d of ADC_dev \<Rightarrow> FMC150_REMAINING_DATA | DDC_dev \<Rightarrow> DDC_REMAINING_DATA)"

lemma get_request:
  assumes c: "c_comm p = get_command d"
  shows "handle_request dev p r hs t =
    (let h = handler_of hs d in
     if device_max d < c_val p
     then (case reply True (''Invalid value! Must be between 0 and '' @ decimal (unat (device_max d)))
             (r\<lparr>r_comm := Some MESSAGE\<rparr>) (Some h) t of
             Inl f \<Rightarrow> Inl f | Inr (err, r', lh, t') \<Rightarrow> Inr (ERROR, r', hs, t'))
     else case get_samples dev (c_val p) h t of
       (e, n, off, h', t') \<Rightarrow>
         if e < 0
         then (case reply True ''Error! Could not acquire data!'' (r\<lparr>r_comm := Some MESSAGE\<rparr>) (Some h') t' of
                 Inl f \<Rightarrow> Inl f | Inr (err, r', lh, t'') \<Rightarrow> Inr (ERROR, r', set_handler hs d h', t''))
         else
           let b = (case off of None \<Rightarrow> 0 | Some b \<Rightarrow> b)
           in Inr (sint (n * device_sample d),
                r\<lparr>r_comm := Some (if b = 0 then new_data d else remaining_data d), r_num := Some (n * device_sample d),
                  r_buf := Some (mem_start_addr (attr h') + b)\<rparr>,
                set_handler hs d h', t'))"
proof -
  have set_same: "set_handler hs d (handler_of hs d) = hs" by (cases d) simp_all
  obtain e n off h' t1 where g: "get_samples dev (c_val p) (handler_of hs d) t = (e, n, off, h', t1)"
    by (metis surj_pair)
  show ?thesis
    using c set_same g
    by (cases d)
      (auto simp: handle_request_def request_switch_def handle_get_def invalid_value_def get_command_handler_def
        get_response_handler_def get_low_level_handler_def get_command_def fmc150_comm_attr_def fmc150_comm_ops_def
        ddc_comm_attr_def ddc_comm_ops_def reply_cases device_max_def device_sample_def new_data_def remaining_data_def
        Let_def split: option.split)
qed

text \<open>Every other request with a handler writes its answer as a text or a word into the buffer.\<close>

lemma other_reply_wild:
  assumes ops: "get_command_handler (c_comm p) = Some (ca, ops)" and ng: "\<forall>d. c_comm p \<noteq> get_command d"
  shows "handle_request dev p fresh_response hs t = Inl Wild_pointer"
proof (rule handled_request [OF ops, of dev fresh_response hs t])
  fix ids d
  assume d: "get_low_level_handler (c_comm p) = (SUCCESS, Some d)"
    and run: "handle_request dev p fresh_response hs t =
     (case request_switch dev p ca ops ids (fresh_response\<lparr>r_comm := Some MESSAGE\<rparr>) (map_option (handler_of hs) d) t of
        Inl f \<Rightarrow> Inl f
      | Inr (err, r, lh, t) \<Rightarrow>
          Inr (if err then ERROR else sint (case r_num r of None \<Rightarrow> 0 | Some n \<Rightarrow> n), r,
            (case (d, lh) of (Some d, Some h) \<Rightarrow> set_handler hs d h | _ \<Rightarrow> hs), t))"
  have "request_switch dev p ca ops ids (fresh_response\<lparr>r_comm := Some MESSAGE\<rparr>) (map_option (handler_of hs) d) t = Inl Wild_pointer"
    using ops
  proof (cases rule: handled_commands)
    case capture
    with d show ?thesis
      by (auto simp: request_switch_def handle_capture_def reply_cases fresh_response_def Let_def split: prod.splits)
  next
    case get
    with ng have False by (metis get_command_def ll_device.simps(3,4))
    then show ?thesis ..
  next
    case other
    then show ?thesis
      by (auto simp: request_switch_def handle_read_def handle_write_def handle_led_read_def handle_led_write_def
          led_read_def led_write_def reply_cases fresh_response_def Let_def split: prod.splits)
  qed
  with run show ?thesis by simp
qed

text \<open>C39: the buffer pointer of the response packet is never initialised. The first request of a
  session that has a handler makes the server write its answer through an undefined pointer, unless it is
  a request for samples that is within the limit of its device and for which \<open>get_samples\<close> succeeds; in that
  one case it does not.\<close>

theorem first_reply_wild_pointer:
  assumes "get_command_handler (c_comm p) \<noteq> None"
  shows "handle_request dev p fresh_response hs t = Inl Wild_pointer \<longleftrightarrow>
    \<not> (\<exists>d. c_comm p = get_command d \<and> c_val p \<le> device_max d \<and>
        0 \<le> fst (get_samples dev (c_val p) (handler_of hs d) t))"
proof (cases "\<exists>d. c_comm p = get_command d")
  case False
  with assms other_reply_wild [of p _ _ dev hs t] show ?thesis by auto
next
  case True
  then obtain d where c: "c_comm p = get_command d" by blast
  then have u: "c_comm p = get_command d' \<longleftrightarrow> d' = d" for d'
    by (cases d; cases d'; simp add: get_command_def)
  obtain e n off h' t1 where g: "get_samples dev (c_val p) (handler_of hs d) t = (e, n, off, h', t1)"
    by (metis surj_pair)
  show ?thesis
    unfolding get_request [OF c] u by (simp add: Let_def g reply_cases fresh_response_def not_less not_le)
qed

theorem first_reply_wild_pointer_witness:
  "handle_request halted_device \<lparr>c_comm = FMC150_GET_SAMPLES, c_cs = 0, c_addr = 0, c_val = 0x7FFFFFFF\<rparr> fresh_response
     initial_handlers [] = Inl Wild_pointer"
proof -
  let ?p = "\<lparr>c_comm = FMC150_GET_SAMPLES, c_cs = 0, c_addr = 0, c_val = 0x7FFFFFFF\<rparr> :: command_packet"
  have "get_command_handler (c_comm ?p) \<noteq> None" by (simp add: get_command_handler_def)
  moreover have "\<not> c_val ?p \<le> device_max d" for d by (cases d) (simp_all add: device_max_def)
  ultimately show ?thesis using first_reply_wild_pointer [of ?p halted_device initial_handlers "[]"] by blast
qed

definition buffer_of :: "ll_device \<Rightarrow> u32" where
  "buffer_of d = (case d of ADC_dev \<Rightarrow> DDR3_DMA_ADC_BUFFER | DDC_dev \<Rightarrow> DDR3_DMA_DDC_BUFFER)"

definition packet_samples :: "ll_device \<Rightarrow> int" where
  "packet_samples d = (case d of ADC_dev \<Rightarrow> 1024 | DDC_dev \<Rightarrow> 256)"

lemma device_numbers:
  "packet_samples d * uint (device_sample d) = 4096" "0 < uint (device_sample d)" "0 < packet_samples d"
  by (cases d; simp add: packet_samples_def device_sample_def)+

lemma server_ok_handler:
  assumes "server_ok hs"
  shows "handler_ok (handler_of hs d)" "sample_size (attr (handler_of hs d)) = device_sample d"
    and "mem_start_addr (attr (handler_of hs d)) = buffer_of d"
    and "uint (max_resp_buffer_packets (attr (handler_of hs d))) = packet_samples d"
proof -
  have r: "device_ready (handler_of hs d)" using server_ok_device(1) [OF assms] .
  show ok: "handler_ok (handler_of hs d)" using r by (simp add: device_ready_def)
  show z: "sample_size (attr (handler_of hs d)) = device_sample d" using server_ok_device(2) [OF assms] .
  show "mem_start_addr (attr (handler_of hs d)) = buffer_of d"
    using assms by (cases d) (auto simp: server_ok_def device_ready_def buffer_of_def)
  show "uint (max_resp_buffer_packets (attr (handler_of hs d))) = packet_samples d"
    using max_packets_cases [OF ok] z by (cases d) (auto simp: packet_samples_def device_sample_def)
qed

lemma sample_bytes:
  assumes "v \<le> device_max d" and "0 \<le> n" and "n \<le> uint v"
  shows "n * uint (device_sample d) < 8388608"
    and "uint (word_of_int n * device_sample d) = n * uint (device_sample d)"
proof -
  have "n * uint (device_sample d) \<le> uint v * uint (device_sample d)"
    using assms by (intro mult_right_mono) simp_all
  moreover have "uint v * uint (device_sample d) < 8388608"
    using assms(1) by (cases d) (auto simp: device_max_def device_sample_def word_le_def)
  ultimately show lt: "n * uint (device_sample d) < 8388608" by simp
  have un: "uint (word_of_int n :: u32) = n"
  proof -
    have "n < 4294967296" using assms(3) uint_lt2p [of v] by simp
    with assms(2) show ?thesis by (simp add: uint_word_of_int_eq take_bit_int_eq_self)
  qed
  have "uint (word_of_int n :: u32) * uint (device_sample d) < 2 ^ LENGTH(32)" using lt un by simp
  from iffD1 [OF uint_mult_lem this] un show "uint (word_of_int n * device_sample d) = n * uint (device_sample d)"
    by simp
qed

text \<open>What a request for samples does when the device can serve it, and that it was served when it
  reports no error.\<close>

lemma get_served:
  assumes hs: "server_ok hs" and c: "c_comm p = get_command d" and v: "c_val p \<noteq> 0" "c_val p \<le> device_max d"
    and g: "get_samples dev (c_val p) (handler_of hs d) t = (SUCCESS, n, off, h', t')"
  obtains b where "off = Some b" and "0 < uint n"
    and "uint (n * device_sample d) = uint n * uint (device_sample d)"
    and "uint n * uint (device_sample d) \<le> 4096"
    and "uint b + uint n * uint (device_sample d) < 8388608"
    and "server_ok (set_handler hs d h')"
    and "handle_request dev p r hs t = Inr (uint n * uint (device_sample d),
           r\<lparr>r_comm := Some (if b = 0 then new_data d else remaining_data d),
             r_num := Some (n * device_sample d), r_buf := Some (buffer_of d + b)\<rparr>, set_handler hs d h', t')"
proof -
  define h where "h = handler_of hs d"
  note H = server_ok_handler [OF hs, of d, folded h_def] and g' = g [folded h_def]
  have vz: "uint (c_val p) * uint (sample_size (attr h)) < 8388608"
    using sample_bytes(1) [OF v(2), of "uint (c_val p)"] by (simp add: H(2))
  note win = get_samples_window [OF H(1) v(1) vz g']
  from get_samples_granted [OF H(1) v(1) vz g'] H(2) obtain b where
    b: "off = Some b" "uint n * uint (device_sample d) \<le> 4096" "0 < uint n"
       "uint b + uint n * uint (device_sample d) < 8388608"
    using H(1) by (auto simp: handler_ok_def)
  have prod: "uint (n * device_sample d) = uint n * uint (device_sample d)"
    by (rule iffD1 [OF uint_mult_lem]) (use b(2) in simp)
  have sint: "sint (n * device_sample d) = uint n * uint (device_sample d)"
    by (rule sint_product) (use b(2) in simp)
  have "device_ready h' \<and> hid h' = hid h"
    by (rule device_ready_get [OF _ v(1) vz g']) (use server_ok_device(1) [OF hs, of d] in \<open>simp add: h_def\<close>)
  then have ok: "server_ok (set_handler hs d h')" using server_ok_set [OF hs, of h' d] by (simp add: h_def)
  have big: "\<not> device_max d < c_val p" using v(2) by simp
  show thesis
    by (rule that [OF b(1,3) prod b(2,4) ok])
      (use get_request [OF c, of dev r hs t, unfolded Let_def, folded h_def] g' big b(1) H(3) win sint in simp)
qed

lemma get_succeeded:
  assumes hs: "server_ok hs" and c: "c_comm p = get_command d" and v: "c_val p \<noteq> 0"
    and run: "handle_request dev p r hs t = Inr (ret, r1, hs1, t1)" and ret: "ret \<noteq> ERROR"
  obtains n off h' t' where "c_val p \<le> device_max d"
    and "get_samples dev (c_val p) (handler_of hs d) t = (SUCCESS, n, off, h', t')"
proof -
  define h where "h = handler_of hs d"
  note H = server_ok_handler [OF hs, of d, folded h_def]
  obtain e n off h' t' where g: "get_samples dev (c_val p) h t = (e, n, off, h', t')" by (metis surj_pair)
  note req = get_request [OF c, of dev r hs t, unfolded Let_def, folded h_def]
  have big: "\<not> device_max d < c_val p"
    using run req ret by (auto split: sum.splits prod.splits if_splits)
  then have le: "c_val p \<le> device_max d" by simp
  have vz: "uint (c_val p) * uint (sample_size (attr h)) < 8388608"
    using sample_bytes(1) [OF le, of "uint (c_val p)"] by (simp add: H(2))
  have "\<not> e < 0"
  proof
    assume "e < 0"
    with run req g big show False using ret by (auto split: sum.splits prod.splits)
  qed
  then have "e = SUCCESS" using get_samples_window [OF H(1) v vz g] by auto
  with that le g show thesis by (simp add: h_def)
qed

text \<open>C13: a request for samples that succeeds is answered with the next part of the capture window of
  the requested device. The part starts at the position up to which the samples of the last capture
  have been handed out, or at the start of the buffer when all of them have been, in which case the
  device is captured anew with the requested number of samples. It has the size that \<open>granted\<close> says, one packet at
  most, and stays within the capture and the 8 MB buffer; the position moves on by its size; the
  value returned and the answer carry its length in bytes, the type tells whether it is the first
  part, and the other device is untouched.\<close>

theorem get_request_answer:
  assumes "server_ok hs" and "c_comm p = get_command d" and "c_val p \<noteq> 0"
    and "handle_request dev p r hs t = Inr (ret, r', hs', t')" and "ret \<noteq> ERROR"
  shows "\<exists>n h'. let h = handler_of hs d; anew = (samples_count_pos h = samples_count h);
      start = (if anew then 0 else samples_count_pos h)
    in get_samples dev (c_val p) h t = (SUCCESS, n, Some (start * device_sample d), h', t') \<and> hs' = set_handler hs d h' \<and>
      uint n = granted h (uint (c_val p)) \<and> uint (samples_count_pos h') = uint start + uint n \<and>
      samples_count h' = (if anew then c_val p else samples_count h) \<and> samples_count_pos h' \<le> samples_count h' \<and>
      r_buf r' = Some (buffer_of d + start * device_sample d) \<and>
      (uint start + uint n) * uint (device_sample d) < 8388608 \<and>
      ret = uint n * uint (device_sample d) \<and> 0 < ret \<and> ret \<le> 4096 \<and> r_num r' = Some (of_int ret) \<and>
      r_comm r' = Some (if start = 0 then new_data d else remaining_data d)"
proof -
  define h where "h = handler_of hs d"
  define start where "start = (if samples_count_pos h = samples_count h then 0 else samples_count_pos h)"
  note H = server_ok_handler [OF assms(1), of d, folded h_def]
  obtain n off h1 t1 where le: "c_val p \<le> device_max d"
    and g: "get_samples dev (c_val p) h t = (SUCCESS, n, off, h1, t1)"
    using get_succeeded [OF assms] unfolding h_def .
  obtain b where b: "off = Some b" "0 < uint n" "uint (n * device_sample d) = uint n * uint (device_sample d)"
    "uint n * uint (device_sample d) \<le> 4096" "uint b + uint n * uint (device_sample d) < 8388608"
    "handle_request dev p r hs t = Inr (uint n * uint (device_sample d),
           r\<lparr>r_comm := Some (if b = 0 then new_data d else remaining_data d),
             r_num := Some (n * device_sample d), r_buf := Some (buffer_of d + b)\<rparr>, set_handler hs d h1, t1)"
    using get_served [OF assms(1-3) le g [unfolded h_def], of r] .
  have vz: "uint (c_val p) * uint (sample_size (attr h)) < 8388608"
    using sample_bytes(1) [OF le, of "uint (c_val p)"] by (simp add: H(2))
  have "recaptures h (uint (c_val p)) \<longleftrightarrow> samples_count_pos h = samples_count h"
    using assms(3) by (auto simp: recaptures_def word_uint_eq_iff order_less_le)
  with get_samples_window [OF H(1) assms(3) vz g] H(2) b(1) have w: "b = start * device_sample d"
    "uint n = granted h (uint (c_val p))" "uint (samples_count_pos h1) = uint start + uint n"
    "samples_count h1 = (if samples_count_pos h = samples_count h then c_val p else samples_count h)"
    "uint start + uint n \<le> uint (samples_count h1)"
    by (auto simp: start_def Let_def split: if_splits)
  have ub: "uint b = uint start * uint (device_sample d)"
    using get_samples_granted [OF H(1) assms(3) vz g] b(1) w(3) H(2) by auto
  then have "b = 0 \<longleftrightarrow> start = 0" using device_numbers(2) [of d] by (auto simp: word_uint_eq_iff)
  moreover have "n * device_sample d = word_of_int (uint n * uint (device_sample d))"
    using b(3) by (metis word_of_int_uint)
  moreover have "0 < uint n * uint (device_sample d)" using b(2) device_numbers(2) by simp
  ultimately show ?thesis
    using assms(4) b g w ub unfolding Let_def h_def [symmetric] start_def [symmetric]
    by (intro exI [of _ n] exI [of _ h1]) (auto simp: word_le_def distrib_right)
qed

theorem get_request_answer_witness:
  "\<exists>r' hs' t'. handle_request halted_device get_1500 fresh_response ready_handlers [] = Inr (4096, r', hs', t') \<and>
     r_buf r' = Some DDR3_DMA_ADC_BUFFER \<and> r_comm r' = Some FMC150_NEW_DATA"
proof -
  define res where "res = handle_request halted_device get_1500 fresh_response ready_handlers []"
  have "case res of Inl f \<Rightarrow> False | Inr (ret, r', hs', t') \<Rightarrow> ret = 4096 \<and> r_buf r' = Some DDR3_DMA_ADC_BUFFER"
    unfolding res_def by code_simp
  then obtain r' hs' t' where run: "res = Inr (4096, r', hs', t')" and buf: "r_buf r' = Some DDR3_DMA_ADC_BUFFER"
    by (auto split: sum.splits)
  note run' = run [unfolded res_def]
  have "c_comm get_1500 = get_command ADC_dev" "c_val get_1500 \<noteq> 0" by (simp_all add: get_1500_def get_command_def)
  moreover have "samples_count_pos (handler_of ready_handlers ADC_dev) = samples_count (handler_of ready_handlers ADC_dev)"
    by (simp add: ready_handlers_def adc_device_def fmc150_adc_low_level_handler_def)
  ultimately show ?thesis
    using get_request_answer [OF ready_handlers_ok _ _ run', of ADC_dev] run'
    by (auto simp: Let_def buffer_of_def new_data_def)
qed

end
