(* ===== verification/Wire.thy ===== *)
theory Wire
  imports Connection Requests
begin

text \<open>
  What goes over the connection: whole buffers in any chunks, commands in, answers out.
\<close>

section \<open>Whole buffers over the socket\<close>

lemma socket_ok_send: "socket_ok sk \<Longrightarrow> send_answer sk s bs \<le> int (length bs)"
  by (simp add: socket_ok_def)

lemma socket_ok_recv:
  "socket_ok sk \<Longrightarrow> recv_answer sk s k = (n, bs) \<Longrightarrow> 0 \<le> n \<Longrightarrow> n = int (length bs) \<and> length bs \<le> k"
  unfolding socket_ok_def by blast

lemma chunk_join:
  assumes "a + b \<le> k" and "k \<le> length xs"
  shows "take b (drop a xs) @ drop (a + b) (take k xs) = drop a (take k xs)"
proof -
  have "take b (drop a (take k xs)) = take b (drop a xs)"
    using assms by (simp add: take_drop min_def)
  then show ?thesis
    by (metis append_take_drop_id drop_drop add.commute)
qed

lemma sendall_split:
  assumes ok: "socket_ok sk" and run: "sendall sk bs sent s = (n, s')" and le: "sent \<le> length bs"
  shows "\<exists>k. sent \<le> k \<and> k \<le> length bs \<and> sent_bytes s' = sent_bytes s @ drop sent (take k bs) \<and>
    received_bytes s' = received_bytes s \<and> closes s' = closes s \<and>
    (n = int (length bs) \<and> k = length bs \<or> (n = 0 \<or> n = ERROR) \<and> k < length bs)"
  using run le ok
proof (induction sk bs sent s rule: sendall.induct)
  case (1 sk bs sent s)
  show ?case
  proof (cases "length bs \<le> sent")
    case True
    with 1(2,3) have "n = int sent" "s' = s" "length bs = sent"
      by (simp_all add: sendall.simps [of sk bs sent s])
    then show ?thesis by (intro exI [of _ sent]) simp
  next
    case False
    define m where "m = send_answer sk s (drop sent bs)"
    have m: "m \<le> int (length bs - sent)"
      using socket_ok_send [OF 1(4), of s "drop sent bs"] by (simp add: m_def)
    show ?thesis
    proof (cases "m \<le> 0")
      case True
      with 1(2) False have "s' = s" "n = 0 \<or> n = ERROR"
        by (auto simp: sendall.simps [of sk bs sent s] Let_def m_def split: if_splits)
      with False 1(3) show ?thesis by (intro exI [of _ sent]) auto
    next
      case pos: False
      let ?s = "s @ [Sent (take (nat m) (drop sent bs))]"
      have rest: "sendall sk bs (sent + nat m) ?s = (n, s')"
        using 1(2) False pos by (simp add: sendall.simps [of sk bs sent s] Let_def m_def)
      have "sent + nat m \<le> length bs" using m False by linarith
      with 1(1) [OF False m_def _ _ rest _ 1(4)] pos obtain k where k: "sent + nat m \<le> k" "k \<le> length bs"
        "sent_bytes s' = sent_bytes ?s @ drop (sent + nat m) (take k bs)"
        "received_bytes s' = received_bytes ?s" "closes s' = closes ?s"
        "n = int (length bs) \<and> k = length bs \<or> (n = 0 \<or> n = ERROR) \<and> k < length bs"
        by auto
      have "take (nat m) (drop sent bs) @ drop (sent + nat m) (take k bs) = drop sent (take k bs)"
        using k(1,2) by (rule chunk_join)
      with k show ?thesis by (intro exI [of _ k]) simp
    qed
  qed
qed

text \<open>C29: whatever chunks the socket takes, \<open>sendall\<close> returns, puts a prefix of the buffer on the
  connection and nothing else, and reports the full length exactly when that prefix is all of
  it; otherwise it reports 0 or an error.\<close>

theorem sendall_prefix:
  assumes "socket_ok sk" and "sendall sk bs 0 s = (n, s')"
  shows "\<exists>k\<le>length bs. sent_bytes s' = sent_bytes s @ take k bs \<and> received_bytes s' = received_bytes s \<and>
    (n = int (length bs) \<and> k = length bs \<or> (n = 0 \<or> n = ERROR) \<and> k < length bs)"
  using sendall_split [OF assms] by fastforce

lemma recvall_split:
  assumes ok: "socket_ok sk" and run: "recvall sk len acc s = (n, buf, s')" and le: "length acc \<le> len"
  shows "\<exists>got. buf = acc @ got \<and> received_bytes s' = received_bytes s @ got \<and> sent_bytes s' = sent_bytes s \<and>
    closes s' = closes s \<and>
    (n = int len \<and> length buf = len \<or> (n = 0 \<or> n = ERROR) \<and> length buf < len)"
  using run le ok
proof (induction sk len acc s rule: recvall.induct)
  case (1 sk len acc s)
  show ?case
  proof (cases "len \<le> length acc")
    case True
    with 1(2,3) show ?thesis by (auto simp: recvall.simps [of sk len acc s])
  next
    case False
    obtain m bs where r: "recv_answer sk s (len - length acc) = (m, bs)" by fastforce
    show ?thesis
    proof (cases "m \<le> 0")
      case True
      with 1(2) False r have "s' = s" "buf = acc" "n = 0 \<or> n = ERROR"
        by (auto simp: recvall.simps [of sk len acc s] Let_def split: if_splits)
      with False show ?thesis by auto
    next
      case pos: False
      let ?got = "take (nat m) (bs @ replicate (nat m) 0)"
      have m: "m = int (length bs)" "length bs \<le> len - length acc"
        using socket_ok_recv [OF 1(4) r] pos by simp_all
      have rest: "recvall sk len (acc @ ?got) (s @ [Received ?got]) = (n, buf, s')"
        using 1(2) False pos r by (simp add: recvall.simps [of sk len acc s] Let_def)
      have "length (acc @ ?got) \<le> len" using m False by simp
      with 1(1) [OF False r [symmetric] refl _ _ refl rest _ 1(4)] pos show ?thesis by auto
    qed
  qed
qed

section \<open>Commands on the wire\<close>

lemma unpacku32_take: "4 \<le> length buf \<Longrightarrow> unpacku32 (take 4 buf) = unpacku32 buf"
  by (auto simp: numeral_eq_Suc Suc_le_length_iff)

lemma repack_word: "4 \<le> length buf \<Longrightarrow> packi32 (unpacku32 buf) = take 4 buf"
  using u32.enc_dec [of "take 4 buf"] by (simp add: unpacku32_take)

lemma four_words:
  assumes "length buf = 16"
  shows "unpack buf ''LLLL'' = Some [U_L (unpacku32 buf), U_L (unpacku32 (drop 4 buf)),
      U_L (unpacku32 (drop 8 buf)), U_L (unpacku32 (drop 12 buf))]"
  using assms by (simp add: unpack_def unpack_one_def load_def)

lemma take_quarters:
  assumes "length buf = 16"
  shows "take 4 buf @ take 4 (drop 4 buf) @ take 4 (drop 8 buf) @ take 4 (drop 12 buf) = buf"
  using assms take_add [of 4 12 buf] take_add [of 4 8 "drop 4 buf"] take_add [of 4 4 "drop 8 buf"]
  by simp

text \<open>\<open>recvall\<close> stops short only when the socket answers 0 or less.\<close>

lemma recvall_stops:
  assumes "socket_ok sk" "recvall sk len acc s = (n, buf, s')" "length buf < len"
  shows "let a = fst (recv_answer sk s' (len - length buf)) in a < 0 \<and> n = ERROR \<or> a = 0 \<and> n = 0"
  using assms
proof (induction sk len acc s rule: recvall.induct)
  case (1 sk len acc s)
  show ?case
  proof (cases "len \<le> length acc")
    case True
    with 1(3,4) show ?thesis by (auto simp: recvall.simps [of sk len acc s])
  next
    case False
    obtain m bs where r: "recv_answer sk s (len - length acc) = (m, bs)" by fastforce
    show ?thesis
    proof (cases "m \<le> 0")
      case True
      with 1(3) False r show ?thesis by (auto simp: recvall.simps [of sk len acc s] Let_def split: if_splits)
    next
      case pos: False
      let ?got = "take (nat m) (bs @ replicate (nat m) 0)"
      have rest: "recvall sk len (acc @ ?got) (s @ [Received ?got]) = (n, buf, s')"
        using 1(3) False pos r by (simp add: recvall.simps [of sk len acc s] Let_def)
      with 1(1) [OF False r [symmetric] refl _ _ refl 1(2) rest 1(4)] pos show ?thesis by simp
    qed
  qed
qed

text \<open>C30: \<open>recv_command_packet\<close> delivers a command exactly when the 16 bytes of one packet come in, in
  whatever chunks, and it is the command whose packing by the client gives these bytes. It delivers none
  only when the socket, asked for the rest of fewer than 16 bytes, reports an error, which it passes
  on, or the end of the connection, and then it closes the socket and returns 0.\<close>

theorem recv_command_decodes:
  assumes ok: "socket_ok sk" and run: "recv_command_packet sk s = (n, p, s')"
  shows "\<exists>buf s1. received_bytes s1 = received_bytes s @ buf \<and> sent_bytes s1 = sent_bytes s \<and>
    (case p of
      Some c \<Rightarrow> n = 16 \<and> s' = s1 \<and>
        pack ''LLLL'' [A_int (c_comm c), A_int (c_cs c), A_int (c_addr c), A_int (c_val c)] = Some (buf, 16)
    | None \<Rightarrow> length buf < 16 \<and>
        (let a = fst (recv_answer sk s1 (16 - length buf))
         in a < 0 \<and> n = ERROR \<and> s' = s1 \<or> a = 0 \<and> n = 0 \<and> s' = s1 @ [Closed]))"
proof -
  obtain m buf s1 where r: "recvall sk COMMAND_PACKET_SIZE [] s = (m, buf, s1)" by (metis surj_pair)
  from recvall_split [OF ok r] have rec: "received_bytes s1 = received_bytes s @ buf" "sent_bytes s1 = sent_bytes s"
    and m: "m = 16 \<and> length buf = 16 \<or> (m = 0 \<or> m = ERROR) \<and> length buf < 16" by auto
  show ?thesis
  proof (cases "length buf < 16")
    case True
    then have "m = 0 \<or> m = ERROR" using m by auto
    with recvall_stops [OF ok r True] True run r rec show ?thesis
      by (intro exI [of _ buf] exI [of _ s1]) (auto simp: recv_command_packet_def Let_def)
  next
    case False
    then have "m = 16" "length buf = 16" using m by auto
    with run r four_words [of buf] rec take_quarters [of buf] show ?thesis
      by (intro exI [of _ buf] exI [of _ s1])
        (auto simp: recv_command_packet_def prepare_to_read_command_def pack_one_def repack_word)
  qed
qed

text \<open>A socket that moves one byte at a time: it takes every byte it is offered and delivers sevens.\<close>

definition byte_socket :: socket where
  "byte_socket = \<lparr>send_answer = (\<lambda>s bs. if bs = [] then 0 else 1),
                  recv_answer = (\<lambda>s k. if k = 0 then (0, []) else (1, [7]))\<rparr>"

lemma byte_socket_ok: "socket_ok byte_socket"
  by (auto simp: socket_ok_def byte_socket_def Suc_leI split: if_splits)

theorem sendall_prefix_witness:
  "\<exists>s'. sendall byte_socket [1, 2, 3] 0 [] = (3, s') \<and> sent_bytes s' = [1, 2, 3]"
proof -
  define s' where "s' = snd (sendall byte_socket [1, 2, 3] 0 [])"
  have run: "sendall byte_socket [1, 2, 3] 0 [] = (3, s')"
    unfolding s'_def by code_simp
  from sendall_prefix [OF byte_socket_ok run] run show ?thesis by auto
qed

theorem recv_command_decodes_witness:
  "\<exists>c s'. recv_command_packet byte_socket [] = (16, Some c, s') \<and>
     pack ''LLLL'' [A_int (c_comm c), A_int (c_cs c), A_int (c_addr c), A_int (c_val c)]
       = Some (replicate 16 7, 16)"
proof -
  define res where "res = recv_command_packet byte_socket []"
  have v: "fst res = 16" "fst (snd res) \<noteq> None" "received_bytes (snd (snd res)) = replicate 16 7"
    unfolding res_def by code_simp+
  then obtain c s' where run: "recv_command_packet byte_socket [] = (16, Some c, s')"
    by (metis res_def prod.collapse option.exhaust)
  from recv_command_decodes [OF byte_socket_ok run] run v show ?thesis
    by (auto simp: res_def)
qed

section \<open>Answers on the wire\<close>

lemma header_bytes: "pack ''LL'' [A_int c, A_int n] = Some (packi32 c @ packi32 n, 8)"
  by (simp add: pack_one_def)

lemma header_length: "length (packi32 c @ packi32 n) = 8"
  by (simp add: u32.enc_width)

lemma sint_frame_length:
  assumes "uint n \<le> 4096"
  shows "sint (n + 8 :: u32) = uint n + 8"
proof -
  have "uint (n + 8) = uint n + 8" using assms by (subst uint_sum) simp_all
  then show ?thesis using assms by (subst sint_cases) (simp del: uint_word_ariths)
qed

lemma data_frame:
  assumes "r_comm r = Some c" "data_response c" "r_num r = Some n" "0 < uint n" "uint n \<le> 4096" "r_buf r = Some a"
  shows "prepare_to_write_response dev (sint (n + 8)) r t =
    Inr (Some (packi32 c @ packi32 n @ ram_bytes dev t a (unat n)))"
proof -
  have "nat (uint n) \<le> 4096" using assms(5) by linarith
  then have "unat n \<le> 4096" by simp
  then have "\<not> RECV_BUF_SIZE < length (packi32 c @ packi32 n) + unat n" by (simp add: u32.enc_width)
  moreover have "\<not> sint (n + 8) \<le> RESPONSE_PACKET_HEADER_SIZE"
    using assms(4) sint_frame_length [OF assms(5)] by simp
  ultimately show ?thesis
    using assms(1,2,3,6) header_bytes [of c n] by (simp only: prepare_to_write_response_def option.case prod.case if_True if_False append_assoc)
qed

lemma decimal_digits: "c \<in> set (decimal n) \<Longrightarrow> c \<in> set ''0123456789''"
proof (induction n rule: decimal.induct)
  case (1 n)
  have digit: "char_of (48 + d) \<in> set ''0123456789''" if "d < 10" for d :: nat
  proof -
    from that have "d \<in> {0, 1, 2, 3, 4, 5, 6, 7, 8, 9}" by auto
    then show ?thesis by (elim insertE emptyE) (simp_all add: char_of_def bit_simps)
  qed
  show ?case
  proof (cases "n < 10")
    case True
    with 1(2) have "c = char_of (48 + n)" by (simp add: decimal.simps [of n])
    with True digit [of n] show ?thesis by simp
  next
    case False
    with 1(2) have "c = char_of (48 + n mod 10) \<or> c \<in> set (decimal (n div 10))"
      by (simp add: decimal.simps [of n])
    with 1(1) [OF False] digit [of "n mod 10"] show ?thesis by auto
  qed
qed

lemmas frame_defs = prepare_to_write_response_def header_bytes u32.enc_width u16.enc_width data_response_def

lemma pack_skips_digits:
  assumes "set ds \<subseteq> set ''0123456789''"
  shows "pack (ds @ fmt) args = pack fmt args"
  using assms
proof (induction ds)
  case (Cons d ds)
  then have "d \<in> set ''0123456789''" by simp
  then have "d \<notin> set ''cChHlLqQfdgs''"
    by (simp only: list.set insert_iff empty_iff) (elim disjE FalseE; simp)
  with Cons show ?case by (simp add: pack_one_default split: option.splits)
qed simp

text \<open>A text without a terminator inside.\<close>

definition text_ok :: "string \<Rightarrow> bool" where
  "text_ok msg \<longleftrightarrow> 0 \<notin> set (chars msg) \<and> length msg < 4000"

lemma message_frame:
  assumes ram: "ram_holds_stores dev" and msg: "text_ok msg" and c: "r_comm r = Some MESSAGE"
    and say: "say msg r t = Inr (r', t')"
  shows "prepare_to_write_response dev (sint (the (r_num r') + 8)) r' t' =
    Inr (Some (packi32 MESSAGE @ packi32 (of_nat (length msg) + 1) @ packi16 (of_nat (length msg)) @ chars msg))"
proof -
  from say obtain a where a: "r_buf r = Some a" and r': "r' = r\<lparr>r_num := Some (of_nat (length msg) + 1)\<rparr>"
    and t': "t' = t @ [St a (chars msg @ [0])]"
    by (auto simp: say_def split: option.splits)
  let ?n = "of_nat (length msg) + 1 :: u32" and ?mem = "ram_bytes dev t' a RECV_BUF_SIZE"
  have len: "length msg < 4000" "length (chars msg) = length msg" using msg by (simp_all add: text_ok_def chars_def)
  have un: "uint ?n = int (length msg) + 1"
  proof -
    have "uint (of_nat (length msg) :: u32) = int (length msg)"
      using len by (simp add: unsigned_of_nat take_bit_nat_eq_self)
    then show ?thesis using len by (subst uint_sum) simp_all
  qed
  have mem: "?mem ! i = (chars msg @ [0]) ! i" if "i \<le> length msg" for i
  proof -
    have "ram dev (t @ [St a (chars msg @ [0])]) (a + of_nat i) = (chars msg @ [0]) ! i"
      using ram that len unfolding ram_holds_stores_def by auto
    with that len show ?thesis by (simp add: ram_bytes_def t')
  qed
  have split: "?mem = chars msg @ 0 # drop (Suc (length msg)) ?mem"
  proof (rule nth_equalityI)
    show "length ?mem = length (chars msg @ 0 # drop (Suc (length msg)) ?mem)" using len by simp
  next
    fix i assume "i < length ?mem"
    then show "?mem ! i = (chars msg @ 0 # drop (Suc (length msg)) ?mem) ! i"
      using mem [of i] len by (cases "i \<le> length msg") (auto simp: nth_append nth_Cons')
  qed
  have "takeWhile (\<lambda>b. b \<noteq> 0) ?mem = chars msg"
  proof -
    have "\<forall>b\<in>set (chars msg). b \<noteq> 0" using msg by (auto simp: text_ok_def)
    then show ?thesis by (subst split) (simp add: takeWhile_append2)
  qed
  moreover have zero: "0 \<in> set ?mem" by (subst split) simp
  ultimately have str: "strlen ?mem = Some (length msg)" "take (length msg) ?mem = chars msg"
    using len by (simp_all add: strlen_def) (subst split, simp)
  have "pack (decimal (unat ?n) @ ''s'') [A_str ?mem] = Some (packi16 (of_nat (length msg)) @ chars msg, of_nat (length msg + 2))"
    using decimal_digits by (subst pack_skips_digits) (auto simp: pack_one_def str)
  note body = this
  have "\<not> sint (?n + 8) \<le> RESPONSE_PACKET_HEADER_SIZE"
    using un len sint_frame_length [of ?n] by simp
  moreover have "\<not> RECV_BUF_SIZE < length (packi32 MESSAGE @ packi32 ?n) + length (packi16 (of_nat (length msg)) @ chars msg)"
    using len by (simp add: u32.enc_width u16.enc_width)
  moreover have "r_comm r' = Some MESSAGE" "r_num r' = Some ?n" "r_buf r' = Some a" "\<not> data_response MESSAGE"
    using a c by (simp_all add: r' data_response_def)
  ultimately show ?thesis
    using body header_bytes [of MESSAGE ?n]
    by (simp only: prepare_to_write_response_def option.case option.sel prod.case if_False append_assoc)
qed

end
