(* ===== verification/Delivery.thy ===== *)
theory Delivery
  imports Wire
begin

text \<open>
  A request for samples from the first to the last packet: the specification of what the client
  receives (\<open>frames\<close>), and that the inner loop of \<open>process_client_request\<close> sends exactly that over
  a connection that works.
\<close>

section \<open>A request for samples, answered to the end\<close>

text \<open>
  The specification: the data cut into packets of 4096 bytes, each with its type, its size and
  its bytes; the first one is marked as new data and the others as remaining data.
\<close>

function frames :: "u32 \<Rightarrow> u32 \<Rightarrow> bool \<Rightarrow> u8 list \<Rightarrow> u8 list" where
  "frames new rem first bs =
     (if bs = [] then []
      else packi32 (if first then new else rem) @ packi32 (of_nat (min 4096 (length bs))) @ take 4096 bs @
           frames new rem False (drop 4096 bs))"
  by pat_completeness auto

termination
  by (relation "measure (\<lambda>(new, rem, first, bs). length bs)") auto

declare frames.simps [simp del]

definition reliable :: "socket \<Rightarrow> bool" where
  "reliable sk \<longleftrightarrow> socket_ok sk \<and> (\<forall>s bs. bs \<noteq> [] \<longrightarrow> 0 < send_answer sk s bs)"

text \<open>Memory at \<open>a\<close> that keeps the bytes \<open>mem\<close>.\<close>

definition settled :: "device \<Rightarrow> u32 \<Rightarrow> u8 list \<Rightarrow> bool" where
  "settled dev a mem \<longleftrightarrow> (\<forall>t. \<forall>i<length mem. ram dev t (a + of_nat i) = mem ! i)"

lemma settled_bytes:
  assumes "settled dev a mem" and "k + n \<le> length mem"
  shows "ram_bytes dev t (a + of_nat k) n = take n (drop k mem)"
  using assms by (intro nth_equalityI) (auto simp: ram_bytes_def settled_def add.assoc simp flip: of_nat_add)

lemma reliable_send: "reliable sk \<Longrightarrow> bs \<noteq> [] \<Longrightarrow> 0 < send_answer sk s bs \<and> send_answer sk s bs \<le> int (length bs)"
  by (simp add: reliable_def socket_ok_send)

lemma sendall_never_fails: "reliable sk \<Longrightarrow> sent \<le> length bs \<Longrightarrow> fst (sendall sk bs sent s) = int (length bs)"
proof (induction sk bs sent s rule: sendall.induct)
  case (1 sk bs sent s)
  show ?case
  proof (cases "length bs \<le> sent")
    case True
    with 1(3) show ?thesis by (subst sendall.simps) simp
  next
    case False
    define n where "n = send_answer sk s (drop sent bs)"
    have n: "0 < n" "n \<le> int (length bs - sent)"
      using reliable_send [OF 1(2), of "drop sent bs" s] False by (auto simp: n_def)
    then have "sent + nat n \<le> length bs" using False by linarith
    with 1(1) [OF False n_def] n 1(2)
    have "fst (sendall sk bs (sent + nat n) (s @ [Sent (take (nat n) (drop sent bs))])) = int (length bs)"
      by simp
    with False n show ?thesis by (simp add: sendall.simps [of sk bs sent s] Let_def flip: n_def)
  qed
qed

lemma sendall_reliable:
  assumes "reliable sk"
  obtains s' where "sendall sk bs 0 s = (int (length bs), s')" and "sent_bytes s' = sent_bytes s @ bs"
proof -
  obtain n s' where run: "sendall sk bs 0 s = (n, s')" by fastforce
  have n: "n = int (length bs)" using sendall_never_fails [OF assms, of 0 bs s] run by simp
  from sendall_split [OF _ run] assms n have "sent_bytes s' = sent_bytes s @ bs"
    by (auto simp: reliable_def)
  with that run n show thesis by simp
qed

section \<open>The next packet\<close>

text \<open>
  The device is about to hand out sample \<open>P\<close> of a request for \<open>v\<close>: nothing of the last capture
  is left, or part of the capture made for this request has been handed out.
\<close>

definition positioned :: "low_level_handler \<Rightarrow> u32 \<Rightarrow> int \<Rightarrow> bool" where
  "positioned h v P \<longleftrightarrow>
     P = 0 \<and> samples_count h = samples_count_pos h \<or>
     0 < P \<and> P < uint v \<and> samples_count h = v \<and> uint (samples_count_pos h) = P"

lemma next_grant:
  assumes ok: "handler_ok h" and v: "0 < uint v" "uint v * uint (sample_size (attr h)) < 8388608"
    and pos: "positioned h v P" and run: "get_samples dev v h t = (SUCCESS, n, off, h', t')"
  shows "uint n = min (uint v - P) (uint (max_resp_buffer_packets (attr h)))"
    and "off = Some (word_of_int P * sample_size (attr h))"
    and "samples_count h' = v" and "uint (samples_count_pos h') = P + uint n"
proof -
  have nz: "v \<noteq> 0" using v(1) by auto
  note w = get_samples_window [OF ok nz v(2) run]
  have m: "0 < uint (max_resp_buffer_packets (attr h))" using max_packets_cases [OF ok] by auto
  have rec: "recaptures h (uint v) \<longleftrightarrow> P = 0"
    using pos v(1) by (auto simp: recaptures_def positioned_def)
  have P: "(if recaptures h (uint v) then 0 else samples_count_pos h) = word_of_int P"
    using pos unfolding rec by (auto simp: positioned_def)
  have uP: "uint (word_of_int P :: u32) = P"
    using pos by (cases "P = 0") (auto simp: positioned_def)
  have "granted h (uint v) = min (uint v - P) (uint (max_resp_buffer_packets (attr h)))"
    using pos v(1) by (auto simp: granted_def positioned_def Let_def)
  with w P uP show "uint n = min (uint v - P) (uint (max_resp_buffer_packets (attr h)))"
    and "off = Some (word_of_int P * sample_size (attr h))"
    and "uint (samples_count_pos h') = P + uint n"
    by (simp_all add: Let_def)
  show "samples_count h' = v"
    using w pos rec by (auto simp: positioned_def split: if_splits)
qed

lemma positioned_next:
  assumes "positioned h v P" and "P + n < uint v" and "0 < n" and "samples_count h' = v"
    and "uint (samples_count_pos h') = P + n"
  shows "positioned h' v (P + n)"
  using assms by (auto simp: positioned_def)

lemma send_data:
  assumes "reliable sk" "r_comm r = Some c" "data_response c" "r_num r = Some n" "0 < uint n" "uint n \<le> 4096"
    and "r_buf r = Some a"
  obtains s' where "send_response_packet dev sk r t s = Inr (uint n + 8, s')"
    and "sent_bytes s' = sent_bytes s @ packi32 c @ packi32 n @ ram_bytes dev t a (unat n)"
proof -
  let ?bs = "packi32 c @ packi32 n @ ram_bytes dev t a (unat n)"
  obtain s' where s': "sendall sk ?bs 0 s = (int (length ?bs), s')" "sent_bytes s' = sent_bytes s @ ?bs"
    using sendall_reliable [OF assms(1)] .
  have "int (length ?bs) = uint n + 8" by (simp add: u32.enc_width)
  with s' data_frame [OF assms(2-7), of dev t]
  have "send_response_packet dev sk r t s = Inr (uint n + 8, s')"
    using assms(4) by (simp add: send_response_packet_def del: length_append)
  with that s'(2) show thesis by simp
qed

lemma send_answered:
  assumes "reliable sk" and "send_response_packet dev sk r t s = Inr (n, s')" and "n \<noteq> ERROR"
  shows "0 \<le> n"
  using assms by (auto simp: send_response_packet_def Let_def split: option.splits sum.splits prod.splits if_splits)

lemma answer_stopped: "s_error st \<Longrightarrow> answer_loop dev sk p rem st = Some (Inr st)"
  by (subst answer_loop.simps) simp

lemma answer_done: "rem \<le> 0 \<Longrightarrow> answer_loop dev sk p rem st = Some (Inr st)"
  by (subst answer_loop.simps) simp

text \<open>A round that reports an error leaves the flag set for good.\<close>

lemma answer_error:
  assumes run: "answer_loop dev sk p rem st = Some (Inr st')" and go: "0 < rem" "\<not> s_error st"
    and req: "handle_request dev p (s_response st) (s_handlers st) (s_trace st) = Inr (valid, r, hs, t)"
    and valid: "valid < 0"
  shows "s_error st'"
proof -
  from run go req show ?thesis
    using valid
    by (subst (asm) answer_loop.simps) (auto simp: Let_def answer_stopped split: sum.splits prod.splits if_splits)
qed

lemma answer_round:
  assumes go: "0 < rem" "\<not> s_error st"
    and req: "handle_request dev p (s_response st) (s_handlers st) (s_trace st) = Inr (valid, r, hs, t)"
    and valid: "0 \<le> valid" and send: "send_response_packet dev sk r t (s_net st) = Inr (n, s)" and n: "0 \<le> n"
  shows "answer_loop dev sk p rem st =
    answer_loop dev sk p (rem - valid)
      (st\<lparr>s_response := r, s_handlers := hs, s_trace := t, s_error := False, s_net := s\<rparr>)"
  using assms by (subst answer_loop.simps) (simp add: Let_def)

lemma answer_fault:
  assumes "0 < rem" "\<not> s_error st" and "handle_request dev p (s_response st) (s_handlers st) (s_trace st) = Inl f"
  shows "answer_loop dev sk p rem st = Some (Inl f)"
  using assms by (subst answer_loop.simps) simp

lemma data_kinds: "data_response (new_data d)" "data_response (remaining_data d)"
  by (cases d; simp add: data_response_def new_data_def remaining_data_def)+

text \<open>One packet of the answer to a request for samples.\<close>

lemma answer_packet:
  fixes st :: session
  assumes rel: "reliable sk" and hs: "server_ok (s_handlers st)" and c: "c_comm p = get_command d"
    and v: "0 < uint v" "v \<le> device_max d" "c_val p = v"
    and pos: "positioned (handler_of (s_handlers st) d) v P"
    and run: "answer_loop dev sk p ((uint v - P) * uint (device_sample d)) st = Some (Inr st')"
    and ok: "\<not> s_error st" "\<not> s_error st'"
    and mem: "settled dev (buffer_of d) mem" "length mem = nat (uint v * uint (device_sample d))"
  obtains st1 n where "n = min (uint v - P) (packet_samples d)"
    and "answer_loop dev sk p ((uint v - (P + n)) * uint (device_sample d)) st1 = Some (Inr st')"
    and "server_ok (s_handlers st1)" and "\<not> s_error st1"
    and "samples_count (handler_of (s_handlers st1) d) = v"
    and "uint (samples_count_pos (handler_of (s_handlers st1) d)) = P + n"
    and "sent_bytes (s_net st1) = sent_bytes (s_net st) @ packi32 (if P = 0 then new_data d else remaining_data d) @
           packi32 (word_of_int (n * uint (device_sample d))) @
           take (nat (n * uint (device_sample d))) (drop (nat (P * uint (device_sample d))) mem)"
proof -
  define z h where "z = uint (device_sample d)" and "h = handler_of (s_handlers st) d"
  note H = server_ok_handler [OF hs, of d, folded h_def]
  have P: "0 \<le> P" "P < uint v" using pos v(1) by (auto simp: positioned_def)
  have rem: "0 < (uint v - P) * z" using P device_numbers(2) by (simp add: z_def)
  have vnz: "c_val p \<noteq> 0" "c_val p \<le> device_max d" using v by auto
  obtain valid r hs1 t where req: "handle_request dev p (s_response st) (s_handlers st) (s_trace st) = Inr (valid, r, hs1, t)"
    using answer_fault [OF rem ok(1), of dev p] run
    by (cases "handle_request dev p (s_response st) (s_handlers st) (s_trace st)") (auto simp: z_def)
  have noerr: "valid \<noteq> ERROR" using answer_error [OF run [folded z_def] rem ok(1) req] ok(2) by auto
  obtain n off h' t' where g: "get_samples dev (c_val p) h (s_trace st) = (SUCCESS, n, off, h', t')"
    using get_succeeded [OF hs c vnz(1) req noerr] unfolding h_def by metis
  have vz: "uint v * uint (sample_size (attr h)) < 8388608"
    using sample_bytes(1) [OF v(2), of "uint v"] by (simp add: H(2))
  note grant = next_grant [OF H(1) v(1) vz pos [folded h_def] g [unfolded v(3)]]
  obtain b where b: "off = Some b" "0 < uint n" "uint (n * device_sample d) = uint n * z" "uint n * z \<le> 4096"
    "uint b + uint n * z < 8388608" "server_ok (set_handler (s_handlers st) d h')"
    and hreq: "handle_request dev p (s_response st) (s_handlers st) (s_trace st) = Inr (uint n * z,
           (s_response st)\<lparr>r_comm := Some (if b = 0 then new_data d else remaining_data d),
             r_num := Some (n * device_sample d), r_buf := Some (buffer_of d + b)\<rparr>, set_handler (s_handlers st) d h', t')"
    using get_served [OF hs c vnz g [unfolded h_def], of "s_response st", folded z_def] .
  have k: "uint n = min (uint v - P) (packet_samples d)" using grant(1) H(4) by simp
  have sum: "P * z + uint n * z \<le> uint v * z"
    using mult_right_mono [of "P + uint n" "uint v" z] k by (simp add: z_def distrib_right)
  have bP: "uint b = P * z" using grant(2) b(1) H(2) sample_bytes(2) [OF v(2), of P] P by (simp add: z_def)
  then have b0: "b = 0 \<longleftrightarrow> P = 0" using device_numbers(2) [of d] by (auto simp: word_uint_eq_iff z_def)
  have nz: "0 < uint (n * device_sample d)" "uint (n * device_sample d) \<le> 4096"
    using b(2-4) device_numbers(2) [of d] by (simp_all add: z_def)
  have resp: "data_response (if b = 0 then new_data d else remaining_data d)" using data_kinds by simp
  define r' where "r' = (s_response st)\<lparr>r_comm := Some (if b = 0 then new_data d else remaining_data d),
             r_num := Some (n * device_sample d), r_buf := Some (buffer_of d + b)\<rparr>"
  obtain s where s: "send_response_packet dev sk r' t' (s_net st) = Inr (uint (n * device_sample d) + 8, s)"
    "sent_bytes s = sent_bytes (s_net st) @ packi32 (if b = 0 then new_data d else remaining_data d) @
       packi32 (n * device_sample d) @ ram_bytes dev t' (buffer_of d + b) (unat (n * device_sample d))"
    by (rule send_data [OF rel _ resp _ nz, of r' "buffer_of d + b" dev t' "s_net st"]) (simp_all add: r'_def)
  let ?st = "st\<lparr>s_response := r', s_handlers := set_handler (s_handlers st) d h', s_trace := t', s_error := False, s_net := s\<rparr>"
  have "answer_loop dev sk p ((uint v - P) * z) st = answer_loop dev sk p ((uint v - P) * z - uint n * z) ?st"
    using answer_round [OF rem ok(1) hreq [folded r'_def] _ s(1)] nz(1) b(3) by simp
  moreover have "(uint v - P) * z - uint n * z = (uint v - (P + uint n)) * z"
    by (simp add: left_diff_distrib distrib_right)
  ultimately have rest: "answer_loop dev sk p ((uint v - (P + uint n)) * z) ?st = Some (Inr st')"
    using run by (simp add: z_def)
  have "of_nat (nat (uint b)) = b" by simp
  then have "b = of_nat (nat (P * z))" unfolding bP ..
  moreover have "nat (P * z) + nat (uint n * z) \<le> length mem"
    using sum P b(2) device_numbers(2) [of d] mem(2) by (simp add: z_def flip: nat_add_distrib)
  note settled_bytes [OF mem(1) this, of t']
  ultimately have data: "ram_bytes dev t' (buffer_of d + b) (unat (n * device_sample d)) = take (nat (uint n * z)) (drop (nat (P * z)) mem)"
    using b(3) by (simp flip: nat_uint_eq)
  have "n * device_sample d = word_of_int (uint n * z)" using b(3) by (metis word_of_int_uint)
  with s(2) data b0 have bytes: "sent_bytes s = sent_bytes (s_net st) @
      packi32 (if P = 0 then new_data d else remaining_data d) @ packi32 (word_of_int (uint n * z)) @
      take (nat (uint n * z)) (drop (nat (P * z)) mem)" by simp
  have "handler_of (set_handler (s_handlers st) d h') d = h'" by (cases d) simp_all
  with that [OF k rest [unfolded z_def]] b(6) bytes grant(3,4) show thesis by (simp add: z_def)
qed

lemma frames_packet:
  assumes "0 < m" and "m = min 4096 (length bs)"
  shows "frames new rem first bs = packi32 (if first then new else rem) @ packi32 (of_nat m) @ take m bs @
    frames new rem False (drop m bs)"
proof -
  have "bs \<noteq> []" using assms by auto
  moreover have "take 4096 bs = take m bs" "drop 4096 bs = drop m bs" using assms(2) by (simp_all add: min_def)
  ultimately show ?thesis by (subst frames.simps) (simp add: assms(2))
qed

lemma frames_nil [simp]: "frames new rem first [] = []"
  by (subst frames.simps) simp

text \<open>The packet sizes of the answer are those of the specification.\<close>

lemma packet_bytes:
  fixes z :: int
  assumes "m * z = 4096" and "0 < z" and "0 \<le> P" and "P < v" and "length mem = nat (v * z)"
  shows "nat (min (v - P) m * z) = min 4096 (length (drop (nat (P * z)) mem))"
    and "drop (nat (min (v - P) m * z)) (drop (nat (P * z)) mem) = drop (nat ((P + min (v - P) m) * z)) mem"
proof -
  have le: "0 \<le> P * z" "P * z \<le> v * z" using assms by (simp_all add: mult_right_mono)
  have m: "0 < m" using assms(1,2) zero_less_mult_pos2 [of m z] by simp
  have "min (v - P) m * z = min ((v - P) * z) 4096"
    using assms(1,2) by (simp add: min_mult_distrib_right flip: assms(1))
  moreover have "int (length (drop (nat (P * z)) mem)) = (v - P) * z"
    using le assms(5) by (simp add: left_diff_distrib)
  ultimately show "nat (min (v - P) m * z) = min 4096 (length (drop (nat (P * z)) mem))"
    by linarith
  have "0 \<le> min (v - P) m * z" using assms m by simp
  then show "drop (nat (min (v - P) m * z)) (drop (nat (P * z)) mem) = drop (nat ((P + min (v - P) m) * z)) mem"
    using le by (simp add: distrib_right nat_add_distrib add.commute)
qed

lemma answer_packets:
  assumes rel: "reliable sk" and c: "c_comm p = get_command d"
    and v: "0 < uint v" "v \<le> device_max d" "c_val p = v"
    and mem: "settled dev (buffer_of d) mem" "length mem = nat (uint v * uint (device_sample d))"
    and st': "\<not> s_error st'"
  shows "server_ok (s_handlers st) \<Longrightarrow> positioned (handler_of (s_handlers st) d) v P \<Longrightarrow> \<not> s_error st \<Longrightarrow>
    answer_loop dev sk p ((uint v - P) * uint (device_sample d)) st = Some (Inr st') \<Longrightarrow>
    sent_bytes (s_net st') = sent_bytes (s_net st) @
      frames (new_data d) (remaining_data d) (P = 0) (drop (nat (P * uint (device_sample d))) mem) \<and>
    server_ok (s_handlers st') \<and>
    samples_count (handler_of (s_handlers st') d) = v \<and> samples_count_pos (handler_of (s_handlers st') d) = v"
proof (induction "nat (uint v - P)" arbitrary: st P rule: less_induct)
  case less
  define z where "z = uint (device_sample d)"
  have P: "0 \<le> P" "P < uint v" using less.prems(2) v(1) by (auto simp: positioned_def)
  obtain st1 n where n: "n = min (uint v - P) (packet_samples d)"
    and run: "answer_loop dev sk p ((uint v - (P + n)) * z) st1 = Some (Inr st')"
    and s1: "server_ok (s_handlers st1)" "\<not> s_error st1"
      "samples_count (handler_of (s_handlers st1) d) = v" "uint (samples_count_pos (handler_of (s_handlers st1) d)) = P + n"
    and bytes: "sent_bytes (s_net st1) = sent_bytes (s_net st) @ packi32 (if P = 0 then new_data d else remaining_data d) @
           packi32 (word_of_int (n * z)) @ take (nat (n * z)) (drop (nat (P * z)) mem)"
    using answer_packet [OF rel less.prems(1) c v less.prems(2) less.prems(4) less.prems(3) st' mem]
    unfolding z_def by metis
  have np: "0 < n" using P device_numbers(3) by (simp add: n)
  have nz: "0 < n * z" using np device_numbers(2) by (simp add: z_def)
  note pk = packet_bytes [OF device_numbers(1,2) P mem(2), folded n z_def]
  have "frames (new_data d) (remaining_data d) (P = 0) (drop (nat (P * z)) mem) =
      packi32 (if P = 0 then new_data d else remaining_data d) @ packi32 (of_nat (nat (n * z))) @
      take (nat (n * z)) (drop (nat (P * z)) mem) @
      frames (new_data d) (remaining_data d) False (drop (nat ((P + n) * z)) mem)"
    using frames_packet [OF _ pk(1)] nz pk(2) by simp
  moreover have "(of_nat (nat (n * z)) :: u32) = word_of_int (n * z)" using nz by simp
  ultimately have fr: "sent_bytes (s_net st) @ frames (new_data d) (remaining_data d) (P = 0) (drop (nat (P * z)) mem) =
      sent_bytes (s_net st1) @ frames (new_data d) (remaining_data d) False (drop (nat ((P + n) * z)) mem)"
    using bytes by simp
  show ?case
  proof (cases "P + n = uint v")
    case True
    have "st' = st1" using run True answer_done [of 0 dev sk p st1] by simp
    moreover have "drop (nat ((P + n) * z)) mem = []" using True mem(2) by (simp add: z_def)
    moreover have "samples_count_pos (handler_of (s_handlers st1) d) = v" using s1(4) True by (simp add: word_uint_eq_iff)
    ultimately show ?thesis using fr s1 by (simp add: z_def)
  next
    case False
    then have lt: "P + n < uint v" using n by simp
    have "positioned (handler_of (s_handlers st1) d) v (P + n)"
      by (rule positioned_next [OF less.prems(2) lt np s1(3,4)])
    from less.hyps [OF _ s1(1) this s1(2) run [unfolded z_def]] np P fr show ?thesis
      by (simp add: z_def)
  qed
qed

text \<open>C1: a client that asks a drained device for \<open>v\<close> samples over a working connection gets the
  whole capture and nothing else: unless the server flags an error, what has been sent when the
  command is finished is the bytes of the capture buffer from its start to the end of sample
  \<open>v\<close>, in order, cut into packets of 4096 bytes with their headers; the device is drained
  again.\<close>

theorem request_delivers_capture:
  assumes "reliable sk" and "server_ok (s_handlers st)" and "\<not> s_error st"
    and "samples_count (handler_of (s_handlers st) d) = samples_count_pos (handler_of (s_handlers st) d)"
    and "c_comm p = get_command d" and "0 < uint (c_val p)" and "c_val p \<le> device_max d"
    and "settled dev (buffer_of d) mem" and "length mem = nat (uint (c_val p) * uint (device_sample d))"
    and "answer_loop dev sk p (prepare_to_handle p) st = Some (Inr st')" and "\<not> s_error st'"
  shows "sent_bytes (s_net st') = sent_bytes (s_net st) @ frames (new_data d) (remaining_data d) True mem \<and>
    server_ok (s_handlers st') \<and>
    samples_count (handler_of (s_handlers st') d) = samples_count_pos (handler_of (s_handlers st') d)"
proof -
  have "prepare_to_handle p = sint (c_val p * device_sample d)"
    using assms(5) by (cases d) (simp_all add: prepare_to_handle_def get_command_def device_sample_def)
  also have "\<dots> = uint (c_val p) * uint (device_sample d)"
    by (rule sint_product) (use sample_bytes(1) [OF assms(7), of "uint (c_val p)"] in simp)
  finally have prep: "prepare_to_handle p = (uint (c_val p) - 0) * uint (device_sample d)" by simp
  have "positioned (handler_of (s_handlers st) d) (c_val p) 0" using assms(4) by (simp add: positioned_def)
  from answer_packets [OF assms(1,5,6,7) refl assms(8,9,11,2) this assms(3) assms(10) [unfolded prep]]
  show ?thesis by simp
qed

definition open_socket :: socket where
  "open_socket = \<lparr>send_answer = (\<lambda>s bs. int (length bs)), recv_answer = (\<lambda>s k. (0, []))\<rparr>"

lemma open_socket_reliable: "reliable open_socket"
  by (auto simp: reliable_def socket_ok_def open_socket_def)

text \<open>A memory whose bytes are the low bytes of their addresses.\<close>

definition counting_device :: device where
  "counting_device = halted_device\<lparr>ram := \<lambda>t a. ucast a\<rparr>"

definition ready_session :: session where
  "ready_session = \<lparr>s_handlers = ready_handlers, s_response = fresh_response, s_error = False, s_trace = [], s_net = []\<rparr>"

definition get_3 :: command_packet where
  "get_3 = \<lparr>c_comm = FMC150_GET_SAMPLES, c_cs = 0, c_addr = 0, c_val = 3\<rparr>"

theorem request_delivers_capture_witness:
  "\<exists>st'. answer_loop counting_device open_socket get_3 (prepare_to_handle get_3) ready_session = Some (Inr st') \<and>
     sent_bytes (s_net st') = packi32 FMC150_NEW_DATA @ packi32 12 @ [0, 1, 2, 3, 4, 5, 6, 7, 8, 9, 10, 11]"
proof -
  define res where "res = answer_loop counting_device open_socket get_3 (prepare_to_handle get_3) ready_session"
  have "case res of Some (Inr st') \<Rightarrow> \<not> s_error st' | _ \<Rightarrow> False" unfolding res_def by code_simp
  then obtain st' where run: "res = Some (Inr st')" "\<not> s_error st'" by (auto split: option.splits sum.splits)
  have mem: "settled counting_device (buffer_of ADC_dev) [0, 1, 2, 3, 4, 5, 6, 7, 8, 9, 10, 11]"
  proof -
    have "\<forall>i<12. ucast (buffer_of ADC_dev + of_nat i) = [0, 1, 2, 3, 4, 5, 6, 7, 8, 9, 10, 11 :: u8] ! i" by code_simp
    then show ?thesis by (simp add: settled_def counting_device_def)
  qed
  have "samples_count (handler_of ready_handlers ADC_dev) = samples_count_pos (handler_of ready_handlers ADC_dev)"
    by code_simp
  with request_delivers_capture [OF open_socket_reliable _ _ _ _ _ _ mem _ run(1) [unfolded res_def] run(2)] ready_handlers_ok
  have "sent_bytes (s_net st') = frames FMC150_NEW_DATA FMC150_REMAINING_DATA True [0, 1, 2, 3, 4, 5, 6, 7, 8, 9, 10, 11]"
    by (simp add: ready_session_def get_3_def get_command_def device_max_def device_sample_def new_data_def remaining_data_def word_le_def)
  then show ?thesis using run by (simp add: res_def frames_packet [of 12])
qed

end
