(* ===== verification/Sessions.thy ===== *)
theory Sessions
  imports Delivery
begin

text \<open>
  Whole sessions: every command is answered to an end, and what happens to a session when a
  command fails, has no handler or is too large, when the client hangs up, and when answers in
  words mix with samples.
\<close>

section \<open>Commands are answered to an end\<close>

lemma proper_positive: "0 < prepare_to_handle p \<Longrightarrow> proper_request p"
  by (auto simp: prepare_to_handle_def proper_request_def)

lemma answer_returns:
  "server_ok (s_handlers st) \<Longrightarrow> proper_request p \<Longrightarrow>
   \<exists>res. answer_loop dev sk p rem st = Some res \<and> (case res of Inl f \<Rightarrow> True | Inr st' \<Rightarrow> server_ok (s_handlers st'))"
proof (induction "nat rem" arbitrary: rem st rule: less_induct)
  case less
  show ?case
  proof (cases "0 < rem \<and> \<not> s_error st")
    case False
    then show ?thesis using less.prems by (subst answer_loop.simps) auto
  next
    case True
    show ?thesis
    proof (cases "handle_request dev p (s_response st) (s_handlers st) (s_trace st)")
      case (Inl f)
      then show ?thesis using True by (subst answer_loop.simps) simp
    next
      case (Inr x)
      then obtain valid r hs t where req: "handle_request dev p (s_response st) (s_handlers st) (s_trace st) = Inr (valid, r, hs, t)"
        by (cases x) auto
      from handle_request_ok [OF less.prems req] have hs: "server_ok hs" "valid = ERROR \<or> 1 \<le> valid"
        by (auto split: if_splits)
      let ?st = "st\<lparr>s_response := r, s_handlers := hs, s_trace := t, s_error := valid < 0\<rparr>"
      show ?thesis
      proof (cases "send_response_packet dev sk r t (s_net st)")
        case (Inl f)
        then show ?thesis using True req by (subst answer_loop.simps) (simp add: Let_def)
      next
        case (Inr y)
        obtain n s where s: "send_response_packet dev sk r t (s_net st) = Inr (n, s)" using Inr by (cases y) auto
        have step: "answer_loop dev sk p rem st =
          (if n < 0 then Some (Inr (?st\<lparr>s_net := s\<rparr>)) else answer_loop dev sk p (rem - valid) (?st\<lparr>s_net := s\<rparr>))"
          using True req s by (subst answer_loop.simps) (simp add: Let_def)
        show ?thesis
        proof (cases "1 \<le> valid")
          case True
          with less.hyps [of "rem - valid" "?st\<lparr>s_net := s\<rparr>"] less.prems(2) hs \<open>0 < rem \<and> \<not> s_error st\<close> show ?thesis
            by (simp add: step)
        next
          case False
          then have "valid < 0" using hs(2) by auto
          then show ?thesis using hs(1) by (simp add: step answer_stopped)
        qed
      qed
    qed
  qed
qed

text \<open>C12: the inner loop of a session ends for every command a client can send, however the socket
  behaves: each round delivers at least one byte of what remains or sets the error flag, and
  the devices stay ready for the next command.\<close>

theorem answer_terminates:
  assumes "server_ok (s_handlers st)"
  shows "\<exists>res. answer_loop dev sk p (prepare_to_handle p) st = Some res \<and>
    (case res of Inl f \<Rightarrow> True | Inr st' \<Rightarrow> server_ok (s_handlers st'))"
proof (cases "0 < prepare_to_handle p")
  case True
  with answer_returns [OF assms proper_positive] show ?thesis by simp
next
  case False
  with assms show ?thesis by (simp add: answer_done)
qed

theorem answer_terminates_witness:
  "\<exists>res. answer_loop counting_device byte_socket get_1500 (prepare_to_handle get_1500) ready_session = Some res"
  using answer_terminates [of ready_session counting_device byte_socket get_1500] ready_handlers_ok
  by (auto simp: ready_session_def)

section \<open>Sessions that go wrong\<close>

lemma recv_keeps_sent:
  assumes "socket_ok sk" and "recv_command_packet sk s = (n, p, s')"
  shows "sent_bytes s' = sent_bytes s" and "closes s' = closes s + (if n = 0 then 1 else 0)"
    and "n = 0 \<or> n = 16 \<or> n = ERROR"
proof -
  obtain m buf s1 where r: "recvall sk COMMAND_PACKET_SIZE [] s = (m, buf, s1)" by (metis surj_pair)
  from recvall_split [OF assms(1) r]
  have "sent_bytes s1 = sent_bytes s" "closes s1 = closes s" "m = 16 \<or> m = 0 \<or> m = ERROR" by auto
  with assms(2) r show "sent_bytes s' = sent_bytes s" "closes s' = closes s + (if n = 0 then 1 else 0)"
    "n = 0 \<or> n = 16 \<or> n = ERROR"
    by (auto simp: recv_command_packet_def split: option.splits if_splits)
qed

text \<open>The commands that are read from the connection one after the other, and where the connection is then.\<close>

fun commands_read :: "socket \<Rightarrow> net_log \<Rightarrow> command_packet list \<Rightarrow> net_log \<Rightarrow> bool" where
  "commands_read sk s [] s' \<longleftrightarrow> s' = s"
| "commands_read sk s (c # cs) s' \<longleftrightarrow>
     (case recv_command_packet sk s of (n, p, s1) \<Rightarrow> p = Some c \<and> commands_read sk s1 cs s')"

lemma muted_round:
  assumes "socket_ok sk" and "s_error st" and "session_round dev sk st = Some (Inr (go, st1))"
  shows "s_error st1" and "sent_bytes (s_net st1) = sent_bytes (s_net st)" and "s_trace st1 = s_trace st"
    and "\<exists>n p. recv_command_packet sk (s_net st) = (n, p, s_net st1) \<and>
      (if go then p \<noteq> None else p = None \<and> n \<le> 0)"
proof -
  obtain n p s where r: "recv_command_packet sk (s_net st) = (n, p, s)" by (metis surj_pair)
  with assms(3) have st1: "st1 = st\<lparr>s_net := s\<rparr>" and go: "if go then p \<noteq> None else n \<le> 0"
    by (auto simp: session_round_def Let_def answer_stopped assms(2) split: if_splits option.splits sum.splits)
  then show "s_error st1" "sent_bytes (s_net st1) = sent_bytes (s_net st)" "s_trace st1 = s_trace st"
    using assms(2) recv_keeps_sent(1) [OF assms(1) r] by simp_all
  have "p \<noteq> None \<Longrightarrow> 0 < n" using r recv_keeps_sent(3) [OF assms(1) r]
    by (auto simp: recv_command_packet_def Let_def split: prod.splits if_splits option.splits)
  with go r st1 show "\<exists>n p. recv_command_packet sk (s_net st) = (n, p, s_net st1) \<and>
      (if go then p \<noteq> None else p = None \<and> n \<le> 0)" by (cases p; cases go) auto
qed

definition only_reads :: "socket \<Rightarrow> session \<Rightarrow> session \<Rightarrow> bool" where
  "only_reads sk st st' \<longleftrightarrow> sent_bytes (s_net st') = sent_bytes (s_net st) \<and> s_trace st' = s_trace st \<and>
     (\<exists>cs s0 n s1. commands_read sk (s_net st) cs s0 \<and> recv_command_packet sk s0 = (n, None, s1) \<and> n \<le> 0 \<and>
        s_net st' = s1 @ [Closed])"

lemma muted_loop:
  assumes "session_loop dev sk st = Some y"
  shows "socket_ok sk \<Longrightarrow> s_error st \<Longrightarrow> case y of Inl f \<Rightarrow> True | Inr st' \<Rightarrow> only_reads sk st st'"
  using assms
proof (induction rule: session_loop.raw_induct [rotated 1, consumes 1, case_names step])
  case (step loop dev sk st y)
  show ?case
  proof (cases "session_round dev sk st")
    case None
    with step(2) show ?thesis by simp
  next
    case (Some x)
    show ?thesis
    proof (cases x)
      case (Inl f)
      with Some step(2) show ?thesis by auto
    next
      case (Inr z)
      then obtain go st1 where r: "session_round dev sk st = Some (Inr (go, st1))" using Some by (cases z) auto
      note m = muted_round [OF step(3,4) r]
      show ?thesis
      proof (cases go)
        case True
        with step(2) r have "loop dev sk st1 = Some y" by simp
        from step(1) [OF this step(3) m(1)] have y: "case y of Inl f \<Rightarrow> True | Inr st' \<Rightarrow> only_reads sk st1 st'" .
        obtain n c where c: "recv_command_packet sk (s_net st) = (n, Some c, s_net st1)" using m(4) True by auto
        have "only_reads sk st st'" if "only_reads sk st1 st'" for st'
        proof -
          from that obtain cs s0 n' s1 where "commands_read sk (s_net st1) cs s0"
            "recv_command_packet sk s0 = (n', None, s1)" "n' \<le> 0" "s_net st' = s1 @ [Closed]"
            by (auto simp: only_reads_def)
          moreover from this(1) c have "commands_read sk (s_net st) (c # cs) s0" by simp
          ultimately show ?thesis using that m(2,3) unfolding only_reads_def by metis
        qed
        with y show ?thesis by (auto split: sum.splits)
      next
        case False
        with step(2) r have y: "y = Inr (st1\<lparr>s_net := s_net st1 @ [Closed]\<rparr>)" by simp
        obtain n where "recv_command_packet sk (s_net st) = (n, None, s_net st1)" "n \<le> 0" using m(4) False by auto
        moreover have "commands_read sk (s_net st) [] (s_net st)" by simp
        ultimately have "\<exists>cs s0 n s1. commands_read sk (s_net st) cs s0 \<and> recv_command_packet sk s0 = (n, None, s1) \<and>
          n \<le> 0 \<and> s_net st1 @ [Closed] = s1 @ [Closed]" by blast
        with y m(2,3) show ?thesis by (simp add: only_reads_def)
      qed
    qed
  qed
qed

text \<open>C40: the error flag is never cleared. After a request that ended with an error the server goes on
  reading commands, any number of them, and stops only when no further one can be read (the client
  has hung up, or the socket failed); it answers none of them and touches no register.\<close>

theorem error_mutes_session:
  assumes "socket_ok sk" and "s_error st" and "session_loop dev sk st = Some (Inr st')"
  shows "sent_bytes (s_net st') = sent_bytes (s_net st) \<and> s_trace st' = s_trace st \<and>
    (\<exists>cs s0 n s1. commands_read sk (s_net st) cs s0 \<and> recv_command_packet sk s0 = (n, None, s1) \<and> n \<le> 0 \<and>
       s_net st' = s1 @ [Closed])"
  using muted_loop [OF assms(3,1,2)] by (simp add: only_reads_def)

definition script_socket :: "(int \<times> u8 list) list \<Rightarrow> socket" where
  "script_socket script = \<lparr>send_answer = (\<lambda>s bs. int (length bs)),
     recv_answer = (\<lambda>s k. let i = length s in
        if i < length script \<and> length (snd (script ! i)) \<le> k \<and> fst (script ! i) = int (length (snd (script ! i)))
        then script ! i else (0, []))\<rparr>"

lemma script_socket_ok: "socket_ok (script_socket script)"
  by (auto simp: socket_ok_def script_socket_def Let_def split: if_splits)

theorem error_mutes_session_witness:
  "\<exists>st'. session_loop halted_device (script_socket [(16, [0, 0, 0, 12] @ replicate 12 0)])
       (ready_session\<lparr>s_error := True\<rparr>) = Some (Inr st') \<and> sent_bytes (s_net st') = []"
proof -
  define sk where "sk = script_socket [(16, [0, 0, 0, 12] @ replicate 12 0)]"
  define res where "res = session_loop halted_device sk (ready_session\<lparr>s_error := True\<rparr>)"
  have "case res of Some (Inr st') \<Rightarrow> True | _ \<Rightarrow> False" unfolding res_def sk_def by code_simp
  then obtain st' where run: "res = Some (Inr st')" by (auto split: option.splits sum.splits)
  have "socket_ok sk" by (simp add: sk_def script_socket_ok)
  from error_mutes_session [OF this _ run [unfolded res_def]] run show ?thesis
    by (auto simp: res_def sk_def ready_session_def)
qed

text \<open>When the client hangs up between two commands the session closes its socket twice, once in
  \<open>recv_command_packet\<close> and once after the loop; by then the number may belong to another
  connection.\<close>

theorem hang_up_closes_twice:
  assumes "socket_ok sk" and "recv_command_packet sk (s_net st) = (0, p, s)"
  shows "\<exists>st'. session_loop dev sk st = Some (Inr st') \<and> closes (s_net st') = closes (s_net st) + 2"
proof -
  have "session_round dev sk st = Some (Inr (False, st\<lparr>s_net := s\<rparr>))"
    by (simp add: session_round_def assms(2) Let_def)
  then have "session_loop dev sk st = Some (Inr (st\<lparr>s_net := s @ [Closed]\<rparr>))"
    by (subst session_loop.simps) simp
  with recv_keeps_sent(2) [OF assms] show ?thesis by simp
qed

theorem hang_up_closes_twice_witness:
  "\<exists>st'. session_loop halted_device open_socket ready_session = Some (Inr st') \<and> closes (s_net st') = 2"
proof -
  have "fst (recv_command_packet open_socket []) = 0" by code_simp
  then obtain p s where "recv_command_packet open_socket [] = (0, p, s)" by (metis prod.collapse)
  with hang_up_closes_twice [of open_socket ready_session p s halted_device] open_socket_reliable show ?thesis
    by (simp add: reliable_def ready_session_def numeral_2_eq_2)
qed

section \<open>Answers other than samples\<close>

lemma unhandled_iff:
  "get_command_handler c = None \<longleftrightarrow>
     c \<notin> {FMC150_CAPTURE, FMC150_GET_SAMPLES, FMC150_READ, FMC150_WRITE, DDC_CAPTURE, DDC_GET_SAMPLES,
          LED_READ, LED_WRITE, SOFT_REG_READ, SOFT_REG_WRITE}"
  by (auto simp: get_command_handler_def)

text \<open>The commands \<open>FMC150_ADC_DELAY\<close>, \<open>DDC_READ\<close>, \<open>DDC_WRITE\<close>, \<open>DDC_FMC150_CAPTURE\<close>,
  \<open>DDC_FMC150_GET_SAMPLES\<close> and \<open>QUIT\<close>, for which the request switch has cases, and every unknown
  command never reach the switch: no register is touched, the session is flagged as failed, and
  what is sent is the answer to the previous command once more; without a previous command the
  fields of the answer are not initialised.\<close>

theorem unhandled_resends_previous:
  assumes "c_comm p \<notin> {FMC150_CAPTURE, FMC150_GET_SAMPLES, FMC150_READ, FMC150_WRITE, DDC_CAPTURE, DDC_GET_SAMPLES,
      LED_READ, LED_WRITE, SOFT_REG_READ, SOFT_REG_WRITE}"
    and "\<not> s_error st"
  shows "answer_loop dev sk p (prepare_to_handle p) st =
    (if r_num (s_response st) = None then Some (Inl Uninitialised)
     else case send_response_packet dev sk (s_response st) (s_trace st) (s_net st) of
            Inl f \<Rightarrow> Some (Inl f)
          | Inr (n, s) \<Rightarrow> Some (Inr (st\<lparr>s_error := True, s_net := s\<rparr>)))"
proof -
  have none: "get_command_handler (c_comm p) = None" using assms(1) unhandled_iff by blast
  have "prepare_to_handle p = 1" using assms(1) by (auto simp: prepare_to_handle_def)
  moreover have "r_num (s_response st) = None \<Longrightarrow>
      send_response_packet dev sk (s_response st) (s_trace st) (s_net st) = Inl Uninitialised"
    by (simp add: send_response_packet_def)
  ultimately show ?thesis
    using assms(2)
    by (cases st, subst answer_loop.simps)
      (auto simp: unhandled_request [OF none] answer_stopped Let_def split: sum.split prod.split)
qed

theorem unhandled_resends_previous_witness:
  "answer_loop halted_device open_socket \<lparr>c_comm = QUIT, c_cs = 0, c_addr = 0, c_val = 0\<rparr>
     (prepare_to_handle \<lparr>c_comm = QUIT, c_cs = 0, c_addr = 0, c_val = 0\<rparr>) ready_session = Some (Inl Uninitialised)"
  by (subst unhandled_resends_previous) (simp_all add: ready_session_def fresh_response_def)

text \<open>A request for samples whose size in bytes does not fit a positive \<open>int\<close> is not refused but
  ignored: a value from \<open>2^29\<close> up to \<open>2^30 - 1\<close> samples of the ADC, or any multiple of
  \<open>2^30\<close>, gets no answer at all.\<close>

theorem huge_request_ignored:
  assumes "c_comm p = FMC150_GET_SAMPLES" and "2 ^ 29 \<le> uint (c_val p) mod 2 ^ 30 \<or> uint (c_val p) mod 2 ^ 30 = 0"
  shows "answer_loop dev sk p (prepare_to_handle p) st = Some (Inr st)"
proof -
  have "uint (c_val p * ADC_SAMPLE_SIZE) = uint (c_val p) * 4 mod 2 ^ 32"
    by (simp add: uint_word_arith_bintrs take_bit_eq_mod)
  also have "\<dots> = (uint (c_val p) mod 2 ^ 30) * 4"
    by (simp add: mult_mod_right flip: mult.commute)
  finally have "sint (c_val p * ADC_SAMPLE_SIZE) \<le> 0"
    using assms(2) by (auto simp: sint_cases)
  with assms(1) show ?thesis by (simp add: prepare_to_handle_def answer_done)
qed

theorem huge_request_ignored_witness:
  "answer_loop halted_device open_socket \<lparr>c_comm = FMC150_GET_SAMPLES, c_cs = 0, c_addr = 0, c_val = 0x30000000\<rparr>
     (prepare_to_handle \<lparr>c_comm = FMC150_GET_SAMPLES, c_cs = 0, c_addr = 0, c_val = 0x30000000\<rparr>) ready_session
     = Some (Inr ready_session)"
  by (rule huge_request_ignored) simp_all

text \<open>A register that is read travels in the byte order of the processor, the opposite of the
  order of the header before it, and under the type of fresh sample data.\<close>

theorem register_value_byte_order:
  assumes "ram_holds_stores dev" and "c_comm p = SOFT_REG_READ" and "r_buf r = Some a"
  shows "\<exists>v r' t'. handle_request dev p r hs t = Inr (4, r', hs, t') \<and> t' = t @ [Rd (c_addr p) v, St a (rev (packi32 v))] \<and>
    prepare_to_write_response dev (sint (the (r_num r') + 8)) r' t' =
      Inr (Some (packi32 SOFT_REG_NEW_DATA @ packi32 4 @ rev (packi32 v)))"
proof -
  define v r' where "v = reg dev t (c_addr p)"
    and "r' = r\<lparr>r_comm := Some SOFT_REG_NEW_DATA, r_num := Some 4\<rparr>"
  have le: "le_bytes w = rev (packi32 w)" for w by (simp add: le_bytes_def packi32_def)
  let ?t = "t @ [Rd (c_addr p) v, St a (rev (packi32 v))]"
  have "handle_request dev p r hs t = Inr (4, r', hs, ?t)"
    using assms(2,3)
    by (simp add: handle_request_def get_command_handler_def get_response_handler_def get_low_level_handler_def
        request_switch_def handle_read_def soft_reg_ops_def read_soft_register_def machine Let_def r'_def v_def
        le)
  moreover have "ram_bytes dev ?t a 4 = rev (packi32 v)"
    using ram_bytes_stored [OF assms(1), of "rev (packi32 v)" "t @ [Rd (c_addr p) v]" a] by (simp add: u32.enc_width)
  then have "prepare_to_write_response dev (sint (the (r_num r') + 8)) r' ?t =
      Inr (Some (packi32 SOFT_REG_NEW_DATA @ packi32 4 @ rev (packi32 v)))"
    using data_frame [of r' SOFT_REG_NEW_DATA 4 a dev ?t] assms(3) by (simp add: r'_def data_response_def)
  ultimately show ?thesis by blast
qed

definition storing_device :: device where
  "storing_device = \<lparr>reg = \<lambda>t a. a + 0x11223344,
     ram = \<lambda>t a. (case rev t of St b bs # _ \<Rightarrow> if unat (a - b) < length bs then bs ! unat (a - b) else 0 | _ \<Rightarrow> 0)\<rparr>"

lemma storing_device_holds: "ram_holds_stores storing_device"
  by (auto simp: ram_holds_stores_def storing_device_def unat_of_nat take_bit_nat_eq_self)

theorem register_value_byte_order_witness:
  "\<exists>r' t'. handle_request storing_device \<lparr>c_comm = SOFT_REG_READ, c_cs = 0, c_addr = 0x10, c_val = 0\<rparr>
       \<lparr>r_comm = None, r_num = None, r_buf = Some 0x1000\<rparr> ready_handlers [] = Inr (4, r', ready_handlers, t') \<and>
     prepare_to_write_response storing_device (sint (the (r_num r') + 8)) r' t' =
       Inr (Some [0, 0, 0, 9, 0, 0, 0, 4, 0x54, 0x33, 0x22, 0x11])"
proof -
  define p r where "p = \<lparr>c_comm = SOFT_REG_READ, c_cs = 0, c_addr = 0x10, c_val = 0\<rparr>"
    and "r = \<lparr>r_comm = None, r_num = None, r_buf = Some (0x1000 :: u32)\<rparr>"
  obtain v r' t' where run: "handle_request storing_device p r ready_handlers [] = Inr (4, r', ready_handlers, t')"
    "t' = [] @ [Rd (c_addr p) v, St 0x1000 (rev (packi32 v))]"
    "prepare_to_write_response storing_device (sint (the (r_num r') + 8)) r' t' =
      Inr (Some (packi32 SOFT_REG_NEW_DATA @ packi32 4 @ rev (packi32 v)))"
    using register_value_byte_order [OF storing_device_holds, where p = p and r = r and a = "0x1000" and hs = ready_handlers and t = "[]"]
    by (auto simp: p_def r_def)
  have "case handle_request storing_device p r ready_handlers [] of
      Inr (_, _, _, [Rd _ x, _]) \<Rightarrow> x = 0x11223354 | _ \<Rightarrow> False"
    unfolding p_def r_def by code_simp
  then have "v = 0x11223354" using run(1,2) by simp
  moreover have "packi32 SOFT_REG_NEW_DATA @ packi32 4 @ rev (packi32 0x11223354) =
      [0, 0, 0, 9, 0, 0, 0, 4, 0x54, 0x33, 0x22, 0x11]" by code_simp
  ultimately show ?thesis using run by (auto simp: p_def r_def)
qed

lemma led_write_request:
  assumes "c_comm q = LED_WRITE" and "r_buf r = Some a"
  shows "handle_request dev q r hs t = Inr (26, r\<lparr>r_comm := Some MESSAGE, r_num := Some 26\<rparr>, hs,
    t @ [Wr LED_BASEADDR (c_val q), St a (chars ''Led successfully written!'' @ [0])])"
  using assms
  by (simp add: handle_request_def get_command_handler_def get_response_handler_def get_low_level_handler_def
      request_switch_def handle_led_write_def led_write_def machine reply_cases Let_def)

lemma served_buffer:
  assumes "server_ok hs" and "c_comm p = get_command d" and "c_val p \<noteq> 0"
    and "handle_request dev p r hs t = Inr (ret, r1, hs1, t1)" and "0 \<le> ret"
  shows "\<exists>b. r_buf r1 = Some (buffer_of d + b) \<and> uint b + ret < 8388608"
proof -
  obtain n off h' t' where "c_val p \<le> device_max d"
    "get_samples dev (c_val p) (handler_of hs d) t = (SUCCESS, n, off, h', t')"
    using get_succeeded [OF assms(1-4)] assms(5) by (metis not_one_le_zero neg_0_le_iff_le)
  from get_served [OF assms(1-3) this, of r] assms(4) show ?thesis by fastforce
qed

text \<open>After a request for samples the buffer pointer of the answer points into the sample window
  of the device, and the next answer in words is written there: 26 bytes of \<open>LED_WRITE\<close>'s reply
  replace what the window held from the start of the last packet on, samples that have not been
  handed out yet included when that packet was shorter.\<close>

theorem text_overwrites_samples:
  assumes "ram_holds_stores dev" and "server_ok hs" and "c_comm p = get_command d" and "c_val p \<noteq> 0"
    and "handle_request dev p r hs t = Inr (ret, r1, hs1, t1)" and "0 \<le> ret" and "c_comm q = LED_WRITE"
  shows "\<exists>b r2 t2. r_buf r1 = Some (buffer_of d + b) \<and> uint b + ret < 8388608 \<and>
    handle_request dev q r1 hs1 t1 = Inr (26, r2, hs1, t2) \<and>
    ram_bytes dev t2 (buffer_of d + b) 26 = chars ''Led successfully written!'' @ [0]"
proof -
  obtain b where b: "r_buf r1 = Some (buffer_of d + b)" "uint b + ret < 8388608"
    using served_buffer [OF assms(2-6)] by blast
  have len: "length (chars ''Led successfully written!'' @ [0]) = 26" by code_simp
  have "ram_bytes dev (t1 @ [Wr LED_BASEADDR (c_val q), St (buffer_of d + b) (chars ''Led successfully written!'' @ [0])])
      (buffer_of d + b) 26 = chars ''Led successfully written!'' @ [0]"
    using ram_bytes_stored [OF assms(1), of "chars ''Led successfully written!'' @ [0]" "t1 @ [Wr LED_BASEADDR (c_val q)]"
        "buffer_of d + b"] unfolding len by simp
  with b led_write_request [OF assms(7) b(1), of dev hs1 t1] show ?thesis by auto
qed

definition stale_device :: device where
  "stale_device = halted_device\<lparr>ram := ram storing_device\<rparr>"

theorem text_overwrites_samples_witness:
  "\<exists>ret r1 hs1 t1 b r2 t2. handle_request stale_device get_3 fresh_response
       (ready_handlers\<lparr>adc_handler := adc_device\<lparr>samples_count := 100\<rparr>\<rparr>) [] = Inr (4, r1, hs1, t1) \<and>
     r_buf r1 = Some (buffer_of ADC_dev + b) \<and>
     handle_request stale_device \<lparr>c_comm = LED_WRITE, c_cs = 0, c_addr = 0, c_val = 1\<rparr> r1 hs1 t1 = Inr (26, r2, hs1, t2) \<and>
     ram_bytes stale_device t2 (buffer_of ADC_dev + b) 26 = chars ''Led successfully written!'' @ [0]"
proof -
  define hs where "hs = ready_handlers\<lparr>adc_handler := adc_device\<lparr>samples_count := 100\<rparr>\<rparr>"
  have "device_ready (adc_device\<lparr>samples_count := 100\<rparr>)"
    using adc_device_ready
    by (simp add: device_ready_def handler_ok_def adc_device_def fmc150_adc_dma_attr_def fmc150_adc_low_level_handler_def)
  then have ok: "server_ok hs"
    using ready_handlers_ok by (simp add: hs_def server_ok_def ready_handlers_def)
  have mem: "ram_holds_stores stale_device"
    using storing_device_holds by (simp add: stale_device_def ram_holds_stores_def)
  have "case handle_request stale_device get_3 fresh_response hs [] of Inr x \<Rightarrow> fst x = 4 | _ \<Rightarrow> False"
    unfolding hs_def by code_simp
  then obtain r1 hs1 t1 where run: "handle_request stale_device get_3 fresh_response hs [] = Inr (4, r1, hs1, t1)"
    by (auto split: sum.splits)
  have "c_comm get_3 = get_command ADC_dev" "c_val get_3 \<noteq> 0" by (simp_all add: get_3_def get_command_def)
  from text_overwrites_samples [OF mem ok this run, of "\<lparr>c_comm = LED_WRITE, c_cs = 0, c_addr = 0, c_val = 1\<rparr>"] run
  show ?thesis unfolding hs_def by auto
qed

text \<open>An answer in words does not have the size its header gives: the header counts the text
  and its terminator, what follows is a 16-bit length and the text without terminator, one byte
  more. A client that reads as many bytes as the header says is one byte behind from then on.\<close>

theorem text_answer_one_byte_more:
  assumes "ram_holds_stores dev" and "text_ok msg" and "r_comm r = Some MESSAGE" and "say msg r t = Inr (r', t')"
  shows "\<exists>body. prepare_to_write_response dev (sint (the (r_num r') + 8)) r' t' =
      Inr (Some (packi32 MESSAGE @ packi32 (the (r_num r')) @ body)) \<and>
    int (length body) = uint (the (r_num r')) + 1"
proof -
  from assms(4) have n: "r_num r' = Some (of_nat (length msg) + 1)" by (auto simp: say_def split: option.splits)
  have len: "length msg < 4000" using assms(2) by (simp add: text_ok_def)
  then have "uint (of_nat (length msg) :: u32) = int (length msg)"
    by (simp add: unsigned_of_nat take_bit_nat_eq_self)
  then have "uint (of_nat (length msg) + 1 :: u32) = int (length msg) + 1"
    using len by (subst uint_sum) simp_all
  with message_frame [OF assms] n show ?thesis by (simp add: u16.enc_width chars_def)
qed

theorem text_answer_one_byte_more_witness:
  "\<exists>r' t'. say ''Led successfully written!'' \<lparr>r_comm = Some MESSAGE, r_num = None, r_buf = Some 0x1000\<rparr> [] = Inr (r', t') \<and>
     (\<exists>body. prepare_to_write_response storing_device (sint (the (r_num r') + 8)) r' t' =
        Inr (Some (packi32 MESSAGE @ packi32 (the (r_num r')) @ body)) \<and> length body = 27)"
proof -
  let ?r = "\<lparr>r_comm = Some MESSAGE, r_num = None, r_buf = Some (0x1000 :: u32)\<rparr>"
  have run: "say ''Led successfully written!'' ?r [] = Inr (?r\<lparr>r_num := Some 26\<rparr>, [St 0x1000 (chars ''Led successfully written!'' @ [0])])"
    by (simp add: say_def)
  have "text_ok ''Led successfully written!''" by code_simp
  from text_answer_one_byte_more [OF storing_device_holds this _ run] run show ?thesis by auto
qed

end
