(* ===== verification/Command_Text.thy ===== *)
theory Command_Text
  imports Wire
begin

text \<open>
  \<open>tokenize_send_buffer\<close> of \<open>common.c\<close>: a line \<open><command> <cs> <addr> <value>\<close> becomes a command
  packet. \<open>strtok\<close> and \<open>atoi\<close> are the C library's; \<open>atoi\<close> of a number that is not an \<open>int\<close> is
  undefined (\<open>None\<close>).
\<close>

section \<open>The library functions\<close>

text \<open>\<open>strtok(s, " ")\<close>: the next token and what is left after the delimiter that ends it.\<close>

definition strtok :: "string \<Rightarrow> (string \<times> string) option" where
  "strtok s =
     (let s = dropWhile (\<lambda>c. c = CHR '' '') s
      in if s = [] then None
         else Some (takeWhile (\<lambda>c. c \<noteq> CHR '' '') s, drop 1 (dropWhile (\<lambda>c. c \<noteq> CHR '' '') s)))"

definition isspace :: "char \<Rightarrow> bool" where
  "isspace c \<longleftrightarrow> c = CHR '' '' \<or> 9 \<le> (of_char c :: nat) \<and> (of_char c :: nat) \<le> 13"

definition digit_value :: "char \<Rightarrow> int" where
  "digit_value c = of_char c - 48"

definition digits_value :: "string \<Rightarrow> int" where
  "digits_value ds = foldl (\<lambda>v c. 10 * v + digit_value c) 0 ds"

definition atoi :: "string \<Rightarrow> int option" where
  "atoi s =
     (let s = dropWhile isspace s;
          (neg, s) = (case s of
              [] \<Rightarrow> (False, s)
            | c # cs \<Rightarrow> if c = CHR ''-'' then (True, cs) else if c = CHR ''+'' then (False, cs) else (False, s));
          v = digits_value (takeWhile isdigit s);
          v = (if neg then - v else v)
      in if - 2147483648 \<le> v \<and> v < 2147483648 then Some v else None)"

section \<open>The command line\<close>

abbreviation "MAX_COMMANDS \<equiv> (16 :: int)"

text \<open>One field: the next token as a number. The inner \<open>None\<close> is the error return for a missing
  token, the outer one undefined behaviour.\<close>

definition next_number :: "string \<Rightarrow> (int \<times> string) option option" where
  "next_number s =
     (case strtok s of
        None \<Rightarrow> Some None
      | Some (tok, rest) \<Rightarrow> (case atoi tok of None \<Rightarrow> None | Some v \<Rightarrow> Some (Some (v, rest))))"

definition tokenize_send_buffer :: "string \<Rightarrow> command_packet \<Rightarrow> (int \<times> command_packet) option" where
  "tokenize_send_buffer s p =
     (case next_number s of None \<Rightarrow> None | Some None \<Rightarrow> Some (ERROR, p) | Some (Some (comm, s)) \<Rightarrow>
      if comm \<le> 0 \<or> MAX_COMMANDS < comm then Some (ERROR, p) else
      case next_number s of None \<Rightarrow> None | Some None \<Rightarrow> Some (ERROR, p) | Some (Some (cs, s)) \<Rightarrow>
      case next_number s of None \<Rightarrow> None | Some None \<Rightarrow> Some (ERROR, p) | Some (Some (addr, s)) \<Rightarrow>
      case next_number s of None \<Rightarrow> None | Some None \<Rightarrow> Some (ERROR, p) | Some (Some (v, s)) \<Rightarrow>
        Some (SUCCESS, \<lparr>c_comm = word_of_int comm, c_cs = word_of_int cs,
                        c_addr = word_of_int addr, c_val = word_of_int v\<rparr>))"

section \<open>Numbers survive the trip through text\<close>

lemma digit_value_char: "d < 10 \<Longrightarrow> digit_value (char_of (48 + d)) = int d"
proof -
  assume "d < 10"
  then have "(of_char (char_of (48 + d)) :: nat) = 48 + d" by simp
  then have "(of_char (char_of (48 + d)) :: int) = int (48 + d)" by (metis of_nat_of_char)
  then show ?thesis by (simp add: digit_value_def)
qed

lemma digits_value_snoc: "digits_value (ds @ [d]) = 10 * digits_value ds + digit_value d"
  by (simp add: digits_value_def)

lemma digits_value_decimal: "digits_value (decimal n) = int n"
proof (induction n rule: decimal.induct)
  case (1 n)
  show ?case
  proof (cases "n < 10")
    case True
    then show ?thesis
      using digit_value_char [of n] by (simp add: decimal.simps [of n] digits_value_def)
  next
    case False
    with 1 have "digits_value (decimal n) = 10 * int (n div 10) + int (n mod 10)"
      using digit_value_char [of "n mod 10"] by (simp add: decimal.simps [of n] digits_value_snoc)
    then show ?thesis by presburger
  qed
qed

lemma decimal_chars:
  assumes "c \<in> set (decimal n)"
  shows "isdigit c" and "c \<noteq> CHR '' ''" and "\<not> isspace c" and "c \<noteq> CHR ''-''" and "c \<noteq> CHR ''+''"
proof -
  have "c \<in> set ''0123456789''" using decimal_digits [OF assms] .
  then have "isdigit c \<and> c \<noteq> CHR '' '' \<and> \<not> isspace c \<and> c \<noteq> CHR ''-'' \<and> c \<noteq> CHR ''+''"
    by (simp only: list.set insert_iff empty_iff) (elim disjE FalseE; hypsubst; code_simp)
  then show "isdigit c" "c \<noteq> CHR '' ''" "\<not> isspace c" "c \<noteq> CHR ''-''" "c \<noteq> CHR ''+''" by simp_all
qed

lemma decimal_nonempty: "decimal n \<noteq> []"
  by (subst decimal.simps) simp

lemma atoi_decimal:
  assumes "n < 2147483648" and "rest = [] \<or> \<not> isdigit (hd rest)"
  shows "atoi (decimal n @ rest) = Some (int n)"
proof -
  obtain d ds where d: "decimal n = d # ds" using decimal_nonempty [of n] by (cases "decimal n") auto
  note dc = decimal_chars [of d n, unfolded d, simplified]
  have "takeWhile isdigit (decimal n @ rest) = decimal n"
    using assms(2) decimal_chars(1) by (cases rest) (auto simp: takeWhile_append)
  then show ?thesis
    using dc assms(1) digits_value_decimal [of n] by (simp add: atoi_def d)
qed

lemma strtok_decimal:
  "strtok (decimal n @ CHR '' '' # rest) = Some (decimal n, rest)"
  "CHR '' '' \<notin> set tail \<Longrightarrow> strtok (decimal n @ tail) = Some (decimal n @ tail, [])"
proof -
  obtain d ds where d: "decimal n = d # ds" using decimal_nonempty [of n] by (cases "decimal n") auto
  have sp: "\<forall>c\<in>set (decimal n). c \<noteq> CHR '' ''" using decimal_chars(2) by blast
  then have "d \<noteq> CHR '' ''" by (simp add: d)
  then have drop: "dropWhile (\<lambda>c. c = CHR '' '') (decimal n @ xs) = decimal n @ xs" for xs by (simp add: d)
  show "strtok (decimal n @ CHR '' '' # rest) = Some (decimal n, rest)"
    using sp decimal_nonempty [of n] by (simp add: strtok_def drop takeWhile_append2 dropWhile_append2)
  show "strtok (decimal n @ tail) = Some (decimal n @ tail, [])" if "CHR '' '' \<notin> set tail"
  proof -
    have "\<forall>c\<in>set (decimal n @ tail). c \<noteq> CHR '' ''" using sp that by auto
    then have "takeWhile (\<lambda>c. c \<noteq> CHR '' '') (decimal n @ tail) = decimal n @ tail"
      "dropWhile (\<lambda>c. c \<noteq> CHR '' '') (decimal n @ tail) = []"
      by (simp_all only: takeWhile_eq_all_conv dropWhile_eq_Nil_conv)
    with decimal_nonempty [of n] show ?thesis
      by (simp only: strtok_def drop Let_def append_is_Nil_conv simp_thms if_False drop_Nil)
  qed
qed

lemma next_number_decimal:
  assumes "n < 2147483648"
  shows "next_number (decimal n @ CHR '' '' # rest) = Some (Some (int n, rest))"
    and "next_number (decimal n @ [CHR 0x0A]) = Some (Some (int n, []))"
proof -
  show "next_number (decimal n @ CHR '' '' # rest) = Some (Some (int n, rest))"
    using atoi_decimal [OF assms, of "[]"] by (simp add: next_number_def strtok_decimal)
  have "\<not> isdigit (CHR 0x0A)" by code_simp
  with atoi_decimal [OF assms, of "[CHR 0x0A]"] strtok_decimal(2) [of "[CHR 0x0A]" n]
  show "next_number (decimal n @ [CHR 0x0A]) = Some (Some (int n, []))"
    by (simp add: next_number_def)
qed

text \<open>A command line in the expected format becomes exactly the packet with its four numbers,
  when the command is one of the 16 and the other numbers fit an \<open>int\<close>.\<close>

theorem tokenize_reads_command:
  assumes "0 < c" "c \<le> 16" and "cs < 2147483648" "addr < 2147483648" "v < 2147483648"
  shows "tokenize_send_buffer
      (decimal c @ CHR '' '' # decimal cs @ CHR '' '' # decimal addr @ CHR '' '' # decimal v @ [CHR 0x0A]) p =
    Some (SUCCESS, \<lparr>c_comm = of_nat c, c_cs = of_nat cs, c_addr = of_nat addr, c_val = of_nat v\<rparr>)"
  using assms by (simp add: tokenize_send_buffer_def next_number_decimal)

theorem tokenize_reads_command_witness:
  "tokenize_send_buffer (''3 0 0 1500'' @ [CHR 0x0A]) \<lparr>c_comm = 0, c_cs = 0, c_addr = 0, c_val = 0\<rparr> =
     Some (SUCCESS, \<lparr>c_comm = FMC150_GET_SAMPLES, c_cs = 0, c_addr = 0, c_val = 1500\<rparr>)"
proof -
  have "decimal 3 = ''3''" "decimal 0 = ''0''" "decimal 1500 = ''1500''" by code_simp+
  with tokenize_reads_command [of 3 0 0 1500 "\<lparr>c_comm = 0, c_cs = 0, c_addr = 0, c_val = 0\<rparr>"] show ?thesis by simp
qed

end
