(* ===== verification/Pid_Queue.thy ===== *)
theory Pid_Queue
  imports Bpm_Prelude
begin

text \<open>
  The process queues of Xilkernel (\<open>sys/queue.c\<close>): a ring buffer with a front index, an end
  index and a count. The fields are \<open>unsigned char\<close>; the index arithmetic of the source is done
  in \<open>int\<close> and every stored value is below \<open>max_items\<close>, so natural numbers carry it exactly. A
  queue holds process identifiers (\<open>pid_t\<close>, a signed char here, where 255 is -1).

  The abstract queue is the list \<open>contents\<close>: the operations are shown to append, to take the
  first element and to delete an element, and to keep \<open>queue_ok\<close>. The locale \<open>fifo_queue\<close>, between
  \<open>bounded_queue\<close>, which leaves a full queue open, and \<open>deletable_queue\<close>, is this contract; the scheduler and the semaphores rest on its
  interpretation.
\<close>

section \<open>The ring buffer\<close>

record 'a queue =
  max_items :: nat
  item_count :: nat
  qfront :: nat
  qend :: nat
  items :: "'a list"

type_synonym pid_queue = "int queue"

text \<open>\<open>alloc_q\<close>: the memory of the queue is whatever array the allocator hands out.\<close>

definition alloc_q :: "nat \<Rightarrow> 'a list \<Rightarrow> 'a queue" where
  "alloc_q n mem = \<lparr>max_items = n, item_count = 0, qfront = 0, qend = 0, items = mem\<rparr>"

definition qinit :: "'a queue \<Rightarrow> 'a queue" where
  "qinit q = q\<lparr>item_count := 0, qfront := 0, qend := 0\<rparr>"

definition penq :: "'a queue \<Rightarrow> 'a \<Rightarrow> 'a queue" where
  "penq q x =
     (if item_count q = max_items q then q
      else q\<lparr>items := (items q)[qend q := x], qend := (qend q + 1) mod max_items q,
             item_count := item_count q + 1\<rparr>)"

definition pdeq :: "pid_queue \<Rightarrow> int \<times> pid_queue" where
  "pdeq q =
     (if item_count q = 0 then (- 1, q)
      else (items q ! qfront q,
            q\<lparr>qfront := (qfront q + 1) mod max_items q, item_count := item_count q - 1\<rparr>))"

text \<open>The search loop of \<open>pdelq\<close>: the count and the index where it stops.\<close>

fun pdelq_find :: "'a queue \<Rightarrow> 'a \<Rightarrow> nat \<Rightarrow> nat \<Rightarrow> nat \<times> nat" where
  "pdelq_find q x 0 f = (0, f)"
| "pdelq_find q x (Suc n) f =
     (if x = items q ! f then (Suc n, f) else pdelq_find q x n ((f + 1) mod max_items q))"

text \<open>
  The loop that closes the gap: \<open>temp\<close> is always the index before \<open>qfront\<close>. An index outside the
  array would be undefined in C; there the model stops.
\<close>

function pdelq_shift :: "nat \<Rightarrow> nat \<Rightarrow> 'a list \<Rightarrow> nat \<Rightarrow> 'a list" where
  "pdelq_shift m e its f =
     (if f = e \<or> m \<le> f \<or> m \<le> e then its
      else pdelq_shift m e (its[f := its ! ((f + 1) mod m)]) ((f + 1) mod m))"
  by pat_completeness auto

termination
proof (relation "measure (\<lambda>(m, e, its, f). (e + m - f) mod m)")
  fix m e f :: nat and its :: "'a list"
  assume "\<not> (f = e \<or> m \<le> f \<or> m \<le> e)"
  then have a: "f \<noteq> e" "f < m" "e < m" by auto
  have dist: "(e + m - g) mod m = (if g \<le> e then e - g else e + m - g)" if "g < m" for g
  proof (cases "g \<le> e")
    case True
    then have "(e + m - g) mod m = ((e - g) + m) mod m" by (simp add: add.commute)
    also have "\<dots> = e - g" using a(3) by (simp only: mod_add_self2) simp
    finally show ?thesis using True by simp
  qed (use a that in simp)
  have "(e + m - (f + 1) mod m) mod m < (e + m - f) mod m"
  proof (cases "f + 1 = m")
    case True
    with a show ?thesis by (simp add: dist)
  next
    case False
    with a have "(f + 1) mod m = f + 1" "f + 1 < m" by simp_all
    with a dist [of f] dist [of "f + 1"] show ?thesis by (auto split: if_splits)
  qed
  then show "((m, e, its[f := its ! ((f + 1) mod m)], (f + 1) mod m), m, e, its, f)
      \<in> measure (\<lambda>(m, e, its, f). (e + m - f) mod m)"
    by simp
qed simp

declare pdelq_shift.simps [simp del]

definition pdelq :: "'a queue \<Rightarrow> 'a \<Rightarrow> int \<times> 'a queue" where
  "pdelq q x =
     (if item_count q = 0 then (- 1, q)
      else
        let (n, f) = pdelq_find q x (item_count q) (qfront q)
        in if n = 0 then (- 1, q)
           else if f = qfront q
           then (0, q\<lparr>qfront := (f + 1) mod max_items q, item_count := item_count q - 1\<rparr>)
           else (0, q\<lparr>items := pdelq_shift (max_items q) (qend q) (items q) f,
                      qend := (qend q + max_items q - 1) mod max_items q,
                      item_count := item_count q - 1\<rparr>))"

section \<open>The queue as a list\<close>

definition queue_ok :: "'a queue \<Rightarrow> bool" where
  "queue_ok q \<longleftrightarrow>
     0 < max_items q \<and> length (items q) = max_items q \<and> qfront q < max_items q \<and>
     item_count q \<le> max_items q \<and> qend q = (qfront q + item_count q) mod max_items q"

definition contents :: "'a queue \<Rightarrow> 'a list" where
  "contents q = map (\<lambda>i. items q ! ((qfront q + i) mod max_items q)) [0..<item_count q]"

lemma length_contents [simp]: "length (contents q) = item_count q"
  by (simp add: contents_def)

lemma contents_nth: "i < item_count q \<Longrightarrow> contents q ! i = items q ! ((qfront q + i) mod max_items q)"
  by (simp add: contents_def)

lemma contents_Nil: "item_count q = 0 \<longleftrightarrow> contents q = []"
  by (simp add: contents_def)

lemma alloc_q_ok: "0 < n \<Longrightarrow> length mem = n \<Longrightarrow> queue_ok (alloc_q n mem)"
  by (simp add: alloc_q_def queue_ok_def)

lemma qinit_ok: "queue_ok q \<Longrightarrow> queue_ok (qinit q)"
  by (simp add: qinit_def queue_ok_def)

lemma empty_contents [simp]: "contents (qinit q) = []" "contents (alloc_q n mem) = []"
  by (simp_all add: qinit_def alloc_q_def contents_def)

text \<open>Two steps around the ring from the front are different as long as they are within a turn.\<close>

lemma ring_index_less:
  assumes "i < j" "j < m"
  shows "(f + i) mod m \<noteq> (f + j) mod (m :: nat)"
proof
  assume "(f + i) mod m = (f + j) mod m"
  then have "m dvd (f + j) - (f + i)"
    using assms(1) by (subst (asm) eq_commute) (simp add: mod_eq_dvd_iff_nat)
  then have "m dvd j - i" by simp
  with assms show False by (auto dest: dvd_imp_le)
qed

lemma ring_index_inj: "i < m \<Longrightarrow> j < m \<Longrightarrow> (f + i) mod m = (f + j) mod m \<longleftrightarrow> i = (j :: nat)"
  using ring_index_less [of i j m f] ring_index_less [of j i m f] by (cases i j rule: linorder_cases) auto

lemma queue_okD:
  assumes "queue_ok q"
  shows "0 < max_items q" "length (items q) = max_items q" "qfront q < max_items q"
    "item_count q \<le> max_items q" "qend q = (qfront q + item_count q) mod max_items q"
    "qend q < max_items q"
  using assms by (simp_all add: queue_ok_def)

lemma penq_full: "item_count q = max_items q \<Longrightarrow> penq q x = q"
  by (simp add: penq_def)

lemma penq_contents:
  assumes ok: "queue_ok q" and room: "item_count q < max_items q"
  shows "contents (penq q x) = contents q @ [x]" and "queue_ok (penq q x)"
proof -
  note q = queue_okD [OF ok]
  let ?q = "q\<lparr>items := (items q)[qend q := x], qend := (qend q + 1) mod max_items q, item_count := item_count q + 1\<rparr>"
  have p: "penq q x = ?q" using room by (simp add: penq_def)
  have "contents ?q ! i = (contents q @ [x]) ! i" if "i < item_count q + 1" for i
  proof (cases "i < item_count q")
    case True
    then have "(qfront q + i) mod max_items q \<noteq> qend q"
      using q room ring_index_less [of i "item_count q" "max_items q" "qfront q"] by simp
    with True that show ?thesis by (simp add: contents_nth nth_append)
  next
    case False
    with that have "i = item_count q" by simp
    with q show ?thesis by (simp add: contents_nth nth_append)
  qed
  then show "contents (penq q x) = contents q @ [x]"
    unfolding p by (intro nth_equalityI) simp_all
  show "queue_ok (penq q x)"
    using q room unfolding p queue_ok_def by (simp add: mod_simps)
qed

lemma pdeq_empty: "item_count q = 0 \<Longrightarrow> pdeq q = (- 1, q)"
  by (simp add: pdeq_def)

lemma advance_front:
  assumes ok: "queue_ok q" and some: "item_count q \<noteq> 0"
    and q': "q' = q\<lparr>qfront := (qfront q + 1) mod max_items q, item_count := item_count q - 1\<rparr>"
  shows "contents q = items q ! qfront q # contents q' \<and> queue_ok q' \<and> max_items q' = max_items q"
proof -
  note q = queue_okD [OF ok]
  obtain n where n: "item_count q = Suc n" using some by (cases "item_count q") auto
  have "contents q ! i = (items q ! qfront q # contents q') ! i" if "i < Suc n" for i
    using that n q(3) unfolding q' by (cases i) (simp_all add: contents_nth mod_simps add.assoc)
  with n have "contents q = items q ! qfront q # contents q'"
    unfolding q' by (intro nth_equalityI) simp_all
  with q n show ?thesis
    unfolding q' queue_ok_def by (simp add: mod_simps add.assoc)
qed

lemma pdeq_contents:
  assumes "queue_ok q" "item_count q \<noteq> 0" "pdeq q = (x, q')"
  shows "contents q = x # contents q'" and "queue_ok q'" and "max_items q' = max_items q"
  using advance_front [OF assms(1,2) refl] assms(2,3) by (auto simp: pdeq_def)

section \<open>Deletion\<close>

lemma pdelq_find_result:
  assumes "f = (g + k) mod m" "m = max_items q" "pdelq_find q x n f = (n', f')"
  shows "n' \<le> n \<and> f' = (g + k + (n - n')) mod m \<and>
    (\<forall>i<n - n'. items q ! ((g + k + i) mod m) \<noteq> x) \<and> (0 < n' \<longrightarrow> items q ! f' = x)"
  using assms
proof (induction n arbitrary: f k)
  case 0
  then show ?case by simp
next
  case (Suc n)
  show ?case
  proof (cases "x = items q ! f")
    case True
    with Suc.prems show ?thesis by simp
  next
    case False
    with Suc.prems have "pdelq_find q x n ((f + 1) mod m) = (n', f')" by simp
    moreover have "(f + 1) mod m = (g + Suc k) mod m"
      using Suc.prems(1) by (simp add: mod_simps)
    ultimately have ih: "n' \<le> n" "f' = (g + Suc k + (n - n')) mod m"
      "\<forall>i<n - n'. items q ! ((g + Suc k + i) mod m) \<noteq> x" "0 < n' \<longrightarrow> items q ! f' = x"
      using Suc.IH [of "(f + 1) mod m" "Suc k"] Suc.prems(2) by auto
    have "items q ! ((g + k + i) mod m) \<noteq> x" if "i < Suc n - n'" for i
    proof (cases i)
      case 0
      with False Suc.prems(1) show ?thesis by simp
    next
      case (Suc j)
      with that ih(1) have "j < n - n'" by simp
      with ih(3) Suc show ?thesis by simp
    qed
    with ih show ?thesis by (simp add: Suc_diff_le)
  qed
qed

lemma pdelq_shift_result:
  assumes "f < m" "e = (f + d) mod m" "d < m" "length its = m"
  shows "length (pdelq_shift m e its f) = m \<and>
    (\<forall>j<d. pdelq_shift m e its f ! ((f + j) mod m) = its ! ((f + Suc j) mod m)) \<and>
    (\<forall>i<m. (\<forall>j<d. i \<noteq> (f + j) mod m) \<longrightarrow> pdelq_shift m e its f ! i = its ! i)"
  using assms
proof (induction d arbitrary: f its)
  case 0
  then show ?case by (subst (1 2 3) pdelq_shift.simps) simp
next
  case (Suc d)
  let ?f = "(f + 1) mod m" and ?its = "its[f := its ! ((f + 1) mod m)]"
  have ne: "f \<noteq> e" using ring_index_less [of 0 "Suc d" m f] Suc.prems by auto
  have e: "e < m" using Suc.prems by simp
  have unf: "pdelq_shift m e its f = pdelq_shift m e ?its ?f"
    using ne e Suc.prems(1) by (subst pdelq_shift.simps) simp
  have step: "(?f + j) mod m = (f + Suc j) mod m" for j by (simp add: mod_simps)
  have ih: "length (pdelq_shift m e ?its ?f) = m"
    "\<forall>j<d. pdelq_shift m e ?its ?f ! ((f + Suc j) mod m) = ?its ! ((f + Suc (Suc j)) mod m)"
    "\<forall>i<m. (\<forall>j<d. i \<noteq> (f + Suc j) mod m) \<longrightarrow> pdelq_shift m e ?its ?f ! i = ?its ! i"
    using Suc.IH [of ?f ?its, unfolded step] Suc.prems by simp_all
  have far: "(f + j) mod m \<noteq> f" if "0 < j" "j < m" for j
    using ring_index_less [of 0 j m f] that Suc.prems(1) by simp
  have "pdelq_shift m e ?its ?f ! ((f + j) mod m) = its ! ((f + Suc j) mod m)" if "j < Suc d" for j
  proof (cases j)
    case 0
    have "\<forall>j<d. f \<noteq> (f + Suc j) mod m"
    proof (intro allI impI)
      fix j assume "j < d"
      with Suc.prems(3) show "f \<noteq> (f + Suc j) mod m" using far [of "Suc j"] by simp
    qed
    then have "pdelq_shift m e ?its ?f ! f = ?its ! f"
      using ih(3) Suc.prems(1) by simp
    with 0 Suc.prems show ?thesis by simp
  next
    case (Suc i)
    with that have i: "i < d" by simp
    have "Suc (Suc i) < m" using i Suc.prems by simp
    then have "(f + Suc (Suc i)) mod m \<noteq> f" using far [of "Suc (Suc i)"] by simp
    with ih(2) i Suc show ?thesis by simp
  qed
  moreover have "pdelq_shift m e ?its ?f ! i = its ! i"
    if "i < m" "\<forall>j<Suc d. i \<noteq> (f + j) mod m" for i
  proof -
    have "i \<noteq> f" using that(2) [rule_format, of 0] Suc.prems(1) by simp
    moreover have "\<forall>j<d. i \<noteq> (f + Suc j) mod m" using that(2) by auto
    ultimately show ?thesis using ih(3) that(1) by simp
  qed
  ultimately show ?case using ih(1) by (simp add: unf)
qed

text \<open>Deleting drops the element at the first position that holds it.\<close>

lemma remove1_at:
  "k < length xs \<Longrightarrow> xs ! k = x \<Longrightarrow> \<forall>i<k. xs ! i \<noteq> x \<Longrightarrow> remove1 x xs = take k xs @ drop (Suc k) xs"
proof (induction xs arbitrary: k)
  case (Cons y ys)
  show ?case
  proof (cases k)
    case (Suc n)
    have "\<forall>i<n. ys ! i \<noteq> x" using Cons.prems(3) Suc by auto
    moreover have "y \<noteq> x" using Cons.prems(3) [rule_format, of 0] Suc by simp
    ultimately show ?thesis using Cons Suc by simp
  qed (use Cons.prems in simp)
qed simp

lemma pdelq_result:
  assumes ok: "queue_ok q"
  shows "pdelq q x = (if x \<in> set (contents q) then 0 else - 1, snd (pdelq q x)) \<and>
    contents (snd (pdelq q x)) = remove1 x (contents q) \<and> queue_ok (snd (pdelq q x)) \<and>
    max_items (snd (pdelq q x)) = max_items q"
proof -
  note q = queue_okD [OF ok]
  let ?m = "max_items q" and ?c = "item_count q" and ?g = "qfront q"
  obtain n f where find: "pdelq_find q x ?c ?g = (n, f)" by (cases "pdelq_find q x ?c ?g")
  from pdelq_find_result [of ?g ?g 0 ?m q x ?c n f] find q
  have n: "n \<le> ?c" and f: "f = (?g + (?c - n)) mod ?m"
    and before: "\<forall>i<?c - n. items q ! ((?g + i) mod ?m) \<noteq> x"
    and found: "0 < n \<Longrightarrow> items q ! f = x"
    by auto
  have before': "\<forall>i<?c - n. contents q ! i \<noteq> x" using before by (simp add: contents_nth)
  show ?thesis
  proof (cases "n = 0")
    case True
    then have "x \<notin> set (contents q)" using before' by (auto simp: in_set_conv_nth)
    moreover have "pdelq q x = (- 1, q)" using True find by (simp add: pdelq_def)
    ultimately show ?thesis
      using ok by (simp add: remove1_idem)
  next
    case False
    let ?k = "?c - n"
    have k: "?k < ?c" "\<forall>i<?k. contents q ! i \<noteq> x" "contents q ! ?k = x"
      using False n before' found f by (simp_all add: contents_nth)
    then have mem: "x \<in> set (contents q)" by (metis length_contents nth_mem)
    have rem: "remove1 x (contents q) = take ?k (contents q) @ drop (Suc ?k) (contents q)"
      using k by (intro remove1_at) simp_all
    have km: "?k < ?m" using k(1) q by simp
    have c0: "?c \<noteq> 0" using k(1) by simp
    show ?thesis
    proof (cases "?k = 0")
      case True
      then have fg: "f = ?g" using f q by simp
      let ?q = "q\<lparr>qfront := (?g + 1) mod ?m, item_count := ?c - 1\<rparr>"
      have eq: "pdelq q x = (0, ?q)" using False find fg c0 by (simp add: pdelq_def)
      from advance_front [OF ok c0 refl] show ?thesis
        using True rem mem by (simp add: eq)
    next
      case k0: False
      have fg: "f \<noteq> ?g" using f ring_index_less [of 0 ?k ?m ?g] k0 km q by simp
      let ?its = "pdelq_shift ?m (qend q) (items q) f"
      let ?q = "q\<lparr>items := ?its, qend := (qend q + ?m - 1) mod ?m, item_count := ?c - 1\<rparr>"
      have eq: "pdelq q x = (0, ?q)" using False find fg c0 by (simp add: pdelq_def)
      have e: "qend q = (f + n) mod ?m" using f n q by (simp add: mod_simps)
      have nm: "n < ?m" using k0 n q by simp
      have at: "(f + j) mod ?m = (?g + (?k + j)) mod ?m" for j using f by (simp add: mod_simps add.assoc)
      have "f < ?m" using f q by simp
      from pdelq_shift_result [OF this e nm q(2), unfolded at]
      have len: "length ?its = ?m"
        and moved: "\<And>j. j < n \<Longrightarrow> ?its ! ((?g + (?k + j)) mod ?m) = items q ! ((?g + (?k + Suc j)) mod ?m)"
        and kept: "\<And>i. i < ?m \<Longrightarrow> \<forall>j<n. i \<noteq> (?g + (?k + j)) mod ?m \<Longrightarrow> ?its ! i = items q ! i"
        by simp_all
      have "contents ?q ! i = remove1 x (contents q) ! i" if i: "i < ?c - 1" for i
      proof (cases "i < ?k")
        case True
        have "\<forall>j<n. (?g + i) mod ?m \<noteq> (?g + (?k + j)) mod ?m"
        proof (intro allI impI)
          fix j assume "j < n"
          then have "?k + j < ?m" using n q by simp
          with True show "(?g + i) mod ?m \<noteq> (?g + (?k + j)) mod ?m"
            using ring_index_less [of i "?k + j" ?m ?g] by simp
        qed
        then have "?its ! ((?g + i) mod ?m) = items q ! ((?g + i) mod ?m)" using kept q by simp
        with True i show ?thesis by (simp add: rem contents_nth nth_append)
      next
        case False
        then obtain j where j: "i = ?k + j" by (metis le_Suc_ex not_less)
        with i n have "j < n" by simp
        from moved [OF this] i j False show ?thesis
          by (simp add: rem contents_nth nth_append)
      qed
      then have "contents ?q = remove1 x (contents q)"
        using mem by (intro nth_equalityI) (simp_all add: length_remove1)
      moreover have "queue_ok ?q"
      proof -
        have "(qend q + ?m - 1) mod ?m = ((?g + ?c) mod ?m + (?m - 1)) mod ?m" using q by simp
        also have "\<dots> = (?g + ?c + (?m - 1)) mod ?m" by (simp only: mod_add_left_eq)
        also have "?g + ?c + (?m - 1) = (?g + (?c - 1)) + ?m" using c0 q by simp
        finally have "(qend q + ?m - 1) mod ?m = (?g + (?c - 1)) mod ?m" by simp
        with q len show ?thesis by (simp add: queue_ok_def)
      qed
      ultimately show ?thesis using mem by (simp add: eq)
    qed
  qed
qed

lemma pdelq_contents:
  assumes "queue_ok q"
  shows "contents (snd (pdelq q x)) = remove1 x (contents q)"
    and "queue_ok (snd (pdelq q x))"
    and "max_items (snd (pdelq q x)) = max_items q"
    and "fst (pdelq q x) = (if x \<in> set (contents q) then 0 else - 1)"
  using pdelq_result [OF assms, of x] by (auto split: prod.splits) (metis fst_conv)+

section \<open>The queue interface\<close>

text \<open>
  What the users of a bounded queue rely on as long as there is room.
\<close>

locale bounded_queue =
  fixes ok :: "'q \<Rightarrow> bool" and elems :: "'q \<Rightarrow> 'a list" and capacity :: "'q \<Rightarrow> nat"
    and put :: "'q \<Rightarrow> 'a \<Rightarrow> 'q" and get :: "'q \<Rightarrow> 'a \<times> 'q"
  assumes bounded: "ok q \<Longrightarrow> length (elems q) \<le> capacity q"
    and put_room: "ok q \<Longrightarrow> length (elems q) < capacity q \<Longrightarrow> elems (put q x) = elems q @ [x]"
    and put_ok: "ok q \<Longrightarrow> ok (put q x) \<and> capacity (put q x) = capacity q"
    and get_first: "ok q \<Longrightarrow> elems q \<noteq> [] \<Longrightarrow> get q = (x, q') \<Longrightarrow>
      elems q = x # elems q' \<and> ok q' \<and> capacity q' = capacity q"
begin

lemma puts_elems:
  "ok q \<Longrightarrow> length (elems q) + length xs \<le> capacity q \<Longrightarrow>
   ok (foldl put q xs) \<and> elems (foldl put q xs) = elems q @ xs"
proof (induction xs arbitrary: q)
  case (Cons x xs)
  then show ?case using put_room [of q x] put_ok [of q x] by simp
qed simp

text \<open>Taking \<open>n\<close> elements out, one after the other.\<close>

primrec gets :: "nat \<Rightarrow> 'q \<Rightarrow> 'a list" where
  "gets 0 q = []"
| "gets (Suc n) q = (let (x, q) = get q in x # gets n q)"

lemma gets_elems: "ok q \<Longrightarrow> n \<le> length (elems q) \<Longrightarrow> gets n q = take n (elems q)"
proof (induction n arbitrary: q)
  case (Suc n)
  obtain x q' where g: "get q = (x, q')" by fastforce
  from Suc.prems have "elems q \<noteq> []" by auto
  with Suc.prems(1) g have "elems q = x # elems q'" "ok q'" using get_first by auto
  with Suc g show ?case by simp
qed simp

text \<open>First in, first out, whatever the queue held before and however its indices wrap.\<close>

lemma first_in_first_out:
  "ok q \<Longrightarrow> length (elems q) + length xs \<le> capacity q \<Longrightarrow>
   gets (length (elems q) + length xs) (foldl put q xs) = elems q @ xs"
  using puts_elems [of q xs] gets_elems [of "foldl put q xs" "length (elems q) + length xs"] by simp

end

text \<open>
  A queue on which \<open>put\<close> drops the element when the queue is full. The kernel gives every queue
  room for all processes, so that its own invariant excludes this.
\<close>

locale fifo_queue = bounded_queue +
  assumes put_full: "ok q \<Longrightarrow> length (elems q) = capacity q \<Longrightarrow> put q x = q"
begin

lemma put_elems:
  "ok q \<Longrightarrow> elems (put q x) = (if length (elems q) < capacity q then elems q @ [x] else elems q)"
  using bounded [of q] put_room [of q x] put_full [of q x] by (auto simp: le_less)

end

text \<open>A queue that can also delete an element wherever it stands, as the kernel needs it.\<close>

locale deletable_queue = fifo_queue +
  fixes del :: "'a \<Rightarrow> 'b \<Rightarrow> 'a"
  assumes del_elems: "ok q \<Longrightarrow> elems (del q x) = remove1 x (elems q) \<and> ok (del q x) \<and> capacity (del q x) = capacity q"
begin

lemma del_distinct: "ok q \<Longrightarrow> distinct (elems q) \<Longrightarrow> set (elems (del q x)) = set (elems q) - {x} \<and> distinct (elems (del q x))"
  using del_elems [of q x] by (simp add: set_remove1_eq)

end

lemma penq_ok: "queue_ok q \<Longrightarrow> queue_ok (penq q x) \<and> max_items (penq q x) = max_items q"
  using penq_contents [of q x] penq_full [of q x] queue_okD(4) [of q]
  by (cases "item_count q = max_items q") (auto simp: penq_def)

interpretation pidq: deletable_queue queue_ok contents max_items penq pdeq "\<lambda>q x. snd (pdelq q x)"
proof
  fix q :: pid_queue and x q'
  assume ok: "queue_ok q"
  show "length (contents q) \<le> max_items q"
    using queue_okD(4) [OF ok] by simp
  show "contents (penq q x) = contents q @ [x]" if "length (contents q) < max_items q"
    using penq_contents(1) [OF ok] that by simp
  show "penq q x = q" if "length (contents q) = max_items q"
    using penq_full that by simp
  show "queue_ok (penq q x) \<and> max_items (penq q x) = max_items q"
    by (rule penq_ok [OF ok])
  show "contents q = x # contents q' \<and> queue_ok q' \<and> max_items q' = max_items q"
    if "contents q \<noteq> []" "pdeq q = (x, q')"
    using pdeq_contents [OF ok _ that(2)] that(1) contents_Nil [of q] by simp
  show "contents (snd (pdelq q x)) = remove1 x (contents q) \<and>
      queue_ok (snd (pdelq q x)) \<and> max_items (snd (pdelq q x)) = max_items q"
    using pdelq_contents [OF ok] by simp
qed

text \<open>C28: the process queue refines a list: on every queue in its invariant, and wherever its
  indices stand in the array, \<open>penq\<close> appends unless the queue is full (then it drops the process),
  \<open>pdeq\<close> takes the first element or answers -1, \<open>pdelq\<close> deletes the first occurrence and tells
  whether there was one, and all keep the invariant.\<close>

theorem pid_queue_refines_list:
  assumes "queue_ok q"
  shows "contents (penq q x) = (if length (contents q) < max_items q then contents q @ [x] else contents q) \<and>
    contents (snd (pdeq q)) = tl (contents q) \<and>
    fst (pdeq q) = (if contents q = [] then - 1 else hd (contents q)) \<and>
    contents (snd (pdelq q x)) = remove1 x (contents q) \<and>
    fst (pdelq q x) = (if x \<in> set (contents q) then 0 else - 1) \<and>
    queue_ok (penq q x) \<and> queue_ok (snd (pdeq q)) \<and> queue_ok (snd (pdelq q x))"
proof -
  have "contents (snd (pdeq q)) = tl (contents q) \<and> queue_ok (snd (pdeq q)) \<and>
      fst (pdeq q) = (if contents q = [] then - 1 else hd (contents q))"
  proof (cases "contents q = []")
    case True
    with assms show ?thesis by (simp add: pdeq_empty contents_Nil)
  next
    case False
    with pidq.get_first [OF assms False, of "fst (pdeq q)" "snd (pdeq q)"] show ?thesis by simp
  qed
  with pidq.put_elems [OF assms, of x] penq_ok [OF assms, of x] pdelq_contents [OF assms, of x]
  show ?thesis by simp
qed

text \<open>A full queue of three whose first element is in the middle of the array.\<close>

definition wrapped_queue :: pid_queue where
  "wrapped_queue = \<lparr>max_items = 3, item_count = 3, qfront = 1, qend = 1, items = [9, 7, 8]\<rparr>"

theorem pid_queue_refines_list_witness:
  "contents wrapped_queue = [7, 8, 9] \<and> contents (snd (pdelq wrapped_queue 8)) = [7, 9] \<and>
   contents (penq wrapped_queue 5) = [7, 8, 9] \<and> fst (pdeq wrapped_queue) = 7"
proof -
  have "queue_ok wrapped_queue" by (simp add: queue_ok_def wrapped_queue_def)
  moreover have c: "contents wrapped_queue = [7, 8, 9]" by code_simp
  moreover have "max_items wrapped_queue = 3" by (simp add: wrapped_queue_def)
  ultimately show ?thesis
    using pid_queue_refines_list [of wrapped_queue 8] pid_queue_refines_list [of wrapped_queue 5] by simp
qed

end
