(* ===== verification/Kernel.thy ===== *)
theory Kernel
  imports Pid_Queue
begin

text \<open>
  The processes of Xilkernel as this system configures it (\<open>os_config.h\<close>: round-robin scheduling
  with one ready queue, 20 processes, 50 semaphores, 50 software timers, a timer
  interrupt every 10 ms): \<open>sys/process.c\<close>, \<open>sys/sched.c\<close>, \<open>sys/timer.c\<close>, the timer interrupt of
  \<open>timer_intr_handler.c\<close> and the way in and out of the kernel of \<open>entry.S\<close> and \<open>mb-hw.c\<close>.

  The state of the kernel is one record with the global variables of the source. A process that
  is switched away inside the kernel continues later where it was: the saved machine context is
  modelled by that program point (\<open>saved_context\<close>). Where the source stops for ever
  (\<open>while (1)\<close> after a scheduling error) the model is \<open>None\<close>.
\<close>

section \<open>State\<close>

abbreviation (input) "MAX_PROCESS_CONTEXTS \<equiv> (20 :: nat)"
abbreviation (input) "MAX_READYQ \<equiv> (20 :: nat)"
abbreviation (input) "MAX_SEM \<equiv> (50 :: nat)"
abbreviation (input) "MAX_SEM_WAITQ \<equiv> (20 :: nat)"
abbreviation (input) "MAX_TMRS \<equiv> (50 :: nat)"
abbreviation "SYSTMR_INTERVAL \<equiv> (1000000 :: u32)"
abbreviation "SYSTMR_CLK_FREQ_KHZ \<equiv> (100000 :: u32)"

text \<open>The idle task is the first process that is created; it has the identifier 0 for good.\<close>

abbreviation (input) "idle_task_pid \<equiv> (0 :: int)"

datatype proc_state =
  PROC_NEW | PROC_RUN | PROC_READY | PROC_WAIT | PROC_TIMED_WAIT | PROC_DELAY | PROC_DEAD

datatype kerror = EINVAL | EIDRM | ETIMEDOUT | EAGAIN | EBUSY | ENOSPC | EPERM

text \<open>Where a process continues when its context is restored: in its own code, or after the call
  of \<open>process_block\<close> or \<open>suspend\<close> in a system call.\<close>

datatype saved_context = User | In_sem_wait nat | In_sem_timedwait nat | In_sleep

record process_struct =
  pcontext :: saved_context
  p_state :: proc_state
  p_pid :: int
  p_priority :: int
  is_allocated :: bool
  blockq :: "nat option"   \<comment> \<open>the wait queue of a semaphore, by its number\<close>
  p_timeout :: bool
  p_remain :: u32
  p_errno :: "kerror option"

record soft_tmr =
  tmr_timeout :: u32
  tmr_pid :: int

record sem_info =
  sem_id :: int
  sem_value :: "8 word"
  sem_wait_q :: pid_queue
  sem_owner :: int
  sem_unlink :: bool

record kernel =
  ptable :: "process_struct list"
  ready_q :: pid_queue
  current_pid :: int
  resched :: bool
  did_resched :: bool
  timer_need_refresh :: bool
  sched_partial_tick :: bool
  kernel_ticks :: u32
  soft_tmrs :: "soft_tmr list"
  active_tmrs_a :: "int list"
  active_tmrs_b :: "int list"
  active_is_a :: bool
  nactive :: nat
  sem_heap :: "sem_info list"

definition pcb :: "kernel \<Rightarrow> int \<Rightarrow> process_struct" where
  "pcb k p = ptable k ! nat p"

definition upd_pcb :: "int \<Rightarrow> (process_struct \<Rightarrow> process_struct) \<Rightarrow> kernel \<Rightarrow> kernel" where
  "upd_pcb p f k = k\<lparr>ptable := (ptable k)[nat p := f (ptable k ! nat p)]\<rparr>"

definition set_errno :: "kerror \<Rightarrow> kernel \<Rightarrow> kernel" where
  "set_errno e k = upd_pcb (current_pid k) (p_errno_update (\<lambda>_. Some e)) k"

definition wait_q :: "kernel \<Rightarrow> nat \<Rightarrow> pid_queue" where
  "wait_q k i = sem_wait_q (sem_heap k ! i)"

definition set_wait_q :: "nat \<Rightarrow> pid_queue \<Rightarrow> kernel \<Rightarrow> kernel" where
  "set_wait_q i q k = k\<lparr>sem_heap := (sem_heap k)[i := (sem_heap k ! i)\<lparr>sem_wait_q := q\<rparr>]\<rparr>"

section \<open>Software timers\<close>

definition ms_to_ticks :: "u32 \<Rightarrow> u32" where
  "ms_to_ticks ms = ms div (SYSTMR_INTERVAL div SYSTMR_CLK_FREQ_KHZ)"

definition ticks_to_ms :: "u32 \<Rightarrow> u32" where
  "ticks_to_ms ticks = ticks * (SYSTMR_INTERVAL div SYSTMR_CLK_FREQ_KHZ)"

definition no_tmr :: soft_tmr where
  "no_tmr = \<lparr>tmr_timeout = 0, tmr_pid = - 1\<rparr>"

definition soft_tmr_init :: "kernel \<Rightarrow> kernel" where
  "soft_tmr_init k =
     k\<lparr>soft_tmrs := replicate MAX_TMRS no_tmr, active_tmrs_a := replicate MAX_TMRS (- 1),
       active_tmrs_b := replicate MAX_TMRS (- 1), active_is_a := True, nactive := 0, kernel_ticks := 0\<rparr>"

text \<open>The list of active timers is double-buffered: a pass over it writes the other array, which
  becomes the active one at the end.\<close>

definition active_tmrs :: "kernel \<Rightarrow> int list" where
  "active_tmrs k = (if active_is_a k then active_tmrs_a k else active_tmrs_b k)"

definition tmr_list_shadow :: "kernel \<Rightarrow> int list" where
  "tmr_list_shadow k = (if active_is_a k then active_tmrs_b k else active_tmrs_a k)"

definition switch_tmr_list :: "int list \<Rightarrow> nat \<Rightarrow> kernel \<Rightarrow> kernel" where
  "switch_tmr_list shadow cur k =
     (if active_is_a k then k\<lparr>active_tmrs_b := shadow, active_is_a := False, nactive := cur\<rparr>
      else k\<lparr>active_tmrs_a := shadow, active_is_a := True, nactive := cur\<rparr>)"

text \<open>The loop of \<open>update_active_tmrs_list\<close> over the active timers \<open>ids\<close>.\<close>

fun drop_tmrs :: "int \<Rightarrow> int list \<Rightarrow> nat \<Rightarrow> int list \<Rightarrow> soft_tmr list \<Rightarrow> nat \<times> int list \<times> soft_tmr list" where
  "drop_tmrs pid [] cur shadow tmrs = (cur, shadow, tmrs)"
| "drop_tmrs pid (t # ts) cur shadow tmrs =
     (if tmr_pid (tmrs ! nat t) = pid
      then drop_tmrs pid ts cur shadow (tmrs[nat t := (tmrs ! nat t)\<lparr>tmr_pid := - 1\<rparr>])
      else drop_tmrs pid ts (cur + 1) (shadow[cur := t]) tmrs)"

definition update_active_tmrs_list :: "int \<Rightarrow> kernel \<Rightarrow> kernel" where
  "update_active_tmrs_list pid k =
     (let (cur, shadow, tmrs) =
            drop_tmrs pid (take (nactive k) (active_tmrs k)) 0 (tmr_list_shadow k) (soft_tmrs k)
      in switch_tmr_list shadow cur (k\<lparr>soft_tmrs := tmrs\<rparr>))"

text \<open>The first free timer; \<open>MAX_TMRS\<close> when the loop finds none.\<close>

definition get_free_tmr :: "kernel \<Rightarrow> int" where
  "get_free_tmr k =
     (if nactive k = MAX_TMRS then - 1
      else int (length (takeWhile (\<lambda>t. tmr_pid t \<noteq> - 1) (take MAX_TMRS (soft_tmrs k)))))"

definition add_tmr :: "int \<Rightarrow> u32 \<Rightarrow> kernel \<Rightarrow> int \<times> kernel" where
  "add_tmr pid ms k =
     (let tmr = get_free_tmr k
      in if tmr < 0 then (- 1, k)
         else
           let ticks = ms_to_ticks ms;
               ticks = (if ticks = 0 then 1 else ticks);
               k = k\<lparr>soft_tmrs := (soft_tmrs k)[nat tmr := \<lparr>tmr_timeout = ticks, tmr_pid = pid\<rparr>]\<rparr>;
               k = (if active_is_a k then k\<lparr>active_tmrs_a := (active_tmrs_a k)[nactive k := tmr]\<rparr>
                    else k\<lparr>active_tmrs_b := (active_tmrs_b k)[nactive k := tmr]\<rparr>)
           in (0, k\<lparr>nactive := nactive k + 1\<rparr>))"

definition remove_tmr :: "int \<Rightarrow> kernel \<Rightarrow> u32 \<times> kernel" where
  "remove_tmr pid k =
     (case filter (\<lambda>t. tmr_pid t = pid) (take MAX_TMRS (soft_tmrs k)) of
        [] \<Rightarrow> (0, k)
      | t # _ \<Rightarrow> (ticks_to_ms (tmr_timeout t), update_active_tmrs_list pid k))"

definition make_ready :: "int \<Rightarrow> kernel \<Rightarrow> kernel" where
  "make_ready pid k =
     (let k = upd_pcb pid (p_state_update (\<lambda>_. PROC_READY)) k in k\<lparr>ready_q := penq (ready_q k) pid\<rparr>)"

definition handle_timeout :: "int \<Rightarrow> kernel \<Rightarrow> kernel" where
  "handle_timeout pid k =
     (let k = (case blockq (pcb k pid) of
                 None \<Rightarrow> k
               | Some q \<Rightarrow> upd_pcb pid (\<lambda>p. p\<lparr>p_timeout := True, blockq := None\<rparr>)
                            (set_wait_q q (snd (pdelq (wait_q k q) pid)) k));
          k = make_ready pid k
      in k\<lparr>resched := True\<rparr>)"

text \<open>The loop of \<open>soft_tmr_handler\<close>.\<close>

fun run_tmrs :: "int list \<Rightarrow> nat \<Rightarrow> int list \<Rightarrow> kernel \<Rightarrow> nat \<times> int list \<times> kernel" where
  "run_tmrs [] cur shadow k = (cur, shadow, k)"
| "run_tmrs (t # ts) cur shadow k =
     (let tm = soft_tmrs k ! nat t;
          tm = tm\<lparr>tmr_timeout := tmr_timeout tm - 1\<rparr>;
          k = k\<lparr>soft_tmrs := (soft_tmrs k)[nat t := tm]\<rparr>
      in if tmr_timeout tm = 0
         then let k = handle_timeout (tmr_pid tm) k
              in run_tmrs ts cur shadow (k\<lparr>soft_tmrs := (soft_tmrs k)[nat t := tm\<lparr>tmr_pid := - 1\<rparr>]\<rparr>)
         else run_tmrs ts (cur + 1) (shadow[cur := t]) k)"

definition soft_tmr_handler :: "kernel \<Rightarrow> kernel" where
  "soft_tmr_handler k =
     (let (cur, shadow, k') = run_tmrs (take (nactive k) (active_tmrs k)) 0 (tmr_list_shadow k) k
      in switch_tmr_list shadow cur k')"

section \<open>Scheduling\<close>

text \<open>The loop of \<open>sched_rr\<close> that flushes dead processes; -1 when no process is ready.\<close>

function next_ready :: "process_struct list \<Rightarrow> pid_queue \<Rightarrow> int \<times> pid_queue" where
  "next_ready pt q =
     (if item_count q = 0 then (- 1, q)
      else let (p, q) = pdeq q
           in if p_state (pt ! nat p) = PROC_DEAD then next_ready pt q else (p, q))"
  by pat_completeness auto
termination
  by (relation "measure (\<lambda>(pt, q). item_count q)") (auto simp: pdeq_def)

declare next_ready.simps [simp del]

definition sched_rr :: "kernel \<Rightarrow> kernel" where
  "sched_rr k =
     (let k = (if p_state (pcb k (current_pid k)) = PROC_RUN
               then let k = upd_pcb (current_pid k) (p_state_update (\<lambda>_. PROC_READY)) k
                    in if current_pid k \<noteq> idle_task_pid
                       then k\<lparr>ready_q := penq (ready_q k) (current_pid k)\<rparr> else k
               else k);
          (ready, q) = next_ready (ptable k) (ready_q k);
          k = k\<lparr>ready_q := q\<rparr>;
          ready = (if ready = - 1 then idle_task_pid else ready)
      in (upd_pcb ready (p_state_update (\<lambda>_. PROC_RUN)) k)\<lparr>current_pid := ready\<rparr>)"

text \<open>The first component tells that the same process goes on (the result 1 of \<open>scheduler\<close>).\<close>

definition scheduler :: "kernel \<Rightarrow> bool \<times> kernel" where
  "scheduler k =
     (let prev = (if p_state (pcb k (current_pid k)) = PROC_DEAD then - 1 else current_pid k);
          k = sched_rr k;
          k = k\<lparr>did_resched := True, resched := False\<rparr>
      in (prev = current_pid k, k))"

text \<open>What \<open>restore_context\<close> does to the variables of the kernel is \<open>pit_reset\<close>.\<close>

definition pit_reset :: "kernel \<Rightarrow> kernel" where
  "pit_reset k =
     (if timer_need_refresh k
      then k\<lparr>timer_need_refresh := False, sched_partial_tick := False, did_resched := False\<rparr>
      else if did_resched k then k\<lparr>did_resched := False, sched_partial_tick := True\<rparr> else k)"

text \<open>\<open>suspend\<close>; the context of a process that is not dead is saved at the program point \<open>ctx\<close>.\<close>

definition save_context :: "int \<Rightarrow> saved_context \<Rightarrow> kernel \<Rightarrow> kernel" where
  "save_context pid ctx k =
     (if p_state (pcb k pid) = PROC_DEAD then k else upd_pcb pid (pcontext_update (\<lambda>_. ctx)) k)"

definition suspend :: "saved_context \<Rightarrow> kernel \<Rightarrow> kernel option" where
  "suspend ctx k =
     (let (same, k') = scheduler k
      in if same then None else Some (pit_reset (save_context (current_pid k) ctx k')))"

section \<open>Processes\<close>

definition process_block :: "saved_context \<Rightarrow> nat \<Rightarrow> proc_state \<Rightarrow> kernel \<Rightarrow> kernel option" where
  "process_block ctx q st k =
     (let k = set_wait_q q (penq (wait_q k q) (current_pid k)) k;
          k = upd_pcb (current_pid k) (\<lambda>p. p\<lparr>blockq := Some q, p_state := st\<rparr>) k
      in suspend ctx k)"

definition process_unblock :: "nat \<Rightarrow> kernel \<Rightarrow> kernel" where
  "process_unblock q k =
     (let (pid, wq) = pdeq (wait_q k q); k = set_wait_q q wq k
      in if pid = - 1 then k
         else
           let k = (if p_state (pcb k pid) = PROC_TIMED_WAIT
                    then let (remain, k) = remove_tmr pid k in upd_pcb pid (p_remain_update (\<lambda>_. remain)) k
                    else k);
               k = upd_pcb pid (\<lambda>p. p\<lparr>p_state := PROC_READY, blockq := None\<rparr>) k
           in k\<lparr>ready_q := penq (ready_q k) pid\<rparr>)"

text \<open>\<open>proc_create\<close>; the new process starts in its own code.\<close>

definition proc_create :: "int \<Rightarrow> kernel \<Rightarrow> int \<times> kernel" where
  "proc_create priority k =
     (let i = length (takeWhile is_allocated (take MAX_PROCESS_CONTEXTS (ptable k)))
      in if i = MAX_PROCESS_CONTEXTS then (- 1, k)
         else
           let k = upd_pcb (int i) (\<lambda>p. p\<lparr>is_allocated := True, p_pid := int i, p_state := PROC_NEW,
                                          p_priority := priority, blockq := None, pcontext := User\<rparr>) k
           in (int i, if i \<noteq> 0 then k\<lparr>ready_q := penq (ready_q k) (int i)\<rparr> else k))"

definition sys_process_status :: "int \<Rightarrow> kernel \<Rightarrow> int \<times> (int \<times> proc_state option)" where
  "sys_process_status pid k =
     (if is_allocated (pcb k pid) then (0, pid, Some (p_state (pcb k pid))) else (- 1, - 1, None))"

definition sys_yield :: "kernel \<Rightarrow> int \<times> kernel" where
  "sys_yield k = (0, k\<lparr>resched := True\<rparr>)"

text \<open>The time that was not slept at once, or \<open>None\<close> for a process that is switched away.\<close>

definition sys_sleep :: "u32 \<Rightarrow> kernel \<Rightarrow> (u32 option \<times> kernel) option" where
  "sys_sleep ms k =
     (let (r, k) = add_tmr (current_pid k) ms k
      in if r = - 1 then Some (Some ms, k)
         else map_option (Pair None) (suspend In_sleep (upd_pcb (current_pid k) (p_state_update (\<lambda>_. PROC_DELAY)) k)))"

definition sys_time :: "kernel \<Rightarrow> u32" where
  "sys_time k = (kernel_ticks k * (SYSTMR_INTERVAL div SYSTMR_CLK_FREQ_KHZ)) div 1000"

section \<open>Interrupts and the way out of the kernel\<close>

definition timer_int_handler :: "kernel \<Rightarrow> kernel" where
  "timer_int_handler k =
     (let k = soft_tmr_handler (k\<lparr>kernel_ticks := kernel_ticks k + 1\<rparr>);
          k = (if sched_partial_tick k then k\<lparr>resched := False, sched_partial_tick := False\<rparr>
               else k\<lparr>resched := True\<rparr>)
      in k\<lparr>timer_need_refresh := True\<rparr>)"

text \<open>\<open>irq_entry\<close>: the interrupted process is in its own code, and its context is saved first.\<close>

definition timer_interrupt :: "kernel \<Rightarrow> kernel" where
  "timer_interrupt k =
     (let k = timer_int_handler k in pit_reset (if resched k then snd (scheduler k) else k))"

text \<open>The end of \<open>system_call_handler\<close>.\<close>

definition leave_kernel :: "kernel \<Rightarrow> kernel" where
  "leave_kernel k =
     (if resched k
      then let (same, k') = scheduler k
           in if same then k' else pit_reset (save_context (current_pid k) User k')
      else k)"

end
