(* ===== verification/Semaphores.thy ===== *)
theory Semaphores
  imports Kernel
begin

text \<open>
  The semaphores of Xilkernel (\<open>ipc/semaphore.c\<close>, without the named semaphores that this
  configuration leaves out), the system calls and the steps of the kernel. \<open>sem_value\<close> is a
  signed char and wraps. A call that blocks ends, for now, with the process switched away; what
  the source does after \<open>process_block\<close> is a function of its own, run when the process is back.
\<close>

section \<open>The semaphore heap\<close>

definition sem_heap_init :: "kernel \<Rightarrow> kernel" where
  "sem_heap_init k =
     k\<lparr>sem_heap := map (\<lambda>s. s\<lparr>sem_id := - 1, sem_owner := - 1, sem_unlink := False,
                                sem_wait_q := alloc_q MAX_SEM_WAITQ (items (sem_wait_q s))\<rparr>) (sem_heap k)\<rparr>"

definition upd_sem :: "nat \<Rightarrow> (sem_info \<Rightarrow> sem_info) \<Rightarrow> kernel \<Rightarrow> kernel" where
  "upd_sem i f k = k\<lparr>sem_heap := (sem_heap k)[i := f (sem_heap k ! i)]\<rparr>"

text \<open>A \<open>sem_t\<close> is passed by a pointer, which may be \<open>NULL\<close> (\<open>None\<close>).\<close>

definition get_sem_by_semt :: "kernel \<Rightarrow> u32 option \<Rightarrow> nat option" where
  "get_sem_by_semt k sem =
     (case sem of
        None \<Rightarrow> None
      | Some s \<Rightarrow> if s < 50 \<and> sem_id (sem_heap k ! unat s) \<noteq> - 1 then Some (unat s) else None)"

section \<open>Operations\<close>

text \<open>What a system call hands back: the return value and what is stored through its pointer.\<close>

datatype result = Returns int "int option"

text \<open>\<open>None\<close>: the kernel hangs; \<open>Some (None, k)\<close>: the process has been switched away.\<close>

type_synonym outcome = "(result option \<times> kernel) option"

definition ret :: "int \<Rightarrow> kernel \<Rightarrow> outcome" where
  "ret r k = Some (Some (Returns r None), k)"

definition fail :: "kerror \<Rightarrow> kernel \<Rightarrow> outcome" where
  "fail e k = ret (- 1) (set_errno e k)"

definition sys_sem_init :: "int \<Rightarrow> u32 \<Rightarrow> kernel \<Rightarrow> outcome" where
  "sys_sem_init pshared value k =
     (let i = length (takeWhile (\<lambda>s. sem_id s \<noteq> - 1) (take MAX_SEM (sem_heap k)))
      in if i = MAX_SEM then fail ENOSPC k
         else Some (Some (Returns 0 (Some (int i))),
                upd_sem i (\<lambda>s. s\<lparr>sem_id := int i, sem_value := ucast value, sem_unlink := False,
                                  sem_wait_q := qinit (sem_wait_q s),
                                  sem_owner := (if pshared = 0 then current_pid k else - 1)\<rparr>) k))"

definition sys_sem_getvalue :: "u32 option \<Rightarrow> kernel \<Rightarrow> outcome" where
  "sys_sem_getvalue sem k =
     (case get_sem_by_semt k sem of
        None \<Rightarrow> fail EINVAL k
      | Some i \<Rightarrow> Some (Some (Returns 0 (Some (sint (sem_value (sem_heap k ! i))))), k))"

text \<open>The end of both waits: a semaphore that is gone by now is an error.\<close>

definition sem_wait_end :: "nat \<Rightarrow> kernel \<Rightarrow> outcome" where
  "sem_wait_end i k = (if sem_id (sem_heap k ! i) = - 1 then fail EIDRM k else ret 0 k)"

definition sys_sem_wait_x :: "u32 option \<Rightarrow> kernel \<Rightarrow> outcome" where
  "sys_sem_wait_x sem k =
     (case get_sem_by_semt k sem of
        None \<Rightarrow> fail EINVAL k
      | Some i \<Rightarrow>
          let k = upd_sem i (sem_value_update (\<lambda>v. v - 1)) k
          in if sint (sem_value (sem_heap k ! i)) < 0
             then map_option (Pair None) (process_block (In_sem_wait i) i PROC_WAIT k)
             else sem_wait_end i k)"

definition sys_sem_timedwait :: "u32 option \<Rightarrow> u32 \<Rightarrow> kernel \<Rightarrow> outcome" where
  "sys_sem_timedwait sem ms k =
     (case get_sem_by_semt k sem of
        None \<Rightarrow> fail EINVAL k
      | Some i \<Rightarrow>
          let k = upd_sem i (sem_value_update (\<lambda>v. v - 1)) k
          in if sint (sem_value (sem_heap k ! i)) < 0
             then let (_, k) = add_tmr (current_pid k) ms k
                  in map_option (Pair None) (process_block (In_sem_timedwait i) i PROC_TIMED_WAIT k)
             else sem_wait_end i k)"

text \<open>What \<open>sys_sem_timedwait\<close> does when the process runs again.\<close>

definition sem_timedwait_resume :: "nat \<Rightarrow> kernel \<Rightarrow> outcome" where
  "sem_timedwait_resume i k =
     (let self = current_pid k
      in if p_timeout (pcb k self)
         then fail ETIMEDOUT
                (upd_pcb self (p_timeout_update (\<lambda>_. False)) (upd_sem i (sem_value_update (\<lambda>v. v + 1)) k))
         else sem_wait_end i (snd (remove_tmr self k)))"

definition sys_sem_trywait :: "u32 option \<Rightarrow> kernel \<Rightarrow> outcome" where
  "sys_sem_trywait sem k =
     (case get_sem_by_semt k sem of
        None \<Rightarrow> fail EINVAL k
      | Some i \<Rightarrow>
          if 0 < sint (sem_value (sem_heap k ! i)) then ret 0 (upd_sem i (sem_value_update (\<lambda>v. v - 1)) k)
          else fail EAGAIN k)"

definition free_sem :: "sem_info \<Rightarrow> sem_info" where
  "free_sem s = s\<lparr>sem_id := - 1, sem_value := 0, sem_owner := - 1, sem_unlink := False\<rparr>"

definition sys_sem_destroy :: "u32 option \<Rightarrow> kernel \<Rightarrow> outcome" where
  "sys_sem_destroy sem k =
     (case get_sem_by_semt k sem of
        None \<Rightarrow> fail EINVAL k
      | Some i \<Rightarrow>
          if sint (sem_value (sem_heap k ! i)) \<le> 0 \<and> 0 < item_count (wait_q k i) then fail EBUSY k
          else ret 0 (upd_sem i free_sem k))"

text \<open>\<open>sys_sem_post\<close>; of the call of \<open>sys_sem_destroy\<close> only the effect counts, its value is dropped.\<close>

definition sys_sem_post :: "u32 option \<Rightarrow> kernel \<Rightarrow> outcome" where
  "sys_sem_post sem k =
     (case get_sem_by_semt k sem of
        None \<Rightarrow> fail EINVAL k
      | Some i \<Rightarrow>
          let k = upd_sem i (sem_value_update (\<lambda>v. v + 1)) k; s = sem_heap k ! i
          in if sint (sem_value s) \<le> 0 \<and> 0 < item_count (sem_wait_q s) then ret 0 (process_unblock i k)
             else if 0 < sint (sem_value s) \<and> sem_unlink s
             then (case sys_sem_destroy sem k of None \<Rightarrow> None | Some (_, k) \<Rightarrow> ret 0 k)
             else ret 0 k)"

text \<open>The loop of \<open>sem_force_destroy\<close>. Every round takes an entry off the queue, so the number of
  entries at the start bounds the rounds.\<close>

primrec unblock_all :: "nat \<Rightarrow> nat \<Rightarrow> kernel \<Rightarrow> kernel" where
  "unblock_all 0 i k = k"
| "unblock_all (Suc n) i k =
     (if sint (sem_value (sem_heap k ! i)) \<le> 0 \<and> 0 < item_count (wait_q k i)
      then unblock_all n i (upd_sem i (sem_value_update (\<lambda>v. v + 1)) (process_unblock i k))
      else k)"

definition sem_force_destroy :: "u32 option \<Rightarrow> kernel \<Rightarrow> int \<times> kernel" where
  "sem_force_destroy sem k =
     (case get_sem_by_semt k sem of
        None \<Rightarrow> (- 1, k)
      | Some i \<Rightarrow> (0, upd_sem i free_sem (unblock_all (item_count (wait_q k i)) i k)))"

section \<open>Start\<close>

text \<open>The variables of the kernel before they are set: memory that is zero. The arrays of the queues
  are the memory that \<open>alloc_q\<close> hands out.\<close>

definition zero_queue :: pid_queue where
  "zero_queue = \<lparr>max_items = 0, item_count = 0, qfront = 0, qend = 0, items = replicate 20 0\<rparr>"

definition zero_process :: process_struct where
  "zero_process = \<lparr>pcontext = User, p_state = PROC_NEW, p_pid = 0, p_priority = 0, is_allocated = False,
     blockq = None, p_timeout = False, p_remain = 0, p_errno = None\<rparr>"

definition zero_sem :: sem_info where
  "zero_sem = \<lparr>sem_id = 0, sem_value = 0, sem_wait_q = zero_queue, sem_owner = 0, sem_unlink = False\<rparr>"

definition bss :: kernel where
  "bss = \<lparr>ptable = replicate MAX_PROCESS_CONTEXTS zero_process, ready_q = zero_queue, current_pid = 0, resched = False,
     did_resched = False, timer_need_refresh = False, sched_partial_tick = False, kernel_ticks = 0,
     soft_tmrs = replicate MAX_TMRS \<lparr>tmr_timeout = 0, tmr_pid = 0\<rparr>, active_tmrs_a = replicate MAX_TMRS 0,
     active_tmrs_b = replicate MAX_TMRS 0, active_is_a = False, nactive = 0, sem_heap = replicate MAX_SEM zero_sem\<rparr>"

definition readyq_init :: "kernel \<Rightarrow> kernel" where
  "readyq_init k = k\<lparr>ready_q := alloc_q MAX_READYQ (items (ready_q k))\<rparr>"

definition init_idle_task :: "kernel \<Rightarrow> kernel" where
  "init_idle_task k =
     (let (idle, k) = proc_create 0 k
      in (upd_pcb idle (p_state_update (\<lambda>_. PROC_RUN)) k)\<lparr>current_pid := idle\<rparr>)"

text \<open>\<open>xilkernel_init\<close>; every static thread of \<open>kb_pthread_init\<close>, here its priority, is one process.\<close>

definition xilkernel_init :: "int list \<Rightarrow> kernel" where
  "xilkernel_init threads =
     (let k = bss\<lparr>ptable := map (is_allocated_update (\<lambda>_. False)) (ptable bss)\<rparr>;
          k = sem_heap_init (readyq_init k);
          k = init_idle_task k;
          k = fold (\<lambda>priority k. snd (proc_create priority k)) threads k
      in soft_tmr_init k)"

section \<open>Steps of the kernel\<close>

text \<open>
  A system call runs with interrupts off until it returns (then \<open>leave_kernel\<close>) or blocks. A
  process that is back in a system call finishes it. A timer interrupt arrives in user code only.
\<close>

datatype syscall =
    Sem_init int u32 | Sem_getvalue "u32 option" | Sem_wait "u32 option" | Sem_timedwait "u32 option" u32
  | Sem_trywait "u32 option" | Sem_post "u32 option" | Sem_destroy "u32 option" | Yield | Sleep u32

fun call :: "syscall \<Rightarrow> kernel \<Rightarrow> outcome" where
  "call (Sem_init pshared value) k = sys_sem_init pshared value k"
| "call (Sem_getvalue sem) k = sys_sem_getvalue sem k"
| "call (Sem_wait sem) k = sys_sem_wait_x sem k"
| "call (Sem_timedwait sem ms) k = sys_sem_timedwait sem ms k"
| "call (Sem_trywait sem) k = sys_sem_trywait sem k"
| "call (Sem_post sem) k = sys_sem_post sem k"
| "call (Sem_destroy sem) k = sys_sem_destroy sem k"
| "call Yield k = (let (r, k) = sys_yield k in ret r k)"
| "call (Sleep ms) k =
     map_option (\<lambda>(r, k). (map_option (\<lambda>r. Returns (uint r) None) r, k)) (sys_sleep ms k)"

fun resume :: "saved_context \<Rightarrow> kernel \<Rightarrow> outcome" where
  "resume User k = Some (None, k)"
| "resume (In_sem_wait i) k = sem_wait_end i k"
| "resume (In_sem_timedwait i) k = sem_timedwait_resume i k"
| "resume In_sleep k = ret 0 k"

definition finish :: "outcome \<Rightarrow> outcome" where
  "finish out =
     (case out of
        Some (Some r, k) \<Rightarrow> Some (Some r, leave_kernel k)
      | _ \<Rightarrow> out)"

datatype event = Call syscall | Resume | Tick

text \<open>One event, for the current process. The way back into user code sets the saved context.\<close>

definition handle_event :: "event \<Rightarrow> kernel \<Rightarrow> outcome" where
  "handle_event e k =
     (case e of
        Call sc \<Rightarrow> finish (call sc k)
      | Resume \<Rightarrow>
          finish (resume (pcontext (pcb k (current_pid k)))
                    (upd_pcb (current_pid k) (pcontext_update (\<lambda>_. User)) k))
      | Tick \<Rightarrow> Some (None, timer_interrupt k))"

text \<open>The idle task makes no system calls (\<open>idle_task\<close> only counts).\<close>

fun possible :: "event \<Rightarrow> kernel \<Rightarrow> bool" where
  "possible (Call sc) k \<longleftrightarrow> pcontext (pcb k (current_pid k)) = User \<and> current_pid k \<noteq> idle_task_pid"
| "possible Resume k \<longleftrightarrow> pcontext (pcb k (current_pid k)) \<noteq> User"
| "possible Tick k \<longleftrightarrow> pcontext (pcb k (current_pid k)) = User"

inductive kernel_step :: "kernel \<Rightarrow> event \<Rightarrow> kernel \<Rightarrow> bool" where
  "possible e k \<Longrightarrow> handle_event e k = Some (r, k') \<Longrightarrow> kernel_step k e k'"

inductive_cases kernel_stepE: "kernel_step k e k'"

inductive_simps kernel_step_iff: "kernel_step k e k'"

text \<open>
  Programs that destroy no semaphore which has a unit to give and still a process in its queue. With a value of
  0 or less the kernel itself refuses with \<open>EBUSY\<close>; with a positive one it frees the semaphore under the
  process. Such a semaphore only comes about by timed waits or by an overflow of its value.
\<close>

definition tidy :: "event \<Rightarrow> kernel \<Rightarrow> bool" where
  "tidy e k =
     (case e of
        Call (Sem_destroy sem) \<Rightarrow>
          (case get_sem_by_semt k sem of None \<Rightarrow> True
           | Some i \<Rightarrow> 0 < sint (sem_value (sem_heap k ! i)) \<longrightarrow> item_count (wait_q k i) = 0)
      | _ \<Rightarrow> True)"

inductive tidy_run :: "kernel \<Rightarrow> event list \<Rightarrow> kernel \<Rightarrow> bool" where
  tidy_run_refl: "tidy_run k [] k"
| tidy_run_step: "tidy_run k es k' \<Longrightarrow> tidy e k' \<Longrightarrow> kernel_step k' e k'' \<Longrightarrow> tidy_run k (es @ [e]) k''"

text \<open>A given sequence of events; \<open>None\<close> when an event is not possible or the kernel hangs.\<close>

primrec run_events :: "event list \<Rightarrow> kernel \<Rightarrow> kernel option" where
  "run_events [] k = Some k"
| "run_events (e # es) k =
     (if possible e k then (case handle_event e k of None \<Rightarrow> None | Some (_, k) \<Rightarrow> run_events es k) else None)"

end
