(* ===== verification/Kernel_Inv.thy ===== *)
theory Kernel_Inv
  imports Semaphores
begin

text \<open>
  The invariant of the kernel: every process is in exactly one place. A process that is ready is
  once in the ready queue, a process that waits is once in the wait queue it is blocked on, a
  process that sleeps has a timer, and at most one process runs. The invariant is stated on a
  view of the kernel (\<open>rd\<close>, \<open>wt\<close>, \<open>st\<close>, \<open>al\<close>, \<open>bq\<close>, \<open>tmp\<close>), and every move of a process between places
  is a lemma about the view.
\<close>

section \<open>The view\<close>

definition valid :: "int \<Rightarrow> bool" where
  "valid p \<longleftrightarrow> 0 \<le> p \<and> p < 20"

definition st :: "kernel \<Rightarrow> int \<Rightarrow> proc_state" where
  "st k p = (if valid p then p_state (pcb k p) else PROC_DEAD)"

definition al :: "kernel \<Rightarrow> int \<Rightarrow> bool" where
  "al k p \<longleftrightarrow> valid p \<and> is_allocated (pcb k p)"

definition bq :: "kernel \<Rightarrow> int \<Rightarrow> nat option" where
  "bq k p = (if valid p then blockq (pcb k p) else None)"

definition rd :: "kernel \<Rightarrow> int list" where
  "rd k = contents (ready_q k)"

definition wt :: "kernel \<Rightarrow> nat \<Rightarrow> int list" where
  "wt k i = (if i < MAX_SEM then contents (wait_q k i) else [])"

definition tmp :: "kernel \<Rightarrow> int list \<Rightarrow> int set" where
  "tmp k ids = (\<lambda>t. tmr_pid (soft_tmrs k ! nat t)) ` set ids"

abbreviation "active k \<equiv> take (nactive k) (active_tmrs k)"

text \<open>The active timers: the processes and the ticks they have left.\<close>

definition tmr :: "kernel \<Rightarrow> int \<Rightarrow> int \<times> u32" where
  "tmr k t = (tmr_pid (soft_tmrs k ! nat t), tmr_timeout (soft_tmrs k ! nat t))"

definition timers :: "kernel \<Rightarrow> (int \<times> u32) list" where
  "timers k = map (tmr k) (active k)"

definition shape :: "kernel \<Rightarrow> bool" where
  "shape k \<longleftrightarrow> length (ptable k) = MAX_PROCESS_CONTEXTS \<and> length (sem_heap k) = MAX_SEM \<and>
     queue_ok (ready_q k) \<and> max_items (ready_q k) = MAX_READYQ \<and>
     (\<forall>i<MAX_SEM. queue_ok (wait_q k i) \<and> max_items (wait_q k i) = MAX_SEM_WAITQ)"

section \<open>Places\<close>

definition ready_place :: "int list \<Rightarrow> (int \<Rightarrow> proc_state) \<Rightarrow> (int \<Rightarrow> bool) \<Rightarrow> bool" where
  "ready_place r s a \<longleftrightarrow>
     distinct r \<and> (\<forall>p. p \<in> set r \<longleftrightarrow> a p \<and> p \<noteq> 0 \<and> (s p = PROC_NEW \<or> s p = PROC_READY))"

definition wait_place :: "(nat \<Rightarrow> int list) \<Rightarrow> (int \<Rightarrow> nat option) \<Rightarrow> bool" where
  "wait_place w b \<longleftrightarrow> (\<forall>i. distinct (w i)) \<and> (\<forall>i p. p \<in> set (w i) \<longleftrightarrow> b p = Some i)"

definition blocked_on :: "(int \<Rightarrow> nat option) \<Rightarrow> (int \<Rightarrow> proc_state) \<Rightarrow> (int \<Rightarrow> bool) \<Rightarrow> bool" where
  "blocked_on b s a \<longleftrightarrow> (\<forall>p. b p \<noteq> None \<longleftrightarrow> a p \<and> (s p = PROC_WAIT \<or> s p = PROC_TIMED_WAIT))"

definition timer_place :: "int set \<Rightarrow> (int \<Rightarrow> proc_state) \<Rightarrow> (int \<Rightarrow> bool) \<Rightarrow> bool" where
  "timer_place tm s a \<longleftrightarrow> (\<forall>p. a p \<and> s p = PROC_DELAY \<longrightarrow> p \<in> tm) \<and>
     (\<forall>p\<in>tm. a p \<and> p \<noteq> 0 \<and> (s p = PROC_DELAY \<or> s p = PROC_TIMED_WAIT))"

definition life :: "int \<Rightarrow> (int \<Rightarrow> proc_state) \<Rightarrow> (int \<Rightarrow> bool) \<Rightarrow> bool" where
  "life cur s a \<longleftrightarrow> (\<forall>p. a p \<longrightarrow> valid p \<and> s p \<noteq> PROC_DEAD \<and> (p \<noteq> cur \<longrightarrow> s p \<noteq> PROC_RUN)) \<and>
     a 0 \<and> (s 0 = PROC_RUN \<or> s 0 = PROC_READY)"

definition placed :: "int list \<Rightarrow> (nat \<Rightarrow> int list) \<Rightarrow> (int \<Rightarrow> proc_state) \<Rightarrow> (int \<Rightarrow> bool)
    \<Rightarrow> (int \<Rightarrow> nat option) \<Rightarrow> int \<Rightarrow> int set \<Rightarrow> bool" where
  "placed r w s a b cur tm \<longleftrightarrow> ready_place r s a \<and> wait_place w b \<and> blocked_on b s a \<and>
     timer_place tm s a \<and> life cur s a"

lemma placedI:
  "ready_place r s a \<Longrightarrow> wait_place w b \<Longrightarrow> blocked_on b s a \<Longrightarrow> timer_place tm s a \<Longrightarrow> life cur s a \<Longrightarrow>
   placed r w s a b cur tm"
  by (simp add: placed_def)

lemma placedE:
  assumes "placed r w s a b cur tm"
  obtains "ready_place r s a" "wait_place w b" "blocked_on b s a" "timer_place tm s a" "life cur s a"
  using assms by (simp add: placed_def)

text \<open>The moves.\<close>

lemma placed_block:
  assumes "placed r w s a b cur tm" and c: "a cur" "cur \<noteq> 0" "s cur = PROC_RUN"
    and x: "x = PROC_WAIT \<and> tm' = tm \<or> x = PROC_TIMED_WAIT \<and> tm' = insert cur tm"
  shows "placed r (w(i := w i @ [cur])) (s(cur := x)) a (b(cur := Some i)) cur tm'"
  using assms(1)
proof (rule placedE)
  assume p: "ready_place r s a" "wait_place w b" "blocked_on b s a" "timer_place tm s a" "life cur s a"
  have "b cur = None" using p(3) c unfolding blocked_on_def by (metis option.exhaust proc_state.distinct)
  show ?thesis
  proof (rule placedI)
    show "ready_place r (s(cur := x)) a" using p(1) c x unfolding ready_place_def by auto
    show "wait_place (w(i := w i @ [cur])) (b(cur := Some i))"
      using p(2) \<open>b cur = None\<close> unfolding wait_place_def by auto
    show "blocked_on (b(cur := Some i)) (s(cur := x)) a" using p(3) c x unfolding blocked_on_def by auto
    show "timer_place tm' (s(cur := x)) a" using p(4) c x unfolding timer_place_def by auto
    show "life cur (s(cur := x)) a" using p(5) c x unfolding life_def by auto
  qed
qed

lemma placed_delay:
  assumes "placed r w s a b cur tm" and c: "a cur" "cur \<noteq> 0" "s cur = PROC_RUN"
  shows "placed r w (s(cur := PROC_DELAY)) a b cur (insert cur tm)"
  using assms(1)
proof (rule placedE)
  assume p: "ready_place r s a" "wait_place w b" "blocked_on b s a" "timer_place tm s a" "life cur s a"
  show ?thesis
  proof (rule placedI)
    show "ready_place r (s(cur := PROC_DELAY)) a" using p(1) c unfolding ready_place_def by auto
    show "blocked_on b (s(cur := PROC_DELAY)) a" using p(3) c unfolding blocked_on_def by auto
    show "timer_place (insert cur tm) (s(cur := PROC_DELAY)) a" using p(4) c unfolding timer_place_def by auto
    show "life cur (s(cur := PROC_DELAY)) a" using p(5) c unfolding life_def by auto
  qed (rule p)
qed

lemma placed_wake:
  assumes "placed r w s a b cur tm"
    and c: "a q" "q \<noteq> 0" "s q = PROC_WAIT \<or> s q = PROC_TIMED_WAIT \<or> s q = PROC_DELAY"
    and w': "w' = (\<lambda>i. remove1 q (w i))"
  shows "placed (r @ [q]) w' (s(q := PROC_READY)) a (b(q := None)) cur (tm - {q})"
  using assms(1)
proof (rule placedE)
  assume p: "ready_place r s a" "wait_place w b" "blocked_on b s a" "timer_place tm s a" "life cur s a"
  show ?thesis
  proof (rule placedI)
    have d: "distinct r" and e: "\<And>p. p \<in> set r \<longleftrightarrow> a p \<and> p \<noteq> 0 \<and> (s p = PROC_NEW \<or> s p = PROC_READY)"
      using p(1) unfolding ready_place_def by blast+
    have nr: "q \<notin> set r" using e [of q] c(3) by auto
    show "ready_place (r @ [q]) (s(q := PROC_READY)) a"
      unfolding ready_place_def using d nr c(1,2) by (auto simp: e)
    show "wait_place w' (b(q := None))"
      using p(2) unfolding wait_place_def w' by (auto simp: set_remove1_eq)
    show "blocked_on (b(q := None)) (s(q := PROC_READY)) a" using p(3) c unfolding blocked_on_def by auto
    show "timer_place (tm - {q}) (s(q := PROC_READY)) a" using p(4) c unfolding timer_place_def by auto
    show "life cur (s(q := PROC_READY)) a" using p(5) c unfolding life_def by auto
  qed
qed

lemma placed_preempt:
  assumes "placed r w s a b cur tm" and c: "a cur" "s cur = PROC_RUN"
  shows "placed (if cur \<noteq> 0 then r @ [cur] else r) w (s(cur := PROC_READY)) a b cur tm"
  using assms(1)
proof (rule placedE)
  assume p: "ready_place r s a" "wait_place w b" "blocked_on b s a" "timer_place tm s a" "life cur s a"
  show ?thesis
  proof (rule placedI)
    show "ready_place (if cur \<noteq> 0 then r @ [cur] else r) (s(cur := PROC_READY)) a"
      using p(1) c unfolding ready_place_def by auto
    show "blocked_on b (s(cur := PROC_READY)) a" using p(3) c unfolding blocked_on_def by auto
    show "timer_place tm (s(cur := PROC_READY)) a" using p(4) c unfolding timer_place_def by auto
    show "life cur (s(cur := PROC_READY)) a" using p(5) c unfolding life_def by auto
  qed (rule p)
qed

lemma placed_dispatch:
  assumes "placed r w s a b cur tm" and none: "\<And>p. a p \<Longrightarrow> s p \<noteq> PROC_RUN"
    and n: "r = [] \<and> n = 0 \<and> r' = [] \<or> r = n # r'"
  shows "placed r' w (s(n := PROC_RUN)) a b n tm"
  using assms(1)
proof (rule placedE)
  assume p: "ready_place r s a" "wait_place w b" "blocked_on b s a" "timer_place tm s a" "life cur s a"
  have "a 0" "s 0 = PROC_READY" using p(5) none [of 0] unfolding life_def by auto
  moreover have d: "distinct r" and e: "\<And>p. p \<in> set r \<longleftrightarrow> a p \<and> p \<noteq> 0 \<and> (s p = PROC_NEW \<or> s p = PROC_READY)"
    using p(1) unfolding ready_place_def by blast+
  ultimately have n': "a n \<and> (s n = PROC_NEW \<or> s n = PROC_READY) \<and> n \<notin> set r'"
  proof (cases "r = n # r'")
    case True
    then have "n \<in> set r" by simp
    with e [of n] d True show ?thesis by simp
  qed (use n in simp)
  show ?thesis
  proof (rule placedI)
    show "ready_place r' (s(n := PROC_RUN)) a" using n n' d unfolding ready_place_def by (auto simp flip: e)
    show "blocked_on b (s(n := PROC_RUN)) a" using p(3) n' unfolding blocked_on_def by auto
    show "timer_place tm (s(n := PROC_RUN)) a" using p(4) n' unfolding timer_place_def by auto
    show "life n (s(n := PROC_RUN)) a" using p(5) n' none unfolding life_def by auto
  qed (rule p)
qed

lemma placed_create:
  assumes "placed r w s a b cur tm" and c: "\<not> a q" "q \<noteq> 0" "valid q"
  shows "placed (r @ [q]) w (s(q := PROC_NEW)) (a(q := True)) (b(q := None)) cur tm"
  using assms(1)
proof (rule placedE)
  assume p: "ready_place r s a" "wait_place w b" "blocked_on b s a" "timer_place tm s a" "life cur s a"
  have "b q = None" using p(3) c unfolding blocked_on_def by auto
  then have b: "b(q := None) = b" by auto
  show ?thesis
  proof (rule placedI)
    show "ready_place (r @ [q]) (s(q := PROC_NEW)) (a(q := True))" using p(1) c unfolding ready_place_def by auto
    show "wait_place w (b(q := None))" using p(2) b by simp
    show "blocked_on (b(q := None)) (s(q := PROC_NEW)) (a(q := True))" using p(3) c unfolding blocked_on_def by auto
    show "timer_place tm (s(q := PROC_NEW)) (a(q := True))" using p(4) c unfolding timer_place_def by auto
    show "life cur (s(q := PROC_NEW)) (a(q := True))" using p(5) c unfolding life_def by auto
  qed
qed

section \<open>The view of an updated kernel\<close>

named_theorems kview "the view after an update of the kernel"

lemma valid_0 [simp]: "valid 0"
  by (simp add: valid_def)

lemma valid_nat [simp]: "valid p \<Longrightarrow> valid q \<Longrightarrow> nat p = nat q \<longleftrightarrow> p = q"
  by (auto simp: valid_def)

lemma valid_less [simp]: "valid p \<Longrightarrow> nat p < 20"
  by (auto simp: valid_def)

lemma shape_table: "shape k \<Longrightarrow> length (ptable k) = 20"
  by (simp add: shape_def)

lemma pcb_upd [kview]:
  "shape k \<Longrightarrow> valid p \<Longrightarrow> valid q \<Longrightarrow> pcb (upd_pcb p f k) q = (if q = p then f (pcb k p) else pcb k q)"
  by (auto simp: pcb_def upd_pcb_def shape_def nth_list_update)

lemma st_upd [kview]: "shape k \<Longrightarrow> valid p \<Longrightarrow> st (upd_pcb p f k) = (st k)(p := p_state (f (pcb k p)))"
  by (auto simp: st_def pcb_upd)

lemma al_upd [kview]: "shape k \<Longrightarrow> valid p \<Longrightarrow> al (upd_pcb p f k) = (al k)(p := is_allocated (f (pcb k p)))"
  by (auto simp: al_def pcb_upd fun_eq_iff)

lemma bq_upd [kview]: "shape k \<Longrightarrow> valid p \<Longrightarrow> bq (upd_pcb p f k) = (bq k)(p := blockq (f (pcb k p)))"
  by (auto simp: bq_def pcb_upd)

text \<open>An update that leaves a component of the process as it is.\<close>

lemma st_upd_same [kview]:
  "shape k \<Longrightarrow> valid p \<Longrightarrow> p_state (f (pcb k p)) = p_state (pcb k p) \<Longrightarrow> st (upd_pcb p f k) = st k"
  by (rule ext) (simp add: st_upd, simp add: st_def)

lemma al_upd_same [kview]:
  "shape k \<Longrightarrow> valid p \<Longrightarrow> is_allocated (f (pcb k p)) = is_allocated (pcb k p) \<Longrightarrow> al (upd_pcb p f k) = al k"
  by (rule ext) (simp add: al_upd, simp add: al_def)

lemma bq_upd_same [kview]:
  "shape k \<Longrightarrow> valid p \<Longrightarrow> blockq (f (pcb k p)) = blockq (pcb k p) \<Longrightarrow> bq (upd_pcb p f k) = bq k"
  by (rule ext) (simp add: bq_upd, simp add: bq_def)

lemma upd_pcb_frame [simp]:
  "ready_q (upd_pcb p f k) = ready_q k" "current_pid (upd_pcb p f k) = current_pid k"
  "resched (upd_pcb p f k) = resched k" "did_resched (upd_pcb p f k) = did_resched k"
  "timer_need_refresh (upd_pcb p f k) = timer_need_refresh k"
  "sched_partial_tick (upd_pcb p f k) = sched_partial_tick k"
  "kernel_ticks (upd_pcb p f k) = kernel_ticks k" "soft_tmrs (upd_pcb p f k) = soft_tmrs k"
  "active_tmrs_a (upd_pcb p f k) = active_tmrs_a k" "active_tmrs_b (upd_pcb p f k) = active_tmrs_b k"
  "active_is_a (upd_pcb p f k) = active_is_a k" "nactive (upd_pcb p f k) = nactive k"
  "sem_heap (upd_pcb p f k) = sem_heap k" "wait_q (upd_pcb p f k) i = wait_q k i"
  "rd (upd_pcb p f k) = rd k" "wt (upd_pcb p f k) = wt k" "tmp (upd_pcb p f k) ids = tmp k ids"
  "shape (upd_pcb p f k) = shape k"
  by (simp_all add: upd_pcb_def wait_q_def rd_def wt_def tmp_def shape_def fun_eq_iff)

lemma set_wait_q_frame [simp]:
  "ready_q (set_wait_q i q k) = ready_q k" "current_pid (set_wait_q i q k) = current_pid k"
  "resched (set_wait_q i q k) = resched k" "did_resched (set_wait_q i q k) = did_resched k"
  "timer_need_refresh (set_wait_q i q k) = timer_need_refresh k"
  "sched_partial_tick (set_wait_q i q k) = sched_partial_tick k"
  "kernel_ticks (set_wait_q i q k) = kernel_ticks k" "soft_tmrs (set_wait_q i q k) = soft_tmrs k"
  "active_tmrs_a (set_wait_q i q k) = active_tmrs_a k" "active_tmrs_b (set_wait_q i q k) = active_tmrs_b k"
  "active_is_a (set_wait_q i q k) = active_is_a k" "nactive (set_wait_q i q k) = nactive k"
  "ptable (set_wait_q i q k) = ptable k" "pcb (set_wait_q i q k) p = pcb k p"
  "rd (set_wait_q i q k) = rd k" "tmp (set_wait_q i q k) ids = tmp k ids"
  "st (set_wait_q i q k) = st k" "al (set_wait_q i q k) = al k" "bq (set_wait_q i q k) = bq k"
  by (simp_all add: set_wait_q_def rd_def tmp_def st_def al_def bq_def pcb_def fun_eq_iff)

lemma wait_q_set [kview]:
  "shape k \<Longrightarrow> i < 50 \<Longrightarrow> wait_q (set_wait_q i q k) j = (if j = i then q else wait_q k j)"
  by (auto simp: wait_q_def set_wait_q_def shape_def nth_list_update)

lemma wt_set [kview]: "shape k \<Longrightarrow> i < 50 \<Longrightarrow> wt (set_wait_q i q k) = (wt k)(i := contents q)"
  by (auto simp: wt_def wait_q_set)

lemma shape_set [kview]:
  "shape k \<Longrightarrow> i < 50 \<Longrightarrow> queue_ok q \<Longrightarrow> max_items q = 20 \<Longrightarrow> shape (set_wait_q i q k)"
  by (auto simp: shape_def wait_q_set [unfolded shape_def] set_wait_q_def wait_q_def nth_list_update)

lemma ready_frame [simp]:
  "st (k\<lparr>ready_q := q\<rparr>) = st k" "al (k\<lparr>ready_q := q\<rparr>) = al k" "bq (k\<lparr>ready_q := q\<rparr>) = bq k"
  "wt (k\<lparr>ready_q := q\<rparr>) = wt k" "tmp (k\<lparr>ready_q := q\<rparr>) ids = tmp k ids" "rd (k\<lparr>ready_q := q\<rparr>) = contents q"
  "pcb (k\<lparr>ready_q := q\<rparr>) p = pcb k p" "wait_q (k\<lparr>ready_q := q\<rparr>) i = wait_q k i"
  "active_tmrs (k\<lparr>ready_q := q\<rparr>) = active_tmrs k"
  by (simp_all add: st_def al_def bq_def wt_def tmp_def rd_def pcb_def wait_q_def active_tmrs_def fun_eq_iff)

lemma shape_ready [kview]:
  "shape k \<Longrightarrow> queue_ok q \<Longrightarrow> max_items q = 20 \<Longrightarrow> shape (k\<lparr>ready_q := q\<rparr>)"
  by (simp add: shape_def wait_q_def)

text \<open>The variables that no place depends on.\<close>

lemma flags_frame [simp]:
  "st (k\<lparr>resched := x\<rparr>) = st k" "al (k\<lparr>resched := x\<rparr>) = al k" "bq (k\<lparr>resched := x\<rparr>) = bq k"
  "wt (k\<lparr>resched := x\<rparr>) = wt k" "rd (k\<lparr>resched := x\<rparr>) = rd k" "tmp (k\<lparr>resched := x\<rparr>) ids = tmp k ids"
  "shape (k\<lparr>resched := x\<rparr>) = shape k" "active_tmrs (k\<lparr>resched := x\<rparr>) = active_tmrs k"
  "st (k\<lparr>did_resched := x\<rparr>) = st k" "al (k\<lparr>did_resched := x\<rparr>) = al k" "bq (k\<lparr>did_resched := x\<rparr>) = bq k"
  "wt (k\<lparr>did_resched := x\<rparr>) = wt k" "rd (k\<lparr>did_resched := x\<rparr>) = rd k" "tmp (k\<lparr>did_resched := x\<rparr>) ids = tmp k ids"
  "shape (k\<lparr>did_resched := x\<rparr>) = shape k" "active_tmrs (k\<lparr>did_resched := x\<rparr>) = active_tmrs k"
  "st (k\<lparr>timer_need_refresh := x\<rparr>) = st k" "al (k\<lparr>timer_need_refresh := x\<rparr>) = al k"
  "bq (k\<lparr>timer_need_refresh := x\<rparr>) = bq k" "wt (k\<lparr>timer_need_refresh := x\<rparr>) = wt k"
  "rd (k\<lparr>timer_need_refresh := x\<rparr>) = rd k" "tmp (k\<lparr>timer_need_refresh := x\<rparr>) ids = tmp k ids"
  "shape (k\<lparr>timer_need_refresh := x\<rparr>) = shape k" "active_tmrs (k\<lparr>timer_need_refresh := x\<rparr>) = active_tmrs k"
  "st (k\<lparr>sched_partial_tick := x\<rparr>) = st k" "al (k\<lparr>sched_partial_tick := x\<rparr>) = al k"
  "bq (k\<lparr>sched_partial_tick := x\<rparr>) = bq k" "wt (k\<lparr>sched_partial_tick := x\<rparr>) = wt k"
  "rd (k\<lparr>sched_partial_tick := x\<rparr>) = rd k" "tmp (k\<lparr>sched_partial_tick := x\<rparr>) ids = tmp k ids"
  "shape (k\<lparr>sched_partial_tick := x\<rparr>) = shape k" "active_tmrs (k\<lparr>sched_partial_tick := x\<rparr>) = active_tmrs k"
  "st (k\<lparr>kernel_ticks := y\<rparr>) = st k" "al (k\<lparr>kernel_ticks := y\<rparr>) = al k" "bq (k\<lparr>kernel_ticks := y\<rparr>) = bq k"
  "wt (k\<lparr>kernel_ticks := y\<rparr>) = wt k" "rd (k\<lparr>kernel_ticks := y\<rparr>) = rd k" "tmp (k\<lparr>kernel_ticks := y\<rparr>) ids = tmp k ids"
  "shape (k\<lparr>kernel_ticks := y\<rparr>) = shape k" "active_tmrs (k\<lparr>kernel_ticks := y\<rparr>) = active_tmrs k"
  "st (k\<lparr>current_pid := z\<rparr>) = st k" "al (k\<lparr>current_pid := z\<rparr>) = al k" "bq (k\<lparr>current_pid := z\<rparr>) = bq k"
  "wt (k\<lparr>current_pid := z\<rparr>) = wt k" "rd (k\<lparr>current_pid := z\<rparr>) = rd k" "tmp (k\<lparr>current_pid := z\<rparr>) ids = tmp k ids"
  "shape (k\<lparr>current_pid := z\<rparr>) = shape k" "active_tmrs (k\<lparr>current_pid := z\<rparr>) = active_tmrs k"
  by (simp_all add: st_def al_def bq_def wt_def rd_def tmp_def shape_def pcb_def wait_q_def active_tmrs_def fun_eq_iff)

lemma active_frame [simp]:
  "active_tmrs (upd_pcb p f k) = active_tmrs k" "active_tmrs (set_wait_q i q k) = active_tmrs k"
  by (simp_all add: active_tmrs_def)

section \<open>Timers\<close>

text \<open>The timers of the list \<open>ids\<close> are the ones in use, one per process, and none has run out.\<close>

definition tmrs_ok :: "kernel \<Rightarrow> int list \<Rightarrow> bool" where
  "tmrs_ok k ids \<longleftrightarrow>
     length (soft_tmrs k) = MAX_TMRS \<and> distinct ids \<and> (\<forall>t\<in>set ids. 0 \<le> t \<and> t < 50) \<and>
     (\<forall>t<50. tmr_pid (soft_tmrs k ! t) \<noteq> - 1 \<longleftrightarrow> int t \<in> set ids) \<and>
     inj_on (\<lambda>t. tmr_pid (soft_tmrs k ! nat t)) (set ids) \<and>
     (\<forall>t\<in>set ids. tmr_timeout (soft_tmrs k ! nat t) \<noteq> 0)"

definition buffers_ok :: "kernel \<Rightarrow> bool" where
  "buffers_ok k \<longleftrightarrow> length (active_tmrs_a k) = MAX_TMRS \<and> length (active_tmrs_b k) = MAX_TMRS \<and> nactive k \<le> MAX_TMRS"

definition inv_with :: "kernel \<Rightarrow> int list \<Rightarrow> bool" where
  "inv_with k ids \<longleftrightarrow> shape k \<and> placed (rd k) (wt k) (st k) (al k) (bq k) (current_pid k) (tmp k ids) \<and> tmrs_ok k ids"

definition kernel_inv :: "kernel \<Rightarrow> bool" where
  "kernel_inv k \<longleftrightarrow> inv_with k (active k) \<and> buffers_ok k \<and> al k (current_pid k)"

definition running :: "kernel \<Rightarrow> bool" where
  "running k \<longleftrightarrow> kernel_inv k \<and> st k (current_pid k) = PROC_RUN"

section \<open>Room in the queues\<close>

lemma room_for:
  assumes "distinct xs" "\<And>p. p \<in> set xs \<Longrightarrow> valid p" "valid q" "q \<notin> set xs"
  shows "length xs < 20"
proof -
  have "set xs \<subseteq> {0..<20} - {q}" using assms(2,4) by (auto simp: valid_def)
  then have "card (set xs) \<le> card ({0..<20::int} - {q})" by (intro card_mono) auto
  also have "\<dots> = 19" using assms(3) by (simp add: valid_def)
  finally show ?thesis using assms(1) by (simp add: distinct_card)
qed

lemma placed_ready:
  assumes "placed r w s a b cur tm"
  shows "distinct r" "p \<in> set r \<longleftrightarrow> a p \<and> p \<noteq> 0 \<and> (s p = PROC_NEW \<or> s p = PROC_READY)"
  using assms by (auto simp: placed_def ready_place_def)

lemma placed_waiting:
  assumes "placed r w s a b cur tm"
  shows "distinct (w i)" "p \<in> set (w i) \<longleftrightarrow> b p = Some i"
    "b p \<noteq> None \<longleftrightarrow> a p \<and> (s p = PROC_WAIT \<or> s p = PROC_TIMED_WAIT)"
  using assms by (auto simp: placed_def wait_place_def blocked_on_def)

lemma placed_timers:
  assumes "placed r w s a b cur tm"
  shows "a p \<Longrightarrow> s p = PROC_DELAY \<Longrightarrow> p \<in> tm"
    "p \<in> tm \<Longrightarrow> a p \<and> p \<noteq> 0 \<and> (s p = PROC_DELAY \<or> s p = PROC_TIMED_WAIT)"
  using assms unfolding placed_def timer_place_def by blast+

lemma placed_life:
  assumes "placed r w s a b cur tm"
  shows "a p \<Longrightarrow> valid p" "a p \<Longrightarrow> s p \<noteq> PROC_DEAD" "a p \<Longrightarrow> p \<noteq> cur \<Longrightarrow> s p \<noteq> PROC_RUN"
    "a 0" "s 0 = PROC_RUN \<or> s 0 = PROC_READY"
  using assms unfolding placed_def life_def by blast+

lemma placed_idle:
  assumes P: "placed r w s a b cur tm"
  shows "0 \<notin> set r" "0 \<notin> set (w i)" "b 0 = None"
proof -
  show "0 \<notin> set r" by (simp add: placed_ready(2) [OF P])
  show b: "b 0 = None" using placed_waiting(3) [OF P, of 0] placed_life(5) [OF P] by auto
  show "0 \<notin> set (w i)" using placed_waiting(2) [OF P, of 0 i] b by simp
qed

lemma shape_ready_ok: "shape k \<Longrightarrow> queue_ok (ready_q k) \<and> max_items (ready_q k) = 20"
  by (simp add: shape_def)

lemma shape_wait_ok: "shape k \<Longrightarrow> i < 50 \<Longrightarrow> queue_ok (wait_q k i) \<and> max_items (wait_q k i) = 20"
  by (simp add: shape_def)

lemma enqueue_ready:
  assumes "shape k" and P: "placed (rd k) w s a b cur tm" and p: "valid p" "p \<notin> set (rd k)"
  shows "rd (k\<lparr>ready_q := penq (ready_q k) p\<rparr>) = rd k @ [p]" "shape (k\<lparr>ready_q := penq (ready_q k) p\<rparr>)"
proof -
  note q = shape_ready_ok [OF assms(1)]
  have "length (rd k) < 20"
    using placed_ready [OF P] placed_life(1) [OF P] p by (intro room_for [of "rd k" p]) auto
  then have "length (contents (ready_q k)) < max_items (ready_q k)" using q by (simp add: rd_def)
  with q pidq.put_room [of "ready_q k" p] show "rd (k\<lparr>ready_q := penq (ready_q k) p\<rparr>) = rd k @ [p]"
    by (simp add: rd_def)
  show "shape (k\<lparr>ready_q := penq (ready_q k) p\<rparr>)"
    using assms(1) q penq_ok [of "ready_q k" p] by (intro shape_ready) auto
qed

end
