(* ===== verification/Kernel_Timers.thy ===== *)
theory Kernel_Timers
  imports Kernel_Inv
begin

text \<open>
  The software timers keep the invariant: a timeout moves a process to the ready queue, the list
  of active timers loses and gains entries, and a tick counts every entry down.
\<close>

section \<open>A timeout\<close>

lemma handle_timeout_view:
  assumes S: "shape k" and P: "placed (rd k) (wt k) (st k) (al k) (bq k) cur tm" and p: "p \<in> tm"
  shows "shape (handle_timeout p k)" "rd (handle_timeout p k) = rd k @ [p]"
    "wt (handle_timeout p k) = (\<lambda>i. remove1 p (wt k i))"
    "st (handle_timeout p k) = (st k)(p := PROC_READY)" "al (handle_timeout p k) = al k"
    "bq (handle_timeout p k) = (bq k)(p := None)"
proof -
  from placed_timers(2) [OF P p] have a: "al k p" "st k p = PROC_DELAY \<or> st k p = PROC_TIMED_WAIT" "p \<noteq> 0"
    by auto
  then have v: "valid p" by (simp add: al_def)
  have nr: "p \<notin> set (rd k)" using placed_ready(2) [OF P, of p] a by auto
  define k1 where "k1 = (case blockq (pcb k p) of None \<Rightarrow> k
    | Some q \<Rightarrow> upd_pcb p (\<lambda>p. p\<lparr>p_timeout := True, blockq := None\<rparr>) (set_wait_q q (snd (pdelq (wait_q k q) p)) k))"
  have b: "blockq (pcb k p) = bq k p" using v by (simp add: bq_def)
  have k1: "shape k1 \<and> rd k1 = rd k \<and> wt k1 = (\<lambda>i. remove1 p (wt k i)) \<and> st k1 = st k \<and> al k1 = al k \<and>
      bq k1 = (bq k)(p := None)"
  proof (cases "bq k p")
    case None
    then have "p \<notin> set (wt k i)" for i using placed_waiting(2) [OF P, of p] by simp
    with None S show ?thesis by (simp add: k1_def b remove1_idem fun_eq_iff)
  next
    case (Some i)
    then have pi: "p \<in> set (wt k j) \<longleftrightarrow> j = i" for j using placed_waiting(2) [OF P, of p] by auto
    then have i: "i < 50" by (metis wt_def empty_iff empty_set)
    note q = shape_wait_ok [OF S i]
    have k': "shape (set_wait_q i (snd (pdelq (wait_q k i) p)) k)"
      using S i q pdelq_contents [of "wait_q k i" p] by (intro shape_set) auto
    have "wt (set_wait_q i (snd (pdelq (wait_q k i) p)) k) = (\<lambda>j. remove1 p (wt k j))"
    proof
      fix j
      show "wt (set_wait_q i (snd (pdelq (wait_q k i) p)) k) j = remove1 p (wt k j)"
      proof (cases "j = i")
        case True
        with i q pdelq_contents(1) [of "wait_q k i" p] show ?thesis by (simp add: wt_set [OF S i] wt_def)
      next
        case False
        with pi [of j] show ?thesis by (simp add: wt_set [OF S i] remove1_idem)
      qed
    qed
    with Some k' v show ?thesis
      by (simp add: k1_def b st_upd_same al_upd_same bq_upd)
  qed
  define k2 where "k2 = upd_pcb p (p_state_update (\<lambda>_. PROC_READY)) k1"
  have k2: "shape k2 \<and> rd k2 = rd k \<and> wt k2 = wt k1 \<and> st k2 = (st k)(p := PROC_READY) \<and> al k2 = al k \<and>
      bq k2 = (bq k)(p := None)"
    using k1 v unfolding k2_def by (simp add: st_upd al_upd_same bq_upd_same)
  have h: "handle_timeout p k = k2\<lparr>ready_q := penq (ready_q k2) p, resched := True\<rparr>"
    by (simp add: handle_timeout_def make_ready_def k1_def k2_def Let_def)
  have "placed (rd k2) (wt k) (st k) (al k) (bq k) cur tm" using P k2 by simp
  from enqueue_ready [OF _ this v] k2 nr
  have q: "rd (k2\<lparr>ready_q := penq (ready_q k2) p\<rparr>) = rd k @ [p]" "shape (k2\<lparr>ready_q := penq (ready_q k2) p\<rparr>)"
    by simp_all
  show "shape (handle_timeout p k)" "rd (handle_timeout p k) = rd k @ [p]"
    using q by (simp_all add: h)
  show "wt (handle_timeout p k) = (\<lambda>i. remove1 p (wt k i))"
    "st (handle_timeout p k) = (st k)(p := PROC_READY)" "al (handle_timeout p k) = al k"
    "bq (handle_timeout p k) = (bq k)(p := None)"
    using k1 k2 by (simp_all add: h)
qed

lemma handle_timeout_frame [simp]:
  "current_pid (handle_timeout p k) = current_pid k" "soft_tmrs (handle_timeout p k) = soft_tmrs k"
  "active_tmrs_a (handle_timeout p k) = active_tmrs_a k" "active_tmrs_b (handle_timeout p k) = active_tmrs_b k"
  "active_is_a (handle_timeout p k) = active_is_a k" "nactive (handle_timeout p k) = nactive k"
  "sched_partial_tick (handle_timeout p k) = sched_partial_tick k"
  "timer_need_refresh (handle_timeout p k) = timer_need_refresh k"
  "did_resched (handle_timeout p k) = did_resched k"
  by (simp_all add: handle_timeout_def make_ready_def Let_def split: option.splits)

section \<open>The list of active timers\<close>

lemma take_append_update:
  "n < length xs \<Longrightarrow> take (Suc n) (xs[n := x]) = take n xs @ [x]"
  by (simp add: take_Suc_conv_app_nth)

lemma drop_tmrs_result:
  assumes "drop_tmrs pid ids cur sh tmrs = (cur', sh', tmrs')" "cur + length ids \<le> length sh"
    "distinct ids" "\<And>t. t \<in> set ids \<Longrightarrow> 0 \<le> t"
  shows "take cur' sh' = take cur sh @ filter (\<lambda>t. tmr_pid (tmrs ! nat t) \<noteq> pid) ids \<and>
    length sh' = length sh \<and> cur' \<le> cur + length ids \<and> length tmrs' = length tmrs \<and>
    (\<forall>j<length tmrs. tmrs' ! j =
       (if int j \<in> set ids \<and> tmr_pid (tmrs ! j) = pid then (tmrs ! j)\<lparr>tmr_pid := - 1\<rparr> else tmrs ! j))"
  using assms
proof (induction ids arbitrary: cur sh tmrs)
  case Nil
  then show ?case by simp
next
  case (Cons t ts)
  have t: "0 \<le> t" "t \<notin> set ts" "distinct ts" "\<And>u. u \<in> set ts \<Longrightarrow> 0 \<le> u" using Cons.prems(3,4) by auto
  have other: "nat u \<noteq> nat t" if "u \<in> set ts" for u
    using t(1,2,4) that eq_nat_nat_iff [of u t] by auto
  show ?case
  proof (cases "tmr_pid (tmrs ! nat t) = pid")
    case True
    let ?tmrs = "tmrs[nat t := (tmrs ! nat t)\<lparr>tmr_pid := - 1\<rparr>]"
    have same: "filter (\<lambda>t. tmr_pid (?tmrs ! nat t) \<noteq> pid) ts = filter (\<lambda>t. tmr_pid (tmrs ! nat t) \<noteq> pid) ts"
    proof (rule filter_cong [OF refl])
      fix u assume "u \<in> set ts"
      then have "nat t \<noteq> nat u" by (rule other [THEN not_sym])
      then show "tmr_pid (?tmrs ! nat u) \<noteq> pid \<longleftrightarrow> tmr_pid (tmrs ! nat u) \<noteq> pid" by simp
    qed
    have "drop_tmrs pid ts cur sh ?tmrs = (cur', sh', tmrs')" using Cons.prems(1) True by simp
    from Cons.IH [OF this _ t(3,4)] Cons.prems(2) same
    have ih: "take cur' sh' = take cur sh @ filter (\<lambda>t. tmr_pid (tmrs ! nat t) \<noteq> pid) ts"
      "length sh' = length sh" "cur' \<le> cur + length ts" "length tmrs' = length tmrs"
      "\<And>j. j < length tmrs \<Longrightarrow> tmrs' ! j =
         (if int j \<in> set ts \<and> tmr_pid (?tmrs ! j) = pid then (?tmrs ! j)\<lparr>tmr_pid := - 1\<rparr> else ?tmrs ! j)"
      by simp_all
    have "tmrs' ! j = (if int j \<in> set (t # ts) \<and> tmr_pid (tmrs ! j) = pid then (tmrs ! j)\<lparr>tmr_pid := - 1\<rparr> else tmrs ! j)"
      if j: "j < length tmrs" for j
    proof (cases "int j = t")
      case t': True
      then have "j = nat t" by simp
      with ih(5) [OF j] t' t(2) True j show ?thesis by simp
    next
      case False
      then have "nat t \<noteq> j" using t(1) by auto
      with ih(5) [OF j] False show ?thesis by simp
    qed
    with ih True show ?thesis by simp
  next
    case False
    then have "drop_tmrs pid ts (cur + 1) (sh[cur := t]) tmrs = (cur', sh', tmrs')" using Cons.prems(1) by simp
    from Cons.IH [OF this _ t(3,4)] Cons.prems(2)
    have ih: "take cur' sh' = take (Suc cur) (sh[cur := t]) @ filter (\<lambda>t. tmr_pid (tmrs ! nat t) \<noteq> pid) ts"
      "length sh' = length sh" "cur' \<le> cur + 1 + length ts" "length tmrs' = length tmrs"
      "\<And>j. j < length tmrs \<Longrightarrow> tmrs' ! j =
         (if int j \<in> set ts \<and> tmr_pid (tmrs ! j) = pid then (tmrs ! j)\<lparr>tmr_pid := - 1\<rparr> else tmrs ! j)"
      by simp_all
    have "take (Suc cur) (sh[cur := t]) = take cur sh @ [t]"
      using Cons.prems(2) by (intro take_append_update) simp
    moreover have "tmrs' ! j = (if int j \<in> set (t # ts) \<and> tmr_pid (tmrs ! j) = pid then (tmrs ! j)\<lparr>tmr_pid := - 1\<rparr> else tmrs ! j)"
      if j: "j < length tmrs" for j
    proof (cases "int j = t")
      case t': True
      then have "j = nat t" by simp
      with ih(5) [OF j] False show ?thesis by auto
    next
      case False
      with ih(5) [OF j] show ?thesis by simp
    qed
    ultimately show ?thesis using ih False by simp
  qed
qed

lemma switch_frame [simp]:
  "ptable (switch_tmr_list sh cur k) = ptable k" "ready_q (switch_tmr_list sh cur k) = ready_q k"
  "current_pid (switch_tmr_list sh cur k) = current_pid k" "resched (switch_tmr_list sh cur k) = resched k"
  "did_resched (switch_tmr_list sh cur k) = did_resched k"
  "timer_need_refresh (switch_tmr_list sh cur k) = timer_need_refresh k"
  "sched_partial_tick (switch_tmr_list sh cur k) = sched_partial_tick k"
  "soft_tmrs (switch_tmr_list sh cur k) = soft_tmrs k" "sem_heap (switch_tmr_list sh cur k) = sem_heap k"
  "nactive (switch_tmr_list sh cur k) = cur" "active_tmrs (switch_tmr_list sh cur k) = sh"
  by (simp_all add: switch_tmr_list_def active_tmrs_def)

lemma view_eq:
  assumes "ptable k' = ptable k" "ready_q k' = ready_q k" "sem_heap k' = sem_heap k"
  shows "st k' = st k" "al k' = al k" "bq k' = bq k" "rd k' = rd k" "wt k' = wt k" "shape k' = shape k"
    "pcb k' p = pcb k p"
  using assms by (simp_all add: st_def al_def bq_def rd_def wt_def shape_def pcb_def wait_q_def fun_eq_iff)

lemma buffers_switch: "buffers_ok k \<Longrightarrow> length sh = 50 \<Longrightarrow> cur \<le> 50 \<Longrightarrow> buffers_ok (switch_tmr_list sh cur k)"
  by (simp add: buffers_ok_def switch_tmr_list_def)

lemma shadow_length: "buffers_ok k \<Longrightarrow> length (tmr_list_shadow k) = 50"
  by (simp add: buffers_ok_def tmr_list_shadow_def)

lemma active_length: "buffers_ok k \<Longrightarrow> length (active k) = nactive k \<and> nactive k \<le> 50"
  by (simp add: buffers_ok_def active_tmrs_def)

lemma tmrs_okD:
  assumes "tmrs_ok k ids"
  shows "length (soft_tmrs k) = 50" "distinct ids" "\<And>t. t \<in> set ids \<Longrightarrow> 0 \<le> t \<and> t < 50"
    "\<And>t. t < 50 \<Longrightarrow> tmr_pid (soft_tmrs k ! t) \<noteq> - 1 \<longleftrightarrow> int t \<in> set ids"
    "inj_on (\<lambda>t. tmr_pid (soft_tmrs k ! nat t)) (set ids)"
    "\<And>t. t \<in> set ids \<Longrightarrow> tmr_timeout (soft_tmrs k ! nat t) \<noteq> 0"
  using assms unfolding tmrs_ok_def by blast+

lemma tmp_not_minus1: "tmrs_ok k ids \<Longrightarrow> - 1 \<notin> tmp k ids"
proof
  assume ok: "tmrs_ok k ids" and "- 1 \<in> tmp k ids"
  then obtain t where t: "t \<in> set ids" "tmr_pid (soft_tmrs k ! nat t) = - 1" by (auto simp: tmp_def)
  with tmrs_okD(3) [OF ok t(1)] tmrs_okD(4) [OF ok, of "nat t"] show False by (auto simp: nat_less_iff)
qed

lemma update_active_view:
  assumes ok: "tmrs_ok k (active k)" and B: "buffers_ok k" and p: "pid \<noteq> - 1"
  defines "k' \<equiv> update_active_tmrs_list pid k"
  shows "tmrs_ok k' (active k')" "tmp k' (active k') = tmp k (active k) - {pid}" "buffers_ok k'"
    "ptable k' = ptable k" "ready_q k' = ready_q k" "sem_heap k' = sem_heap k" "current_pid k' = current_pid k"
    "sched_partial_tick k' = sched_partial_tick k" "timer_need_refresh k' = timer_need_refresh k"
    "did_resched k' = did_resched k" "resched k' = resched k"
proof -
  note T = tmrs_okD [OF ok]
  obtain cur sh tmrs where d: "drop_tmrs pid (active k) 0 (tmr_list_shadow k) (soft_tmrs k) = (cur, sh, tmrs)"
    by (cases "drop_tmrs pid (active k) 0 (tmr_list_shadow k) (soft_tmrs k)")
  have k': "k' = switch_tmr_list sh cur (k\<lparr>soft_tmrs := tmrs\<rparr>)"
    by (simp add: k'_def update_active_tmrs_list_def d)
  let ?keep = "filter (\<lambda>t. tmr_pid (soft_tmrs k ! nat t) \<noteq> pid) (active k)"
  have r: "take cur sh = ?keep" "length sh = 50" "cur \<le> 50" "length tmrs = 50"
    "\<And>j. j < 50 \<Longrightarrow> tmrs ! j = (if int j \<in> set (active k) \<and> tmr_pid (soft_tmrs k ! j) = pid
       then (soft_tmrs k ! j)\<lparr>tmr_pid := - 1\<rparr> else soft_tmrs k ! j)"
    using drop_tmrs_result [OF d] shadow_length [OF B] active_length [OF B] T(1-3) by auto
  have act: "active k' = ?keep" by (simp add: k' r(1))
  have kept: "tmrs ! nat t = soft_tmrs k ! nat t" if "t \<in> set ?keep" for t
    using that r(5) [of "nat t"] T(3) [of t] by auto
  show "tmrs_ok k' (active k')"
    unfolding tmrs_ok_def
  proof (intro conjI)
    show "length (soft_tmrs k') = 50" using r(4) by (simp add: k')
    show "distinct (active k')" using T(2) by (simp add: act)
    show "\<forall>t\<in>set (active k'). 0 \<le> t \<and> t < 50" using T(3) by (simp add: act)
    show "\<forall>t<50. tmr_pid (soft_tmrs k' ! t) \<noteq> - 1 \<longleftrightarrow> int t \<in> set (active k')"
    proof (intro allI impI)
      fix t :: nat assume "t < 50"
      with r(5) [of t] T(4) [of t] p show "tmr_pid (soft_tmrs k' ! t) \<noteq> - 1 \<longleftrightarrow> int t \<in> set (active k')"
        unfolding act by (auto simp: k')
    qed
    have "inj_on (\<lambda>t. tmr_pid (soft_tmrs k ! nat t)) (set ?keep)"
      using T(5) by (rule inj_on_subset) auto
    then show "inj_on (\<lambda>t. tmr_pid (soft_tmrs k' ! nat t)) (set (active k'))"
      unfolding act by (rule inj_on_cong [THEN iffD1, rotated]) (simp add: k' kept)
    show "\<forall>t\<in>set (active k'). tmr_timeout (soft_tmrs k' ! nat t) \<noteq> 0"
      unfolding act using T(6) kept by (auto simp: k')
  qed
  have "tmp k' (active k') = (\<lambda>t. tmr_pid (soft_tmrs k ! nat t)) ` set ?keep"
    unfolding tmp_def act by (rule image_cong) (simp_all add: k' kept)
  then show "tmp k' (active k') = tmp k (active k) - {pid}" by (auto simp: tmp_def)
  show "buffers_ok k'" unfolding k' using B r(2,3) by (intro buffers_switch) (simp_all add: buffers_ok_def)
qed (simp_all add: k'_def update_active_tmrs_list_def split: prod.splits)

text \<open>\<open>remove_tmr\<close> takes the process off the timers, whether it had one or not.\<close>

lemma in_tmp_iff:
  assumes ok: "tmrs_ok k ids" and p: "pid \<noteq> - 1"
  shows "pid \<in> tmp k ids \<longleftrightarrow> (\<exists>t<50. tmr_pid (soft_tmrs k ! t) = pid)"
proof
  assume "pid \<in> tmp k ids"
  then obtain t where "t \<in> set ids" "tmr_pid (soft_tmrs k ! nat t) = pid" by (auto simp: tmp_def)
  with tmrs_okD(3) [OF ok, of t] show "\<exists>t<50. tmr_pid (soft_tmrs k ! t) = pid"
    by (intro exI [of _ "nat t"]) auto
next
  assume "\<exists>t<50. tmr_pid (soft_tmrs k ! t) = pid"
  then obtain t where t: "t < 50" "tmr_pid (soft_tmrs k ! t) = pid" by auto
  with tmrs_okD(4) [OF ok, of t] p have "int t \<in> set ids" by simp
  with t show "pid \<in> tmp k ids" by (auto simp: tmp_def intro!: rev_image_eqI)
qed

lemma remove_tmr_view:
  assumes ok: "tmrs_ok k (active k)" and B: "buffers_ok k" and p: "pid \<noteq> - 1"
    and r: "remove_tmr pid k = (rem, k')"
  shows "tmrs_ok k' (active k')" "tmp k' (active k') = tmp k (active k) - {pid}" "buffers_ok k'"
    "ptable k' = ptable k" "ready_q k' = ready_q k" "sem_heap k' = sem_heap k" "current_pid k' = current_pid k"
    "sched_partial_tick k' = sched_partial_tick k" "timer_need_refresh k' = timer_need_refresh k"
    "did_resched k' = did_resched k" "resched k' = resched k"
proof -
  have "k' = update_active_tmrs_list pid k \<or> pid \<notin> tmp k (active k) \<and> k' = k"
  proof (cases "filter (\<lambda>t. tmr_pid t = pid) (take 50 (soft_tmrs k))")
    case Nil
    then have "\<forall>t\<in>set (take 50 (soft_tmrs k)). tmr_pid t \<noteq> pid" by (simp add: filter_empty_conv)
    then have "\<not> (\<exists>t<50. tmr_pid (soft_tmrs k ! t) = pid)"
      using tmrs_okD(1) [OF ok] by (auto simp: all_set_conv_all_nth)
    with in_tmp_iff [OF ok p] Nil r show ?thesis by (simp add: remove_tmr_def)
  next
    case (Cons t ts)
    with r show ?thesis by (simp add: remove_tmr_def)
  qed
  with update_active_view [OF ok B p] ok B
  show "tmrs_ok k' (active k')" "tmp k' (active k') = tmp k (active k) - {pid}" "buffers_ok k'"
    "ptable k' = ptable k" "ready_q k' = ready_q k" "sem_heap k' = sem_heap k" "current_pid k' = current_pid k"
    "sched_partial_tick k' = sched_partial_tick k" "timer_need_refresh k' = timer_need_refresh k"
    "did_resched k' = did_resched k" "resched k' = resched k"
    by auto
qed

lemma takeWhile_stops: "x \<in> set xs \<Longrightarrow> \<not> P x \<Longrightarrow> length (takeWhile P xs) < length xs"
  by (induction xs) auto

lemma few_timers:
  assumes ok: "tmrs_ok k ids" and P: "placed r w s a b cur (tmp k ids)"
  shows "length ids < 50"
proof -
  have "tmp k ids \<subseteq> {0..<20}"
    using placed_timers(2) [OF P] placed_life(1) [OF P] by (auto simp: valid_def)
  then have "card (tmp k ids) \<le> 20" using card_mono [of "{0..<20::int}" "tmp k ids"] by simp
  moreover have "card (tmp k ids) = length ids"
    using card_image [OF tmrs_okD(5) [OF ok]] distinct_card [OF tmrs_okD(2) [OF ok]] by (simp add: tmp_def)
  ultimately show ?thesis by simp
qed

lemma add_tmr_view:
  assumes ok: "tmrs_ok k (active k)" and B: "buffers_ok k" and p: "pid \<noteq> - 1" "pid \<notin> tmp k (active k)"
    and n: "length (active k) < 50" and r: "add_tmr pid ms k = (res, k')"
  shows "res = 0" "tmrs_ok k' (active k')" "tmp k' (active k') = insert pid (tmp k (active k))" "buffers_ok k'"
    "ptable k' = ptable k" "ready_q k' = ready_q k" "sem_heap k' = sem_heap k" "current_pid k' = current_pid k"
    "sched_partial_tick k' = sched_partial_tick k" "timer_need_refresh k' = timer_need_refresh k"
    "did_resched k' = did_resched k" "resched k' = resched k"
    "timers k' = timers k @ [(pid, if ms_to_ticks ms = 0 then 1 else ms_to_ticks ms)]"
proof -
  note T = tmrs_okD [OF ok]
  have na: "nactive k < 50" using n active_length [OF B] by simp
  define i where "i = length (takeWhile (\<lambda>t. tmr_pid t \<noteq> - 1) (soft_tmrs k))"
  have i: "i < 50 \<and> tmr_pid (soft_tmrs k ! i) = - 1"
  proof -
    have "\<exists>t<50. int t \<notin> set (active k)"
    proof (rule ccontr)
      assume "\<not> ?thesis"
      then have "int ` {0..<50} \<subseteq> set (active k)" by auto
      then have "card (int ` {0..<50}) \<le> card (set (active k))" by (intro card_mono) auto
      moreover have "card (int ` {0..<50}) = 50" by (simp add: card_image)
      ultimately show False using n card_length [of "active k"] by linarith
    qed
    then obtain t where "t < 50" "int t \<notin> set (active k)" by auto
    with T(1) T(4) [of t] have "soft_tmrs k ! t \<in> set (soft_tmrs k)" "tmr_pid (soft_tmrs k ! t) = - 1" by auto
    then have "i < length (soft_tmrs k)"
      unfolding i_def by (intro takeWhile_stops) simp_all
    with nth_length_takeWhile [of "\<lambda>t. tmr_pid t \<noteq> - 1" "soft_tmrs k"] T(1) show ?thesis by (simp add: i_def)
  qed
  then have free: "get_free_tmr k = int i" using na T(1) by (simp add: get_free_tmr_def i_def)
  have fresh: "int i \<notin> set (active k)" using T(4) [of i] i by simp
  define ticks where "ticks = (if ms_to_ticks ms = 0 then 1 else ms_to_ticks ms)"
  define tmrs where "tmrs = (soft_tmrs k)[i := \<lparr>tmr_timeout = ticks, tmr_pid = pid\<rparr>]"
  have eq: "add_tmr pid ms k = (0, if active_is_a k
      then k\<lparr>soft_tmrs := tmrs, active_tmrs_a := (active_tmrs_a k)[nactive k := int i], nactive := Suc (nactive k)\<rparr>
      else k\<lparr>soft_tmrs := tmrs, active_tmrs_b := (active_tmrs_b k)[nactive k := int i], nactive := Suc (nactive k)\<rparr>)"
    by (simp add: add_tmr_def free Let_def tmrs_def ticks_def)
  from r eq have res: "res = 0" and kk: "k' = (if active_is_a k
      then k\<lparr>soft_tmrs := tmrs, active_tmrs_a := (active_tmrs_a k)[nactive k := int i], nactive := Suc (nactive k)\<rparr>
      else k\<lparr>soft_tmrs := tmrs, active_tmrs_b := (active_tmrs_b k)[nactive k := int i], nactive := Suc (nactive k)\<rparr>)"
    by simp_all
  have k': "res = 0" "ticks \<noteq> 0" "soft_tmrs k' = (soft_tmrs k)[i := \<lparr>tmr_timeout = ticks, tmr_pid = pid\<rparr>]"
    "active_tmrs k' = (active_tmrs k)[nactive k := int i]" "nactive k' = Suc (nactive k)"
    "length (active_tmrs_a k') = length (active_tmrs_a k)" "length (active_tmrs_b k') = length (active_tmrs_b k)"
    and frame: "ptable k' = ptable k" "ready_q k' = ready_q k" "sem_heap k' = sem_heap k" "current_pid k' = current_pid k"
    "sched_partial_tick k' = sched_partial_tick k" "timer_need_refresh k' = timer_need_refresh k"
    "did_resched k' = did_resched k" "resched k' = resched k"
    using res by (simp_all add: kk tmrs_def active_tmrs_def ticks_def)
  show "res = 0" "ptable k' = ptable k" "ready_q k' = ready_q k" "sem_heap k' = sem_heap k" "current_pid k' = current_pid k"
    "sched_partial_tick k' = sched_partial_tick k" "timer_need_refresh k' = timer_need_refresh k"
    "did_resched k' = did_resched k" "resched k' = resched k" by (fact k' frame)+
  have "length (active_tmrs k) = 50" using B by (simp add: buffers_ok_def active_tmrs_def)
  then have act: "active k' = active k @ [int i]" using na by (simp add: k' take_append_update)
  have old: "soft_tmrs k' ! nat t = soft_tmrs k ! nat t" if "t \<in> set (active k)" for t
  proof -
    have "nat t \<noteq> i" using that fresh T(3) [OF that] by auto
    then show ?thesis by (simp add: k')
  qed
  have new: "soft_tmrs k' ! i = \<lparr>tmr_timeout = ticks, tmr_pid = pid\<rparr>" using i T(1) by (simp add: k')
  have image: "(\<lambda>t. tmr_pid (soft_tmrs k' ! nat t)) ` set (active k) = tmp k (active k)"
    unfolding tmp_def by (rule image_cong) (simp_all add: old)
  show "timers k' = timers k @ [(pid, if ms_to_ticks ms = 0 then 1 else ms_to_ticks ms)]"
    using old new by (auto simp: timers_def act tmr_def ticks_def)
  show "tmp k' (active k') = insert pid (tmp k (active k))"
    using image by (simp add: tmp_def act new)
  show "buffers_ok k'" using B na k' by (simp add: buffers_ok_def)
  show "tmrs_ok k' (active k')"
    unfolding tmrs_ok_def
  proof (intro conjI)
    show "length (soft_tmrs k') = 50" using T(1) by (simp add: k')
    show "distinct (active k')" using T(2) fresh by (simp add: act)
    show "\<forall>t\<in>set (active k'). 0 \<le> t \<and> t < 50" using T(3) i by (auto simp: act)
    show "\<forall>t<50. tmr_pid (soft_tmrs k' ! t) \<noteq> - 1 \<longleftrightarrow> int t \<in> set (active k')"
    proof (intro allI impI)
      fix t :: nat assume "t < 50"
      with T(4) [of t] T(1) p i show "tmr_pid (soft_tmrs k' ! t) \<noteq> - 1 \<longleftrightarrow> int t \<in> set (active k')"
        unfolding act by (cases "t = i") (auto simp: k'(3))
    qed
    have "inj_on (\<lambda>t. tmr_pid (soft_tmrs k' ! nat t)) (set (active k))"
      using T(5) by (rule inj_on_cong [THEN iffD1, rotated]) (simp add: old)
    moreover have "pid \<notin> (\<lambda>t. tmr_pid (soft_tmrs k' ! nat t)) ` (set (active k) - {int i})"
      using p(2) image by blast
    ultimately show "inj_on (\<lambda>t. tmr_pid (soft_tmrs k' ! nat t)) (set (active k'))"
      by (simp add: act new)
    show "\<forall>t\<in>set (active k'). tmr_timeout (soft_tmrs k' ! nat t) \<noteq> 0"
      using T(6) old new k'(2) by (auto simp: act)
  qed
qed

section \<open>A timer tick\<close>

lemma inv_withD:
  "inv_with k ids \<Longrightarrow> shape k"
  "inv_with k ids \<Longrightarrow> placed (rd k) (wt k) (st k) (al k) (bq k) (current_pid k) (tmp k ids)"
  "inv_with k ids \<Longrightarrow> tmrs_ok k ids"
  by (simp_all add: inv_with_def)

text \<open>One timer that runs out: its process moves to the ready queue and the timer is free.\<close>

lemma expire:
  assumes I: "inv_with k (S @ t # ts)" and tm: "tm = soft_tmrs k ! nat t"
    and k': "k' = (handle_timeout (tmr_pid tm) (k\<lparr>soft_tmrs := (soft_tmrs k)[nat t := x]\<rparr>))"
    and k'': "k'' = k'\<lparr>soft_tmrs := (soft_tmrs k')[nat t := x\<lparr>tmr_pid := - 1\<rparr>]\<rparr>"
  shows "inv_with k'' (S @ ts)" "rd k'' = rd k @ [tmr_pid tm]"
    "st k (tmr_pid tm) \<noteq> PROC_RUN" "st k'' = (st k)(tmr_pid tm := PROC_READY)" "al k'' = al k"
    "wt k'' = (\<lambda>i. remove1 (tmr_pid tm) (wt k i))"
proof -
  note S = inv_withD(1) [OF I] and P = inv_withD(2) [OF I] and T = tmrs_okD [OF inv_withD(3) [OF I]]
  let ?k = "k\<lparr>soft_tmrs := (soft_tmrs k)[nat t := x]\<rparr>" and ?p = "tmr_pid tm"
  have v: "st ?k = st k" "al ?k = al k" "bq ?k = bq k" "rd ?k = rd k" "wt ?k = wt k" "shape ?k = shape k"
    by (rule view_eq; simp)+
  have t: "0 \<le> t" "t < 50" "t \<notin> set S" "t \<notin> set ts" using T(2) T(3) [of t] by auto
  have p: "?p \<in> tmp k (S @ t # ts)" by (simp add: tm tmp_def)
  have "placed (rd ?k) (wt ?k) (st ?k) (al ?k) (bq ?k) (current_pid k) (tmp k (S @ t # ts))" using P v by simp
  from handle_timeout_view [OF _ this p] S v
  have h: "shape k'" "rd k' = rd k @ [?p]" "wt k' = (\<lambda>i. remove1 ?p (wt k i))"
    "st k' = (st k)(?p := PROC_READY)" "al k' = al k" "bq k' = (bq k)(?p := None)"
    by (simp_all add: k')
  have v'': "st k'' = st k'" "al k'' = al k'" "bq k'' = bq k'" "rd k'' = rd k'" "wt k'' = wt k'" "shape k'' = shape k'"
    by (rule view_eq; simp add: k'')+
  have a: "al k ?p" "?p \<noteq> 0" "st k ?p = PROC_WAIT \<or> st k ?p = PROC_TIMED_WAIT \<or> st k ?p = PROC_DELAY"
    using placed_timers(2) [OF P p] by auto
  then show "st k ?p \<noteq> PROC_RUN" by auto
  have tmrs: "soft_tmrs k'' = (soft_tmrs k)[nat t := x\<lparr>tmr_pid := - 1\<rparr>]" by (simp add: k'' k')
  have old: "soft_tmrs k'' ! nat u = soft_tmrs k ! nat u" if "u \<in> set (S @ ts)" for u
  proof -
    have "u \<noteq> t" "0 \<le> u" using that t T(3) [of u] by auto
    then have "nat t \<noteq> nat u" using t(1) eq_nat_nat_iff by auto
    then show ?thesis by (simp add: tmrs)
  qed
  have im: "(\<lambda>t. tmr_pid (soft_tmrs k'' ! nat t)) ` set (S @ ts) = (\<lambda>t. tmr_pid (soft_tmrs k ! nat t)) ` set (S @ ts)"
    by (rule image_cong) (simp_all add: old)
  have inj: "inj_on (\<lambda>t. tmr_pid (soft_tmrs k ! nat t)) (insert t (set (S @ ts)))"
    using T(5) by simp
  have tmp'': "tmp k'' (S @ ts) = tmp k (S @ t # ts) - {?p}"
  proof -
    have "?p \<notin> (\<lambda>t. tmr_pid (soft_tmrs k ! nat t)) ` set (S @ ts)"
      using inj t(3,4) by (auto simp: tm inj_on_def)
    then show ?thesis unfolding tmp_def im by (auto simp: tm)
  qed
  from placed_wake [OF P a refl] have "placed (rd k'') (wt k'') (st k'') (al k'') (bq k'') (current_pid k'') (tmp k'' (S @ ts))"
    using h v'' tmp'' by (simp add: k'' k')
  moreover have "tmrs_ok k'' (S @ ts)"
    unfolding tmrs_ok_def
  proof (intro conjI)
    show "length (soft_tmrs k'') = 50" using T(1) by (simp add: tmrs)
    show "distinct (S @ ts)" using T(2) by simp
    show "\<forall>t\<in>set (S @ ts). 0 \<le> t \<and> t < 50" using T(3) by simp
    show "\<forall>u<50. tmr_pid (soft_tmrs k'' ! u) \<noteq> - 1 \<longleftrightarrow> int u \<in> set (S @ ts)"
    proof (intro allI impI)
      fix u :: nat assume "u < 50"
      with T(4) [of u] T(1) t show "tmr_pid (soft_tmrs k'' ! u) \<noteq> - 1 \<longleftrightarrow> int u \<in> set (S @ ts)"
        by (cases "u = nat t") (auto simp: tmrs)
    qed
    have "inj_on (\<lambda>t. tmr_pid (soft_tmrs k ! nat t)) (set (S @ ts))" using inj by (rule inj_on_subset) auto
    then show "inj_on (\<lambda>t. tmr_pid (soft_tmrs k'' ! nat t)) (set (S @ ts))"
      by (rule inj_on_cong [THEN iffD1, rotated]) (simp only: old)
    show "\<forall>t\<in>set (S @ ts). tmr_timeout (soft_tmrs k'' ! nat t) \<noteq> 0"
      using T(6) old by auto
  qed
  ultimately show "inv_with k'' (S @ ts)" using h v'' by (simp add: inv_with_def)
  show "rd k'' = rd k @ [?p]" "st k'' = (st k)(?p := PROC_READY)" "al k'' = al k" "wt k'' = (\<lambda>i. remove1 ?p (wt k i))"
    using h v'' by simp_all
qed

text \<open>One timer that goes on.\<close>

lemma count_down:
  assumes I: "inv_with k (S @ t # ts)" and x: "tmr_pid x = tmr_pid (soft_tmrs k ! nat t)" "tmr_timeout x \<noteq> 0"
    and k': "k' = k\<lparr>soft_tmrs := (soft_tmrs k)[nat t := x]\<rparr>"
  shows "inv_with k' (S @ t # ts)" "rd k' = rd k" "st k' = st k" "al k' = al k" "wt k' = wt k"
proof -
  note T = tmrs_okD [OF inv_withD(3) [OF I]]
  have v: "st k' = st k" "al k' = al k" "bq k' = bq k" "rd k' = rd k" "wt k' = wt k" "shape k' = shape k"
    by (rule view_eq; simp add: k')+
  have pid: "tmr_pid (soft_tmrs k' ! u) = tmr_pid (soft_tmrs k ! u)" for u
    using x T(1) T(3) [of t] by (cases "u = nat t") (auto simp: k')
  have "tmrs_ok k' (S @ t # ts)"
    unfolding tmrs_ok_def pid
  proof (intro conjI)
    show "\<forall>u\<in>set (S @ t # ts). tmr_timeout (soft_tmrs k' ! nat u) \<noteq> 0"
    proof
      fix u assume u: "u \<in> set (S @ t # ts)"
      with T(6) [OF u] T(1) T(3) [of t] x show "tmr_timeout (soft_tmrs k' ! nat u) \<noteq> 0"
        by (cases "nat u = nat t") (auto simp: k')
    qed
  qed (use T in \<open>simp_all add: k'\<close>)
  moreover have "tmp k' (S @ t # ts) = tmp k (S @ t # ts)" by (simp add: tmp_def pid)
  ultimately show "inv_with k' (S @ t # ts)" using I v by (simp add: inv_with_def k')
  show "rd k' = rd k" "st k' = st k" "al k' = al k" "wt k' = wt k" by (fact v)+
qed

lemma run_tmrs_result:
  assumes "run_tmrs ts cur sh k = (cur', sh', k')" "inv_with k (S @ ts)" "length S = cur"
    "take cur sh = S" "cur + length ts \<le> length sh"
  shows "inv_with k' (take cur' sh') \<and> length sh' = length sh \<and> cur' \<le> cur + length ts \<and>
    (\<exists>new. rd k' = rd k @ new) \<and> al k' = al k \<and> (\<forall>p. st k p = PROC_RUN \<longrightarrow> st k' p = PROC_RUN) \<and>
    current_pid k' = current_pid k \<and> buffers_ok k' = buffers_ok k \<and> active_is_a k' = active_is_a k \<and>
    sched_partial_tick k' = sched_partial_tick k \<and> timer_need_refresh k' = timer_need_refresh k \<and>
    did_resched k' = did_resched k"
  using assms
proof (induction ts arbitrary: cur sh k S)
  case Nil
  then show ?case by simp
next
  case (Cons t ts)
  define tm where "tm = soft_tmrs k ! nat t"
  define x where "x = tm\<lparr>tmr_timeout := tmr_timeout tm - 1\<rparr>"
  let ?k = "k\<lparr>soft_tmrs := (soft_tmrs k)[nat t := x]\<rparr>"
  show ?case
  proof (cases "tmr_timeout x = 0")
    case True
    let ?k1 = "handle_timeout (tmr_pid tm) ?k"
    let ?k2 = "?k1\<lparr>soft_tmrs := (soft_tmrs ?k1)[nat t := x\<lparr>tmr_pid := - 1\<rparr>]\<rparr>"
    note e = expire [where x = x, OF Cons.prems(2) tm_def refl refl]
    have "tmr_pid x = tmr_pid tm" by (simp add: x_def)
    then have "run_tmrs ts cur sh ?k2 = (cur', sh', k')"
      using Cons.prems(1) True by (simp add: Let_def x_def tm_def)
    then obtain k2 where run: "run_tmrs ts cur sh k2 = (cur', sh', k')" and k2: "k2 = ?k2" by blast
    have c: "current_pid k2 = current_pid k" "buffers_ok k2 = buffers_ok k" "active_is_a k2 = active_is_a k"
      "sched_partial_tick k2 = sched_partial_tick k" "timer_need_refresh k2 = timer_need_refresh k"
      "did_resched k2 = did_resched k" by (simp_all add: k2 buffers_ok_def)
    note e = e [folded k2]
    have st: "st k p = PROC_RUN \<Longrightarrow> st k2 p = PROC_RUN" for p using e(3,4) by auto
    from Cons.IH [OF run e(1) Cons.prems(3,4)] Cons.prems(5)
    have ih: "inv_with k' (take cur' sh')" "length sh' = length sh" "cur' \<le> cur + length ts"
      "\<exists>new. rd k' = rd k2 @ new" "al k' = al k2" "\<forall>p. st k2 p = PROC_RUN \<longrightarrow> st k' p = PROC_RUN"
      and ih': "current_pid k' = current_pid k2 \<and> buffers_ok k' = buffers_ok k2 \<and> active_is_a k' = active_is_a k2 \<and>
        sched_partial_tick k' = sched_partial_tick k2 \<and> timer_need_refresh k' = timer_need_refresh k2 \<and>
        did_resched k' = did_resched k2"
      by simp_all
    have "\<exists>new. rd k' = rd k @ new" using ih(4) e(2) by auto
    with ih ih' c st e(5) show ?thesis by simp
  next
    case False
    have run: "run_tmrs ts (cur + 1) (sh[cur := t]) ?k = (cur', sh', k')"
      using Cons.prems(1) False by (simp add: Let_def x_def tm_def)
    have x: "tmr_pid x = tmr_pid (soft_tmrs k ! nat t)" by (simp add: x_def tm_def)
    note e = count_down [OF Cons.prems(2) x False refl]
    have tk: "take (cur + 1) (sh[cur := t]) = S @ [t]"
      using Cons.prems(4,5) take_append_update [of cur sh t] by simp
    have "inv_with ?k ((S @ [t]) @ ts)" using e(1) by simp
    from Cons.IH [OF run this _ tk] Cons.prems(3,5) e(2-4)
    show ?thesis by (simp add: buffers_ok_def)
  qed
qed

lemma soft_tmr_handler_view:
  assumes K: "kernel_inv k"
  defines "k' \<equiv> soft_tmr_handler k"
  shows "kernel_inv k'" "\<exists>new. rd k' = rd k @ new" "\<And>p. st k p = PROC_RUN \<Longrightarrow> st k' p = PROC_RUN"
    "current_pid k' = current_pid k" "sched_partial_tick k' = sched_partial_tick k"
    "timer_need_refresh k' = timer_need_refresh k" "did_resched k' = did_resched k"
proof -
  have I: "inv_with k ([] @ active k)" and B: "buffers_ok k" and a: "al k (current_pid k)"
    using K by (simp_all add: kernel_inv_def)
  obtain cur sh k1 where r: "run_tmrs (active k) 0 (tmr_list_shadow k) k = (cur, sh, k1)"
    by (cases "run_tmrs (active k) 0 (tmr_list_shadow k) k")
  have k': "k' = switch_tmr_list sh cur k1" by (simp add: k'_def soft_tmr_handler_def r)
  have "0 + length (active k) \<le> length (tmr_list_shadow k)"
    using active_length [OF B] shadow_length [OF B] by simp
  from run_tmrs_result [OF r I _ _ this]
  have R: "inv_with k1 (take cur sh)" "length sh = 50" "cur \<le> 50" "\<exists>new. rd k1 = rd k @ new" "al k1 = al k"
    "\<forall>p. st k p = PROC_RUN \<longrightarrow> st k1 p = PROC_RUN" "current_pid k1 = current_pid k" "buffers_ok k1"
    "sched_partial_tick k1 = sched_partial_tick k" "timer_need_refresh k1 = timer_need_refresh k"
    "did_resched k1 = did_resched k"
    using active_length [OF B] shadow_length [OF B] B by auto
  have v: "st k' = st k1" "al k' = al k1" "bq k' = bq k1" "rd k' = rd k1" "wt k' = wt k1" "shape k' = shape k1"
    by (rule view_eq; simp add: k')+
  have t: "tmp k' ids = tmp k1 ids" "tmrs_ok k' ids = tmrs_ok k1 ids" for ids
    by (simp_all add: tmp_def tmrs_ok_def k')
  have act: "active k' = take cur sh" by (simp add: k')
  show "kernel_inv k'"
    unfolding kernel_inv_def act
  proof (intro conjI)
    show "inv_with k' (take cur sh)" using R(1) v t by (simp add: inv_with_def) (simp add: k')
    show "buffers_ok k'" unfolding k' using R by (intro buffers_switch) simp_all
    show "al k' (current_pid k')" using R(5,7) v a by (simp add: k')
  qed
  show "\<exists>new. rd k' = rd k @ new" "\<And>p. st k p = PROC_RUN \<Longrightarrow> st k' p = PROC_RUN"
    "current_pid k' = current_pid k" "sched_partial_tick k' = sched_partial_tick k"
    "timer_need_refresh k' = timer_need_refresh k" "did_resched k' = did_resched k"
    using R v by (simp_all add: k')
qed

end
