(* ===== verification/Kernel_Moves.thy ===== *)
theory Kernel_Moves
  imports Kernel_Timers
begin

text \<open>
  The scheduler, blocking and unblocking keep the invariant, with what they do to the ready
  queue, the wait queues and the current process.
\<close>

section \<open>Scheduling\<close>

text \<open>A kernel whose timers are those of \<open>k\<close>.\<close>

lemma timers_eq:
  assumes "soft_tmrs k' = soft_tmrs k" "active_tmrs_a k' = active_tmrs_a k" "active_tmrs_b k' = active_tmrs_b k"
    "active_is_a k' = active_is_a k" "nactive k' = nactive k"
  shows "tmp k' ids = tmp k ids" "tmrs_ok k' ids = tmrs_ok k ids" "active k' = active k" "buffers_ok k' = buffers_ok k"
  using assms by (simp_all add: tmp_def tmrs_ok_def active_tmrs_def buffers_ok_def)

lemma kernel_invD:
  assumes "kernel_inv k"
  shows "shape k" "placed (rd k) (wt k) (st k) (al k) (bq k) (current_pid k) (tmp k (active k))"
    "tmrs_ok k (active k)" "buffers_ok k" "al k (current_pid k)" "valid (current_pid k)"
  using assms by (simp_all add: kernel_inv_def inv_with_def al_def)

lemma next_ready_first:
  assumes "queue_ok q" "\<And>p. p \<in> set (contents q) \<Longrightarrow> p_state (pt ! nat p) \<noteq> PROC_DEAD" "next_ready pt q = (n, q')"
  shows "contents q = [] \<and> n = - 1 \<and> q' = q \<or> contents q = n # contents q' \<and> queue_ok q' \<and> max_items q' = max_items q"
proof (cases "contents q = []")
  case True
  with assms(3) show ?thesis by (simp add: next_ready.simps contents_Nil)
next
  case False
  obtain x q1 where d: "pdeq q = (x, q1)" by fastforce
  from pidq.get_first [OF assms(1) False d] have c: "contents q = x # contents q1" "queue_ok q1" "max_items q1 = max_items q"
    by auto
  with assms(2) [of x] have "p_state (pt ! nat x) \<noteq> PROC_DEAD" by simp
  with assms(3) False d c show ?thesis by (simp add: next_ready.simps [of pt q] contents_Nil)
qed

definition requeue :: "kernel \<Rightarrow> int list" where
  "requeue k = (if st k (current_pid k) = PROC_RUN \<and> current_pid k \<noteq> 0 then rd k @ [current_pid k] else rd k)"

lemma sched_rr_view:
  assumes K: "kernel_inv k"
  defines "k' \<equiv> sched_rr k"
  shows "running k'" "requeue k = [] \<and> current_pid k' = 0 \<and> rd k' = [] \<or> requeue k = current_pid k' # rd k'"
    "wt k' = wt k" "al k' = al k" "sched_partial_tick k' = sched_partial_tick k" "sem_heap k' = sem_heap k"
    "timer_need_refresh k' = timer_need_refresh k" "resched k' = resched k" "did_resched k' = did_resched k"
    "\<And>p. valid p \<Longrightarrow> pcontext (pcb k' p) = pcontext (pcb k p)"
    "\<And>p. valid p \<Longrightarrow> p_timeout (pcb k' p) = p_timeout (pcb k p)"
proof -
  note D = kernel_invD [OF K]
  let ?c = "current_pid k"
  define k1 where "k1 = (if p_state (pcb k ?c) = PROC_RUN
    then (let k = upd_pcb ?c (p_state_update (\<lambda>_. PROC_READY)) k
          in if current_pid k \<noteq> 0 then k\<lparr>ready_q := penq (ready_q k) (current_pid k)\<rparr> else k) else k)"
  have c: "p_state (pcb k ?c) = st k ?c" using D(6) by (simp add: st_def)
  have k1: "shape k1 \<and> placed (requeue k) (wt k) (st k1) (al k) (bq k) ?c (tmp k (active k)) \<and> rd k1 = requeue k \<and>
      (\<forall>p. al k p \<longrightarrow> st k1 p \<noteq> PROC_RUN)"
  proof (cases "st k ?c = PROC_RUN")
    case False
    with D(1,2) placed_life(3) [OF D(2)] show ?thesis by (auto simp: k1_def c requeue_def)
  next
    case True
    let ?u = "upd_pcb ?c (p_state_update (\<lambda>_. PROC_READY)) k"
    have u: "shape ?u" "st ?u = (st k)(?c := PROC_READY)" using D(1,6) by (simp_all add: st_upd)
    have nr: "?c \<notin> set (rd k)" using placed_ready(2) [OF D(2), of ?c] True by simp
    note pre = placed_preempt [OF D(2) D(5) True]
    have "k1 = (if ?c \<noteq> 0 then ?u\<lparr>ready_q := penq (ready_q ?u) ?c\<rparr> else ?u)"
      using True by (simp add: k1_def c Let_def)
    moreover have "rd (?u\<lparr>ready_q := penq (ready_q ?u) ?c\<rparr>) = rd k @ [?c]" "shape (?u\<lparr>ready_q := penq (ready_q ?u) ?c\<rparr>)"
      using enqueue_ready [of ?u "wt k" "st k" "al k" "bq k" ?c "tmp k (active k)" ?c] D(2,6) nr u(1) by simp_all
    ultimately have "shape k1" "st k1 = (st k)(?c := PROC_READY)" "rd k1 = requeue k"
      using u True by (auto simp: requeue_def)
    then show ?thesis using pre True placed_life(3) [OF D(2)] by (auto simp: requeue_def)
  qed
  have k1': "al k1 = al k" "bq k1 = bq k" "wt k1 = wt k" "sem_heap k1 = sem_heap k" "soft_tmrs k1 = soft_tmrs k"
    "active_tmrs_a k1 = active_tmrs_a k" "active_tmrs_b k1 = active_tmrs_b k" "active_is_a k1 = active_is_a k"
    "nactive k1 = nactive k" "sched_partial_tick k1 = sched_partial_tick k" "timer_need_refresh k1 = timer_need_refresh k"
    "resched k1 = resched k" "did_resched k1 = did_resched k"
    using D(1,6) by (simp_all add: k1_def Let_def al_upd_same bq_upd_same)
  have pcb1: "pcontext (pcb k1 p) = pcontext (pcb k p) \<and> p_timeout (pcb k1 p) = p_timeout (pcb k p)" if "valid p" for p
    using D(1,6) that by (simp add: k1_def Let_def pcb_upd)
  obtain n q where nx: "next_ready (ptable k1) (ready_q k1) = (n, q)" by (cases "next_ready (ptable k1) (ready_q k1)")
  let ?n = "if n = - 1 then 0 else n"
  have k': "k' = (upd_pcb ?n (p_state_update (\<lambda>_. PROC_RUN)) (k1\<lparr>ready_q := q\<rparr>))\<lparr>current_pid := ?n\<rparr>"
    using nx by (simp add: k'_def sched_rr_def k1_def Let_def)
  have alive: "p_state (ptable k1 ! nat p) \<noteq> PROC_DEAD" if "p \<in> set (contents (ready_q k1))" for p
  proof -
    have "p \<in> set (requeue k)" using that k1 by (simp add: rd_def)
    then have "al k p" "st k1 p \<noteq> PROC_DEAD" using placed_ready(2) [of _ _ _ _ _ _ _ p] placed_life(2) k1 by metis+
    then show ?thesis by (simp add: st_def al_def pcb_def)
  qed
  have q1: "queue_ok (ready_q k1)" "max_items (ready_q k1) = 20" using k1 shape_ready_ok by auto
  from next_ready_first [OF q1(1) alive nx]
  have n: "requeue k = [] \<and> n = - 1 \<and> contents q = [] \<or> requeue k = n # contents q" and q: "queue_ok q" "max_items q = 20"
    using k1 q1 by (auto simp: rd_def)
  have P1: "placed (requeue k) (wt k) (st k1) (al k) (bq k) ?c (tmp k (active k))" using k1 by simp
  have "n \<noteq> - 1" if "requeue k = n # contents q"
    using placed_ready(2) [OF P1, of n] placed_life(1) [OF P1, of n] that by (auto simp: valid_def)
  with n have n': "requeue k = [] \<and> ?n = 0 \<and> contents q = [] \<or> requeue k = ?n # contents q" by auto
  have "al k ?n" using n' placed_ready(2) [OF P1, of ?n] placed_life(4) [OF P1] by auto
  then have vn: "valid ?n" by (simp add: al_def)
  have shape': "shape (k1\<lparr>ready_q := q\<rparr>)" using k1 q by (intro shape_ready) auto
  have v: "st k' = (st k1)(?n := PROC_RUN)" "al k' = al k" "bq k' = bq k" "rd k' = contents q" "wt k' = wt k"
    "shape k'" "current_pid k' = ?n"
    using shape' vn k1' by (simp_all add: k' st_upd al_upd_same bq_upd_same)
  have P': "placed (contents q) (wt k) ((st k1)(?n := PROC_RUN)) (al k) (bq k) ?n (tmp k (active k))"
    using placed_dispatch [OF P1 _ n'] k1 by blast
  have t: "tmp k' ids = tmp k ids" "tmrs_ok k' ids = tmrs_ok k ids" "active k' = active k" "buffers_ok k' = buffers_ok k" for ids
    by (rule timers_eq; simp add: k' k1')+
  show "running k'"
    using P' v t D(3,4) \<open>al k ?n\<close> by (simp add: running_def kernel_inv_def inv_with_def)
  show "requeue k = [] \<and> current_pid k' = 0 \<and> rd k' = [] \<or> requeue k = current_pid k' # rd k'"
    using n' by (simp add: v)
  show "wt k' = wt k" "al k' = al k" by (fact v)+
  show "sched_partial_tick k' = sched_partial_tick k" "sem_heap k' = sem_heap k"
    "timer_need_refresh k' = timer_need_refresh k" "resched k' = resched k" "did_resched k' = did_resched k"
    by (simp_all add: k' k1')
  fix p assume "valid p"
  with pcb1 [OF this] shape' vn
  show "pcontext (pcb k' p) = pcontext (pcb k p)" "p_timeout (pcb k' p) = p_timeout (pcb k p)"
    by (auto simp: k' pcb_def [of "_\<lparr>current_pid := _\<rparr>"] pcb_def [symmetric] pcb_upd)
qed

lemma flags_inv [simp]:
  "kernel_inv (k\<lparr>resched := x\<rparr>) = kernel_inv k" "kernel_inv (k\<lparr>did_resched := x\<rparr>) = kernel_inv k"
  "kernel_inv (k\<lparr>timer_need_refresh := x\<rparr>) = kernel_inv k" "kernel_inv (k\<lparr>sched_partial_tick := x\<rparr>) = kernel_inv k"
  "kernel_inv (k\<lparr>kernel_ticks := y\<rparr>) = kernel_inv k"
  by (simp_all add: kernel_inv_def inv_with_def tmrs_ok_def buffers_ok_def)

lemma flags_pcb [simp]:
  "pcb (k\<lparr>resched := x\<rparr>) p = pcb k p" "pcb (k\<lparr>did_resched := x\<rparr>) p = pcb k p"
  "pcb (k\<lparr>timer_need_refresh := x\<rparr>) p = pcb k p" "pcb (k\<lparr>sched_partial_tick := x\<rparr>) p = pcb k p"
  "pcb (k\<lparr>kernel_ticks := y\<rparr>) p = pcb k p"
  by (simp_all add: pcb_def)

lemma flags_running [simp]:
  "running (k\<lparr>resched := x\<rparr>) = running k" "running (k\<lparr>did_resched := x\<rparr>) = running k"
  "running (k\<lparr>timer_need_refresh := x\<rparr>) = running k" "running (k\<lparr>sched_partial_tick := x\<rparr>) = running k"
  "running (k\<lparr>kernel_ticks := y\<rparr>) = running k"
  by (simp_all add: running_def)

text \<open>A change to a process that is not about its place.\<close>

lemma upd_inv:
  assumes "shape k" "valid p" "p_state (f (pcb k p)) = p_state (pcb k p)"
    "is_allocated (f (pcb k p)) = is_allocated (pcb k p)" "blockq (f (pcb k p)) = blockq (pcb k p)"
  shows "kernel_inv (upd_pcb p f k) = kernel_inv k" "running (upd_pcb p f k) = running k"
    "requeue (upd_pcb p f k) = requeue k"
proof -
  have t: "tmrs_ok (upd_pcb p f k) ids = tmrs_ok k ids" "buffers_ok (upd_pcb p f k) = buffers_ok k" for ids
    by (simp_all add: tmrs_ok_def buffers_ok_def)
  have v: "st (upd_pcb p f k) = st k" "al (upd_pcb p f k) = al k" "bq (upd_pcb p f k) = bq k"
    using assms by (simp_all add: st_upd_same al_upd_same bq_upd_same)
  show "kernel_inv (upd_pcb p f k) = kernel_inv k" by (simp add: kernel_inv_def inv_with_def t v)
  then show "running (upd_pcb p f k) = running k" by (simp add: running_def v)
  show "requeue (upd_pcb p f k) = requeue k" by (simp add: requeue_def v)
qed

lemma pit_reset_inv [simp]:
  "running (pit_reset k) = running k" "kernel_inv (pit_reset k) = kernel_inv k" "rd (pit_reset k) = rd k"
  "current_pid (pit_reset k) = current_pid k" "sem_heap (pit_reset k) = sem_heap k" "pcb (pit_reset k) p = pcb k p"
  "wt (pit_reset k) = wt k" "resched (pit_reset k) = resched k" "st (pit_reset k) = st k" "al (pit_reset k) = al k"
  by (simp_all add: pit_reset_def)

lemma save_context_inv:
  assumes "kernel_inv k" "valid p"
  shows "running (save_context p ctx k) = running k" "kernel_inv (save_context p ctx k)"
    "requeue (save_context p ctx k) = requeue k"
  using assms upd_inv [OF kernel_invD(1) [OF assms(1)] assms(2)] by (simp_all add: save_context_def)

lemma save_context_frame [simp]:
  "rd (save_context p ctx k) = rd k" "current_pid (save_context p ctx k) = current_pid k"
  "sem_heap (save_context p ctx k) = sem_heap k" "wt (save_context p ctx k) = wt k"
  "resched (save_context p ctx k) = resched k" "did_resched (save_context p ctx k) = did_resched k"
  "timer_need_refresh (save_context p ctx k) = timer_need_refresh k"
  "sched_partial_tick (save_context p ctx k) = sched_partial_tick k"
  by (simp_all add: save_context_def)

lemma scheduler_view:
  assumes K: "kernel_inv k" and s: "scheduler k = (same, k')"
  shows "running k'" "requeue k = [] \<and> current_pid k' = 0 \<and> rd k' = [] \<or> requeue k = current_pid k' # rd k'"
    "same \<longleftrightarrow> current_pid k' = current_pid k" "wt k' = wt k" "al k' = al k" "sem_heap k' = sem_heap k"
    "sched_partial_tick k' = sched_partial_tick k" "timer_need_refresh k' = timer_need_refresh k"
    "\<not> resched k'" "did_resched k'"
    "\<And>p. valid p \<Longrightarrow> pcontext (pcb k' p) = pcontext (pcb k p)"
    "\<And>p. valid p \<Longrightarrow> p_timeout (pcb k' p) = p_timeout (pcb k p)"
proof -
  have "st k (current_pid k) \<noteq> PROC_DEAD" using placed_life(2) [OF kernel_invD(2) [OF K]] kernel_invD(5) [OF K] by blast
  then have "p_state (pcb k (current_pid k)) \<noteq> PROC_DEAD" using kernel_invD(6) [OF K] by (simp add: st_def)
  then have k': "k' = sched_rr k\<lparr>did_resched := True, resched := False\<rparr>"
    and same: "same \<longleftrightarrow> current_pid k' = current_pid k"
    using s by (auto simp: scheduler_def Let_def)
  note V = sched_rr_view [OF K]
  show "running k'" "requeue k = [] \<and> current_pid k' = 0 \<and> rd k' = [] \<or> requeue k = current_pid k' # rd k'"
    "wt k' = wt k" "al k' = al k" "sem_heap k' = sem_heap k"
    "sched_partial_tick k' = sched_partial_tick k" "timer_need_refresh k' = timer_need_refresh k"
    "\<not> resched k'" "did_resched k'"
    "\<And>p. valid p \<Longrightarrow> pcontext (pcb k' p) = pcontext (pcb k p)"
    "\<And>p. valid p \<Longrightarrow> p_timeout (pcb k' p) = p_timeout (pcb k p)"
    using V by (simp_all add: k')
  show "same \<longleftrightarrow> current_pid k' = current_pid k" by (rule same)
qed

text \<open>A process that blocks is switched away: \<open>suspend\<close> never ends in its loop.\<close>

lemma suspend_view:
  assumes K: "kernel_inv k" and b: "st k (current_pid k) \<noteq> PROC_RUN" "current_pid k \<noteq> 0" "current_pid k \<notin> set (rd k)"
  shows "\<exists>k'. suspend ctx k = Some k' \<and> running k' \<and>
    (rd k = [] \<and> current_pid k' = 0 \<and> rd k' = [] \<or> rd k = current_pid k' # rd k') \<and>
    wt k' = wt k \<and> al k' = al k \<and> sem_heap k' = sem_heap k \<and> \<not> resched k' \<and>
    (\<forall>p. valid p \<longrightarrow> pcontext (pcb k' p) = (if p = current_pid k then ctx else pcontext (pcb k p))) \<and>
    (\<forall>p. valid p \<longrightarrow> p_timeout (pcb k' p) = p_timeout (pcb k p))"
proof -
  note D = kernel_invD [OF K]
  obtain same k1 where s: "scheduler k = (same, k1)" by fastforce
  note V = scheduler_view [OF K s]
  have rq: "requeue k = rd k" using b by (simp add: requeue_def)
  have "current_pid k1 \<noteq> current_pid k" using V(2) b rq by auto
  then have sus: "suspend ctx k = Some (pit_reset (save_context (current_pid k) ctx k1))"
    using V(3) by (simp add: suspend_def s)
  have K1: "kernel_inv k1" using V(1) by (simp add: running_def)
  note D1 = kernel_invD [OF K1]
  have "al k1 (current_pid k)" using D(5) V(5) by simp
  then have "st k1 (current_pid k) \<noteq> PROC_DEAD" using placed_life(2) [OF D1(2)] by blast
  then have sv: "save_context (current_pid k) ctx k1 = upd_pcb (current_pid k) (pcontext_update (\<lambda>_. ctx)) k1"
    using D(6) by (simp add: save_context_def st_def)
  show ?thesis
    unfolding sus sv
    using V rq D(6) D1(1) upd_inv(2) [of k1 "current_pid k" "pcontext_update (\<lambda>_. ctx)"]
    by (simp add: pcb_upd al_upd_same)
qed

section \<open>Blocking and unblocking\<close>

lemma enqueue_wait:
  assumes S: "shape k" and P: "placed r (wt k) s (al k) b cur tm" and i: "i < 50" and p: "valid p" "p \<notin> set (wt k i)"
  shows "wt (set_wait_q i (penq (wait_q k i) p) k) = (wt k)(i := wt k i @ [p])"
    "shape (set_wait_q i (penq (wait_q k i) p) k)"
proof -
  note q = shape_wait_ok [OF S i]
  have "valid q" if "q \<in> set (wt k i)" for q
    using placed_waiting(2) [OF P, of q i] placed_waiting(3) [OF P, of q] placed_life(1) [OF P, of q] that by simp
  then have "length (wt k i) < 20"
    using placed_waiting(1) [OF P] p by (intro room_for [of "wt k i" p]) auto
  then have "length (contents (wait_q k i)) < max_items (wait_q k i)" using q i by (simp add: wt_def)
  with q pidq.put_room [of "wait_q k i" p] have "contents (penq (wait_q k i) p) = wt k i @ [p]"
    using i by (simp add: wt_def)
  then show "wt (set_wait_q i (penq (wait_q k i) p) k) = (wt k)(i := wt k i @ [p])"
    by (simp add: wt_set [OF S i])
  show "shape (set_wait_q i (penq (wait_q k i) p) k)"
    using S i q penq_ok [of "wait_q k i" p] by (intro shape_set) auto
qed

lemma process_block_view:
  assumes S: "shape k" and T: "tmrs_ok k (active k)" "buffers_ok k"
    and P: "placed (rd k) (wt k) (st k) (al k) (bq k) (current_pid k) tm"
    and x: "x = PROC_WAIT \<and> tmp k (active k) = tm \<or> x = PROC_TIMED_WAIT \<and> tmp k (active k) = insert (current_pid k) tm"
    and c: "al k (current_pid k)" "current_pid k \<noteq> 0" "st k (current_pid k) = PROC_RUN" and i: "i < 50"
  shows "\<exists>k'. process_block ctx i x k = Some k' \<and> running k' \<and>
    (rd k = [] \<and> current_pid k' = 0 \<and> rd k' = [] \<or> rd k = current_pid k' # rd k') \<and>
    wt k' = (wt k)(i := wt k i @ [current_pid k]) \<and> al k' = al k \<and> \<not> resched k' \<and>
    sem_heap k' = (sem_heap k)[i := (sem_heap k ! i)\<lparr>sem_wait_q := penq (wait_q k i) (current_pid k)\<rparr>] \<and>
    (\<forall>p. valid p \<longrightarrow> pcontext (pcb k' p) = (if p = current_pid k then ctx else pcontext (pcb k p))) \<and>
    (\<forall>p. valid p \<longrightarrow> p_timeout (pcb k' p) = p_timeout (pcb k p))"
proof -
  let ?c = "current_pid k"
  have v: "valid ?c" using c(1) by (simp add: al_def)
  have "bq k ?c = None" using placed_waiting(3) [OF P, of ?c] c by auto
  then have nw: "?c \<notin> set (wt k i)" using placed_waiting(2) [OF P, of ?c i] by simp
  have nr: "?c \<notin> set (rd k)" using placed_ready(2) [OF P, of ?c] c by simp
  define k1 where "k1 = set_wait_q i (penq (wait_q k i) ?c) k"
  have k1: "wt k1 = (wt k)(i := wt k i @ [?c])" "shape k1" using enqueue_wait [OF S P i v nw] by (simp_all add: k1_def)
  define k2 where "k2 = upd_pcb ?c (\<lambda>p. p\<lparr>blockq := Some i, p_state := x\<rparr>) k1"
  have v2: "st k2 = (st k)(?c := x)" "bq k2 = (bq k)(?c := Some i)" "al k2 = al k" "rd k2 = rd k" "wt k2 = wt k1"
    "shape k2" "current_pid k2 = ?c"
    using k1(2) v by (simp_all add: k2_def st_upd bq_upd al_upd_same) (simp_all add: k1_def)
  have t2: "tmp k2 ids = tmp k ids" "tmrs_ok k2 ids = tmrs_ok k ids" "active k2 = active k" "buffers_ok k2 = buffers_ok k" for ids
    by (rule timers_eq; simp add: k2_def k1_def)+
  have "kernel_inv k2"
    using placed_block [OF P c x, of i] v2 k1 T t2 c(1) by (simp add: kernel_inv_def inv_with_def)
  moreover have "st k2 (current_pid k2) \<noteq> PROC_RUN" "current_pid k2 \<noteq> 0" "current_pid k2 \<notin> set (rd k2)"
    using v2 x c(2) nr by auto
  ultimately obtain k' where k': "suspend ctx k2 = Some k'" "running k'"
    "rd k2 = [] \<and> current_pid k' = 0 \<and> rd k' = [] \<or> rd k2 = current_pid k' # rd k'"
    "wt k' = wt k2" "al k' = al k2" "sem_heap k' = sem_heap k2" "\<not> resched k'"
    "\<forall>p. valid p \<longrightarrow> pcontext (pcb k' p) = (if p = current_pid k2 then ctx else pcontext (pcb k2 p))"
    "\<forall>p. valid p \<longrightarrow> p_timeout (pcb k' p) = p_timeout (pcb k2 p)"
    using suspend_view [of k2 ctx] by blast
  have "process_block ctx i x k = suspend ctx k2"
    by (simp add: process_block_def Let_def k2_def k1_def)
  moreover have "sem_heap k2 = (sem_heap k)[i := (sem_heap k ! i)\<lparr>sem_wait_q := penq (wait_q k i) ?c\<rparr>]"
    by (simp add: k2_def) (simp add: k1_def set_wait_q_def)
  moreover have "pcontext (pcb k2 p) = pcontext (pcb k p) \<and> p_timeout (pcb k2 p) = p_timeout (pcb k p)" if "valid p" for p
    using k1(2) v that by (simp add: k2_def pcb_upd) (simp add: k1_def)
  ultimately show ?thesis using k' v2 k1 by auto
qed

text \<open>The first waiting process, if any, moves to the end of the ready queue.\<close>

lemma process_unblock_view:
  assumes K: "kernel_inv k" and i: "i < 50" and w: "wt k i = p # ps"
  defines "k' \<equiv> process_unblock i k"
  shows "kernel_inv k'" "rd k' = rd k @ [p]" "wt k' = (wt k)(i := ps)" "st k' = (st k)(p := PROC_READY)" "al k' = al k"
    "current_pid k' = current_pid k" "resched k' = resched k" "sched_partial_tick k' = sched_partial_tick k"
    "sem_heap k' = (sem_heap k)[i := (sem_heap k ! i)\<lparr>sem_wait_q := snd (pdeq (wait_q k i))\<rparr>]"
    "\<And>q. valid q \<Longrightarrow> pcontext (pcb k' q) = pcontext (pcb k q)"
    "\<And>q. valid q \<Longrightarrow> p_timeout (pcb k' q) = p_timeout (pcb k q)"
    "tmp k' (active k') = tmp k (active k) - {p}"
proof -
  note D = kernel_invD [OF K]
  note S = D(1) and P = D(2)
  obtain x q where d: "pdeq (wait_q k i) = (x, q)" by fastforce
  have "contents (wait_q k i) = p # ps" using w i by (simp add: wt_def)
  with pidq.get_first [OF _ _ d] shape_wait_ok [OF S i]
  have q: "x = p" "contents q = ps" "queue_ok q" "max_items q = 20" by auto
  have b: "bq k p = Some i" using placed_waiting(2) [OF P, of p i] w by simp
  then have a: "al k p" "st k p = PROC_WAIT \<or> st k p = PROC_TIMED_WAIT" using placed_waiting(3) [OF P, of p] by auto
  then have v: "valid p" by (simp add: al_def)
  then have pm: "p \<noteq> - 1" by (auto simp: valid_def)
  have p0: "p \<noteq> 0" using placed_idle(2) [OF P, of i] w by auto
  have nr: "p \<notin> set (rd k)" using placed_ready(2) [OF P, of p] a by auto
  have w1: "(wt k)(i := ps) = (\<lambda>j. remove1 p (wt k j))"
  proof
    fix j
    have "p \<in> set (wt k j) \<longleftrightarrow> j = i" using placed_waiting(2) [OF P, of p j] b by auto
    then show "((wt k)(i := ps)) j = remove1 p (wt k j)" using w by (auto simp: remove1_idem)
  qed
  define k1 where "k1 = set_wait_q i q k"
  have k1: "shape k1" "wt k1 = (wt k)(i := ps)" using S i q by (simp_all add: k1_def shape_set wt_set)
  have t1: "tmp k1 ids = tmp k ids" "tmrs_ok k1 ids = tmrs_ok k ids" "active k1 = active k" "buffers_ok k1 = buffers_ok k" for ids
    by (rule timers_eq; simp add: k1_def)+
  obtain rem k2' where rt: "remove_tmr p k1 = (rem, k2')" by fastforce
  from remove_tmr_view [OF _ _ pm rt] D(3,4) t1
  have R: "tmrs_ok k2' (active k2')" "tmp k2' (active k2') = tmp k (active k) - {p}" "buffers_ok k2'"
    "ptable k2' = ptable k1" "ready_q k2' = ready_q k1" "sem_heap k2' = sem_heap k1" "current_pid k2' = current_pid k1"
    "sched_partial_tick k2' = sched_partial_tick k1" "resched k2' = resched k1" by simp_all
  have vR: "st k2' = st k1" "al k2' = al k1" "bq k2' = bq k1" "rd k2' = rd k1" "wt k2' = wt k1" "shape k2' = shape k1"
    "pcb k2' q = pcb k1 q" for q
    by (rule view_eq; simp add: R)+
  define k2 where "k2 = (if p_state (pcb k1 p) = PROC_TIMED_WAIT
    then upd_pcb p (p_remain_update (\<lambda>_. rem)) k2' else k1)"
  have k2: "shape k2" "st k2 = st k" "al k2 = al k" "bq k2 = bq k" "rd k2 = rd k" "wt k2 = (wt k)(i := ps)"
    "current_pid k2 = current_pid k" "sem_heap k2 = sem_heap k1" "resched k2 = resched k"
    "sched_partial_tick k2 = sched_partial_tick k"
    using k1 vR R v by (auto simp: k2_def st_upd_same al_upd_same bq_upd_same) (auto simp: k1_def)
  have pcb2: "pcontext (pcb k2 q) = pcontext (pcb k q) \<and> p_timeout (pcb k2 q) = p_timeout (pcb k q)" if "valid q" for q
    using k1 vR v that by (simp add: k2_def pcb_upd) (simp add: k1_def)
  have "p_state (pcb k1 p) = st k p" using v by (simp add: k1_def st_def)
  have nt: "p \<notin> tmp k (active k)" if "st k p \<noteq> PROC_TIMED_WAIT"
    using placed_timers(2) [OF P, of p] a that by auto
  have t2: "tmp k2 (active k2) = tmp k (active k) - {p} \<and> tmrs_ok k2 (active k2) \<and> buffers_ok k2"
  proof (cases "st k p = PROC_TIMED_WAIT")
    case True
    then have k2': "k2 = upd_pcb p (p_remain_update (\<lambda>_. rem)) k2'"
      using \<open>p_state (pcb k1 p) = st k p\<close> by (simp add: k2_def)
    have "tmp k2 ids = tmp k2' ids" "tmrs_ok k2 ids = tmrs_ok k2' ids" "active k2 = active k2'" "buffers_ok k2 = buffers_ok k2'" for ids
      by (rule timers_eq; simp add: k2')+
    with R(1-3) show ?thesis by simp
  next
    case False
    then have "k2 = k1" using \<open>p_state (pcb k1 p) = st k p\<close> by (simp add: k2_def)
    with nt [OF False] t1 D(3,4) show ?thesis by simp
  qed
  define k3 where "k3 = upd_pcb p (\<lambda>p. p\<lparr>p_state := PROC_READY, blockq := None\<rparr>) k2"
  have v3: "shape k3" "st k3 = (st k)(p := PROC_READY)" "al k3 = al k" "bq k3 = (bq k)(p := None)" "rd k3 = rd k"
    "wt k3 = wt k2" "current_pid k3 = current_pid k" "sem_heap k3 = sem_heap k1"
    using k2 v by (simp_all add: k3_def st_upd bq_upd al_upd_same)
  have t3: "tmp k3 ids = tmp k2 ids" "tmrs_ok k3 ids = tmrs_ok k2 ids" "active k3 = active k2" "buffers_ok k3 = buffers_ok k2" for ids
    by (rule timers_eq; simp add: k3_def)+
  have k': "k' = k3\<lparr>ready_q := penq (ready_q k3) p\<rparr>"
    using pm rt by (simp add: k'_def process_unblock_def d q(1) k3_def k2_def k1_def Let_def)
  have "placed (rd k3) (wt k) (st k) (al k) (bq k) (current_pid k) (tmp k (active k))" using P v3 by simp
  from enqueue_ready [OF v3(1) this v] nr v3
  have e: "rd k' = rd k @ [p]" "shape k'" by (simp_all add: k')
  have t4: "tmp k' ids = tmp k3 ids" "tmrs_ok k' ids = tmrs_ok k3 ids" "active k' = active k3" "buffers_ok k' = buffers_ok k3" for ids
    by (rule timers_eq; simp add: k')+
  from placed_wake [OF P a(1) p0 _ w1] a
  have "placed (rd k @ [p]) ((wt k)(i := ps)) ((st k)(p := PROC_READY)) (al k) ((bq k)(p := None)) (current_pid k) (tmp k (active k) - {p})"
    by auto
  then show "kernel_inv k'"
    unfolding kernel_inv_def inv_with_def t4 t3
    using e v3 k2 t2 D(5) by (simp add: k')
  show "tmp k' (active k') = tmp k (active k) - {p}" unfolding t4 t3 using t2 by simp
  show "rd k' = rd k @ [p]" by (rule e)
  show "wt k' = (wt k)(i := ps)" "st k' = (st k)(p := PROC_READY)" "al k' = al k" "current_pid k' = current_pid k"
    using v3 k2 by (simp_all add: k')
  show "resched k' = resched k" "sched_partial_tick k' = sched_partial_tick k"
    using k2 by (simp_all add: k' k3_def)
  show "sem_heap k' = (sem_heap k)[i := (sem_heap k ! i)\<lparr>sem_wait_q := snd (pdeq (wait_q k i))\<rparr>]"
    using v3 by (simp add: k') (simp add: k1_def set_wait_q_def d)
  fix q assume "valid q"
  with pcb2 [OF this] k2(1) v show "pcontext (pcb k' q) = pcontext (pcb k q)" "p_timeout (pcb k' q) = p_timeout (pcb k q)"
    by (auto simp: k' k3_def pcb_upd)
qed

end
