(* ===== verification/Kernel_Steps.thy ===== *)
theory Kernel_Steps
  imports Kernel_Moves
begin

text \<open>
  What the steps of the kernel keep. Every system call, every return into a system call and every
  timer interrupt ends (the kernel does not hang) with a running process and every process in its
  place, provided that no semaphore with a unit to give is destroyed while a process waits on it
  (\<open>tidy\<close>); with no unit to give the source refuses.
\<close>

section \<open>Steps inside a system call\<close>

definition sems_ok :: "kernel \<Rightarrow> bool" where
  "sems_ok k \<longleftrightarrow> (\<forall>i<MAX_SEM. \<not> sem_unlink (sem_heap k ! i) \<and> (sem_id (sem_heap k ! i) = - 1 \<longrightarrow> wt k i = []))"

lemma upd_sem_frame [simp]:
  "ptable (upd_sem i f k) = ptable k" "ready_q (upd_sem i f k) = ready_q k" "current_pid (upd_sem i f k) = current_pid k"
  "soft_tmrs (upd_sem i f k) = soft_tmrs k" "active_tmrs_a (upd_sem i f k) = active_tmrs_a k"
  "active_tmrs_b (upd_sem i f k) = active_tmrs_b k" "active_is_a (upd_sem i f k) = active_is_a k"
  "nactive (upd_sem i f k) = nactive k" "sched_partial_tick (upd_sem i f k) = sched_partial_tick k"
  "resched (upd_sem i f k) = resched k" "pcb (upd_sem i f k) p = pcb k p" "st (upd_sem i f k) = st k"
  "al (upd_sem i f k) = al k" "bq (upd_sem i f k) = bq k" "rd (upd_sem i f k) = rd k"
  by (simp_all add: upd_sem_def pcb_def st_def al_def bq_def rd_def fun_eq_iff)

lemma upd_sem_timers [simp]:
  "tmp (upd_sem i f k) ids = tmp k ids" "tmrs_ok (upd_sem i f k) ids = tmrs_ok k ids"
  "active_tmrs (upd_sem i f k) = active_tmrs k" "buffers_ok (upd_sem i f k) = buffers_ok k"
  by (simp_all add: tmp_def tmrs_ok_def active_tmrs_def buffers_ok_def)

lemma sem_upd:
  "length (sem_heap k) = 50 \<Longrightarrow> i < 50 \<Longrightarrow> sem_heap (upd_sem i f k) ! j = (if j = i then f (sem_heap k ! i) else sem_heap k ! j)"
  by (simp add: upd_sem_def nth_list_update)

lemma upd_sem_queue:
  assumes "shape k" "i < 50" "sem_wait_q (f (sem_heap k ! i)) = sem_wait_q (sem_heap k ! i)"
  shows "wt (upd_sem i f k) = wt k" "shape (upd_sem i f k)" "wait_q (upd_sem i f k) = wait_q k"
proof -
  have l: "length (sem_heap k) = 50" using assms(1) by (simp add: shape_def)
  show w: "wait_q (upd_sem i f k) = wait_q k"
    using assms(2,3) l by (auto simp: wait_q_def sem_upd)
  then show "wt (upd_sem i f k) = wt k" by (simp add: wt_def fun_eq_iff)
  show "shape (upd_sem i f k)" using assms(1) l by (simp add: shape_def w) (simp add: upd_sem_def)
qed

lemma upd_sem_inv:
  assumes "running k" "i < 50" "sem_wait_q (f (sem_heap k ! i)) = sem_wait_q (sem_heap k ! i)"
  shows "running (upd_sem i f k)"
proof -
  have K: "kernel_inv k" "st k (current_pid k) = PROC_RUN" using assms(1) by (simp_all add: running_def)
  note D = kernel_invD [OF K(1)]
  from upd_sem_queue [where f = f, OF D(1) assms(2,3)] K D show ?thesis
    by (simp add: running_def kernel_inv_def inv_with_def)
qed

lemma sems_upd:
  assumes "sems_ok k" "shape k" "i < 50" "wt (upd_sem i f k) = wt k" "\<not> sem_unlink (f (sem_heap k ! i))"
    "sem_id (f (sem_heap k ! i)) = - 1 \<Longrightarrow> wt k i = []"
  shows "sems_ok (upd_sem i f k)"
  using assms by (auto simp: sems_ok_def sem_upd shape_def)

lemma sem_found:
  "get_sem_by_semt k sem = Some i \<Longrightarrow> i < 50 \<and> sem_id (sem_heap k ! i) \<noteq> - 1"
  by (auto simp: get_sem_by_semt_def word_less_nat_alt split: option.splits if_splits)

text \<open>What a call does to the processes: it returns in the same process, having made some others
  ready, or it switches to the first process in the ready queue.\<close>

definition call_ok :: "kernel \<Rightarrow> outcome \<Rightarrow> bool" where
  "call_ok k out \<longleftrightarrow>
     (case out of
        None \<Rightarrow> False
      | Some (Some r, k') \<Rightarrow>
          running k' \<and> sems_ok k' \<and> al k' = al k \<and> current_pid k' = current_pid k \<and>
          sched_partial_tick k' = sched_partial_tick k \<and> (\<exists>new. rd k' = rd k @ new)
      | Some (None, k') \<Rightarrow>
          running k' \<and> sems_ok k' \<and> al k' = al k \<and>
          (rd k = [] \<and> current_pid k' = 0 \<and> rd k' = [] \<or> rd k = current_pid k' # rd k'))"

lemma set_errno_ok:
  assumes "running k" "sems_ok k"
  shows "running (set_errno e k)" "sems_ok (set_errno e k)" "al (set_errno e k) = al k"
    "current_pid (set_errno e k) = current_pid k" "rd (set_errno e k) = rd k"
    "sched_partial_tick (set_errno e k) = sched_partial_tick k"
proof -
  have K: "kernel_inv k" using assms(1) by (simp add: running_def)
  note D = kernel_invD [OF K]
  show "running (set_errno e k)" using assms(1) D by (simp add: set_errno_def upd_inv(2))
  show "al (set_errno e k) = al k" using D by (simp add: set_errno_def al_upd_same)
  show "sems_ok (set_errno e k)" using assms(2) by (simp add: set_errno_def sems_ok_def)
qed (simp_all add: set_errno_def)

lemma ret_ok:
  "running k' \<Longrightarrow> sems_ok k' \<Longrightarrow> al k' = al k \<Longrightarrow> current_pid k' = current_pid k \<Longrightarrow>
   sched_partial_tick k' = sched_partial_tick k \<Longrightarrow> rd k' = rd k @ new \<Longrightarrow>
   call_ok k (ret r k')"
  by (simp add: ret_def call_ok_def)

lemma fail_ok:
  "running k' \<Longrightarrow> sems_ok k' \<Longrightarrow> al k' = al k \<Longrightarrow> current_pid k' = current_pid k \<Longrightarrow>
   sched_partial_tick k' = sched_partial_tick k \<Longrightarrow> rd k' = rd k @ new \<Longrightarrow>
   call_ok k (fail e k')"
  unfolding fail_def using set_errno_ok [of k' e] by (intro ret_ok) simp_all

lemma wait_end_ok: "running k' \<Longrightarrow> sems_ok k' \<Longrightarrow> al k' = al k \<Longrightarrow> current_pid k' = current_pid k \<Longrightarrow>
   sched_partial_tick k' = sched_partial_tick k \<Longrightarrow> rd k' = rd k @ new \<Longrightarrow>
   call_ok k (sem_wait_end i k')"
  by (simp add: sem_wait_end_def ret_ok fail_ok)

lemma runningD:
  assumes "running k"
  shows "kernel_inv k" "shape k" "placed (rd k) (wt k) (st k) (al k) (bq k) (current_pid k) (tmp k (active k))"
    "tmrs_ok k (active k)" "buffers_ok k" "al k (current_pid k)" "valid (current_pid k)"
    "st k (current_pid k) = PROC_RUN"
  using assms kernel_invD [of k] by (auto simp: running_def)

section \<open>The semaphore calls\<close>

lemma sem_init_ok:
  assumes R: "running k" and S: "sems_ok k"
  shows "call_ok k (sys_sem_init pshared v k)"
proof -
  note D = runningD [OF R]
  have l: "length (sem_heap k) = 50" using D(2) by (simp add: shape_def)
  define i where "i = length (takeWhile (\<lambda>s. sem_id s \<noteq> - 1) (sem_heap k))"
  show ?thesis
  proof (cases "i = 50")
    case True
    with R S l show ?thesis by (simp add: sys_sem_init_def i_def fail_ok)
  next
    case False
    then have i: "i < 50" "sem_id (sem_heap k ! i) = - 1"
      using length_takeWhile_le [of "\<lambda>s. sem_id s \<noteq> - 1" "sem_heap k"] nth_length_takeWhile [of "\<lambda>s. sem_id s \<noteq> - 1" "sem_heap k"] l
      by (simp_all add: i_def)
    let ?f = "\<lambda>s. s\<lparr>sem_id := int i, sem_value := ucast v, sem_unlink := False, sem_wait_q := qinit (sem_wait_q s),
      sem_owner := (if pshared = 0 then current_pid k else - 1)\<rparr>"
    have e: "wt k i = []" using S i by (simp add: sems_ok_def)
    have q: "queue_ok (wait_q k i)" "max_items (wait_q k i) = 20" using shape_wait_ok [OF D(2) i(1)] by auto
    have "wt (upd_sem i ?f k) j = wt k j" for j
      using e i(1) l by (auto simp: wt_def wait_q_def sem_upd)
    then have w: "wt (upd_sem i ?f k) = wt k" by (rule ext)
    have "shape (upd_sem i ?f k)"
      using D(2) l q i(1) qinit_ok [OF q(1)] unfolding shape_def
      by (auto simp: wait_q_def sem_upd qinit_def) (simp_all add: upd_sem_def)
    with w D have "running (upd_sem i ?f k)" by (simp add: running_def kernel_inv_def inv_with_def)
    moreover have "sems_ok (upd_sem i ?f k)" using sems_upd [OF S D(2) i(1) w] by simp
    moreover have "sys_sem_init pshared v k = Some (Some (Returns 0 (Some (int i))), upd_sem i ?f k)"
      using False l by (simp add: sys_sem_init_def i_def Let_def)
    ultimately show ?thesis by (simp add: call_ok_def)
  qed
qed

lemma value_upd:
  assumes "running k" "sems_ok k" "i < 50" "sem_id (sem_heap k ! i) \<noteq> - 1"
  shows "running (upd_sem i (sem_value_update g) k)" "sems_ok (upd_sem i (sem_value_update g) k)"
    "wt (upd_sem i (sem_value_update g) k) = wt k"
proof -
  note D = runningD [OF assms(1)]
  show "running (upd_sem i (sem_value_update g) k)" using assms by (intro upd_sem_inv) simp_all
  show w: "wt (upd_sem i (sem_value_update g) k) = wt k" using upd_sem_queue [OF D(2) assms(3)] by simp
  show "sems_ok (upd_sem i (sem_value_update g) k)"
    using sems_upd [OF assms(2) D(2) assms(3) w] assms(2,3,4) by (simp add: sems_ok_def)
qed

lemma block_result:
  assumes R: "running k" and S: "sems_ok k" and i: "i < 50" "sem_id (sem_heap k ! i) \<noteq> - 1" and c: "current_pid k \<noteq> 0"
    and k1: "k1 = k \<and> x = PROC_WAIT \<or> add_tmr (current_pid k) ms k = (0, k1) \<and> x = PROC_TIMED_WAIT"
  shows "\<exists>k'. process_block ctx i x k1 = Some k' \<and> running k' \<and> sems_ok k' \<and>
    (rd k = [] \<and> current_pid k' = 0 \<and> rd k' = [] \<or> rd k = current_pid k' # rd k') \<and>
    wt k' = (wt k)(i := wt k i @ [current_pid k]) \<and> al k' = al k \<and>
    sem_heap k' = (sem_heap k)[i := (sem_heap k ! i)\<lparr>sem_wait_q := penq (wait_q k i) (current_pid k)\<rparr>]"
proof -
  note D = runningD [OF R]
  have ct: "current_pid k \<notin> tmp k (active k)" using placed_timers(2) [OF D(3), of "current_pid k"] D(8) by auto
  have cm: "current_pid k \<noteq> - 1" using D(7) by (auto simp: valid_def)
  have A: "add_tmr (current_pid k) ms k = (0, k1) \<Longrightarrow> tmrs_ok k1 (active k1) \<and> tmp k1 (active k1) = insert (current_pid k) (tmp k (active k)) \<and>
      buffers_ok k1 \<and> ptable k1 = ptable k \<and> ready_q k1 = ready_q k \<and> sem_heap k1 = sem_heap k \<and> current_pid k1 = current_pid k"
    using add_tmr_view [OF D(4,5) cm ct few_timers [OF D(4,3)], where res = 0] by simp
  have same: "ptable k1 = ptable k \<and> ready_q k1 = ready_q k \<and> sem_heap k1 = sem_heap k \<and> current_pid k1 = current_pid k \<and>
      tmrs_ok k1 (active k1) \<and> buffers_ok k1"
    and x: "x = PROC_WAIT \<and> tmp k1 (active k1) = tmp k (active k) \<or>
      x = PROC_TIMED_WAIT \<and> tmp k1 (active k1) = insert (current_pid k1) (tmp k (active k))"
    using A k1 D(4,5) by auto
  have v: "st k1 = st k" "al k1 = al k" "bq k1 = bq k" "rd k1 = rd k" "wt k1 = wt k" "shape k1 = shape k"
    by (rule view_eq; simp add: same)+
  have "placed (rd k1) (wt k1) (st k1) (al k1) (bq k1) (current_pid k1) (tmp k (active k))" using D(3) v same by simp
  from process_block_view [OF _ _ _ this x, of i ctx] obtain k' where
    k': "process_block ctx i x k1 = Some k'" "running k'"
      "rd k = [] \<and> current_pid k' = 0 \<and> rd k' = [] \<or> rd k = current_pid k' # rd k'"
      "wt k' = (wt k)(i := wt k i @ [current_pid k])" "al k' = al k"
      "sem_heap k' = (sem_heap k)[i := (sem_heap k ! i)\<lparr>sem_wait_q := penq (wait_q k1 i) (current_pid k)\<rparr>]"
    using D v same c i by auto
  moreover have "sems_ok k'"
    using S i k'(4,6) D(2) by (auto simp: sems_ok_def shape_def nth_list_update)
  moreover have "wait_q k1 i = wait_q k i" using same by (simp add: wait_q_def)
  ultimately show ?thesis by auto
qed

lemma block_ok:
  assumes R: "running k" and S: "sems_ok k" and i: "i < 50" "sem_id (sem_heap k ! i) \<noteq> - 1" and c: "current_pid k \<noteq> 0"
    and k1: "k1 = k \<and> x = PROC_WAIT \<or> add_tmr (current_pid k) ms k = (0, k1) \<and> x = PROC_TIMED_WAIT"
  shows "call_ok k (map_option (Pair None) (process_block ctx i x k1))"
  using block_result [OF assms, of ctx] by (auto simp: call_ok_def)

lemma add_tmr_ok: "running k \<Longrightarrow> \<exists>k1. add_tmr (current_pid k) ms k = (0, k1)"
proof -
  assume R: "running k"
  note D = runningD [OF R]
  have "current_pid k \<notin> tmp k (active k)" "current_pid k \<noteq> - 1"
    using placed_timers(2) [OF D(3), of "current_pid k"] D(7,8) by (auto simp: valid_def)
  from add_tmr_view(1) [OF D(4,5) this(2,1) few_timers [OF D(4,3)]]
  show ?thesis by (cases "add_tmr (current_pid k) ms k") auto
qed

lemma sem_wait_ok:
  assumes R: "running k" and S: "sems_ok k" and c: "current_pid k \<noteq> 0"
  shows "call_ok k (sys_sem_wait_x sem k)" "call_ok k (sys_sem_timedwait sem ms k)"
proof -
  have "call_ok k (sys_sem_wait_x sem k) \<and> call_ok k (sys_sem_timedwait sem ms k)"
  proof (cases "get_sem_by_semt k sem")
    case None
    with R S show ?thesis by (simp add: sys_sem_wait_x_def sys_sem_timedwait_def fail_ok)
  next
    case (Some i)
    then have i: "i < 50" "sem_id (sem_heap k ! i) \<noteq> - 1" by (auto dest: sem_found)
    let ?k = "upd_sem i (sem_value_update (\<lambda>v. v - 1)) k"
    note V = value_upd [OF R S i]
    have l: "length (sem_heap k) = 50" using runningD(2) [OF R] by (simp add: shape_def)
    have i': "sem_id (sem_heap ?k ! i) \<noteq> - 1" using i l by (simp add: sem_upd)
    have c': "current_pid ?k \<noteq> 0" using c by simp
    obtain k1 where k1: "add_tmr (current_pid ?k) ms ?k = (0, k1)" using add_tmr_ok [OF V(1)] by blast
    have lift: "call_ok ?k out \<Longrightarrow> call_ok k out" for out
      by (simp only: call_ok_def upd_sem_frame)
    have b1: "call_ok ?k (map_option (Pair None) (process_block (In_sem_wait i) i PROC_WAIT ?k))"
      by (rule block_ok [OF V(1,2) i(1) i' c']) simp
    have b2: "call_ok ?k (map_option (Pair None) (process_block (In_sem_timedwait i) i PROC_TIMED_WAIT k1))"
      by (rule block_ok [OF V(1,2) i(1) i' c', of k1 _ ms]) (use k1 in simp)
    have e: "call_ok ?k (sem_wait_end i ?k)" by (rule wait_end_ok [OF V(1,2)]) simp_all
    show ?thesis
      using lift [OF b1] lift [OF b2] lift [OF e] k1
      by (simp add: sys_sem_wait_x_def sys_sem_timedwait_def Some Let_def)
  qed
  then show "call_ok k (sys_sem_wait_x sem k)" "call_ok k (sys_sem_timedwait sem ms k)" by auto
qed

lemma sem_simple_ok:
  assumes R: "running k" and S: "sems_ok k"
  shows "call_ok k (sys_sem_trywait sem k)" "call_ok k (sys_sem_getvalue sem k)"
proof -
  have "call_ok k (sys_sem_trywait sem k) \<and> call_ok k (sys_sem_getvalue sem k)"
  proof (cases "get_sem_by_semt k sem")
    case None
    with R S show ?thesis by (simp add: sys_sem_trywait_def sys_sem_getvalue_def fail_ok)
  next
    case (Some i)
    then have i: "i < 50" "sem_id (sem_heap k ! i) \<noteq> - 1" by (auto dest: sem_found)
    have "call_ok k (ret 0 (upd_sem i (sem_value_update (\<lambda>v. v - 1)) k))"
      using value_upd [OF R S i, of "\<lambda>v. v - 1"] by (intro ret_ok [where new = "[]"]) simp_all
    moreover have "call_ok k (fail EAGAIN k)" using R S by (intro fail_ok [where new = "[]"]) simp_all
    moreover have "call_ok k (Some (Some x, k))" for x using R S by (simp add: call_ok_def)
    ultimately show ?thesis by (simp add: sys_sem_trywait_def sys_sem_getvalue_def Some)
  qed
  then show "call_ok k (sys_sem_trywait sem k)" "call_ok k (sys_sem_getvalue sem k)" by auto
qed

lemma sem_destroy_ok:
  assumes R: "running k" and S: "sems_ok k" 
    and w: "\<And>i. get_sem_by_semt k sem = Some i \<Longrightarrow> 0 < sint (sem_value (sem_heap k ! i)) \<Longrightarrow> wt k i = []"
  shows "call_ok k (sys_sem_destroy sem k)"
proof (cases "get_sem_by_semt k sem")
  case None
  with R S show ?thesis by (simp add: sys_sem_destroy_def fail_ok)
next
  case (Some i)
  then have i: "i < 50" by (auto dest: sem_found)
  note D = runningD [OF R]
  show ?thesis
  proof (cases "sint (sem_value (sem_heap k ! i)) \<le> 0 \<and> 0 < item_count (wait_q k i)")
    case True
    have "call_ok k (fail EBUSY k)" using R S by (intro fail_ok [where new = "[]"]) simp_all
    then show ?thesis using True by (simp add: sys_sem_destroy_def Some)
  next
    case False
    then have e: "wt k i = []" using w [OF Some] i contents_Nil [of "wait_q k i"] by (auto simp: wt_def)
    have "running (upd_sem i free_sem k)" by (rule upd_sem_inv [OF R i]) (simp add: free_sem_def)
    moreover have "sems_ok (upd_sem i free_sem k)"
      using upd_sem_queue(1) [OF D(2) i, of free_sem] e
      by (intro sems_upd [OF S D(2) i]) (simp_all add: free_sem_def)
    ultimately have "call_ok k (ret 0 (upd_sem i free_sem k))" by (intro ret_ok [where new = "[]"]) simp_all
    moreover have "sys_sem_destroy sem k = ret 0 (upd_sem i free_sem k)"
      unfolding sys_sem_destroy_def Some using False by (simp only: option.case if_False)
    ultimately show ?thesis by simp
  qed
qed

lemma unblock_ok:
  assumes R: "running k" and S: "sems_ok k" and i: "i < 50" and w: "wt k i = p # ps"
  shows "running (process_unblock i k)" "sems_ok (process_unblock i k)" "al (process_unblock i k) = al k"
    "current_pid (process_unblock i k) = current_pid k" "rd (process_unblock i k) = rd k @ [p]"
    "sched_partial_tick (process_unblock i k) = sched_partial_tick k"
proof -
  note D = runningD [OF R]
  note V = process_unblock_view [OF D(1) i w]
  show "al (process_unblock i k) = al k" "current_pid (process_unblock i k) = current_pid k"
    "rd (process_unblock i k) = rd k @ [p]" "sched_partial_tick (process_unblock i k) = sched_partial_tick k" by (fact V)+
  have "bq k p = Some i" using placed_waiting(2) [OF D(3), of p i] w by simp
  then have "st k p \<noteq> PROC_RUN" using placed_waiting(3) [OF D(3), of p] by auto
  then have "st (process_unblock i k) (current_pid k) = PROC_RUN" using V(4) D(8) by auto
  with V(1,6) show "running (process_unblock i k)" by (simp add: running_def)
  show "sems_ok (process_unblock i k)"
    using S V(3,9) D(2) i w by (auto simp: sems_ok_def shape_def nth_list_update)
qed

lemma sem_post_ok:
  assumes R: "running k" and S: "sems_ok k"
  shows "call_ok k (sys_sem_post sem k)"
proof (cases "get_sem_by_semt k sem")
  case None
  with R S show ?thesis by (simp add: sys_sem_post_def fail_ok)
next
  case (Some i)
  then have i: "i < 50" "sem_id (sem_heap k ! i) \<noteq> - 1" by (auto dest: sem_found)
  let ?k = "upd_sem i (sem_value_update (\<lambda>v. v + 1)) k"
  note V = value_upd [OF R S i, of "\<lambda>v. v + 1"]
  note D = runningD [OF R]
  have l: "length (sem_heap k) = 50" using D(2) by (simp add: shape_def)
  have u: "\<not> sem_unlink (sem_heap ?k ! i)" using S i l by (simp add: sems_ok_def sem_upd)
  have woken: "call_ok k (ret 0 (process_unblock i ?k))" if "0 < item_count (sem_wait_q (sem_heap ?k ! i))"
  proof -
    have "wt ?k i \<noteq> []" using that i(1) contents_Nil [of "wait_q ?k i"] by (auto simp: wt_def wait_q_def)
    then obtain p ps where w: "wt ?k i = p # ps" by (auto simp: neq_Nil_conv)
    from unblock_ok [OF V(1,2) i(1) w] show ?thesis by (intro ret_ok [where new = "[p]"]) simp_all
  qed
  have "call_ok k (ret 0 ?k)" using V by (intro ret_ok [where new = "[]"]) simp_all
  with woken u show ?thesis by (simp add: sys_sem_post_def Some Let_def)
qed

section \<open>Sleeping and yielding\<close>

lemma sleep_ok:
  assumes R: "running k" and S: "sems_ok k" and c: "current_pid k \<noteq> 0"
  shows "call_ok k (call (Sleep ms) k)" "call_ok k (call Yield k)"
proof -
  note D = runningD [OF R]
  show "call_ok k (call Yield k)" using R S by (simp add: sys_yield_def call_ok_def ret_def sems_ok_def)
  obtain k1 where k1: "add_tmr (current_pid k) ms k = (0, k1)" using add_tmr_ok [OF R] by blast
  have cm: "current_pid k \<notin> tmp k (active k)" "current_pid k \<noteq> - 1"
    using placed_timers(2) [OF D(3), of "current_pid k"] D(7,8) by (auto simp: valid_def)
  note A = add_tmr_view [OF D(4,5) cm(2,1) few_timers [OF D(4,3)] k1]
  have v: "st k1 = st k" "al k1 = al k" "bq k1 = bq k" "rd k1 = rd k" "wt k1 = wt k" "shape k1 = shape k"
    by (rule view_eq; simp add: A)+
  define k2 where "k2 = upd_pcb (current_pid k) (p_state_update (\<lambda>_. PROC_DELAY)) k1"
  have v2: "st k2 = (st k)(current_pid k := PROC_DELAY)" "al k2 = al k" "bq k2 = bq k" "rd k2 = rd k" "wt k2 = wt k" "shape k2"
    "current_pid k2 = current_pid k" "sem_heap k2 = sem_heap k"
    using v D(2,7) A by (simp_all add: k2_def st_upd al_upd_same bq_upd_same)
  have t2: "tmp k2 ids = tmp k1 ids" "tmrs_ok k2 ids = tmrs_ok k1 ids" "active k2 = active k1" "buffers_ok k2 = buffers_ok k1" for ids
    by (rule timers_eq; simp add: k2_def)+
  have "kernel_inv k2"
    using placed_delay [OF D(3,6) c D(8)] v2 t2 A D(6) by (simp add: kernel_inv_def inv_with_def)
  moreover have "current_pid k \<notin> set (rd k)" using placed_ready(2) [OF D(3), of "current_pid k"] D(8) by simp
  ultimately obtain k' where k': "suspend In_sleep k2 = Some k'" "running k'"
    "rd k2 = [] \<and> current_pid k' = 0 \<and> rd k' = [] \<or> rd k2 = current_pid k' # rd k'"
    "wt k' = wt k2" "al k' = al k2" "sem_heap k' = sem_heap k2"
    using suspend_view [of k2 In_sleep] v2 c by auto
  have "current_pid k1 = current_pid k" by (fact A)
  then have "call (Sleep ms) k = Some (None, k')"
    using k1 k'(1) by (simp add: sys_sleep_def k2_def)
  moreover have "sems_ok k'" using S k' v2 by (simp add: sems_ok_def)
  ultimately show "call_ok k (call (Sleep ms) k)" using k' v2 by (auto simp: call_ok_def)
qed

section \<open>Returning into a call\<close>

lemma resume_ok:
  assumes R: "running k" and S: "sems_ok k" and u: "ctx \<noteq> User"
  shows "call_ok k (resume ctx k)"
proof (cases ctx)
  case (In_sem_wait i)
  with R S show ?thesis by (simp add: wait_end_ok)
next
  case In_sleep
  with R S show ?thesis by (simp add: ret_ok)
next
  case (In_sem_timedwait i)
  note D = runningD [OF R]
  show ?thesis
  proof (cases "p_timeout (pcb k (current_pid k))")
    case True
    let ?k1 = "upd_sem i (sem_value_update (\<lambda>v. v + 1)) k"
    let ?k2 = "upd_pcb (current_pid k) (p_timeout_update (\<lambda>_. False)) ?k1"
    have "running ?k1 \<and> sems_ok ?k1"
    proof (cases "i < 50")
      case i: True
      have w: "wt ?k1 = wt k" using upd_sem_queue [OF D(2) i] by simp
      have "sems_ok ?k1" using sems_upd [OF S D(2) i w] S i by (simp add: sems_ok_def)
      moreover have "running ?k1" using R i by (intro upd_sem_inv) simp_all
      ultimately show ?thesis by simp
    next
      case False
      then have "?k1 = k" using D(2) by (simp add: upd_sem_def shape_def list_update_beyond)
      with R S show ?thesis by simp
    qed
    then have R1: "running ?k1" and S1: "sems_ok ?k1" by auto
    have "shape ?k1" using runningD(2) [OF R1] .
    then have "running ?k2" "al ?k2 = al k" using R1 D(7) by (simp_all add: upd_inv(2) al_upd_same)
    moreover have "sems_ok ?k2" using S1 by (simp add: sems_ok_def)
    ultimately have "call_ok k (fail ETIMEDOUT ?k2)" by (intro fail_ok [where new = "[]"]) simp_all
    with True show ?thesis by (simp add: In_sem_timedwait sem_timedwait_resume_def Let_def)
  next
    case False
    obtain rem k1 where rt: "remove_tmr (current_pid k) k = (rem, k1)" by fastforce
    have "current_pid k \<noteq> - 1" using D(7) by (auto simp: valid_def)
    note T = remove_tmr_view [OF D(4,5) this rt]
    have v: "st k1 = st k" "al k1 = al k" "bq k1 = bq k" "rd k1 = rd k" "wt k1 = wt k" "shape k1 = shape k"
      by (rule view_eq; simp add: T)+
    have "current_pid k \<notin> tmp k (active k)" using placed_timers(2) [OF D(3), of "current_pid k"] D(8) by auto
    then have "tmp k1 (active k1) = tmp k (active k)" using T(2) by simp
    then have "running k1" using D v T by (simp add: running_def kernel_inv_def inv_with_def)
    moreover have "sems_ok k1" using S v T by (simp add: sems_ok_def)
    ultimately have "call_ok k (sem_wait_end i k1)" using v T by (intro wait_end_ok [where new = "[]"]) simp_all
    with False rt show ?thesis by (simp add: In_sem_timedwait sem_timedwait_resume_def Let_def)
  qed
qed (use u in simp)

text \<open>Where the kernel switches: after a call that asked for it, and at the end of a time slice.\<close>

definition advances :: "kernel \<Rightarrow> kernel \<Rightarrow> bool" where
  "advances k k' \<longleftrightarrow>
     (\<exists>new. rd k @ new = current_pid k' # rd k') \<or> rd k = [] \<and> current_pid k' = 0 \<and> rd k' = []"

definition stays :: "kernel \<Rightarrow> kernel \<Rightarrow> bool" where
  "stays k k' \<longleftrightarrow> current_pid k' = current_pid k \<and> (\<exists>new. rd k' = rd k @ new)"

lemma schedule_advances:
  assumes "running k" "scheduler k1 = (same, k2)" "kernel_inv k1" "requeue k1 = (rd k @ new) @ (if current_pid k \<noteq> 0 then [current_pid k] else [])"
  shows "running k2" "advances k k2"
proof -
  note V = scheduler_view [OF assms(3,2)]
  show "running k2" by (rule V)
  show "advances k k2" using V(2) assms(4) by (auto simp: advances_def)
qed

lemma leave_kernel_ok:
  assumes R: "running k" and S: "sems_ok k"
  shows "running (leave_kernel k)" "sems_ok (leave_kernel k)" "al (leave_kernel k) = al k"
    "leave_kernel k = k \<or> advances k (leave_kernel k)"
proof -
  note D = runningD [OF R]
  obtain same k1 where s: "scheduler k = (same, k1)" by fastforce
  note V = scheduler_view [OF D(1) s]
  have rq: "requeue k = (rd k @ []) @ (if current_pid k \<noteq> 0 then [current_pid k] else [])"
    using D(8) by (simp add: requeue_def)
  note A = schedule_advances [OF R s D(1) rq]
  have K1: "kernel_inv k1" using V(1) by (simp add: running_def)
  let ?k2 = "save_context (current_pid k) User k1"
  note C = save_context_inv [OF K1 D(7), of User]
  have "al ?k2 = al k1" using kernel_invD(1) [OF K1] D(7) by (simp add: save_context_def al_upd_same)
  then have k2: "running (pit_reset ?k2)" "sems_ok (pit_reset ?k2)" "al (pit_reset ?k2) = al k" "advances k (pit_reset ?k2)"
    using C A V S by (simp_all add: sems_ok_def advances_def)
  have k1: "sems_ok k1" using V S by (simp add: sems_ok_def)
  show "running (leave_kernel k)" "sems_ok (leave_kernel k)" "al (leave_kernel k) = al k"
    "leave_kernel k = k \<or> advances k (leave_kernel k)"
    using R S k1 k2 A V by (simp_all add: leave_kernel_def s)
qed

end
