(* ===== verification/Kernel_Ticks.thy ===== *)
theory Kernel_Ticks
  imports Kernel_Steps
begin

text \<open>
  The timer interrupt. The array of timers and its double-buffered list of active entries is a
  list of processes with the ticks they have left; a tick counts every entry down and moves the
  processes whose time is up to the ready queue, out of the wait queue they may be in.
\<close>

definition expired :: "(int \<times> u32) list \<Rightarrow> int list" where
  "expired ts = map fst (filter (\<lambda>t. snd t = 1) ts)"

definition counted :: "(int \<times> u32) list \<Rightarrow> (int \<times> u32) list" where
  "counted ts = map (\<lambda>t. (fst t, snd t - 1)) (filter (\<lambda>t. snd t \<noteq> 1) ts)"

lemma expired_simps [simp]:
  "expired [] = []" "expired (t # ts) = (if snd t = 1 then fst t # expired ts else expired ts)"
  by (simp_all add: expired_def)

lemma counted_simps [simp]:
  "counted [] = []" "counted (t # ts) = (if snd t \<noteq> 1 then (fst t, snd t - 1) # counted ts else counted ts)"
  by (simp_all add: counted_def)

text \<open>All of a semaphore but its queue.\<close>

definition sem_key :: "sem_info \<Rightarrow> int \<times> bool \<times> 8 word" where
  "sem_key s = (sem_id s, sem_unlink s, sem_value s)"

definition sems_kept :: "kernel \<Rightarrow> kernel \<Rightarrow> bool" where
  "sems_kept k k' \<longleftrightarrow>
     (\<forall>i. sem_key (sem_heap k' ! i) = sem_key (sem_heap k ! i))"

lemma sems_kept_trans: "sems_kept k k' \<Longrightarrow> sems_kept k' k'' \<Longrightarrow> sems_kept k k''"
  by (simp add: sems_kept_def)

lemma sems_kept_same: "sem_heap k' = sem_heap k \<Longrightarrow> sems_kept k k'"
  by (simp add: sems_kept_def)

lemma sems_kept_set_wait_q: "sems_kept k (set_wait_q i q k)"
proof -
  have "sem_key ((sem_heap k)[i := (sem_heap k ! i)\<lparr>sem_wait_q := q\<rparr>] ! j) = sem_key (sem_heap k ! j)" for j
    by (cases "i < length (sem_heap k)") (auto simp: nth_list_update list_update_beyond sem_key_def)
  then show ?thesis by (simp add: sems_kept_def set_wait_q_def)
qed

lemma sems_kept_timeout: "sems_kept k (handle_timeout p k)"
  unfolding handle_timeout_def make_ready_def Let_def
  using sems_kept_set_wait_q [of k] by (auto simp: sems_kept_def split: option.splits)

lemma run_tmrs_counts:
  assumes "run_tmrs ts cur sh k = (cur', sh', k')" "inv_with k (S @ ts)" "length S = cur"
    "take cur sh = S" "cur + length ts \<le> length sh"
  shows "map (tmr k') (take cur' sh') = map (tmr k) S @ counted (map (tmr k) ts) \<and>
    rd k' = rd k @ expired (map (tmr k) ts) \<and>
    wt k' = (\<lambda>i. filter (\<lambda>p. p \<notin> set (expired (map (tmr k) ts))) (wt k i)) \<and>
    st k' = (\<lambda>p. if p \<in> set (expired (map (tmr k) ts)) then PROC_READY else st k p) \<and> sems_kept k k'"
  using assms
proof (induction ts arbitrary: cur sh k S)
  case Nil
  then show ?case by (simp add: sems_kept_def)
next
  case (Cons t ts)
  define tm where "tm = soft_tmrs k ! nat t"
  define x where "x = tm\<lparr>tmr_timeout := tmr_timeout tm - 1\<rparr>"
  let ?k = "k\<lparr>soft_tmrs := (soft_tmrs k)[nat t := x]\<rparr>"
  note T = tmrs_okD [OF inv_withD(3) [OF Cons.prems(2)]]
  have other: "tmr k1 u = tmr k u"
    if "soft_tmrs k1 = (soft_tmrs k)[nat t := z]" "u \<in> set (S @ ts)" for k1 z u
  proof -
    have "u \<noteq> t" "0 \<le> u" "0 \<le> t" using that(2) T(2) T(3) [of t] T(3) [of u] by auto
    then have "nat t \<noteq> nat u" using eq_nat_nat_iff by auto
    then show ?thesis by (simp add: tmr_def that(1))
  qed
  have tt: "tmr k t = (tmr_pid tm, tmr_timeout tm)" by (simp add: tmr_def tm_def)
  show ?case
  proof (cases "tmr_timeout x = 0")
    case True
    let ?k1 = "handle_timeout (tmr_pid tm) ?k"
    let ?k2 = "?k1\<lparr>soft_tmrs := (soft_tmrs ?k1)[nat t := x\<lparr>tmr_pid := - 1\<rparr>]\<rparr>"
    note e = expire [where x = x, OF Cons.prems(2) tm_def refl refl]
    have "tmr_pid x = tmr_pid tm" by (simp add: x_def)
    then have "run_tmrs ts cur sh ?k2 = (cur', sh', k')"
      using Cons.prems(1) True by (simp add: Let_def x_def tm_def)
    then obtain k2 where run: "run_tmrs ts cur sh k2 = (cur', sh', k')" and k2: "k2 = ?k2" by blast
    note e = e [folded k2]
    have one: "tmr_timeout tm = 1" using True by (simp add: x_def)
    have m: "map (tmr k2) S = map (tmr k) S" "map (tmr k2) ts = map (tmr k) ts"
      using other [of k2 "x\<lparr>tmr_pid := - 1\<rparr>"] by (simp_all add: k2)
    have "sems_kept ?k ?k1" by (rule sems_kept_timeout)
    then have sk: "sems_kept k k2" by (simp add: sems_kept_def k2)
    have d: "distinct (wt k i)" for i using placed_waiting(1) [OF inv_withD(2) [OF Cons.prems(2)]] .
    have "map (tmr k') (take cur' sh') = map (tmr k2) S @ counted (map (tmr k2) ts) \<and>
        rd k' = rd k2 @ expired (map (tmr k2) ts) \<and>
        wt k' = (\<lambda>i. filter (\<lambda>p. p \<notin> set (expired (map (tmr k2) ts))) (wt k2 i)) \<and>
        st k' = (\<lambda>p. if p \<in> set (expired (map (tmr k2) ts)) then PROC_READY else st k2 p) \<and> sems_kept k2 k'"
      using Cons.prems by (intro Cons.IH [OF run e(1)]) simp_all
    then show ?thesis
      unfolding m e(2,4,6) using one sems_kept_trans [OF sk]
      by (auto simp: tt d distinct_remove1_removeAll removeAll_filter_not_eq fun_eq_iff intro!: filter_cong)
  next
    case False
    have run: "run_tmrs ts (cur + 1) (sh[cur := t]) ?k = (cur', sh', k')"
      using Cons.prems(1) False by (simp add: Let_def x_def tm_def)
    have x: "tmr_pid x = tmr_pid (soft_tmrs k ! nat t)" by (simp add: x_def tm_def)
    note e = count_down [OF Cons.prems(2) x False refl]
    have tk: "take (cur + 1) (sh[cur := t]) = S @ [t]"
      using Cons.prems(4,5) take_append_update [of cur sh t] by simp
    have i: "inv_with ?k ((S @ [t]) @ ts)" using e(1) by simp
    have m: "map (tmr ?k) S = map (tmr k) S" "map (tmr ?k) ts = map (tmr k) ts"
      using other [of ?k x] by simp_all
    have one: "tmr_timeout tm \<noteq> 1" using False by (simp add: x_def)
    have "tmr ?k t = (tmr_pid tm, tmr_timeout tm - 1)"
      using T(1) T(3) [of t] by (auto simp: tmr_def x_def nth_list_update)
    moreover have "sems_kept k ?k" by (simp add: sems_kept_def)
    ultimately show ?thesis
      using Cons.IH [OF run i _ tk] Cons.prems(3,5) e(2-5) one sems_kept_trans [of k ?k k'] by (simp add: m tt cong: if_cong)
  qed
qed

lemma soft_tmr_handler_counts:
  assumes K: "kernel_inv k"
  shows "timers (soft_tmr_handler k) = counted (timers k)" "rd (soft_tmr_handler k) = rd k @ expired (timers k)"
    "wt (soft_tmr_handler k) = (\<lambda>i. filter (\<lambda>p. p \<notin> set (expired (timers k))) (wt k i))"
    "st (soft_tmr_handler k) = (\<lambda>p. if p \<in> set (expired (timers k)) then PROC_READY else st k p)"
    "sems_kept k (soft_tmr_handler k)"
proof -
  let ?k' = "soft_tmr_handler k"
  have I: "inv_with k ([] @ active k)" and B: "buffers_ok k"
    using K by (simp_all add: kernel_inv_def)
  obtain cur sh k1 where r: "run_tmrs (active k) 0 (tmr_list_shadow k) k = (cur, sh, k1)"
    by (cases "run_tmrs (active k) 0 (tmr_list_shadow k) k")
  have k': "?k' = switch_tmr_list sh cur k1" by (simp add: soft_tmr_handler_def r)
  have l: "0 + length (active k) \<le> length (tmr_list_shadow k)"
    using active_length [OF B] shadow_length [OF B] by simp
  from run_tmrs_counts [OF r I _ _ l]
  have R: "map (tmr k1) (take cur sh) = counted (timers k)" "rd k1 = rd k @ expired (timers k)"
    "wt k1 = (\<lambda>i. filter (\<lambda>p. p \<notin> set (expired (timers k))) (wt k i))"
    "st k1 = (\<lambda>p. if p \<in> set (expired (timers k)) then PROC_READY else st k p)" "sems_kept k k1"
    by (simp_all add: timers_def)
  have v: "st ?k' = st k1" "al ?k' = al k1" "bq ?k' = bq k1" "rd ?k' = rd k1" "wt ?k' = wt k1" "shape ?k' = shape k1"
    by (rule view_eq; simp add: k')+
  have "active ?k' = take cur sh" by (simp add: k')
  moreover have "tmr ?k' = tmr k1" by (simp add: tmr_def k' fun_eq_iff)
  ultimately show "timers ?k' = counted (timers k)" using R(1) by (simp add: timers_def)
  show "rd ?k' = rd k @ expired (timers k)" "wt ?k' = (\<lambda>i. filter (\<lambda>p. p \<notin> set (expired (timers k))) (wt k i))"
    "st ?k' = (\<lambda>p. if p \<in> set (expired (timers k)) then PROC_READY else st k p)"
    unfolding v by (fact R)+
  show "sems_kept k ?k'" using R(5) by (simp add: sems_kept_def k')
qed

lemma soft_tmr_handler_al: "kernel_inv k \<Longrightarrow> al (soft_tmr_handler k) = al k"
proof -
  assume K: "kernel_inv k"
  obtain cur sh k1 where r: "run_tmrs (active k) 0 (tmr_list_shadow k) k = (cur, sh, k1)"
    by (cases "run_tmrs (active k) 0 (tmr_list_shadow k) k")
  have "al k1 = al k"
    using run_tmrs_result [OF r, of "[]"] K active_length [of k] shadow_length [of k] by (simp add: kernel_inv_def)
  then show "al (soft_tmr_handler k) = al k" by (simp add: soft_tmr_handler_def r al_def pcb_def fun_eq_iff)
qed

lemma sems_ok_shrunk:
  assumes "sems_ok k" "sems_kept k k'" "\<And>i. set (wt k' i) \<subseteq> set (wt k i)"
  shows "sems_ok k'"
  unfolding sems_ok_def
proof (intro allI impI conjI)
  fix i :: nat assume i: "i < 50"
  from assms(2) have e: "sem_id (sem_heap k' ! i) = sem_id (sem_heap k ! i)" "sem_unlink (sem_heap k' ! i) = sem_unlink (sem_heap k ! i)"
    by (simp_all add: sems_kept_def sem_key_def)
  show "\<not> sem_unlink (sem_heap k' ! i)" using assms(1) i e by (simp add: sems_ok_def)
  assume "sem_id (sem_heap k' ! i) = - 1"
  with e assms(1) i have "wt k i = []" by (simp add: sems_ok_def)
  with assms(3) [of i] show "wt k' i = []" by simp
qed

section \<open>The interrupt\<close>

lemma tick_ok:
  assumes R: "running k" and S: "sems_ok k"
  shows "running (timer_interrupt k)" "sems_ok (timer_interrupt k)" "al (timer_interrupt k) = al k"
    "\<not> sched_partial_tick (timer_interrupt k)"
    "if sched_partial_tick k then stays k (timer_interrupt k) else advances k (timer_interrupt k)"
proof -
  note D = runningD [OF R]
  let ?k = "k\<lparr>kernel_ticks := kernel_ticks k + 1\<rparr>"
  define k1 where "k1 = soft_tmr_handler ?k"
  have K0: "kernel_inv ?k" using D(1) by simp
  note V = soft_tmr_handler_view [OF K0, folded k1_def] and C = soft_tmr_handler_counts [OF K0, folded k1_def]
  have S1: "sems_ok k1"
    by (rule sems_ok_shrunk [of ?k]) (use S C(3,5) in \<open>auto simp: sems_ok_def\<close>)
  obtain new where new: "rd k1 = rd k @ new" using V(2) by auto
  have run1: "st k1 (current_pid k1) = PROC_RUN" using V(3) [of "current_pid k"] V(4) D(8) by simp
  have p1: "sched_partial_tick k1 = sched_partial_tick k" using V(5) by simp
  have al1: "al k1 = al k" using soft_tmr_handler_al [OF K0] by (simp add: k1_def)
  define k2 where "k2 = (if sched_partial_tick k1 then k1\<lparr>resched := False, sched_partial_tick := False\<rparr>
    else k1\<lparr>resched := True\<rparr>)\<lparr>timer_need_refresh := True\<rparr>"
  have e: "timer_interrupt k = pit_reset (if resched k2 then snd (scheduler k2) else k2)"
    by (simp add: timer_interrupt_def timer_int_handler_def k1_def k2_def Let_def)
  have k2: "running k2" "sems_ok k2" "al k2 = al k" "rd k2 = rd k1" "current_pid k2 = current_pid k"
      "resched k2 \<longleftrightarrow> \<not> sched_partial_tick k" "timer_need_refresh k2" "st k2 = st k1"
    using V(1,4) run1 S1 al1 p1 by (auto simp: k2_def running_def sems_ok_def)
  have "running (timer_interrupt k) \<and> sems_ok (timer_interrupt k) \<and> al (timer_interrupt k) = al k \<and>
      \<not> sched_partial_tick (timer_interrupt k) \<and>
      (if sched_partial_tick k then stays k (timer_interrupt k) else advances k (timer_interrupt k))"
  proof (cases "sched_partial_tick k")
    case True
    then have "timer_interrupt k = k2\<lparr>timer_need_refresh := False, sched_partial_tick := False, did_resched := False\<rparr>"
      using k2 by (simp add: e pit_reset_def)
    with k2 new True show ?thesis
      by (simp add: stays_def) (simp add: sems_ok_def)
  next
    case False
    obtain same k3 where s: "scheduler k2 = (same, k3)" by fastforce
    note X = scheduler_view [OF runningD(1) [OF k2(1)] s]
    have ee: "timer_interrupt k = k3\<lparr>timer_need_refresh := False, sched_partial_tick := False, did_resched := False\<rparr>"
      using k2 X False by (simp add: e s pit_reset_def)
    have "requeue k2 = (rd k @ new) @ (if current_pid k \<noteq> 0 then [current_pid k] else [])"
      using k2 run1 V(4) new by (simp add: requeue_def)
    note A = schedule_advances [OF R s runningD(1) [OF k2(1)] this]
    have "sems_ok k3" using k2(2) X by (simp add: sems_ok_def)
    with A X k2 False show ?thesis
      by (simp add: ee advances_def) (simp add: sems_ok_def)
  qed
  then show "running (timer_interrupt k)" "sems_ok (timer_interrupt k)" "al (timer_interrupt k) = al k"
    "\<not> sched_partial_tick (timer_interrupt k)"
    "if sched_partial_tick k then stays k (timer_interrupt k) else advances k (timer_interrupt k)"
    by blast+
qed

end
