(* ===== verification/Kernel_Runs.thy ===== *)
theory Kernel_Runs
  imports Kernel_Ticks
begin

text \<open>
  Runs of the kernel: from the start, under any sequence of system calls and timer interrupts,
  the kernel never hangs, every process is in one place, and a process that is ready is not kept
  waiting.
\<close>

section \<open>One event\<close>

lemma tidy_destroy:
  "tidy (Call (Sem_destroy sem)) k \<Longrightarrow> get_sem_by_semt k sem = Some i \<Longrightarrow> 0 < sint (sem_value (sem_heap k ! i)) \<Longrightarrow>
   wt k i = []"
  by (simp add: tidy_def wt_def contents_Nil)

lemma call_all_ok:
  assumes "running k" "sems_ok k" "current_pid k \<noteq> 0" "tidy (Call sc) k"
  shows "call_ok k (call sc k)"
proof (cases sc)
  case (Sem_destroy sem)
  then show ?thesis using sem_destroy_ok [OF assms(1,2), of sem] tidy_destroy assms(4) by simp
qed (use assms sem_init_ok sem_simple_ok sem_wait_ok sem_post_ok sleep_ok in \<open>metis call.simps\<close>)+

definition event_ok :: "kernel \<Rightarrow> outcome \<Rightarrow> bool" where
  "event_ok k out \<longleftrightarrow>
     (case out of
        None \<Rightarrow> False
      | Some (r, k') \<Rightarrow> running k' \<and> sems_ok k' \<and> al k' = al k \<and>
          (advances k k' \<or> stays k k' \<and> (sched_partial_tick k' \<longrightarrow> sched_partial_tick k)))"

lemma advances_trans: "rd k1 = rd k @ new \<Longrightarrow> advances k1 k' \<Longrightarrow> advances k k'"
  by (auto simp: advances_def)

lemma finish_ok:
  assumes "call_ok k out"
  shows "event_ok k (finish out)"
proof (cases out)
  case None
  with assms show ?thesis by (simp add: call_ok_def)
next
  case (Some rk)
  obtain r k' where rk: "rk = (r, k')" by fastforce
  show ?thesis
  proof (cases r)
    case None
    with assms show ?thesis by (auto simp: Some rk call_ok_def finish_def event_ok_def advances_def)
  next
    case r: (Some v)
    with assms obtain new where c: "running k'" "sems_ok k'" "al k' = al k" "current_pid k' = current_pid k"
      "sched_partial_tick k' = sched_partial_tick k" "rd k' = rd k @ new"
      by (auto simp: Some rk call_ok_def)
    note L = leave_kernel_ok [OF c(1,2)]
    have "advances k (leave_kernel k') \<or> stays k (leave_kernel k') \<and>
      (sched_partial_tick (leave_kernel k') \<longrightarrow> sched_partial_tick k)"
      using L(4)
    proof
      assume "leave_kernel k' = k'"
      with c show ?thesis by (auto simp: stays_def)
    next
      assume "advances k' (leave_kernel k')"
      with advances_trans [OF c(6)] show ?thesis by simp
    qed
    with L c show ?thesis by (simp add: Some rk r finish_def event_ok_def)
  qed
qed

lemma handle_event_ok:
  assumes R: "running k" and S: "sems_ok k" and p: "possible e k" and t: "tidy e k"
  shows "event_ok k (handle_event e k)"
proof (cases e)
  case (Call sc)
  with p t have "call_ok k (call sc k)" by (intro call_all_ok [OF R S]) simp_all
  then show ?thesis by (simp add: Call handle_event_def finish_ok)
next
  case Resume
  note D = runningD [OF R]
  let ?k = "upd_pcb (current_pid k) (pcontext_update (\<lambda>_. User)) k"
  have "running ?k" using R D by (simp add: upd_inv(2))
  moreover have "sems_ok ?k" using S by (simp add: sems_ok_def)
  moreover have "al ?k = al k" using D by (simp add: al_upd_same)
  moreover have "pcontext (pcb k (current_pid k)) \<noteq> User" using p Resume by simp
  ultimately have "event_ok ?k (finish (resume (pcontext (pcb k (current_pid k))) ?k))"
    by (intro finish_ok resume_ok)
  moreover have "event_ok ?k out \<Longrightarrow> event_ok k out" for out
    using \<open>al ?k = al k\<close> by (cases out) (auto simp: event_ok_def advances_def stays_def)
  ultimately show ?thesis by (simp add: Resume handle_event_def)
next
  case Tick
  from tick_ok [OF R S] show ?thesis
    by (auto simp: Tick handle_event_def event_ok_def split: if_splits)
qed

section \<open>The start\<close>

definition started :: "kernel \<Rightarrow> bool" where
  "started k \<longleftrightarrow> shape k \<and> placed (rd k) (wt k) (st k) (al k) (bq k) 0 {} \<and> sems_ok k \<and>
     current_pid k = 0 \<and> st k 0 = PROC_RUN \<and> \<not> sched_partial_tick k"

lemma started_create:
  assumes "started k"
  shows "started (snd (proc_create pr k))"
proof -
  from assms have S: "shape k" and P: "placed (rd k) (wt k) (st k) (al k) (bq k) 0 {}" and O: "sems_ok k"
    and c: "current_pid k = 0" "st k 0 = PROC_RUN" "\<not> sched_partial_tick k"
    by (simp_all add: started_def)
  have l: "length (ptable k) = 20" using S by (rule shape_table)
  define i where "i = length (takeWhile is_allocated (ptable k))"
  show ?thesis
  proof (cases "i = 20")
    case True
    then show ?thesis using assms l by (simp add: proc_create_def i_def)
  next
    case False
    then have i: "i < 20" "\<not> is_allocated (ptable k ! i)"
      using length_takeWhile_le [of is_allocated "ptable k"] nth_length_takeWhile [of is_allocated "ptable k"] l
      by (simp_all add: i_def)
    have v: "valid (int i)" using i(1) by (simp add: valid_def)
    have na: "\<not> al k (int i)" using i by (simp add: al_def pcb_def)
    have "al k 0" using P by (auto simp: placed_def life_def)
    with na have i0: "int i \<noteq> 0" by metis
    let ?f = "\<lambda>p. p\<lparr>is_allocated := True, p_pid := int i, p_state := PROC_NEW, p_priority := pr, blockq := None, pcontext := User\<rparr>"
    define k1 where "k1 = upd_pcb (int i) ?f k"
    have v1: "shape k1" "rd k1 = rd k" "wt k1 = wt k" "st k1 = (st k)(int i := PROC_NEW)"
      "al k1 = (al k)(int i := True)" "bq k1 = (bq k)(int i := None)"
      using S v by (simp_all add: k1_def st_upd al_upd bq_upd)
    have "int i \<notin> set (rd k1)" using placed_ready(2) [OF P, of "int i"] na v1 by simp
    moreover have "placed (rd k1) (wt k) (st k) (al k) (bq k) 0 {}" using P v1 by simp
    ultimately have q: "rd (k1\<lparr>ready_q := penq (ready_q k1) (int i)\<rparr>) = rd k @ [int i]"
      "shape (k1\<lparr>ready_q := penq (ready_q k1) (int i)\<rparr>)"
      using enqueue_ready [OF v1(1) _ v] v1 by auto
    have "proc_create pr k = (int i, k1\<lparr>ready_q := penq (ready_q k1) (int i)\<rparr>)"
      using False l i0 by (simp add: proc_create_def i_def k1_def Let_def)
    moreover have "sems_ok (k1\<lparr>ready_q := penq (ready_q k1) (int i)\<rparr>)" using O by (simp add: k1_def sems_ok_def)
    ultimately show ?thesis
      using placed_create [OF P na i0 v] q v1 c i0 by (simp add: started_def k1_def)
  qed
qed

definition first_process :: process_struct where
  "first_process = zero_process\<lparr>is_allocated := True, p_state := PROC_RUN\<rparr>"

definition free_semaphore :: sem_info where
  "free_semaphore = zero_sem\<lparr>sem_id := - 1, sem_owner := - 1, sem_wait_q := alloc_q 20 (replicate 20 0)\<rparr>"

lemma init_fields:
  defines "k \<equiv> init_idle_task (sem_heap_init (readyq_init
     (bss\<lparr>ptable := map (is_allocated_update (\<lambda>_. False)) (ptable bss)\<rparr>)))"
  shows "ptable k = first_process # replicate 19 zero_process" "ready_q k = alloc_q 20 (replicate 20 0)"
    "sem_heap k = replicate 50 free_semaphore" "current_pid k = 0" "\<not> sched_partial_tick k"
proof -
  define k1 where "k1 = sem_heap_init (readyq_init (bss\<lparr>ptable := map (is_allocated_update (\<lambda>_. False)) (ptable bss)\<rparr>))"
  have k1: "ptable k1 = zero_process # replicate 19 zero_process" "ready_q k1 = alloc_q 20 (replicate 20 0)"
    "sem_heap k1 = replicate 50 free_semaphore" "current_pid k1 = 0" "\<not> sched_partial_tick k1"
    by (simp_all add: k1_def sem_heap_init_def readyq_init_def bss_def zero_process_def zero_sem_def zero_queue_def
        free_semaphore_def flip: replicate_Suc)
  have k: "k = init_idle_task k1" by (simp add: k_def k1_def)
  have z: "zero_process\<lparr>is_allocated := True, p_pid := 0, p_state := PROC_NEW, p_priority := 0, blockq := None, pcontext := User,
      p_state := PROC_RUN\<rparr> = first_process" "\<not> is_allocated zero_process"
    by (simp_all add: zero_process_def first_process_def)
  have k2: "k = (upd_pcb 0 (p_state_update (\<lambda>_. PROC_RUN)) (upd_pcb 0 (\<lambda>p. p\<lparr>is_allocated := True, p_pid := 0,
      p_state := PROC_NEW, p_priority := 0, blockq := None, pcontext := User\<rparr>) k1))\<lparr>current_pid := 0\<rparr>"
    using k1(1) z(2) by (simp add: k init_idle_task_def proc_create_def)
  show "ptable k = first_process # replicate 19 zero_process"
    using k1(1) z(1) by (simp add: k2 upd_pcb_def)
  show "ready_q k = alloc_q 20 (replicate 20 0)" "sem_heap k = replicate 50 free_semaphore" "current_pid k = 0"
    "\<not> sched_partial_tick k"
    using k1 by (simp_all add: k2)
qed

lemma started_init:
  "started (init_idle_task (sem_heap_init (readyq_init
     (bss\<lparr>ptable := map (is_allocated_update (\<lambda>_. False)) (ptable bss)\<rparr>))))" (is "started ?k")
proof -
  note F = init_fields
  have p: "pcb ?k p = (if p = 0 then first_process else zero_process)" if "valid p" for p
    using that by (cases "nat p") (auto simp: pcb_def F valid_def)
  have s: "st ?k p = (if valid p then if p = 0 then PROC_RUN else PROC_NEW else PROC_DEAD)" for p
    by (simp add: st_def p first_process_def zero_process_def)
  have a: "al ?k p \<longleftrightarrow> p = 0" for p
    by (auto simp: al_def p first_process_def zero_process_def split: if_splits)
  have b: "bq ?k p = None" for p
    by (simp add: bq_def p first_process_def zero_process_def)
  have r: "rd ?k = []" by (simp add: rd_def F)
  have wq: "wait_q ?k i = alloc_q 20 (replicate 20 0)" if "i < 50" for i
    using that by (simp add: wait_q_def F free_semaphore_def)
  have w: "wt ?k i = []" for i by (simp add: wt_def wq)
  have "queue_ok (alloc_q 20 (replicate 20 (0 :: int)))" by (rule alloc_q_ok) simp_all
  then have "shape ?k" by (simp add: shape_def F wq) (simp add: alloc_q_def)
  moreover have "placed (rd ?k) (wt ?k) (st ?k) (al ?k) (bq ?k) 0 {}"
    by (simp add: placed_def ready_place_def wait_place_def blocked_on_def timer_place_def life_def r w s a b)
  moreover have "sems_ok ?k" by (simp add: sems_ok_def w F free_semaphore_def zero_sem_def)
  ultimately show ?thesis using F(4,5) s [of 0] by (simp add: started_def)
qed

lemma xilkernel_init_ok: "running (xilkernel_init ts)" "sems_ok (xilkernel_init ts)"
proof -
  define k0 where "k0 = init_idle_task (sem_heap_init (readyq_init
     (bss\<lparr>ptable := map (is_allocated_update (\<lambda>_. False)) (ptable bss)\<rparr>)))"
  define k where "k = fold (\<lambda>priority k. snd (proc_create priority k)) ts k0"
  have "started k0" unfolding k0_def by (rule started_init)
  then have "started k"
    unfolding k_def by (induction ts arbitrary: k0) (simp_all add: started_create)
  have e: "xilkernel_init ts = soft_tmr_init k" by (simp add: xilkernel_init_def k_def k0_def Let_def)
  have v: "st (soft_tmr_init k) = st k" "al (soft_tmr_init k) = al k" "bq (soft_tmr_init k) = bq k"
    "rd (soft_tmr_init k) = rd k" "wt (soft_tmr_init k) = wt k" "shape (soft_tmr_init k) = shape k"
    by (rule view_eq; simp add: soft_tmr_init_def)+
  have t: "active (soft_tmr_init k) = []" "tmp (soft_tmr_init k) [] = {}" by (simp_all add: soft_tmr_init_def tmp_def)
  have tk: "tmrs_ok (soft_tmr_init k) []" "buffers_ok (soft_tmr_init k)"
    by (simp_all add: soft_tmr_init_def tmrs_ok_def buffers_ok_def no_tmr_def)
  have c: "current_pid (soft_tmr_init k) = current_pid k" by (simp add: soft_tmr_init_def)
  have "al k 0" using \<open>started k\<close> by (auto simp: started_def placed_def life_def)
  with \<open>started k\<close> show "running (xilkernel_init ts)"
    unfolding e running_def kernel_inv_def inv_with_def t(1) by (simp add: v t tk c started_def)
  show "sems_ok (xilkernel_init ts)" using \<open>started k\<close> by (simp add: e v started_def sems_ok_def) (simp add: soft_tmr_init_def)
qed

section \<open>Runs\<close>

lemma step_ok:
  assumes "running k" "sems_ok k" "tidy e k" "kernel_step k e k'"
  shows "running k' \<and> sems_ok k' \<and> al k' = al k \<and>
    (advances k k' \<or> stays k k' \<and> (sched_partial_tick k' \<longrightarrow> sched_partial_tick k))"
  using assms(4) handle_event_ok [OF assms(1,2) _ assms(3)] by (auto elim!: kernel_stepE simp: event_ok_def)

lemma tidy_run_ok: "tidy_run k es k' \<Longrightarrow> running k \<Longrightarrow> sems_ok k \<Longrightarrow> running k' \<and> sems_ok k' \<and> al k' = al k"
proof (induction rule: tidy_run.induct)
  case (tidy_run_step k es k' e k'')
  then have "running k'" "sems_ok k'" "al k' = al k" by simp_all
  with step_ok [OF this(1,2) tidy_run_step.hyps(2,3)] show ?case by simp
qed simp

lemma reachable_ok: "tidy_run (xilkernel_init ts) es k \<Longrightarrow> running k \<and> sems_ok k"
  using tidy_run_ok xilkernel_init_ok by blast

lemma count_distinct: "distinct xs \<Longrightarrow> count_list xs x = of_bool (x \<in> set xs)"
  by (induction xs) auto

lemma fst_timers: "fst ` set (timers k) = tmp k (active k)"
  by (simp add: timers_def tmp_def tmr_def image_image)

lemma one_place:
  assumes R: "running k" and p: "valid p" "p \<noteq> 0" "is_allocated (pcb k p)"
  shows "of_bool (p = current_pid k) + count_list (contents (ready_q k)) p +
    (\<Sum>i<50. count_list (contents (wait_q k i)) p) +
    of_bool (p_state (pcb k p) = PROC_DELAY \<and> p \<in> fst ` set (timers k)) = (1 :: nat)"
proof -
  note D = runningD [OF R] and P = runningD(3) [OF R]
  have a: "al k p" using p by (simp add: al_def)
  have "distinct (rd k)" using placed_ready(1) [OF P] .
  then have r: "count_list (contents (ready_q k)) p = of_bool (st k p = PROC_NEW \<or> st k p = PROC_READY)"
    using placed_ready(2) [OF P, of p] a p(2) by (simp add: rd_def count_distinct)
  have "count_list (contents (wait_q k i)) p = of_bool (bq k p = Some i)" if "i < 50" for i
    using placed_waiting(1) [OF P, of i] placed_waiting(2) [OF P, of p i] that by (simp add: wt_def count_distinct)
  then have "(\<Sum>i<50. count_list (contents (wait_q k i)) p) = (\<Sum>i<50. of_bool (bq k p = Some i))"
    by (intro sum.cong) simp_all
  also have "\<dots> = of_bool (bq k p \<noteq> None)"
  proof (cases "bq k p")
    case (Some j)
    then have "p \<in> set (wt k j)" using placed_waiting(2) [OF P, of p j] by simp
    then have "j < 50" by (metis wt_def empty_iff empty_set)
    with Some show ?thesis by (simp add: of_bool_def sum.delta)
  qed simp
  finally have w: "(\<Sum>i<50. count_list (contents (wait_q k i)) p) = of_bool (st k p = PROC_WAIT \<or> st k p = PROC_TIMED_WAIT)"
    using placed_waiting(3) [OF P, of p] a by simp
  have t: "st k p = PROC_DELAY \<Longrightarrow> p \<in> fst ` set (timers k)"
    using placed_timers(1) [OF P, of p] a by (simp add: fst_timers)
  have c: "p = current_pid k \<longleftrightarrow> st k p = PROC_RUN" using D(8) placed_life(3) [OF P, of p] a by auto
  have "st k p \<noteq> PROC_DEAD" using placed_life(2) [OF P, of p] a by simp
  moreover have "p_state (pcb k p) = st k p" using p by (simp add: st_def)
  ultimately show ?thesis unfolding r w c using t by (cases "st k p") auto
qed

text \<open>C9: from the start of the kernel, whatever static threads there are and whatever system calls and
  timer interrupts follow (as long as no semaphore with a unit to give and a process in its queue is
  destroyed), the kernel
  does not hang: the next event, when it can occur, is handled, and a process runs then.\<close>

theorem kernel_never_hangs:
  assumes "tidy_run (xilkernel_init ts) es k" "possible e k" "tidy e k"
  shows "\<exists>r k'. handle_event e k = Some (r, k') \<and> is_allocated (pcb k' (current_pid k')) \<and>
    p_state (pcb k' (current_pid k')) = PROC_RUN"
proof -
  from reachable_ok [OF assms(1)] have "running k" "sems_ok k" by simp_all
  from handle_event_ok [OF this assms(2,3)] obtain r k' where k': "handle_event e k = Some (r, k')" "running k'"
    by (auto simp: event_ok_def split: option.splits)
  with runningD(6-8) [OF k'(2)] show ?thesis by (auto simp: al_def st_def)
qed

text \<open>C8: in every state that programs reach which destroy no semaphore with a unit to give and a process in its
  queue, every allocated process other than the idle task is in exactly one place: it is the running one, or once in the ready queue, or once in the wait queue of one semaphore,
  or asleep with a timer that will wake it.\<close>

theorem process_in_one_place:
  assumes "tidy_run (xilkernel_init ts) es k" "0 < p" "p < 20" "is_allocated (pcb k p)"
  shows "of_bool (p = current_pid k) + count_list (contents (ready_q k)) p +
    (\<Sum>i<50. count_list (contents (wait_q k i)) p) +
    of_bool (p_state (pcb k p) = PROC_DELAY \<and> p \<in> fst ` set (timers k)) = (1 :: nat)"
proof -
  from reachable_ok [OF assms(1)] have R: "running k" by simp
  note D = runningD [OF R]
  show ?thesis by (rule one_place [OF R]) (use assms in \<open>auto simp: valid_def\<close>)
qed

lemma run_events_append:
  "tidy_run k es k' \<Longrightarrow> run_events fs k' = Some k'' \<Longrightarrow> (\<And>sem. Call (Sem_destroy sem) \<notin> set fs) \<Longrightarrow> tidy_run k (es @ fs) k''"
proof (induction fs arbitrary: es k')
  case (Cons e fs)
  then obtain r k1 where e: "possible e k'" "handle_event e k' = Some (r, k1)" "run_events fs k1 = Some k''"
    by (auto split: if_splits option.splits)
  have "tidy e k'" using Cons.prems(3) by (auto simp: tidy_def split: event.split syscall.split)
  then have "tidy_run k (es @ [e]) k1" using Cons.prems(1) e(1,2) by (auto intro: tidy_run.intros kernel_step.intros)
  from Cons.IH [OF this e(3)] Cons.prems(3) show ?case by simp
qed simp

lemma run_events_tidy:
  "run_events es k = Some k' \<Longrightarrow> (\<And>sem. Call (Sem_destroy sem) \<notin> set es) \<Longrightarrow> tidy_run k es k'"
  using run_events_append [OF tidy_run.tidy_run_refl, of es k k'] by simp

section \<open>A ready process runs\<close>

definition place_in :: "int list \<Rightarrow> int \<Rightarrow> nat" where
  "place_in xs p = length (takeWhile (\<lambda>q. q \<noteq> p) xs)"

text \<open>A partial tick, the rest of a time slice that another process left, counts half.\<close>

definition slots :: "kernel \<Rightarrow> int \<Rightarrow> nat" where
  "slots k p = 2 * place_in (rd k) p + of_bool (sched_partial_tick k)"

definition ticks :: "event list \<Rightarrow> nat" where
  "ticks es = length (filter (\<lambda>e. e = Tick) es)"

lemma place_append: "p \<in> set xs \<Longrightarrow> place_in (xs @ ys) p = place_in xs p"
  by (simp add: place_in_def)

lemma advances_place:
  assumes "advances k k'" "p \<in> set (rd k)" "current_pid k' \<noteq> p"
  shows "p \<in> set (rd k') \<and> place_in (rd k) p = Suc (place_in (rd k') p)"
proof -
  obtain new where n: "rd k @ new = current_pid k' # rd k'" using assms(1,2) by (auto simp: advances_def)
  have "p \<in> set (rd k @ new)" using assms(2) by simp
  with assms(3) have "p \<in> set (rd k')" by (simp add: n)
  moreover have "place_in (rd k) p = Suc (place_in (rd k') p)"
    unfolding place_append [OF assms(2), of new, symmetric] n using assms(3) by (simp add: place_in_def)
  ultimately show ?thesis by simp
qed

lemma stays_place:
  assumes "stays k k'" "p \<in> set (rd k)"
  shows "p \<in> set (rd k') \<and> place_in (rd k') p = place_in (rd k) p"
  using assms place_append by (auto simp: stays_def)

lemma step_slots:
  assumes R: "running k" "sems_ok k" and s: "tidy e k" "kernel_step k e k'" and p: "p \<in> set (rd k)" "current_pid k' \<noteq> p"
  shows "p \<in> set (rd k') \<and> slots k' p + of_bool (e = Tick) \<le> slots k p"
proof (cases "e = Tick")
  case True
  then have k': "k' = timer_interrupt k" using s(2) by (auto elim!: kernel_stepE simp: handle_event_def)
  note T = tick_ok [OF R]
  show ?thesis
  proof (cases "sched_partial_tick k")
    case par: True
    with T(4,5) stays_place [OF _ p(1), of k'] True show ?thesis by (simp add: k' slots_def)
  next
    case False
    with T(4,5) advances_place [OF _ p] True show ?thesis by (simp add: k' slots_def)
  qed
next
  case False
  from step_ok [OF R s]
  have "advances k k' \<or> stays k k' \<and> (sched_partial_tick k' \<longrightarrow> sched_partial_tick k)" by simp
  then show ?thesis
  proof
    assume "advances k k'"
    with advances_place [OF _ p] False show ?thesis by (simp add: slots_def)
  next
    assume "stays k k' \<and> (sched_partial_tick k' \<longrightarrow> sched_partial_tick k)"
    with stays_place [OF _ p(1), of k'] False show ?thesis by (auto simp: slots_def)
  qed
qed

lemma waits_or_runs:
  assumes "tidy_run k es k'" "running k" "sems_ok k" "p \<in> set (rd k)"
  shows "(\<exists>es1 es2 k1. es = es1 @ es2 \<and> tidy_run k es1 k1 \<and> current_pid k1 = p \<and> tidy_run k1 es2 k') \<or>
    p \<in> set (rd k') \<and> slots k' p + ticks es \<le> slots k p"
  using assms
proof (induction rule: tidy_run.induct)
  case (tidy_run_refl k)
  then show ?case by (simp add: ticks_def)
next
  case (tidy_run_step k es k' e k'')
  note K = tidy_run_ok [OF tidy_run_step.hyps(1) tidy_run_step.prems(1,2)]
  have next_run: "tidy_run k (es @ [e]) k''" using tidy_run_step.hyps by (rule tidy_run.tidy_run_step)
  from tidy_run_step.IH [OF tidy_run_step.prems] show ?case
  proof (elim disjE exE conjE)
    fix es1 es2 k1
    assume *: "es = es1 @ es2" "tidy_run k es1 k1" "current_pid k1 = p" "tidy_run k1 es2 k'"
    have "tidy_run k1 (es2 @ [e]) k''" using *(4) tidy_run_step.hyps(2,3) by (rule tidy_run.tidy_run_step)
    with * show ?thesis by (intro disjI1 exI [of _ es1] exI [of _ "es2 @ [e]"] exI [of _ k1]) simp
  next
    assume p: "p \<in> set (rd k')" "slots k' p + ticks es \<le> slots k p"
    show ?thesis
    proof (cases "current_pid k'' = p")
      case True
      with next_run show ?thesis
        by (intro disjI1 exI [of _ "es @ [e]"] exI [of _ "[]"] exI [of _ k'']) (simp add: tidy_run.tidy_run_refl)
    next
      case False
      from step_slots [OF _ _ tidy_run_step.hyps(2,3) p(1) False] K p(2) show ?thesis by (auto simp: ticks_def)
    qed
  qed
qed

text \<open>C2: a process in the ready queue is not kept waiting. With \<open>n\<close> processes before it, it has run by
  the time the timer has interrupted \<open>2 n + 2\<close> times. The other processes may do what they like, except destroy a
  semaphore with a unit to give and a process in its queue.\<close>

theorem bounded_waiting:
  assumes "tidy_run (xilkernel_init ts) es0 k" "p \<in> set (contents (ready_q k))"
    and "tidy_run k es k'" "2 * place_in (contents (ready_q k)) p + 1 < ticks es"
  shows "\<exists>es1 es2 k1. es = es1 @ es2 \<and> tidy_run k es1 k1 \<and> current_pid k1 = p \<and> tidy_run k1 es2 k'"
proof -
  from reachable_ok [OF assms(1)] have R: "running k" "sems_ok k" by simp_all
  have "p \<in> set (rd k)" using assms(2) by (simp add: rd_def)
  from waits_or_runs [OF assms(3) R this] show ?thesis
  proof
    assume "p \<in> set (rd k') \<and> slots k' p + ticks es \<le> slots k p"
    then have "ticks es \<le> 2 * place_in (contents (ready_q k)) p + 1"
      by (cases "sched_partial_tick k") (auto simp: slots_def rd_def)
    with assms(4) show ?thesis by simp
  qed
qed

section \<open>A state that a run reaches\<close>

text \<open>Three threads; the first has made a semaphore and sleeps, the second runs, the third is ready.\<close>

definition busy_events :: "event list" where
  "busy_events = [Tick, Call (Sem_init 0 0), Call (Sleep 30)]"

lemma busy_state:
  "\<exists>k. tidy_run (xilkernel_init [0, 0, 0]) busy_events k \<and> current_pid k = 2 \<and> contents (ready_q k) = [3] \<and>
    pcontext (pcb k 2) = User \<and> is_allocated (pcb k 1) \<and> get_sem_by_semt k (Some 0) = Some 0 \<and>
    sint (sem_value (sem_heap k ! 0)) = 0 \<and> timers k = [(1, 3)] \<and> sched_partial_tick k \<and>
    map_option current_pid (run_events [Tick, Tick] k) = Some 3"
proof -
  have "map_option (\<lambda>k. (current_pid k, contents (ready_q k), pcontext (pcb k 2), is_allocated (pcb k 1),
      get_sem_by_semt k (Some 0), sint (sem_value (sem_heap k ! 0)), timers k, sched_partial_tick k,
      map_option current_pid (run_events [Tick, Tick] k))) (run_events busy_events (xilkernel_init [0, 0, 0])) =
    Some (2, [3], User, True, Some 0, 0, [(1, 3)], True, Some 3)"
    unfolding busy_events_def by code_simp
  then obtain k where k: "run_events busy_events (xilkernel_init [0, 0, 0]) = Some k" "current_pid k = 2"
    "contents (ready_q k) = [3]" "pcontext (pcb k 2) = User" "is_allocated (pcb k 1)" "get_sem_by_semt k (Some 0) = Some 0"
    "sint (sem_value (sem_heap k ! 0)) = 0" "timers k = [(1, 3)]" "sched_partial_tick k"
    "map_option current_pid (run_events [Tick, Tick] k) = Some 3" by auto
  have "tidy_run (xilkernel_init [0, 0, 0]) busy_events k"
    using run_events_tidy [OF k(1)] by (simp add: busy_events_def)
  with k show ?thesis by blast
qed

theorem kernel_never_hangs_witness:
  "\<exists>k r k'. tidy_run (xilkernel_init [0, 0, 0]) busy_events k \<and> handle_event (Call (Sem_wait (Some 0))) k = Some (r, k') \<and>
    p_state (pcb k' (current_pid k')) = PROC_RUN"
proof -
  from busy_state obtain k where k: "tidy_run (xilkernel_init [0, 0, 0]) busy_events k" "current_pid k = 2"
    "pcontext (pcb k 2) = User" by blast
  then have "possible (Call (Sem_wait (Some 0))) k" "tidy (Call (Sem_wait (Some 0))) k" by (simp_all add: tidy_def)
  from kernel_never_hangs [OF k(1) this] k(1) show ?thesis by blast
qed

theorem process_in_one_place_witness:
  "\<exists>k. tidy_run (xilkernel_init [0, 0, 0]) busy_events k \<and>
    of_bool (1 = current_pid k) + count_list (contents (ready_q k)) 1 + (\<Sum>i<50. count_list (contents (wait_q k i)) 1) +
    of_bool (p_state (pcb k 1) = PROC_DELAY \<and> 1 \<in> fst ` set (timers k)) = (1 :: nat)"
proof -
  from busy_state obtain k where k: "tidy_run (xilkernel_init [0, 0, 0]) busy_events k" "is_allocated (pcb k 1)" by blast
  from process_in_one_place [OF k(1), of 1] k show ?thesis by (intro exI [of _ k]) simp
qed

theorem bounded_waiting_witness:
  "\<exists>k k' es1 es2 k1. tidy_run (xilkernel_init [0, 0, 0]) busy_events k \<and> current_pid k = 2 \<and> contents (ready_q k) = [3] \<and>
    [Tick, Tick] = es1 @ es2 \<and> tidy_run k es1 k1 \<and> current_pid k1 = 3 \<and> tidy_run k1 es2 k'"
proof -
  from busy_state obtain k where k: "tidy_run (xilkernel_init [0, 0, 0]) busy_events k" "current_pid k = 2"
    "contents (ready_q k) = [3]" "map_option current_pid (run_events [Tick, Tick] k) = Some 3" by blast
  then obtain k' where "run_events [Tick, Tick] k = Some k'" by (auto simp del: run_events.simps)
  then have r: "tidy_run k [Tick, Tick] k'" by (rule run_events_tidy) simp
  have "3 \<in> set (contents (ready_q k))" "2 * place_in (contents (ready_q k)) 3 + 1 < ticks [Tick, Tick]"
    using k(3) by (simp_all add: place_in_def ticks_def)
  from bounded_waiting [OF k(1) this(1) r this(2)] k show ?thesis by blast
qed

end
