(* ===== verification/Kernel_Calls.thy ===== *)
theory Kernel_Calls
  imports Kernel_Runs
begin

text \<open>
  What the timer interrupt, \<open>sleep\<close> and the semaphore calls do, as functions of the abstract
  state: the current process, the ready queue, the wait queues and the list of timers.
\<close>

section \<open>The timer interrupt\<close>

lemma scheduler_timers [simp]:
  "soft_tmrs (snd (scheduler k)) = soft_tmrs k" "active_tmrs_a (snd (scheduler k)) = active_tmrs_a k"
  "active_tmrs_b (snd (scheduler k)) = active_tmrs_b k" "active_is_a (snd (scheduler k)) = active_is_a k"
  "nactive (snd (scheduler k)) = nactive k" "sem_heap (snd (scheduler k)) = sem_heap k"
  by (simp_all add: scheduler_def sched_rr_def Let_def split: prod.split)

lemma timers_same:
  assumes "soft_tmrs k' = soft_tmrs k" "active_tmrs_a k' = active_tmrs_a k" "active_tmrs_b k' = active_tmrs_b k"
    "active_is_a k' = active_is_a k" "nactive k' = nactive k"
  shows "timers k' = timers k"
proof -
  have "active_tmrs k' = active_tmrs k" using assms by (simp add: active_tmrs_def)
  moreover have "tmr k' = tmr k" using assms by (simp add: tmr_def fun_eq_iff)
  ultimately show ?thesis using assms by (simp add: timers_def)
qed

text \<open>The process that runs next and the ready queue that is left, from the queue of those that may run.\<close>

definition round_robin :: "int list \<Rightarrow> int \<times> int list" where
  "round_robin q = (case q of [] \<Rightarrow> (0, []) | p # ps \<Rightarrow> (p, ps))"

definition requeued :: "kernel \<Rightarrow> int list" where
  "requeued k = (if current_pid k \<noteq> idle_task_pid then [current_pid k] else [])"

lemma interrupt_counts:
  assumes R: "running k"
  defines "k' \<equiv> timer_interrupt k"
  shows "timers k' = counted (timers k)" "wt k' = (\<lambda>i. filter (\<lambda>p. p \<notin> set (expired (timers k))) (wt k i))"
    "(current_pid k', rd k') =
       (if sched_partial_tick k then (current_pid k, rd k @ expired (timers k))
        else round_robin (rd k @ expired (timers k) @ requeued k))"
proof -
  note D = runningD [OF R]
  let ?k = "k\<lparr>kernel_ticks := kernel_ticks k + 1\<rparr>"
  define k1 where "k1 = soft_tmr_handler ?k"
  have K0: "kernel_inv ?k" using D(1) by simp
  have t0: "timers ?k = timers k" by (rule timers_same) simp_all
  note V = soft_tmr_handler_view [OF K0, folded k1_def]
  note C = soft_tmr_handler_counts [OF K0, folded k1_def, unfolded t0]
  have run1: "st k1 (current_pid k1) = PROC_RUN" using V(3) [of "current_pid k"] V(4) D(8) by simp
  have p1: "sched_partial_tick k1 = sched_partial_tick k" using V(5) by simp
  define k2 where "k2 = (if sched_partial_tick k1 then k1\<lparr>resched := False, sched_partial_tick := False\<rparr>
    else k1\<lparr>resched := True\<rparr>)\<lparr>timer_need_refresh := True\<rparr>"
  have e: "k' = pit_reset (if resched k2 then snd (scheduler k2) else k2)"
    by (simp add: k'_def timer_interrupt_def timer_int_handler_def k1_def k2_def Let_def)
  have k2: "kernel_inv k2" "rd k2 = rd k @ expired (timers k)" "current_pid k2 = current_pid k"
      "resched k2 \<longleftrightarrow> \<not> sched_partial_tick k" "st k2 = st k1" "wt k2 = wt k1"
    using V(1,4) C p1 by (auto simp: k2_def)
  have "timers k2 = timers k1" by (rule timers_same) (simp_all add: k2_def)
  moreover have "timers k' = timers (if resched k2 then snd (scheduler k2) else k2)"
    by (rule timers_same) (simp_all add: e pit_reset_def)
  moreover have "timers (snd (scheduler k2)) = timers k2" by (rule timers_same) simp_all
  ultimately show "timers k' = counted (timers k)" using C(1) by simp
  have w: "wt (snd (scheduler k2)) = wt k2" using scheduler_view(4) [OF k2(1)] by (simp add: prod_eq_iff)
  show "wt k' = (\<lambda>i. filter (\<lambda>p. p \<notin> set (expired (timers k))) (wt k i))" using w k2 C(3) by (simp add: e)
  show "(current_pid k', rd k') =
       (if sched_partial_tick k then (current_pid k, rd k @ expired (timers k))
        else round_robin (rd k @ expired (timers k) @ requeued k))"
  proof (cases "sched_partial_tick k")
    case True
    with k2 show ?thesis by (simp add: e)
  next
    case False
    obtain same k3 where s: "scheduler k2 = (same, k3)" by fastforce
    have "requeue k2 = rd k @ expired (timers k) @ requeued k"
      using k2 run1 V(4) by (simp add: requeue_def requeued_def)
    with scheduler_view(2) [OF k2(1) s] False k2 show ?thesis
      by (auto simp: e s round_robin_def)
  qed
qed

text \<open>C15: the timer interrupt, on the abstract state. Every timer is counted down by one; the processes whose
  time is up leave the wait queue they may be in and join the end of the ready queue, in the order
  of their timers; and, unless the time slice is the rest of one that a blocked process left, the
  current process goes to the end of the ready queue and its first process runs (the idle task
  when there is none).\<close>

theorem timer_interrupt_refines:
  assumes "tidy_run (xilkernel_init ts) es k"
  shows "timers (timer_interrupt k) = counted (timers k) \<and>
    (\<forall>i. i < 50 \<longrightarrow> contents (wait_q (timer_interrupt k) i) =
       filter (\<lambda>p. p \<notin> set (expired (timers k))) (contents (wait_q k i))) \<and>
    (current_pid (timer_interrupt k), contents (ready_q (timer_interrupt k))) =
      (if sched_partial_tick k then (current_pid k, contents (ready_q k) @ expired (timers k))
       else round_robin (contents (ready_q k) @ expired (timers k) @ requeued k))"
proof -
  from reachable_ok [OF assms] have "running k" by simp
  note I = interrupt_counts [OF this]
  have "contents (wait_q (timer_interrupt k) i) = filter (\<lambda>p. p \<notin> set (expired (timers k))) (contents (wait_q k i))"
    if "i < 50" for i using fun_cong [OF I(2), of i] that by (simp add: wt_def)
  with I(1,3) show ?thesis by (simp add: rd_def)
qed

section \<open>Sleeping\<close>

lemma suspend_timers: "suspend ctx k = Some k' \<Longrightarrow> timers k' = timers k"
proof -
  assume *: "suspend ctx k = Some k'"
  then have "k' = pit_reset (save_context (current_pid k) ctx (snd (scheduler k)))"
    by (auto simp: suspend_def split: prod.splits if_splits)
  then show "timers k' = timers k" by (intro timers_same) (simp_all add: pit_reset_def save_context_def)
qed

lemma process_block_timers: "process_block ctx i x k = Some k' \<Longrightarrow> timers k' = timers k"
proof -
  assume "process_block ctx i x k = Some k'"
  then have "timers k' = timers (upd_pcb (current_pid k) (\<lambda>p. p\<lparr>blockq := Some i, p_state := x\<rparr>)
      (set_wait_q i (penq (wait_q k i) (current_pid k)) k))"
    by (simp add: process_block_def Let_def suspend_timers)
  also have "\<dots> = timers k" by (rule timers_same) simp_all
  finally show "timers k' = timers k" .
qed

lemma round_robin_dispatch:
  "q = [] \<and> p = 0 \<and> r = [] \<or> q = p # r \<Longrightarrow> (p, r) = round_robin q"
  by (auto simp: round_robin_def)

lemma sleep_result:
  assumes R: "running k" and c: "current_pid k \<noteq> 0"
  shows "\<exists>k'. call (Sleep ms) k = Some (None, k') \<and> running k' \<and>
    timers k' = timers k @ [(current_pid k, if ms_to_ticks ms = 0 then 1 else ms_to_ticks ms)] \<and>
    (current_pid k', rd k') = round_robin (rd k) \<and> wt k' = wt k \<and> sem_heap k' = sem_heap k \<and>
    st k' (current_pid k) = PROC_DELAY"
proof -
  note D = runningD [OF R]
  let ?c = "current_pid k"
  obtain k1 where k1: "add_tmr ?c ms k = (0, k1)" using add_tmr_ok [OF R] by blast
  have cm: "?c \<notin> tmp k (active k)" "?c \<noteq> - 1"
    using placed_timers(2) [OF D(3), of ?c] D(7,8) by (auto simp: valid_def)
  note A = add_tmr_view [OF D(4,5) cm(2,1) few_timers [OF D(4,3)] k1]
  have v: "st k1 = st k" "al k1 = al k" "bq k1 = bq k" "rd k1 = rd k" "wt k1 = wt k" "shape k1 = shape k"
    by (rule view_eq; simp add: A)+
  define k2 where "k2 = upd_pcb ?c (p_state_update (\<lambda>_. PROC_DELAY)) k1"
  have v2: "st k2 = (st k)(?c := PROC_DELAY)" "al k2 = al k" "bq k2 = bq k" "rd k2 = rd k" "wt k2 = wt k" "shape k2"
    "current_pid k2 = ?c" "sem_heap k2 = sem_heap k"
    using v D(2,7) A by (simp_all add: k2_def st_upd al_upd_same bq_upd_same)
  have t2: "tmp k2 ids = tmp k1 ids" "tmrs_ok k2 ids = tmrs_ok k1 ids" "active k2 = active k1" "buffers_ok k2 = buffers_ok k1" for ids
    by (rule timers_eq; simp add: k2_def)+
  have K2: "kernel_inv k2"
    using placed_delay [OF D(3,6) c D(8)] v2 t2 A D(6) by (simp add: kernel_inv_def inv_with_def)
  have "?c \<notin> set (rd k)" using placed_ready(2) [OF D(3), of ?c] D(8) by simp
  with suspend_view [OF K2, of In_sleep] v2 c obtain k' where k': "suspend In_sleep k2 = Some k'" "running k'"
    "rd k2 = [] \<and> current_pid k' = 0 \<and> rd k' = [] \<or> rd k2 = current_pid k' # rd k'"
    "wt k' = wt k2" "al k' = al k2" "sem_heap k' = sem_heap k2"
    by auto
  have "timers k' = timers k1"
    unfolding suspend_timers [OF k'(1)] by (rule timers_same) (simp_all add: k2_def)
  then have tm: "timers k' = timers k @ [(?c, if ms_to_ticks ms = 0 then 1 else ms_to_ticks ms)]" using A by simp
  have "current_pid k1 = ?c" by (fact A)
  then have call: "call (Sleep ms) k = Some (None, k')" using k1 k'(1) by (simp add: sys_sleep_def k2_def)
  have "?c \<in> fst ` set (timers k')" by (simp add: tm)
  then have d: "st k' ?c = PROC_DELAY \<or> st k' ?c = PROC_TIMED_WAIT"
    using placed_timers(2) [OF runningD(3) [OF k'(2)], of ?c] by (simp add: fst_timers)
  have "bq k ?c = None" using placed_waiting(3) [OF D(3), of ?c] D(8) by auto
  then have "?c \<notin> set (wt k' i)" for i using placed_waiting(2) [OF D(3), of ?c i] k'(4) v2 by simp
  then have "bq k' ?c = None" using placed_waiting(2) [OF runningD(3) [OF k'(2)], of ?c] by auto
  then have "st k' ?c \<noteq> PROC_TIMED_WAIT"
    using placed_waiting(3) [OF runningD(3) [OF k'(2)], of ?c] D(6) k'(5) v2 by auto
  with d have "st k' ?c = PROC_DELAY" by simp
  with k' v2 tm call round_robin_dispatch [of "rd k" "current_pid k'" "rd k'"] show ?thesis by auto
qed

lemma word_ge_one: "(1 :: u32) \<le> w \<longleftrightarrow> w \<noteq> 0"
  using unat_eq_0 [of w] by (auto simp: word_le_nat_alt)

text \<open>A process that calls \<open>sleep\<close> is switched away at once, for the first process of the ready queue,
  and gets a timer of \<open>ms div 10\<close> ticks, one at least; it always gets one, although the source
  has a branch for a full table.\<close>

theorem sleep_sets_timer:
  assumes "tidy_run (xilkernel_init ts) es k" "possible (Call (Sleep ms)) k"
  shows "\<exists>k'. handle_event (Call (Sleep ms)) k = Some (None, k') \<and>
    p_state (pcb k' (current_pid k)) = PROC_DELAY \<and>
    timers k' = timers k @ [(current_pid k, max 1 (ms div 10))] \<and>
    (current_pid k', contents (ready_q k')) = round_robin (contents (ready_q k))"
proof -
  from reachable_ok [OF assms(1)] have R: "running k" by simp
  from assms(2) have c: "current_pid k \<noteq> 0" by simp
  have m: "max 1 (ms div 10) = (if ms_to_ticks ms = 0 then 1 else ms_to_ticks ms)"
    using word_ge_one by (auto simp: ms_to_ticks_def max_def)
  from sleep_result [OF R c, of ms] runningD(7) [OF R] show ?thesis
    unfolding m by (auto simp: handle_event_def finish_def rd_def st_def)
qed

section \<open>Semaphores as counters\<close>

text \<open>The abstract semaphore: the value and the processes in the queue.\<close>

definition sem_view :: "kernel \<Rightarrow> nat \<Rightarrow> int \<times> int list" where
  "sem_view k i = (sint (sem_value (sem_heap k ! i)), contents (wait_q k i))"

fun abs_wait :: "int \<Rightarrow> int \<times> int list \<Rightarrow> int \<times> int list" where
  "abs_wait p (v, ws) = (v - 1, if 0 < v then ws else ws @ [p])"

fun abs_post :: "int \<times> int list \<Rightarrow> int \<times> int list" where
  "abs_post (v, ws) = (v + 1, if v < 0 then tl ws else ws)"

fun abs_woken :: "int \<times> int list \<Rightarrow> int list" where
  "abs_woken (v, ws) = (if v < 0 then take 1 ws else [])"

lemma sint_pred: "- 128 < sint v \<Longrightarrow> sint (v - 1 :: 8 word) = sint v - 1"
  using sint_range_size [of v] by (simp add: sint_word_ariths word_size signed_take_bit_int_eq_self)

lemma sint_succ: "sint v < 127 \<Longrightarrow> sint (v + 1 :: 8 word) = sint v + 1"
  using sint_range_size [of v] by (simp add: sint_word_ariths word_size signed_take_bit_int_eq_self)

lemma wt_contents: "i < 50 \<Longrightarrow> contents (wait_q k i) = wt k i"
  by (simp add: wt_def)

lemma wait_result:
  assumes R: "running k" and S: "sems_ok k" and c: "current_pid k \<noteq> 0" and f: "get_sem_by_semt k sem = Some i"
    and v: "- 128 < sint (sem_value (sem_heap k ! i))"
  shows "\<exists>r k'. sys_sem_wait_x sem k = Some (r, k') \<and> running k' \<and> timers k' = timers k \<and>
    sem_view k' i = abs_wait (current_pid k) (sem_view k i) \<and>
    (\<forall>j. j < 50 \<and> j \<noteq> i \<longrightarrow> sem_view k' j = sem_view k j \<and> sem_id (sem_heap k' ! j) = sem_id (sem_heap k ! j)) \<and>
    (if 0 < sint (sem_value (sem_heap k ! i))
     then r = Some (Returns 0 None) \<and> current_pid k' = current_pid k \<and> rd k' = rd k
     else r = None \<and> (current_pid k', rd k') = round_robin (rd k))"
proof -
  from f have i: "i < 50" "sem_id (sem_heap k ! i) \<noteq> - 1" by (auto dest: sem_found)
  have l: "length (sem_heap k) = 50" using runningD(2) [OF R] by (simp add: shape_def)
  let ?k = "upd_sem i (sem_value_update (\<lambda>v. v - 1)) k"
  note V = value_upd [OF R S i, of "\<lambda>v. v - 1"]
  have val: "sint (sem_value (sem_heap ?k ! i)) = sint (sem_value (sem_heap k ! i)) - 1"
    using i(1) l v by (simp add: sem_upd sint_pred)
  have t: "timers ?k = timers k" by (rule timers_same) simp_all
  show ?thesis
  proof (cases "0 < sint (sem_value (sem_heap k ! i))")
    case True
    have "sem_id (sem_heap ?k ! i) \<noteq> - 1" using i l by (simp add: sem_upd)
    then have e: "sys_sem_wait_x sem k = Some (Some (Returns 0 None), ?k)"
      using True val f by (simp add: sys_sem_wait_x_def Let_def sem_wait_end_def ret_def)
    have "sem_view ?k j = (if j = i then abs_wait (current_pid k) (sem_view k i) else sem_view k j)" if "j < 50" for j
      using that i(1) l True val V(3) by (auto simp: sem_view_def wt_contents sem_upd)
    with e True i l V t show ?thesis by (intro exI [of _ "Some (Returns 0 None)"] exI [of _ ?k]) (simp add: sem_upd)
  next
    case False
    have i': "sem_id (sem_heap ?k ! i) \<noteq> - 1" using i l by (simp add: sem_upd)
    have c': "current_pid ?k \<noteq> 0" using c by simp
    from block_result [OF V(1,2) i(1) i' c', of ?k PROC_WAIT _ "In_sem_wait i"]
    obtain k' where k': "process_block (In_sem_wait i) i PROC_WAIT ?k = Some k'" "running k'"
      "rd ?k = [] \<and> current_pid k' = 0 \<and> rd k' = [] \<or> rd ?k = current_pid k' # rd k'"
      "wt k' = (wt ?k)(i := wt ?k i @ [current_pid ?k])"
      "sem_heap k' = (sem_heap ?k)[i := (sem_heap ?k ! i)\<lparr>sem_wait_q := penq (wait_q ?k i) (current_pid ?k)\<rparr>]"
      by auto
    have tm: "timers k' = timers ?k" by (rule process_block_timers [OF k'(1)])
    have e: "sys_sem_wait_x sem k = Some (None, k')"
      using False val f k'(1) by (simp add: sys_sem_wait_x_def Let_def)
    have len: "length (sem_heap ?k) = 50" using l by (simp add: upd_sem_def)
    have "sem_view k' j = (if j = i then abs_wait (current_pid k) (sem_view k i) else sem_view k j)
        \<and> (j \<noteq> i \<longrightarrow> sem_id (sem_heap k' ! j) = sem_id (sem_heap k ! j))" if "j < 50" for j
      using that i(1) l len False val V(3) k'(4,5) by (auto simp: sem_view_def wt_contents sem_upd nth_list_update)
    with e False i k' tm t round_robin_dispatch [OF k'(3)] show ?thesis by (intro exI [of _ None] exI [of _ k']) simp
  qed
qed

lemma post_result:
  assumes R: "running k" and S: "sems_ok k" and f: "get_sem_by_semt k sem = Some i"
    and v: "sint (sem_value (sem_heap k ! i)) < 127"
  shows "\<exists>k'. sys_sem_post sem k = Some (Some (Returns 0 None), k') \<and> running k' \<and>
    tmp k' (active k') \<subseteq> tmp k (active k) \<and>
    sem_view k' i = abs_post (sem_view k i) \<and>
    (\<forall>j. j < 50 \<and> j \<noteq> i \<longrightarrow> sem_view k' j = sem_view k j \<and> sem_id (sem_heap k' ! j) = sem_id (sem_heap k ! j)) \<and>
    current_pid k' = current_pid k \<and> rd k' = rd k @ abs_woken (sem_view k i)"
proof -
  from f have i: "i < 50" "sem_id (sem_heap k ! i) \<noteq> - 1" by (auto dest: sem_found)
  have l: "length (sem_heap k) = 50" using runningD(2) [OF R] by (simp add: shape_def)
  let ?k = "upd_sem i (sem_value_update (\<lambda>v. v + 1)) k"
  note V = value_upd [OF R S i, of "\<lambda>v. v + 1"]
  have val: "sint (sem_value (sem_heap ?k ! i)) = sint (sem_value (sem_heap k ! i)) + 1"
    using i(1) l v by (simp add: sem_upd sint_succ)
  have u: "\<not> sem_unlink (sem_heap ?k ! i)" using S i l by (simp add: sems_ok_def sem_upd)
  have q: "contents (sem_wait_q (sem_heap ?k ! i)) = wt k i" using V(3) i(1) by (simp flip: wait_q_def add: wt_contents)
  have cnt: "item_count (sem_wait_q (sem_heap ?k ! i)) = length (wt k i)" unfolding q [symmetric] by simp
  show ?thesis
  proof (cases "sint (sem_value (sem_heap k ! i)) < 0 \<and> wt k i \<noteq> []")
    case True
    then obtain p ps where w: "wt k i = p # ps" by (auto simp: neq_Nil_conv)
    then have w': "wt ?k i = p # ps" using V(3) by simp
    let ?k' = "process_unblock i ?k"
    note U = process_unblock_view [OF runningD(1) [OF V(1)] i(1) w'] and O = unblock_ok [OF V(1,2) i(1) w']
    have e: "sys_sem_post sem k = Some (Some (Returns 0 None), ?k')"
      using True val f cnt w by (simp add: sys_sem_post_def Let_def ret_def)
    have len: "length (sem_heap ?k) = 50" using l by (simp add: upd_sem_def)
    have "sem_view ?k' j = (if j = i then abs_post (sem_view k i) else sem_view k j)
        \<and> (j \<noteq> i \<longrightarrow> sem_id (sem_heap ?k' ! j) = sem_id (sem_heap k ! j))" if "j < 50" for j
      using that i(1) l len True val V(3) U(3,9) w by (auto simp: sem_view_def wt_contents sem_upd nth_list_update)
    moreover have "abs_woken (sem_view k i) = [p]" using True w i(1) by (simp add: sem_view_def wt_contents)
    moreover have "tmp ?k' (active ?k') \<subseteq> tmp k (active k)" using U(12) by auto
    ultimately show ?thesis using e O(1,4,5) i(1) by (intro exI [of _ ?k']) simp
  next
    case False
    have e: "sys_sem_post sem k = Some (Some (Returns 0 None), ?k)"
      using False val f cnt u by (auto simp: sys_sem_post_def Let_def ret_def)
    have "sem_view ?k j = (if j = i then abs_post (sem_view k i) else sem_view k j)" if "j < 50" for j
      using that i(1) l False val V(3) by (auto simp: sem_view_def wt_contents sem_upd)
    moreover have "abs_woken (sem_view k i) = []" using False i(1) by (auto simp: sem_view_def wt_contents)
    ultimately show ?thesis using e V(1) i l by (intro exI [of _ ?k]) (simp add: sem_upd)
  qed
qed

text \<open>C16: \<open>sem_wait\<close> on a semaphore whose value is above the least of a signed char, on the abstract semaphore: a unit is taken at
  once when there is one, and the process goes on; without one the process joins the end of the
  wait queue and the first process of the ready queue runs. No other semaphore is touched.\<close>

theorem sem_wait_refines:
  assumes "tidy_run (xilkernel_init ts) es k" "possible (Call (Sem_wait sem)) k" "get_sem_by_semt k sem = Some i"
    and "- 128 < sint (sem_value (sem_heap k ! i))"
  shows "\<exists>r k'. sys_sem_wait_x sem k = Some (r, k') \<and>
    sem_view k' i = abs_wait (current_pid k) (sem_view k i) \<and>
    (\<forall>j. j < 50 \<and> j \<noteq> i \<longrightarrow> sem_view k' j = sem_view k j) \<and>
    (if 0 < fst (sem_view k i)
     then r = Some (Returns 0 None) \<and> current_pid k' = current_pid k \<and> contents (ready_q k') = contents (ready_q k)
     else r = None \<and> (current_pid k', contents (ready_q k')) = round_robin (contents (ready_q k)))"
proof -
  from reachable_ok [OF assms(1)] have R: "running k" "sems_ok k" by simp_all
  from assms(2) have c: "current_pid k \<noteq> 0" by simp
  from wait_result [OF R c assms(3,4)] obtain r k' where "sys_sem_wait_x sem k = Some (r, k')"
    "sem_view k' i = abs_wait (current_pid k) (sem_view k i)" "\<forall>j. j < 50 \<and> j \<noteq> i \<longrightarrow> sem_view k' j = sem_view k j"
    "if 0 < sint (sem_value (sem_heap k ! i))
     then r = Some (Returns 0 None) \<and> current_pid k' = current_pid k \<and> rd k' = rd k
     else r = None \<and> (current_pid k', rd k') = round_robin (rd k)" by blast
  then show ?thesis by (intro exI [of _ r] exI [of _ k']) (simp add: sem_view_def rd_def split: if_splits)
qed

text \<open>C17: \<open>sem_post\<close> on a semaphore whose value is below the greatest of a signed char, on the abstract
  semaphore: the value goes up by one, and when it was negative, and only then, the first waiting process is
  made ready. The caller goes on. No other semaphore is touched.\<close>

theorem sem_post_refines:
  assumes "tidy_run (xilkernel_init ts) es k" "get_sem_by_semt k sem = Some i"
    and "sint (sem_value (sem_heap k ! i)) < 127"
  shows "\<exists>k'. sys_sem_post sem k = Some (Some (Returns 0 None), k') \<and>
    sem_view k' i = abs_post (sem_view k i) \<and> (\<forall>j. j < 50 \<and> j \<noteq> i \<longrightarrow> sem_view k' j = sem_view k j) \<and>
    current_pid k' = current_pid k \<and> contents (ready_q k') = contents (ready_q k) @ abs_woken (sem_view k i)"
proof -
  from reachable_ok [OF assms(1)] have R: "running k" "sems_ok k" by simp_all
  from post_result [OF R assms(2,3)] show ?thesis unfolding rd_def by blast
qed

section \<open>Examples\<close>

theorem timer_interrupt_refines_witness:
  "\<exists>k. tidy_run (xilkernel_init [0, 0, 0]) busy_events k \<and> timers (timer_interrupt k) = [(1, 2)] \<and>
    (current_pid (timer_interrupt k), contents (ready_q (timer_interrupt k))) = (2, [3])"
proof -
  from busy_state obtain k where k: "tidy_run (xilkernel_init [0, 0, 0]) busy_events k" "current_pid k = 2"
    "contents (ready_q k) = [3]" "timers k = [(1, 3)]" "sched_partial_tick k" by blast
  from timer_interrupt_refines [OF k(1)] k show ?thesis by (intro exI [of _ k]) simp
qed

theorem sleep_sets_timer_witness:
  "\<exists>k k'. tidy_run (xilkernel_init [0, 0, 0]) busy_events k \<and> handle_event (Call (Sleep 5)) k = Some (None, k') \<and>
    timers k' = [(1, 3), (2, 1)] \<and> (current_pid k', contents (ready_q k')) = (3, [])"
proof -
  from busy_state obtain k where k: "tidy_run (xilkernel_init [0, 0, 0]) busy_events k" "current_pid k = 2"
    "contents (ready_q k) = [3]" "timers k = [(1, 3)]" "pcontext (pcb k 2) = User" by blast
  then have "possible (Call (Sleep 5)) k" by simp
  moreover have "max 1 (5 div 10 :: u32) = 1" by simp
  ultimately show ?thesis using sleep_sets_timer [OF k(1), of 5] k by (auto simp: round_robin_def)
qed

theorem sem_wait_refines_witness:
  "\<exists>k r k'. tidy_run (xilkernel_init [0, 0, 0]) busy_events k \<and> sys_sem_wait_x (Some 0) k = Some (r, k') \<and>
    sem_view k' 0 = abs_wait 2 (sem_view k 0)"
proof -
  from busy_state obtain k where k: "tidy_run (xilkernel_init [0, 0, 0]) busy_events k" "current_pid k = 2"
    "pcontext (pcb k 2) = User" "get_sem_by_semt k (Some 0) = Some 0" "sint (sem_value (sem_heap k ! 0)) = 0" by blast
  then have "possible (Call (Sem_wait (Some 0))) k" "- 128 < sint (sem_value (sem_heap k ! 0))" by simp_all
  from sem_wait_refines [OF k(1) this(1) k(4) this(2)] k(1,2) show ?thesis by auto
qed

theorem sem_post_refines_witness:
  "\<exists>k k'. tidy_run (xilkernel_init [0, 0, 0]) busy_events k \<and> sys_sem_post (Some 0) k = Some (Some (Returns 0 None), k') \<and>
    sem_view k' 0 = abs_post (sem_view k 0) \<and> contents (ready_q k') = contents (ready_q k) @ abs_woken (sem_view k 0)"
proof -
  from busy_state obtain k where k: "tidy_run (xilkernel_init [0, 0, 0]) busy_events k"
    "get_sem_by_semt k (Some 0) = Some 0" "sint (sem_value (sem_heap k ! 0)) = 0" by blast
  then have "sint (sem_value (sem_heap k ! 0)) < 127" by simp
  from sem_post_refines [OF k(1,2) this] k(1) show ?thesis by blast
qed

end
