(* ===== verification/Kernel_Wakeups.thy ===== *)
theory Kernel_Wakeups
  imports Kernel_Calls
begin

text \<open>
  Wakeups. Without timed waits and within the range of a signed char, a semaphore is exact: a
  negative value counts the processes that wait, and none waits otherwise. With timed waits this
  fails: a run of the kernel in which a wakeup is lost, and then a process.
\<close>

section \<open>Runs without timed waits\<close>

definition plain :: "event \<Rightarrow> kernel \<Rightarrow> bool" where
  "plain e k \<longleftrightarrow>
     (case e of
        Call (Sem_init _ v) \<Rightarrow> v < 128
      | Call (Sem_timedwait _ _) \<Rightarrow> False
      | Call (Sem_post sem) \<Rightarrow>
          (case get_sem_by_semt k sem of None \<Rightarrow> True | Some i \<Rightarrow> sint (sem_value (sem_heap k ! i)) < 127)
      | _ \<Rightarrow> True)"

inductive plain_run :: "kernel \<Rightarrow> event list \<Rightarrow> kernel \<Rightarrow> bool" where
  plain_run_refl: "plain_run k [] k"
| plain_run_step: "plain_run k es k' \<Longrightarrow> plain e k' \<Longrightarrow> kernel_step k' e k'' \<Longrightarrow> plain_run k (es @ [e]) k''"

text \<open>The places in system calls where processes continue.\<close>

definition ctxs :: "kernel \<Rightarrow> saved_context set" where
  "ctxs k = pcontext ` set (ptable k)"

definition timedwaits :: "saved_context set" where
  "timedwaits = range In_sem_timedwait"

definition exact :: "int \<times> int list \<Rightarrow> bool" where
  "exact s \<longleftrightarrow> (if fst s < 0 then int (length (snd s)) = - fst s else snd s = [])"

definition balanced :: "kernel \<Rightarrow> bool" where
  "balanced k \<longleftrightarrow> (\<forall>i<50. sem_id (sem_heap k ! i) \<noteq> - 1 \<longrightarrow> exact (sem_view k i)) \<and>
     (\<forall>i. tmp k (active k) \<inter> set (wt k i) = {}) \<and> ctxs k \<inter> timedwaits = {}"

text \<open>In a balanced state no semaphore with a unit to give has a process in its queue.\<close>

lemma balanced_tidy: "balanced k \<Longrightarrow> tidy e k"
proof -
  assume B: "balanced k"
  have "item_count (wait_q k i) = 0" if "get_sem_by_semt k sem = Some i" "0 < sint (sem_value (sem_heap k ! i))" for sem i
  proof -
    have "i < 50" "sem_id (sem_heap k ! i) \<noteq> - 1" using that(1) by (auto dest: sem_found)
    then have "exact (sem_view k i)" using B by (simp add: balanced_def)
    then show ?thesis using that(2) by (simp add: exact_def sem_view_def contents_Nil)
  qed
  then show ?thesis by (auto simp: tidy_def split: event.splits syscall.splits option.splits)
qed

lemma ctxs_same: "ptable k' = ptable k \<Longrightarrow> ctxs k' = ctxs k"
  by (simp add: ctxs_def)

lemma map_update_same:
  assumes "\<And>x. g (f x) = g x"
  shows "map g (xs[n := f (xs ! n)]) = map g xs"
proof (cases "n < length xs")
  case True
  then have "map g xs ! n = g (xs ! n)" by simp
  then show ?thesis using assms by (metis list_update_id map_update)
qed (simp add: list_update_beyond)

lemma ctxs_upd [simp]:
  assumes "\<And>p. pcontext (f p) = pcontext p"
  shows "ctxs (upd_pcb q f k) = ctxs k"
  using map_update_same [of pcontext f "ptable k" "nat q"] assms
  unfolding ctxs_def upd_pcb_def by (simp flip: set_map)

lemma ctxs_set: "ctxs (upd_pcb q (pcontext_update (\<lambda>_. c)) k) \<subseteq> insert c (ctxs k)"
proof
  fix x assume "x \<in> ctxs (upd_pcb q (pcontext_update (\<lambda>_. c)) k)"
  then obtain p where p: "p \<in> set ((ptable k)[nat q := (ptable k ! nat q)\<lparr>pcontext := c\<rparr>])" "x = pcontext p"
    by (auto simp: ctxs_def upd_pcb_def)
  from subsetD [OF set_update_subset_insert p(1)] p(2) show "x \<in> insert c (ctxs k)" by (auto simp: ctxs_def)
qed

lemma ctxs_frame [simp]:
  "ctxs (k\<lparr>ready_q := q\<rparr>) = ctxs k" "ctxs (k\<lparr>resched := b\<rparr>) = ctxs k" "ctxs (k\<lparr>did_resched := b\<rparr>) = ctxs k"
  "ctxs (k\<lparr>timer_need_refresh := b\<rparr>) = ctxs k" "ctxs (k\<lparr>sched_partial_tick := b\<rparr>) = ctxs k"
  "ctxs (k\<lparr>soft_tmrs := ts\<rparr>) = ctxs k" "ctxs (k\<lparr>current_pid := p\<rparr>) = ctxs k"
  "ctxs (k\<lparr>kernel_ticks := n\<rparr>) = ctxs k" "ctxs (set_wait_q i q k) = ctxs k" "ctxs (upd_sem i f k) = ctxs k"
  "ctxs (switch_tmr_list sh cur k) = ctxs k"
  by (simp_all add: ctxs_def)

lemma ctxs_scheduler [simp]: "ctxs (snd (scheduler k)) = ctxs k"
  by (simp add: scheduler_def sched_rr_def Let_def split: prod.split)

lemma ctxs_pit [simp]: "ctxs (pit_reset k) = ctxs k"
  by (simp add: pit_reset_def)

lemma ctxs_save: "ctxs (save_context p c k) \<subseteq> insert c (ctxs k)"
  using ctxs_set by (auto simp: save_context_def)

lemma ctxs_timeout [simp]: "ctxs (handle_timeout p k) = ctxs k"
  by (simp add: handle_timeout_def make_ready_def Let_def split: option.splits)

lemma ctxs_run_tmrs: "run_tmrs ts cur sh k = (cur', sh', k') \<Longrightarrow> ctxs k' = ctxs k"
proof (induction ts arbitrary: cur sh k)
  case (Cons t ts)
  then show ?case by (fastforce simp: Let_def split: if_splits)
qed simp

lemma ctxs_interrupt [simp]: "ctxs (timer_interrupt k) = ctxs k"
proof -
  have "ctxs (soft_tmr_handler k) = ctxs k" for k
    using ctxs_run_tmrs by (auto simp: soft_tmr_handler_def split: prod.splits)
  then show ?thesis by (simp add: timer_interrupt_def timer_int_handler_def Let_def)
qed

section \<open>Every event keeps the balance\<close>

lemma balanced_same:
  assumes "balanced k" "sem_heap k' = sem_heap k" "timers k' = timers k" "ctxs k' \<subseteq> insert User (ctxs k)"
  shows "balanced k'"
proof -
  have "wait_q k' = wait_q k" using assms(2) by (simp add: wait_q_def fun_eq_iff)
  then have "wt k' = wt k" "sem_view k' = sem_view k" using assms(2) by (simp_all add: wt_def sem_view_def fun_eq_iff)
  moreover have "tmp k' (active k') = tmp k (active k)" unfolding fst_timers [symmetric] assms(3) by simp
  ultimately show ?thesis using assms by (auto simp: balanced_def timedwaits_def)
qed

definition keeps :: "outcome \<Rightarrow> bool" where
  "keeps out \<longleftrightarrow> (\<forall>r k'. out = Some (r, k') \<longrightarrow> balanced k')"

lemma keeps_Some [simp]: "keeps (Some (r, k')) \<longleftrightarrow> balanced k'"
  by (simp add: keeps_def)

lemma errno_same [simp]: "sem_heap (set_errno e k) = sem_heap k" "timers (set_errno e k) = timers k"
  "ctxs (set_errno e k) = ctxs k"
proof -
  show "timers (set_errno e k) = timers k" by (rule timers_same) (simp_all add: set_errno_def)
qed (simp_all add: set_errno_def)

lemma keeps_ret [simp]: "balanced k \<Longrightarrow> keeps (ret r k)" "balanced k \<Longrightarrow> keeps (fail e k)"
  using balanced_same [of k "set_errno e k"] by (auto simp: ret_def fail_def)

lemma keeps_wait_end: "balanced k \<Longrightarrow> keeps (sem_wait_end i k)"
  by (simp add: sem_wait_end_def)

lemma wait_queue_short: "running k \<Longrightarrow> i < 50 \<Longrightarrow> length (wt k i) \<le> 20"
  using shape_wait_ok [OF runningD(2), of k i] by (auto simp: wt_def queue_ok_def)

lemma balanced_update:
  assumes B: "balanced k" and i: "i < 50" and ctx: "ctxs k' \<inter> timedwaits = {}"
    and e: "exact (sem_view k' i)" and t: "\<And>j. tmp k' (active k') \<inter> set (wt k' j) = {}"
    and o: "\<And>j. j < 50 \<Longrightarrow> j \<noteq> i \<Longrightarrow> sem_view k' j = sem_view k j \<and> sem_id (sem_heap k' ! j) = sem_id (sem_heap k ! j)"
  shows "balanced k'"
  using assms unfolding balanced_def by metis

lemma suspend_ctxs: "suspend c k = Some k' \<Longrightarrow> ctxs k' \<subseteq> insert c (ctxs k)"
proof -
  assume "suspend c k = Some k'"
  then have "k' = pit_reset (save_context (current_pid k) c (snd (scheduler k)))"
    by (auto simp: suspend_def split: prod.splits if_splits)
  then show "ctxs k' \<subseteq> insert c (ctxs k)"
    using ctxs_save [of "current_pid k" c "snd (scheduler k)"] by simp
qed

lemma exact_steps: "exact s \<Longrightarrow> exact (abs_wait p s)" "exact s \<Longrightarrow> exact (abs_post s)"
proof -
  obtain v ws where s: "s = (v, ws)" by fastforce
  show "exact s \<Longrightarrow> exact (abs_wait p s)" by (cases "v < 0") (auto simp: s exact_def)
  show "exact s \<Longrightarrow> exact (abs_post s)" by (cases "v < 0"; cases ws) (auto simp: s exact_def simp flip: length_0_conv)
qed

lemma set_tl: "set (tl xs) \<subseteq> set xs"
  by (cases xs) auto

lemma wait_keeps:
  assumes R: "running k" and S: "sems_ok k" and B: "balanced k" and c: "current_pid k \<noteq> 0"
  shows "keeps (sys_sem_wait_x sem k)"
proof (cases "get_sem_by_semt k sem")
  case None
  with B show ?thesis by (simp add: sys_sem_wait_x_def)
next
  case (Some i)
  then have i: "i < 50" "sem_id (sem_heap k ! i) \<noteq> - 1" by (auto dest: sem_found)
  note D = runningD [OF R]
  have e: "exact (sem_view k i)" using B i by (simp add: balanced_def)
  with wait_queue_short [OF R i(1)] i(1) have v: "- 128 < sint (sem_value (sem_heap k ! i))"
    by (auto simp: exact_def sem_view_def wt_contents split: if_splits)
  from wait_result [OF R S c Some v] obtain r k' where k': "sys_sem_wait_x sem k = Some (r, k')" "timers k' = timers k"
    "sem_view k' i = abs_wait (current_pid k) (sem_view k i)"
    "\<forall>j. j < 50 \<and> j \<noteq> i \<longrightarrow> sem_view k' j = sem_view k j \<and> sem_id (sem_heap k' ! j) = sem_id (sem_heap k ! j)" by blast
  have "ctxs k' \<subseteq> insert (In_sem_wait i) (ctxs k)"
    using k'(1) suspend_ctxs [of "In_sem_wait i"]
    by (fastforce simp: sys_sem_wait_x_def Some Let_def process_block_def sem_wait_end_def ret_def fail_def set_errno_def split: if_splits)
  then have ctx: "ctxs k' \<inter> timedwaits = {}" using B by (auto simp: balanced_def timedwaits_def)
  have tm: "tmp k' (active k') = tmp k (active k)" unfolding fst_timers [symmetric] k'(2) by simp
  have nt: "current_pid k \<notin> tmp k (active k)" using placed_timers(2) [OF D(3), of "current_pid k"] D(8) by auto
  have w: "set (wt k' j) \<subseteq> insert (current_pid k) (set (wt k j))" for j
  proof (cases "j < 50")
    case True
    with k'(3,4) i(1) show ?thesis
      by (cases "j = i") (auto simp: sem_view_def wt_contents split: if_splits)
  qed (simp add: wt_def)
  have "balanced k'"
  proof (rule balanced_update [OF B i(1) ctx])
    show "exact (sem_view k' i)" unfolding k'(3) using e by (rule exact_steps)
    show "tmp k' (active k') \<inter> set (wt k' j) = {}" for j using B w [of j] nt unfolding tm balanced_def by blast
  qed (use k'(4) in blast)
  with k'(1) show ?thesis by simp
qed

lemma unblock_ctxs [simp]: "ctxs (process_unblock i k) = ctxs k"
proof -
  have "ctxs (snd (remove_tmr p k)) = ctxs k" for p k
    by (rule ctxs_same) (simp add: remove_tmr_def update_active_tmrs_list_def switch_tmr_list_def split: list.splits prod.splits)
  then have "remove_tmr p k = (x, k1) \<Longrightarrow> ctxs k1 = ctxs k" for p k x k1 by (metis snd_conv)
  then show ?thesis by (auto simp: process_unblock_def Let_def split: prod.splits)
qed

lemma destroy_ctxs: "sys_sem_destroy sem k = Some (r, k') \<Longrightarrow> ctxs k' = ctxs k"
  by (auto simp: sys_sem_destroy_def ret_def fail_def split: option.splits if_splits)

lemma post_ctxs: "sys_sem_post sem k = Some (r, k') \<Longrightarrow> ctxs k' \<subseteq> ctxs k"
  by (auto simp: sys_sem_post_def Let_def ret_def fail_def dest!: destroy_ctxs split: option.splits if_splits)

lemma post_keeps:
  assumes R: "running k" and S: "sems_ok k" and B: "balanced k" and p: "plain (Call (Sem_post sem)) k"
  shows "keeps (sys_sem_post sem k)"
proof (cases "get_sem_by_semt k sem")
  case None
  with B show ?thesis by (simp add: sys_sem_post_def)
next
  case (Some i)
  then have i: "i < 50" "sem_id (sem_heap k ! i) \<noteq> - 1" by (auto dest: sem_found)
  have e: "exact (sem_view k i)" using B i by (simp add: balanced_def)
  have v: "sint (sem_value (sem_heap k ! i)) < 127" using p Some by (simp add: plain_def)
  from post_result [OF R S Some v] obtain k' where k': "sys_sem_post sem k = Some (Some (Returns 0 None), k')"
    "tmp k' (active k') \<subseteq> tmp k (active k)" "sem_view k' i = abs_post (sem_view k i)"
    "\<forall>j. j < 50 \<and> j \<noteq> i \<longrightarrow> sem_view k' j = sem_view k j \<and> sem_id (sem_heap k' ! j) = sem_id (sem_heap k ! j)" by blast
  have "ctxs k' \<subseteq> ctxs k"
    using k'(1) by (rule post_ctxs)
  then have ctx: "ctxs k' \<inter> timedwaits = {}" using B by (auto simp: balanced_def)
  have w: "set (wt k' j) \<subseteq> set (wt k j)" for j
  proof (cases "j < 50")
    case True
    with k'(3,4) i(1) set_tl [of "wt k i"] show ?thesis
      by (cases "j = i") (auto simp: sem_view_def wt_contents split: if_splits)
  qed (simp add: wt_def)
  have "balanced k'"
  proof (rule balanced_update [OF B i(1) ctx])
    show "exact (sem_view k' i)" unfolding k'(3) using e by (rule exact_steps)
    show "tmp k' (active k') \<inter> set (wt k' j) = {}" for j using B w [of j] k'(2) unfolding balanced_def by blast
  qed (use k'(4) in blast)
  with k'(1) show ?thesis by simp
qed

lemma signed_take_bit_byte: "0 \<le> x \<Longrightarrow> x < 256 \<Longrightarrow> signed_take_bit 7 (x :: int) = (if x < 128 then x else x - 256)"
  by (auto simp: signed_take_bit_eq_take_bit_shift take_bit_eq_mod mod_pos_geq [of 256 "x + 128"])

lemma sint_byte: "v < 256 \<Longrightarrow> sint (ucast (v :: u32) :: 8 word) = (if v < 128 then uint v else uint v - 256)"
proof -
  assume "v < 256"
  then have "uint v < 256" by (simp add: word_less_def)
  then have "uint (ucast v :: 8 word) = uint v" by (simp add: unsigned_ucast_eq take_bit_int_eq_self)
  moreover have "sint (w :: 8 word) = (if uint w < 128 then uint w else uint w - 256)" for w
    using uint_lt2p [of w] by (simp add: sint_uint signed_take_bit_eq_if_positive signed_take_bit_byte)
  moreover have "v < 128 \<longleftrightarrow> uint v < 128" by (simp add: word_less_def)
  ultimately show ?thesis by simp
qed

lemma init_keeps:
  assumes R: "running k" and S: "sems_ok k" and B: "balanced k" and v: "v < 128"
  shows "keeps (sys_sem_init pshared v k)"
proof -
  have l: "length (sem_heap k) = 50" using runningD(2) [OF R] by (simp add: shape_def)
  define i where "i = length (takeWhile (\<lambda>s. sem_id s \<noteq> - 1) (sem_heap k))"
  show ?thesis
  proof (cases "i = 50")
    case True
    with B l show ?thesis by (simp add: sys_sem_init_def i_def)
  next
    case False
    then have i: "i < 50" "sem_id (sem_heap k ! i) = - 1"
      using length_takeWhile_le [of "\<lambda>s. sem_id s \<noteq> - 1" "sem_heap k"] nth_length_takeWhile [of "\<lambda>s. sem_id s \<noteq> - 1" "sem_heap k"] l
      by (simp_all add: i_def)
    let ?f = "\<lambda>s. s\<lparr>sem_id := int i, sem_value := ucast v, sem_unlink := False, sem_wait_q := qinit (sem_wait_q s),
      sem_owner := (if pshared = 0 then current_pid k else - 1)\<rparr>"
    let ?k = "upd_sem i ?f k"
    have "0 \<le> sint (ucast v :: 8 word)" using v sint_byte [of v] by (auto simp: word_less_nat_alt)
    moreover have "wait_q ?k i = qinit (wait_q k i)" using i(1) l by (simp add: wait_q_def sem_upd)
    ultimately have ex: "exact (sem_view ?k i)" using i(1) l by (simp add: exact_def sem_view_def sem_upd)
    have e: "wt k i = []" using S i by (simp add: sems_ok_def)
    have "wt ?k j = wt k j" for j using e i(1) l by (auto simp: wt_def wait_q_def sem_upd)
    then have "tmp ?k (active ?k) \<inter> set (wt ?k j) = {}" for j using B by (simp add: balanced_def)
    moreover have "sem_view ?k j = sem_view k j \<and> sem_id (sem_heap ?k ! j) = sem_id (sem_heap k ! j)" if "j \<noteq> i" for j
      using that i(1) l by (simp add: sem_view_def sem_upd wait_q_def)
    moreover have "ctxs ?k \<inter> timedwaits = {}" using B by (simp add: balanced_def)
    ultimately have "balanced ?k" using ex balanced_update [OF B i(1)] by blast
    moreover have "sys_sem_init pshared v k = Some (Some (Returns 0 (Some (int i))), ?k)"
      using False l by (simp add: sys_sem_init_def i_def Let_def)
    ultimately show ?thesis by simp
  qed
qed

lemma simple_keeps:
  assumes R: "running k" and B: "balanced k"
  shows "keeps (sys_sem_trywait sem k)" "keeps (sys_sem_getvalue sem k)" "keeps (sys_sem_destroy sem k)"
proof -
  have l: "length (sem_heap k) = 50" using runningD(2) [OF R] by (simp add: shape_def)
  have up: "balanced (upd_sem i f k)"
    if i: "i < 50" "sem_wait_q (f (sem_heap k ! i)) = sem_wait_q (sem_heap k ! i)"
      "sem_id (f (sem_heap k ! i)) = - 1 \<or> exact (sint (sem_value (f (sem_heap k ! i))), wt k i)" for i f
  proof -
    note Q = upd_sem_queue [where f = f, OF runningD(2) [OF R] i(1,2)]
    have "sem_view (upd_sem i f k) j = (if j = i then (sint (sem_value (f (sem_heap k ! i))), wt k i) else sem_view k j)"
      if "j < 50" for j using that i(1) l Q by (simp add: sem_view_def sem_upd wt_contents)
    then show ?thesis using B i l Q by (auto simp: balanced_def sem_upd)
  qed
  show "keeps (sys_sem_getvalue sem k)" using B by (simp add: sys_sem_getvalue_def split: option.split)
  show "keeps (sys_sem_destroy sem k)" using B up [where f = free_sem]
    by (auto simp: sys_sem_destroy_def free_sem_def dest: sem_found split: option.split)
  show "keeps (sys_sem_trywait sem k)"
  proof (cases "get_sem_by_semt k sem")
    case (Some i)
    then have i: "i < 50" "sem_id (sem_heap k ! i) \<noteq> - 1" by (auto dest: sem_found)
    have e: "exact (sem_view k i)" using B i by (simp add: balanced_def)
    have "balanced (upd_sem i (sem_value_update (\<lambda>v. v - 1)) k)" if "0 < sint (sem_value (sem_heap k ! i))"
      using that e i by (intro up) (auto simp: exact_def sem_view_def wt_contents sint_pred split: if_splits)
    with B show ?thesis by (simp add: sys_sem_trywait_def Some)
  qed (use B in \<open>simp add: sys_sem_trywait_def\<close>)
qed

lemma sleep_keeps:
  assumes R: "running k" and B: "balanced k" and c: "current_pid k \<noteq> 0"
  shows "keeps (call (Sleep ms) k)"
proof -
  note D = runningD [OF R]
  from sleep_result [OF R c, of ms] obtain k' where k': "call (Sleep ms) k = Some (None, k')"
    "timers k' = timers k @ [(current_pid k, if ms_to_ticks ms = 0 then 1 else ms_to_ticks ms)]"
    "wt k' = wt k" "sem_heap k' = sem_heap k" by blast
  obtain r k1 where k1: "add_tmr (current_pid k) ms k = (r, k1)" by fastforce
  have "ctxs k1 = ctxs k"
    using k1 by (intro ctxs_same) (auto simp: add_tmr_def Let_def split: if_splits)
  then have "ctxs k' \<subseteq> insert In_sleep (ctxs k)"
    using k'(1) k1 suspend_ctxs [of In_sleep] by (fastforce simp: sys_sleep_def split: if_splits)
  moreover have "current_pid k \<notin> set (wt k i)" for i
    using placed_waiting(2,3) [OF D(3), of "current_pid k"] D(8) by auto
  moreover have "tmp k' (active k') = insert (current_pid k) (tmp k (active k))"
    unfolding fst_timers [symmetric] k'(2) by simp
  moreover have "sem_view k' = sem_view k" using k'(4) by (simp add: sem_view_def wait_q_def fun_eq_iff)
  ultimately have "balanced k'" using B k'(3,4) by (auto simp: balanced_def timedwaits_def)
  with k'(1) show ?thesis by simp
qed

lemma call_keeps:
  assumes "running k" "sems_ok k" "balanced k" "possible (Call sc) k" "plain (Call sc) k"
  shows "keeps (call sc k)"
proof (cases sc)
  case (Sem_init pshared v)
  with assms show ?thesis by (simp add: init_keeps plain_def)
next
  case Yield
  have "timers (k\<lparr>resched := True\<rparr>) = timers k" by (rule timers_same) simp_all
  then have "balanced (k\<lparr>resched := True\<rparr>)" by (intro balanced_same [OF assms(3)]) auto
  with Yield show ?thesis by (simp add: sys_yield_def)
next
  case (Sem_timedwait sem ms)
  with assms(5) show ?thesis by (simp add: plain_def)
next
  case (Sleep ms)
  with sleep_keeps [OF assms(1,3)] assms(4) show ?thesis by simp
next
  case (Sem_wait sem)
  with wait_keeps [OF assms(1-3)] assms(4) show ?thesis by simp
next
  case (Sem_post sem)
  with post_keeps [OF assms(1-3)] assms(5) show ?thesis by simp
qed (use simple_keeps [OF assms(1,3)] in simp_all)

lemma finish_keeps: "keeps out \<Longrightarrow> keeps (finish out)"
proof -
  have "balanced (leave_kernel k)" if B: "balanced k" for k
  proof -
    have t: "timers (pit_reset (save_context p c (snd (scheduler k)))) = timers k" "timers (snd (scheduler k)) = timers k" for p c
      by (rule timers_same; simp add: pit_reset_def save_context_def)+
    have "balanced (pit_reset (save_context (current_pid k) User (snd (scheduler k))))"
      using ctxs_save [of "current_pid k" User "snd (scheduler k)"] by (intro balanced_same [OF B]) (simp_all add: t)
    moreover have "balanced (snd (scheduler k))" by (intro balanced_same [OF B]) (auto simp: t)
    ultimately show ?thesis using B by (auto simp: leave_kernel_def split: prod.splits)
  qed
  then show "keeps out \<Longrightarrow> keeps (finish out)"
    by (auto simp: finish_def keeps_def split: option.splits prod.splits)
qed

lemma resume_keeps:
  assumes B: "balanced k" and c: "ctx \<notin> timedwaits"
  shows "keeps (resume ctx k)"
  using assms keeps_wait_end by (cases ctx) (auto simp: timedwaits_def)

lemma expired_not_waiting:
  assumes R: "running k" and B: "balanced k"
  shows "filter (\<lambda>p. p \<notin> set (expired (timers k))) (wt k i) = wt k i"
proof (rule filter_True)
  have "set (expired (timers k)) \<subseteq> tmp k (active k)" unfolding fst_timers [symmetric] by (auto simp: expired_def)
  then show "\<forall>p\<in>set (wt k i). p \<notin> set (expired (timers k))" using B by (auto simp: balanced_def)
qed

lemma tick_keeps:
  assumes R: "running k" and B: "balanced k"
  shows "balanced (timer_interrupt k)"
proof -
  note I = interrupt_counts [OF R]
  let ?k = "k\<lparr>kernel_ticks := kernel_ticks k + 1\<rparr>"
  define k1 where "k1 = soft_tmr_handler ?k"
  have "kernel_inv ?k" using runningD(1) [OF R] by simp
  then have "sems_kept ?k k1" unfolding k1_def by (rule soft_tmr_handler_counts)
  then have s: "sem_key (sem_heap (timer_interrupt k) ! i) = sem_key (sem_heap k ! i)" for i
    by (simp add: timer_interrupt_def timer_int_handler_def Let_def sems_kept_def k1_def)
  then have id: "sem_id (sem_heap (timer_interrupt k) ! i) = sem_id (sem_heap k ! i)" for i by (simp add: sem_key_def)
  have w: "wt (timer_interrupt k) = wt k" unfolding I(2) using expired_not_waiting [OF R B] by simp
  have v: "sem_view (timer_interrupt k) i = sem_view k i" if "i < 50" for i
    using s [of i] fun_cong [OF w, of i] that by (simp add: sem_view_def wt_contents sem_key_def)
  have "tmp (timer_interrupt k) (active (timer_interrupt k)) \<subseteq> tmp k (active k)"
    unfolding fst_timers [symmetric] I(1) by (force simp: counted_def)
  moreover have "tmp k (active k) \<inter> set (wt k i) = {}" for i using B by (simp add: balanced_def)
  ultimately have "tmp (timer_interrupt k) (active (timer_interrupt k)) \<inter> set (wt k i) = {}" for i by blast
  with v id B show ?thesis by (simp add: balanced_def w)
qed

lemma step_keeps:
  assumes R: "running k" "sems_ok k" and B: "balanced k" and s: "plain e k" "kernel_step k e k'"
  shows "balanced k'"
proof -
  from s(2) obtain r where e: "possible e k" "handle_event e k = Some (r, k')" by (auto elim: kernel_stepE)
  have "keeps (handle_event e k)"
  proof (cases e)
    case (Call sc)
    with finish_keeps [OF call_keeps [OF R B]] e(1) s(1) show ?thesis by (simp add: handle_event_def)
  next
    case Resume
    let ?c = "pcontext (pcb k (current_pid k))" and ?k = "upd_pcb (current_pid k) (pcontext_update (\<lambda>_. User)) k"
    have "?c \<in> ctxs k" using runningD(2,7) [OF R(1)] shape_table [of k] by (auto simp: ctxs_def pcb_def)
    then have "?c \<notin> timedwaits" using B by (auto simp: balanced_def)
    moreover have "timers ?k = timers k" by (rule timers_same) simp_all
    then have "balanced ?k" by (intro balanced_same [OF B]) (simp_all add: ctxs_set)
    ultimately show ?thesis by (simp add: Resume handle_event_def finish_keeps resume_keeps)
  next
    case Tick
    with tick_keeps [OF R(1) B] show ?thesis by (simp add: handle_event_def)
  qed
  with e(2) show ?thesis by (simp add: keeps_def)
qed

lemma ctxs_create: "ctxs (snd (proc_create pr k)) \<subseteq> insert User (ctxs k)"
proof -
  have "ctxs (upd_pcb q f k) \<subseteq> insert User (ctxs k)" if "\<And>p. pcontext (f p) = User" for q f
  proof
    fix x assume "x \<in> ctxs (upd_pcb q f k)"
    then obtain p where p: "p \<in> set ((ptable k)[nat q := f (ptable k ! nat q)])" "x = pcontext p"
      by (auto simp: ctxs_def upd_pcb_def)
    from subsetD [OF set_update_subset_insert p(1)] p(2) that show "x \<in> insert User (ctxs k)" by (auto simp: ctxs_def)
  qed
  then show ?thesis by (auto simp: proc_create_def Let_def)
qed

lemma balanced_init: "balanced (xilkernel_init ts)"
proof -
  define k0 where "k0 = init_idle_task (sem_heap_init (readyq_init
     (bss\<lparr>ptable := map (is_allocated_update (\<lambda>_. False)) (ptable bss)\<rparr>)))"
  define k where "k = fold (\<lambda>priority k. snd (proc_create priority k)) ts k0"
  have e: "xilkernel_init ts = soft_tmr_init k" by (simp add: xilkernel_init_def k_def k0_def Let_def)
  note F = init_fields [folded k0_def]
  have "ctxs k0 \<subseteq> {User}" by (auto simp: ctxs_def F first_process_def zero_process_def)
  then have "sem_heap k = sem_heap k0 \<and> ctxs k \<subseteq> {User}"
    unfolding k_def
  proof (induction ts arbitrary: k0)
    case (Cons t ts)
    have "sem_heap (snd (proc_create t k0)) = sem_heap k0" by (simp add: proc_create_def Let_def)
    with Cons.IH [of "snd (proc_create t k0)"] ctxs_create [of t k0] Cons.prems show ?case by auto
  qed simp
  then have "sem_heap k = replicate 50 free_semaphore" "ctxs k \<subseteq> {User}" by (simp_all add: F)
  moreover have "ctxs (soft_tmr_init k) = ctxs k" "sem_heap (soft_tmr_init k) = sem_heap k" "active (soft_tmr_init k) = []"
    by (simp_all add: soft_tmr_init_def ctxs_def)
  ultimately show ?thesis
    by (auto simp: e balanced_def tmp_def free_semaphore_def timedwaits_def)
qed

lemma plain_run_tidy:
  "plain_run (xilkernel_init ts) es k \<Longrightarrow> balanced k \<and> tidy_run (xilkernel_init ts) es k"
proof (induction "xilkernel_init ts" es k rule: plain_run.induct)
  case plain_run_refl
  show ?case by (simp add: balanced_init tidy_run.tidy_run_refl)
next
  case (plain_run_step es k' e k'')
  have B: "balanced k'" and T: "tidy_run (xilkernel_init ts) es k'" using plain_run_step.hyps(2) by simp_all
  from reachable_ok [OF T] have "running k'" "sems_ok k'" by simp_all
  from step_keeps [OF this B plain_run_step.hyps(3,4)] have "balanced k''" .
  with tidy_run.tidy_run_step [OF T balanced_tidy [OF B] plain_run_step.hyps(4)] show ?case by simp
qed

text \<open>C7: as long as the programs use no timed waits, start semaphores below 128 and post none beyond 127
  (they may destroy any semaphore at any time), no wakeup is lost: in every state they reach, the value of a
  semaphore that is in use, when it is negative, counts the processes in its queue, and when it is not,
  nobody waits; and every process that waits is in the queue of a semaphore that is in use, so that posts will wake it.\<close>

theorem no_lost_wakeup:
  assumes "plain_run (xilkernel_init ts) es k"
  shows "(\<forall>i<50. sem_id (sem_heap k ! i) \<noteq> - 1 \<longrightarrow>
      (if sint (sem_value (sem_heap k ! i)) < 0
       then int (length (contents (wait_q k i))) = - sint (sem_value (sem_heap k ! i))
       else contents (wait_q k i) = [])) \<and>
    (\<forall>p. 0 < p \<and> p < 20 \<and> is_allocated (pcb k p) \<and> p_state (pcb k p) = PROC_WAIT \<longrightarrow>
      (\<exists>i<50. sem_id (sem_heap k ! i) \<noteq> - 1 \<and> sint (sem_value (sem_heap k ! i)) < 0 \<and> p \<in> set (contents (wait_q k i))))"
proof -
  from plain_run_tidy [OF assms] have B: "balanced k" and T: "tidy_run (xilkernel_init ts) es k" by simp_all
  from reachable_ok [OF T] have R: "running k" "sems_ok k" by simp_all
  have ex: "exact (sem_view k i)" if "i < 50" "sem_id (sem_heap k ! i) \<noteq> - 1" for i
    using B that by (simp add: balanced_def)
  have "\<exists>i<50. sem_id (sem_heap k ! i) \<noteq> - 1 \<and> sint (sem_value (sem_heap k ! i)) < 0 \<and> p \<in> set (contents (wait_q k i))"
    if p: "0 < p" "p < 20" "is_allocated (pcb k p)" "p_state (pcb k p) = PROC_WAIT" for p
  proof -
    note P = runningD(3) [OF R(1)]
    have "al k p" "st k p = PROC_WAIT" using p by (simp_all add: al_def st_def valid_def)
    then obtain i where "bq k p = Some i" using placed_waiting(3) [OF P, of p] by auto
    then have w: "p \<in> set (wt k i)" using placed_waiting(2) [OF P, of p i] by simp
    then have i: "i < 50" by (metis wt_def empty_iff empty_set)
    moreover have id: "sem_id (sem_heap k ! i) \<noteq> - 1" using R(2) w i by (auto simp: sems_ok_def)
    ultimately show ?thesis using ex [OF i id] w
      by (intro exI [of _ i]) (auto simp: exact_def sem_view_def wt_contents split: if_splits)
  qed
  moreover have "if sint (sem_value (sem_heap k ! i)) < 0
      then int (length (contents (wait_q k i))) = - sint (sem_value (sem_heap k ! i)) else contents (wait_q k i) = []"
    if "i < 50" "sem_id (sem_heap k ! i) \<noteq> - 1" for i
    using ex [OF that] by (auto simp: exact_def sem_view_def simp del: length_contents split: if_splits)
  ultimately show ?thesis by blast
qed

section \<open>Lost wakeups\<close>

text \<open>
  A timed wait that runs out gives its unit back only when the process runs again. Between the
  timer interrupt and that moment the process is out of the queue, but still counted in the
  value. A post in this window raises the value to 0 and wakes nobody, and a wait in this window blocks
  although the unit of the post is there.
\<close>

definition late_timeout :: "event list" where
  "late_timeout =
     [Tick, Call (Sem_init 0 0), Call (Sem_timedwait (Some 0) 10), Tick, Call (Sem_post (Some 0)),
      Call (Sem_wait (Some 0)), Call Yield, Resume]"

definition sem_report :: "kernel \<Rightarrow> int \<times> int list \<times> proc_state \<times> int" where
  "sem_report k = (sint (sem_value (sem_heap k ! 0)), contents (wait_q k 0), p_state (pcb k 2), current_pid k)"

definition out_of_queues :: "kernel \<Rightarrow> int \<Rightarrow> bool" where
  "out_of_queues k p \<longleftrightarrow> current_pid k \<noteq> p \<and> p \<notin> set (contents (ready_q k)) \<and>
     list_all (\<lambda>i. p \<notin> set (contents (wait_q k i))) [0..<50] \<and> p \<notin> set (map fst (timers k))"

text \<open>A wakeup is lost. Process 1 waits with a timeout of one tick; the tick comes, process 2 posts and then waits
  before process 1 runs again: process 2 is in the queue of a semaphore of value 0, and the next post
  raises the value to 1 and leaves it there.\<close>

theorem wakeup_is_lost:
  "map_option sem_report (run_events late_timeout (xilkernel_init [0, 0, 0])) = Some (0, [2], PROC_WAIT, 1) \<and>
   map_option sem_report (run_events (late_timeout @ [Call (Sem_post (Some 0))]) (xilkernel_init [0, 0, 0])) =
     Some (1, [2], PROC_WAIT, 1)"
proof
  show "map_option sem_report (run_events late_timeout (xilkernel_init [0, 0, 0])) = Some (0, [2], PROC_WAIT, 1)"
    unfolding late_timeout_def by code_simp
  show "map_option sem_report (run_events (late_timeout @ [Call (Sem_post (Some 0))]) (xilkernel_init [0, 0, 0])) =
     Some (1, [2], PROC_WAIT, 1)"
    unfolding late_timeout_def by code_simp
qed

text \<open>Then even the process is lost. \<open>sem_destroy\<close>, which is to fail with \<open>EBUSY\<close> while a process is in the queue,
  succeeds because the value is positive; the next \<open>sem_init\<close> empties the queue, and process 2 waits in
  no queue, with no timer, for good.\<close>

theorem process_is_lost:
  "map_option (\<lambda>k. (sem_report k, out_of_queues k 2))
     (run_events (late_timeout @ [Call (Sem_post (Some 0)), Call (Sem_destroy (Some 0)), Call (Sem_init 0 0)])
        (xilkernel_init [0, 0, 0])) =
   Some ((0, [], PROC_WAIT, 1), True)"
  unfolding late_timeout_def by code_simp

text \<open>\<open>SEM_VALUE_MAX\<close> is 200, but the value is a signed char: a semaphore that starts with 128 units or more
  has a negative value, \<open>sem_trywait\<close> fails on it, and \<open>sem_getvalue\<close> tells a negative number.\<close>

theorem sem_init_value:
  assumes "length (sem_heap k) = 50" "v < 256" "sys_sem_init pshared v k = Some (Some (Returns 0 (Some i)), k')"
  shows "sys_sem_getvalue (Some (word_of_int i)) k' =
      Some (Some (Returns 0 (Some (if v < 128 then uint v else uint v - 256))), k') \<and>
    (128 \<le> v \<longrightarrow> sys_sem_trywait (Some (word_of_int i)) k' = fail EAGAIN k')"
proof -
  define j where "j = length (takeWhile (\<lambda>s. sem_id s \<noteq> - 1) (sem_heap k))"
  have "j \<noteq> 50" using assms(1,3) by (auto simp: sys_sem_init_def j_def fail_def ret_def split: if_splits)
  then have j: "j < 50"
    using length_takeWhile_le [of "\<lambda>s. sem_id s \<noteq> - 1" "sem_heap k"] assms(1) by (simp add: j_def)
  have k': "i = int j" "sem_heap k' = (sem_heap k)[j := (sem_heap k ! j)\<lparr>sem_id := int j, sem_value := ucast v,
      sem_unlink := False, sem_wait_q := qinit (sem_wait_q (sem_heap k ! j)),
      sem_owner := (if pshared = 0 then current_pid k else - 1)\<rparr>]"
    using assms(1,3) \<open>j \<noteq> 50\<close> by (auto simp: sys_sem_init_def j_def Let_def upd_sem_def split: if_splits)
  have u: "unat (word_of_int (int j) :: u32) = j" using j by (simp add: unsigned_of_nat take_bit_nat_eq_self)
  have "get_sem_by_semt k' (Some (word_of_int i)) = Some j"
    using j assms(1) u by (simp add: get_sem_by_semt_def k' word_less_nat_alt)
  moreover have "sint (sem_value (sem_heap k' ! j)) = (if v < 128 then uint v else uint v - 256)"
    using j assms(1,2) sint_byte [of v] by (simp add: k')
  moreover have "uint v < 256" using assms(2) by (simp add: word_less_def)
  moreover have "128 \<le> v \<longleftrightarrow> \<not> v < 128" by (simp add: not_less)
  ultimately show ?thesis by (simp add: sys_sem_getvalue_def sys_sem_trywait_def)
qed

theorem sem_init_value_witness:
  "\<exists>k'. sys_sem_init 1 200 (xilkernel_init []) = Some (Some (Returns 0 (Some 0)), k') \<and>
    sys_sem_getvalue (Some 0) k' = Some (Some (Returns 0 (Some (- 56))), k')"
proof -
  have l: "length (sem_heap (xilkernel_init [])) = 50" by code_simp
  have "map_option fst (sys_sem_init 1 200 (xilkernel_init [])) = Some (Some (Returns 0 (Some 0)))" by code_simp
  then obtain k' where k': "sys_sem_init 1 200 (xilkernel_init []) = Some (Some (Returns 0 (Some 0)), k')" by auto
  from sem_init_value [OF l _ k'] show ?thesis using k' by simp
qed

section \<open>A run without timed waits\<close>

primrec all_plain :: "event list \<Rightarrow> kernel \<Rightarrow> bool" where
  "all_plain [] k = True"
| "all_plain (e # es) k =
     (plain e k \<and> (case handle_event e k of None \<Rightarrow> True | Some (_, k) \<Rightarrow> all_plain es k))"

lemma plain_run_append: "plain_run k es k' \<Longrightarrow> run_events fs k' = Some k'' \<Longrightarrow> all_plain fs k' \<Longrightarrow> plain_run k (es @ fs) k''"
proof (induction fs arbitrary: es k')
  case (Cons e fs)
  then obtain r k1 where e: "possible e k'" "handle_event e k' = Some (r, k1)" "run_events fs k1 = Some k''" "all_plain fs k1"
    "plain e k'" by (auto split: if_splits option.splits)
  then have "plain_run k (es @ [e]) k1" using Cons.prems(1) by (auto intro: plain_run.intros kernel_step.intros)
  from Cons.IH [OF this e(3,4)] show ?case by simp
qed simp

definition plain_events :: "event list" where
  "plain_events = [Tick, Call (Sem_init 0 0), Call (Sem_wait (Some 0))]"

theorem no_lost_wakeup_witness:
  "\<exists>k. plain_run (xilkernel_init [0, 0]) plain_events k \<and> sint (sem_value (sem_heap k ! 0)) = - 1 \<and>
    int (length (contents (wait_q k 0))) = 1"
proof -
  have p: "all_plain plain_events (xilkernel_init [0, 0])" unfolding plain_events_def by code_simp
  have "map_option (\<lambda>k. (sint (sem_value (sem_heap k ! 0)), sem_id (sem_heap k ! 0))) (run_events plain_events (xilkernel_init [0, 0])) =
      Some (- 1, 0)"
    unfolding plain_events_def by code_simp
  then obtain k where k: "run_events plain_events (xilkernel_init [0, 0]) = Some k" "sint (sem_value (sem_heap k ! 0)) = - 1"
    "sem_id (sem_heap k ! 0) = 0" by auto
  from plain_run_append [OF plain_run.plain_run_refl k(1) p] have r: "plain_run (xilkernel_init [0, 0]) plain_events k" by simp
  from no_lost_wakeup [OF r, THEN conjunct1, rule_format, of 0] k r show ?thesis by (intro exI [of _ k]) simp
qed

end
