(* ===== verification/Mutex_Steps.thy ===== *)
theory Mutex_Steps
  imports Kernel_Wakeups
begin

text \<open>
  What one event of the kernel does to the place where a process goes on, and to a semaphore that
  the event does not use. Timed waits on other semaphores are allowed here.
\<close>

section \<open>Where processes go on\<close>

definition pctx :: "kernel \<Rightarrow> saved_context list" where
  "pctx k = map pcontext (ptable k)"

lemma pctx_nth: "shape k \<Longrightarrow> valid p \<Longrightarrow> pcontext (pcb k p) = pctx k ! nat p"
  using shape_table [of k] by (simp add: pctx_def pcb_def)

lemma pctx_upd [simp]:
  assumes "\<And>p. pcontext (f p) = pcontext p"
  shows "pctx (upd_pcb q f k) = pctx k"
  using map_update_same [of pcontext f "ptable k" "nat q"] assms
  unfolding pctx_def upd_pcb_def by simp

lemma pctx_frame [simp]:
  "pctx (k\<lparr>ready_q := q\<rparr>) = pctx k" "pctx (k\<lparr>resched := b\<rparr>) = pctx k" "pctx (k\<lparr>did_resched := b\<rparr>) = pctx k"
  "pctx (k\<lparr>timer_need_refresh := b\<rparr>) = pctx k" "pctx (k\<lparr>sched_partial_tick := b\<rparr>) = pctx k"
  "pctx (k\<lparr>soft_tmrs := ts\<rparr>) = pctx k" "pctx (k\<lparr>current_pid := p\<rparr>) = pctx k"
  "pctx (k\<lparr>kernel_ticks := n\<rparr>) = pctx k" "pctx (set_wait_q i q k) = pctx k" "pctx (upd_sem i f k) = pctx k"
  "pctx (switch_tmr_list sh cur k) = pctx k"
  by (simp_all add: pctx_def switch_tmr_list_def)

lemma pctx_same: "ptable k' = ptable k \<Longrightarrow> pctx k' = pctx k"
  by (simp add: pctx_def)

lemma pctx_scheduler [simp]: "pctx (snd (scheduler k)) = pctx k"
  by (simp add: scheduler_def sched_rr_def Let_def split: prod.split)

lemma pctx_pit [simp]: "pctx (pit_reset k) = pctx k"
  by (simp add: pit_reset_def)

lemma pctx_timeout [simp]: "pctx (handle_timeout p k) = pctx k"
  by (simp add: handle_timeout_def make_ready_def Let_def split: option.splits)

lemma pctx_run_tmrs: "run_tmrs ts cur sh k = (cur', sh', k') \<Longrightarrow> pctx k' = pctx k"
proof (induction ts arbitrary: cur sh k)
  case (Cons t ts)
  then show ?case by (fastforce simp: Let_def split: if_splits)
qed simp

lemma pctx_interrupt [simp]: "pctx (timer_interrupt k) = pctx k"
proof -
  have "pctx (soft_tmr_handler k) = pctx k" for k
    using pctx_run_tmrs by (auto simp: soft_tmr_handler_def split: prod.splits)
  then show ?thesis by (simp add: timer_interrupt_def timer_int_handler_def Let_def)
qed

lemma pctx_remove [simp]: "pctx (snd (remove_tmr p k)) = pctx k"
  by (rule pctx_same) (simp add: remove_tmr_def update_active_tmrs_list_def switch_tmr_list_def split: list.splits prod.splits)

lemma pctx_unblock [simp]: "pctx (process_unblock i k) = pctx k"
proof -
  have "remove_tmr p k = (x, k1) \<Longrightarrow> pctx k1 = pctx k" for p k x k1 using pctx_remove by (metis snd_conv)
  then show ?thesis by (auto simp: process_unblock_def Let_def split: prod.splits)
qed

lemma pctx_errno [simp]: "pctx (set_errno e k) = pctx k"
  by (simp add: set_errno_def)

lemma pctx_add: "add_tmr p ms k = (r, k1) \<Longrightarrow> pctx k1 = pctx k"
  by (rule pctx_same) (auto simp: add_tmr_def Let_def split: if_splits)

lemma pctx_set: "pctx (upd_pcb q (pcontext_update (\<lambda>_. c)) k) = (pctx k)[nat q := c]"
proof (cases "nat q < length (ptable k)")
  case True
  then show ?thesis by (simp add: pctx_def upd_pcb_def map_update)
next
  case False
  then show ?thesis by (simp add: pctx_def upd_pcb_def list_update_beyond)
qed

lemma pctx_same_set: "pctx k ! n = c \<Longrightarrow> (pctx k)[n := c] = pctx k"
  by (metis list_update_id)

text \<open>A call that returns leaves every process where it was.\<close>

lemma destroy_pctx: "sys_sem_destroy sem k = Some (r, k') \<Longrightarrow> pctx k' = pctx k"
  by (auto simp: sys_sem_destroy_def ret_def fail_def split: option.splits if_splits)

lemma returned_pctx:
  assumes "call sc k = Some (Some v, k')"
  shows "pctx k' = pctx k"
proof (cases sc)
  case (Sem_timedwait sem ms)
  with assms show ?thesis
    by (auto simp: sys_sem_timedwait_def Let_def sem_wait_end_def ret_def fail_def
        split: option.splits if_splits prod.splits)
next
  case (Sleep ms)
  with assms pctx_add [of "current_pid k" ms k] show ?thesis
    by (auto simp: sys_sleep_def split: prod.splits if_splits)
next
  case (Sem_post sem)
  with assms destroy_pctx show ?thesis
    by (auto simp: sys_sem_post_def Let_def ret_def fail_def split: option.splits if_splits; fastforce)
qed (use assms in \<open>auto simp: sys_sem_init_def sys_sem_getvalue_def sys_sem_wait_x_def sys_sem_trywait_def sys_sem_destroy_def
    sem_wait_end_def ret_def fail_def sys_yield_def Let_def split: option.splits if_splits\<close>)

lemma resumed_pctx:
  assumes "resume c k = Some (r, k')"
  shows "pctx k' = pctx k" and "c \<noteq> User \<Longrightarrow> r \<noteq> None"
  using assms
  by (cases c; auto simp: sem_wait_end_def sem_timedwait_resume_def ret_def fail_def Let_def split: if_splits)+

text \<open>The way out of the kernel saves the current process in its own code.\<close>

lemma leave_pctx:
  assumes R: "running k" and u: "pctx k ! nat (current_pid k) = User"
  shows "pctx (leave_kernel k) = pctx k"
proof -
  have "pctx (save_context (current_pid k) User k') = pctx k" if "pctx k' = pctx k" for k'
    using that u pctx_same_set [of k "nat (current_pid k)" User]
    by (simp add: save_context_def pctx_set)
  moreover have "scheduler k = (same, k1) \<Longrightarrow> pctx k1 = pctx k" for same k1 using pctx_scheduler [of k] by simp
  ultimately show ?thesis by (auto simp: leave_kernel_def split: prod.split)
qed

text \<open>Where a process that is switched away in a call goes on.\<close>

fun blocked_in :: "syscall \<Rightarrow> kernel \<Rightarrow> saved_context" where
  "blocked_in (Sem_wait sem) k = In_sem_wait (the (get_sem_by_semt k sem))"
| "blocked_in (Sem_timedwait sem ms) k = In_sem_timedwait (the (get_sem_by_semt k sem))"
| "blocked_in _ k = In_sleep"

lemma suspend_pctx:
  assumes "suspend c k = Some k'" and "running k'" and "al k' (current_pid k)"
  shows "pctx k' = (pctx k)[nat (current_pid k) := c]"
proof -
  obtain same k1 where s: "scheduler k = (same, k1)" by fastforce
  have k': "k' = pit_reset (save_context (current_pid k) c k1)" using assms(1) by (auto simp: suspend_def s split: if_splits)
  have "p_state (pcb k1 (current_pid k)) \<noteq> PROC_DEAD"
  proof
    assume d: "p_state (pcb k1 (current_pid k)) = PROC_DEAD"
    then have "p_state (pcb k' (current_pid k)) = PROC_DEAD"
      by (simp add: k' save_context_def pit_reset_def pcb_def)
    moreover have "st k' (current_pid k) \<noteq> PROC_DEAD" using placed_life(2) [OF runningD(3) [OF assms(2)] assms(3)] .
    ultimately show False using assms(3) by (simp add: st_def al_def)
  qed
  moreover have "pctx k1 = pctx k" using pctx_scheduler [of k] by (simp add: s)
  ultimately show ?thesis by (simp add: k' save_context_def pctx_set)
qed


lemma block_pctx:
  "process_block c i x k = Some k' \<Longrightarrow> running k' \<Longrightarrow> al k' (current_pid k) \<Longrightarrow>
   pctx k' = (pctx k)[nat (current_pid k) := c]"
  using suspend_pctx [of c "upd_pcb (current_pid k) (\<lambda>p. p\<lparr>blockq := Some i, p_state := x\<rparr>)
      (set_wait_q i (penq (wait_q k i) (current_pid k)) k)" k']
  by (simp add: process_block_def Let_def)

lemma blocked_pctx:
  assumes c: "call sc k = Some (None, k')" and k': "running k'" "al k' (current_pid k)"
  shows "pctx k' = (pctx k)[nat (current_pid k) := blocked_in sc k]"
proof (cases sc)
  case (Sem_wait sem)
  with c block_pctx [of _ _ _ _ k'] k' show ?thesis
    by (auto simp: sys_sem_wait_x_def Let_def sem_wait_end_def ret_def fail_def split: option.splits if_splits)
next
  case (Sem_timedwait sem ms)
  show ?thesis
  proof (cases "get_sem_by_semt k sem")
    case (Some i)
    let ?k = "upd_sem i (sem_value_update (\<lambda>v. v - 1)) k"
    obtain a k1 where t: "add_tmr (current_pid k) ms ?k = (a, k1)" by fastforce
    then have same: "current_pid k1 = current_pid k" "pctx k1 = pctx k"
      using pctx_add [OF t] by (auto simp: add_tmr_def Let_def split: if_splits)
    have "process_block (In_sem_timedwait i) i PROC_TIMED_WAIT k1 = Some k'"
      using c Sem_timedwait Some t
      by (auto simp: sys_sem_timedwait_def Let_def sem_wait_end_def ret_def fail_def split: if_splits)
    from block_pctx [OF this k'(1)] k'(2) Sem_timedwait Some same show ?thesis by simp
  qed (use c Sem_timedwait in \<open>simp add: sys_sem_timedwait_def fail_def ret_def\<close>)
next
  case (Sleep ms)
  obtain a k1 where t: "add_tmr (current_pid k) ms k = (a, k1)" by fastforce
  then have same: "current_pid k1 = current_pid k" "pctx k1 = pctx k"
    using pctx_add [OF t] by (auto simp: add_tmr_def Let_def split: if_splits)
  have "suspend In_sleep (upd_pcb (current_pid k1) (p_state_update (\<lambda>_. PROC_DELAY)) k1) = Some k'"
    using c Sleep t by (auto simp: sys_sleep_def split: if_splits)
  from suspend_pctx [OF this k'(1)] k'(2) Sleep same show ?thesis by simp
next
  case (Sem_destroy sem)
  with c show ?thesis by (auto simp: sys_sem_destroy_def ret_def fail_def split: option.splits if_splits)
next
  case (Sem_post sem)
  with c show ?thesis
    by (auto simp: sys_sem_post_def Let_def ret_def fail_def split: option.splits if_splits)
qed (use c in \<open>auto simp: sys_sem_init_def sys_sem_getvalue_def sys_sem_trywait_def ret_def fail_def sys_yield_def Let_def
    split: option.splits if_splits\<close>)

text \<open>After an event every process but the current one goes on where it did before.\<close>

lemma event_pctx:
  assumes R: "running k" and S: "sems_ok k" and p: "possible e k" and t: "tidy e k"
    and e: "handle_event e k = Some (r, k')"
  shows "pctx k' = (pctx k)[nat (current_pid k) :=
    (case e of Call sc \<Rightarrow> if r = None then blocked_in sc k else User | _ \<Rightarrow> User)]"
    and "e = Resume \<Longrightarrow> r \<noteq> None"
proof -
  note D = runningD [OF R]
  have u: "pctx k ! nat (current_pid k) = pcontext (pcb k (current_pid k))" using pctx_nth D by simp
  have same: "(pctx k)[nat (current_pid k) := User] = pctx k" if "pcontext (pcb k (current_pid k)) = User"
    using that u pctx_same_set [of k "nat (current_pid k)" User] by simp
  have "event_ok k (handle_event e k)" by (rule handle_event_ok [OF R S p t])
  then have k': "running k'" "al k' (current_pid k)" using e D(6) by (simp_all add: event_ok_def)
  have "pctx k' = (pctx k)[nat (current_pid k) :=
      (case e of Call sc \<Rightarrow> if r = None then blocked_in sc k else User | _ \<Rightarrow> User)] \<and> (e = Resume \<longrightarrow> r \<noteq> None)"
  proof (cases e)
    case (Call sc)
    then have pu: "pcontext (pcb k (current_pid k)) = User" using p by simp
    have "call_ok k (call sc k)" using p t Call by (intro call_all_ok [OF R S]) simp_all
    then obtain r1 k1 where c: "call sc k = Some (r1, k1)" "r1 \<noteq> None \<longrightarrow> running k1 \<and> current_pid k1 = current_pid k"
      by (cases "call sc k") (auto simp: call_ok_def split: option.splits)
    show ?thesis
    proof (cases r1)
      case None
      then have "r = None" "k' = k1" using e c(1) Call by (auto simp: handle_event_def finish_def)
      with blocked_pctx [of sc k k'] c(1) None k' Call show ?thesis by simp
    next
      case (Some v)
      then have r: "r = Some v" "k' = leave_kernel k1" using e c(1) Call by (auto simp: handle_event_def finish_def)
      have "pctx k1 = pctx k" using returned_pctx c(1) Some by blast
      with leave_pctx [of k1] c(2) Some u pu have "pctx k' = pctx k" by (simp add: r)
      with same [OF pu] Call r show ?thesis by simp
    qed
  next
    case Resume
    let ?c = "pcontext (pcb k (current_pid k))" and ?k = "upd_pcb (current_pid k) (pcontext_update (\<lambda>_. User)) k"
    have nu: "?c \<noteq> User" using p Resume by simp
    have "running ?k" "sems_ok ?k" using R D S by (simp_all add: upd_inv(2) sems_ok_def)
    then have ok: "call_ok ?k (resume ?c ?k)" using nu by (rule resume_ok)
    then obtain r1 k1 where c: "resume ?c ?k = Some (r1, k1)" by (cases "resume ?c ?k") (auto simp: call_ok_def)
    obtain v where v: "r1 = Some v" using resumed_pctx(2) [OF c nu] by auto
    then have r: "r = Some v" "k' = leave_kernel k1" using e c Resume by (auto simp: handle_event_def finish_def)
    have "pctx k1 = (pctx k)[nat (current_pid k) := User]" using resumed_pctx(1) [OF c] by (simp add: pctx_set)
    moreover have "running k1" "current_pid k1 = current_pid k" using ok c v by (simp_all add: call_ok_def)
    moreover have "nat (current_pid k) < length (pctx k)" using D(2,7) shape_table [of k] by (simp add: pctx_def)
    ultimately show ?thesis using leave_pctx [of k1] Resume r by simp
  next
    case Tick
    then have "k' = timer_interrupt k" using e by (simp add: handle_event_def)
    with same Tick p show ?thesis by simp
  qed
  then show "pctx k' = (pctx k)[nat (current_pid k) :=
      (case e of Call sc \<Rightarrow> if r = None then blocked_in sc k else User | _ \<Rightarrow> User)]" "e = Resume \<Longrightarrow> r \<noteq> None" by auto
qed


section \<open>A semaphore that is not used\<close>

text \<open>The semaphore that a call is about.\<close>

fun operand :: "syscall \<Rightarrow> kernel \<Rightarrow> nat option" where
  "operand (Sem_getvalue sem) k = get_sem_by_semt k sem"
| "operand (Sem_wait sem) k = get_sem_by_semt k sem"
| "operand (Sem_timedwait sem ms) k = get_sem_by_semt k sem"
| "operand (Sem_trywait sem) k = get_sem_by_semt k sem"
| "operand (Sem_post sem) k = get_sem_by_semt k sem"
| "operand (Sem_destroy sem) k = get_sem_by_semt k sem"
| "operand _ k = None"

lemma set_queue_other: "j \<noteq> x \<Longrightarrow> sem_heap (set_wait_q j q k) ! x = sem_heap k ! x"
  by (simp add: set_wait_q_def)

lemma upd_other: "j \<noteq> x \<Longrightarrow> sem_heap (upd_sem j f k) ! x = sem_heap k ! x"
  by (simp add: upd_sem_def)

lemma suspend_heap: "suspend c k = Some k' \<Longrightarrow> sem_heap k' = sem_heap k"
proof -
  assume s: "suspend c k = Some k'"
  obtain same k1 where k1: "scheduler k = (same, k1)" by fastforce
  then have "sem_heap k1 = sem_heap k" using scheduler_timers(6) [of k] by simp
  with s k1 show ?thesis by (auto simp: suspend_def split: if_splits)
qed

lemma block_other: "process_block c j y k = Some k' \<Longrightarrow> j \<noteq> x \<Longrightarrow> sem_heap k' ! x = sem_heap k ! x"
  by (auto simp: process_block_def Let_def set_queue_other dest!: suspend_heap)

lemma remove_heap: "sem_heap (snd (remove_tmr p k)) = sem_heap k"
  by (simp add: remove_tmr_def update_active_tmrs_list_def switch_tmr_list_def split: list.splits prod.splits)

lemma unblock_other: "j \<noteq> x \<Longrightarrow> sem_heap (process_unblock j k) ! x = sem_heap k ! x"
proof -
  have "remove_tmr p k = (a, k1) \<Longrightarrow> sem_heap k1 = sem_heap k" for p k a k1 using remove_heap by (metis snd_conv)
  moreover assume "j \<noteq> x"
  ultimately show ?thesis by (auto simp: process_unblock_def Let_def set_queue_other split: prod.splits)
qed

lemma add_heap: "add_tmr p ms k = (a, k1) \<Longrightarrow> sem_heap k1 = sem_heap k"
  by (auto simp: add_tmr_def Let_def split: if_splits)

lemma call_other:
  assumes c: "call sc k = Some (r, k')" and o: "operand sc k \<noteq> Some x"
    and x: "x < 50" "sem_id (sem_heap k ! x) \<noteq> - 1" "length (sem_heap k) = 50"
  shows "sem_heap k' ! x = sem_heap k ! x"
proof (cases sc)
  case (Sem_init ps v)
  define i where "i = length (takeWhile (\<lambda>s. sem_id s \<noteq> - 1) (sem_heap k))"
  have "i \<noteq> x"
  proof
    assume "i = x"
    then have "sem_id (sem_heap k ! i) = - 1"
      using x nth_length_takeWhile [of "\<lambda>s. sem_id s \<noteq> - 1" "sem_heap k"] by (simp add: i_def)
    with x \<open>i = x\<close> show False by simp
  qed
  with c Sem_init x(3) show ?thesis
    by (auto simp: sys_sem_init_def i_def Let_def fail_def ret_def upd_other split: if_splits)
next
  case (Sem_timedwait sem ms)
  with c o add_heap show ?thesis
    by (auto simp: sys_sem_timedwait_def Let_def sem_wait_end_def ret_def fail_def upd_other
        split: option.splits if_splits prod.splits dest!: block_other [of _ _ _ _ _ x])
next
  case (Sleep ms)
  with c show ?thesis
    by (auto simp: sys_sleep_def split: prod.splits if_splits dest!: suspend_heap add_heap)
next
  case (Sem_wait sem)
  with c o show ?thesis
    by (auto simp: sys_sem_wait_x_def Let_def sem_wait_end_def ret_def fail_def upd_other
        split: option.splits if_splits dest!: block_other [of _ _ _ _ _ x])
next
  case (Sem_post sem)
  have "sys_sem_destroy sem k1 = Some (r1, k2) \<Longrightarrow> get_sem_by_semt k1 sem = Some j \<Longrightarrow> j \<noteq> x \<Longrightarrow> sem_heap k2 ! x = sem_heap k1 ! x"
    for k1 r1 k2 j
    by (auto simp: sys_sem_destroy_def ret_def fail_def upd_other split: if_splits)
  moreover have "get_sem_by_semt (upd_sem j (sem_value_update f) k) sem = Some j" if "get_sem_by_semt k sem = Some j" for j f
    using that x(3) by (auto simp: get_sem_by_semt_def upd_sem_def nth_list_update word_less_nat_alt split: option.splits if_splits)
  ultimately show ?thesis using c o Sem_post
    by (auto simp: sys_sem_post_def Let_def ret_def fail_def upd_other unblock_other split: option.splits if_splits)
qed (use c o in \<open>auto simp: sys_sem_getvalue_def sys_sem_trywait_def sys_sem_destroy_def sys_yield_def ret_def fail_def upd_other
    split: option.splits if_splits\<close>)

lemma resume_other:
  assumes "resume c k = Some (r, k')" and "c \<noteq> In_sem_timedwait x"
  shows "sem_heap k' ! x = sem_heap k ! x"
  using assms remove_heap
  by (cases c) (auto simp: sem_wait_end_def sem_timedwait_resume_def ret_def fail_def Let_def upd_other split: if_splits)

lemma leave_heap: "sem_heap (leave_kernel k) = sem_heap k"
proof -
  have "scheduler k = (same, k1) \<Longrightarrow> sem_heap k1 = sem_heap k" for same k1 using scheduler_timers(6) [of k] by simp
  then show ?thesis by (auto simp: leave_kernel_def split: prod.splits)
qed


section \<open>Timers\<close>

abbreviation "sleepers k \<equiv> tmp k (active k)"

lemma sleepers_timers: "timers k' = timers k \<Longrightarrow> sleepers k' = sleepers k"
  using fst_timers [of k] fst_timers [of k'] by simp

lemma block_sleepers: "process_block c i x k = Some k' \<Longrightarrow> sleepers k' = sleepers k"
  by (rule sleepers_timers, rule process_block_timers)

lemma upd_sleepers [simp]: "sleepers (upd_sem i f k) = sleepers k" "sleepers (upd_pcb p g k) = sleepers k"
  by simp_all

lemma errno_sleepers [simp]: "sleepers (set_errno e k) = sleepers k"
  by (simp add: set_errno_def)

lemma leave_sleepers: "sleepers (leave_kernel k) = sleepers k"
proof (rule sleepers_timers)
  have "timers (pit_reset (save_context p c (snd (scheduler k)))) = timers k" "timers (snd (scheduler k)) = timers k" for p c
    by (rule timers_same; simp add: pit_reset_def save_context_def)+
  then show "timers (leave_kernel k) = timers k" by (auto simp: leave_kernel_def split: prod.split)
qed

lemma add_sleepers:
  assumes R: "running k" and a: "add_tmr (current_pid k) ms k = (r, k')"
  shows "sleepers k' = insert (current_pid k) (sleepers k)" "running k \<Longrightarrow> ptable k' = ptable k"
proof -
  note D = runningD [OF R]
  have "current_pid k \<notin> sleepers k" using placed_timers(2) [OF D(3), of "current_pid k"] D(8) by auto
  moreover have "current_pid k \<noteq> - 1" using D(7) by (auto simp: valid_def)
  ultimately show "sleepers k' = insert (current_pid k) (sleepers k)" "running k \<Longrightarrow> ptable k' = ptable k"
    using add_tmr_view [OF D(4,5) _ _ few_timers [OF D(4,3)] a] by simp_all
qed

lemma call_sleepers:
  assumes R: "running k" and S: "sems_ok k" and c: "current_pid k \<noteq> 0" and call: "call sc k = Some (r, k')"
  shows "sleepers k' \<subseteq> insert (current_pid k) (sleepers k)"
proof (cases sc)
  case (Sem_wait sem)
  show ?thesis
  proof (cases "get_sem_by_semt k sem")
    case (Some i)
    then have "sleepers k' = sleepers (upd_sem i (sem_value_update (\<lambda>v. v - 1)) k)"
      using call Sem_wait
      by (auto simp: sys_sem_wait_x_def Let_def sem_wait_end_def ret_def fail_def split: if_splits
          dest: block_sleepers)
    then show ?thesis by auto
  qed (use call Sem_wait in \<open>auto simp: sys_sem_wait_x_def fail_def ret_def\<close>)
next
  case (Sem_timedwait sem ms)
  show ?thesis
  proof (cases "get_sem_by_semt k sem")
    case (Some i)
    let ?k = "upd_sem i (sem_value_update (\<lambda>v. v - 1)) k"
    have "i < 50 \<and> sem_id (sem_heap k ! i) \<noteq> - 1" using Some by (auto dest: sem_found)
    then have "running ?k" using value_upd(1) [OF R S] by blast
    moreover obtain a k1 where t: "add_tmr (current_pid k) ms ?k = (a, k1)" by fastforce
    ultimately have k1: "sleepers k1 = insert (current_pid k) (sleepers k)" using add_sleepers [of ?k ms a k1] by simp
    have "sleepers k' = sleepers ?k \<or> sleepers k' = sleepers k1"
      using call Sem_timedwait Some t
      by (auto simp: sys_sem_timedwait_def Let_def sem_wait_end_def ret_def fail_def split: if_splits
          dest: block_sleepers)
    with k1 show ?thesis by auto
  qed (use call Sem_timedwait in \<open>auto simp: sys_sem_timedwait_def fail_def ret_def\<close>)
next
  case (Sleep ms)
  from sleep_result [OF R c, of ms] obtain k1 where
    "call (Sleep ms) k = Some (None, k1)" "timers k1 = timers k @ [(current_pid k, if ms_to_ticks ms = 0 then 1 else ms_to_ticks ms)]"
    by blast
  then show ?thesis using call Sleep fst_timers [of k] fst_timers [of k1] by (auto simp: image_Un)
next
  case (Sem_post sem)
  show ?thesis
  proof (cases "get_sem_by_semt k sem")
    case (Some i)
    let ?k = "upd_sem i (sem_value_update (\<lambda>v. v + 1)) k"
    have i: "i < 50" "sem_id (sem_heap k ! i) \<noteq> - 1" using Some by (auto dest: sem_found)
    note V = value_upd [OF R S i, of "\<lambda>v. v + 1"]
    have "sleepers (process_unblock i ?k) \<subseteq> sleepers k" if "0 < item_count (sem_wait_q (sem_heap ?k ! i))"
    proof -
      have "wt ?k i \<noteq> []" using that i(1) contents_Nil [of "wait_q ?k i"] by (simp add: wt_def wait_q_def)
      then obtain p ps where "wt ?k i = p # ps" by (cases "wt ?k i") auto
      from process_unblock_view(12) [OF runningD(1) [OF V(1)] i(1) this] show ?thesis by auto
    qed
    then show ?thesis using call Sem_post Some
      by (auto simp: sys_sem_post_def sys_sem_destroy_def Let_def ret_def fail_def split: if_splits option.splits)
  qed (use call Sem_post in \<open>auto simp: sys_sem_post_def fail_def ret_def\<close>)
next
  case Yield
  with call have "k' = k\<lparr>resched := True\<rparr>" by (auto simp: sys_yield_def ret_def)
  then have "timers k' = timers k" by (intro timers_same) simp_all
  then show ?thesis using sleepers_timers by blast
qed (use call in \<open>auto simp: sys_sem_init_def sys_sem_getvalue_def sys_sem_trywait_def sys_sem_destroy_def ret_def fail_def Let_def
    split: option.splits if_splits\<close>)

lemma resume_sleepers:
  assumes R: "running k" and r: "resume c k = Some (r, k')"
  shows "sleepers k' \<subseteq> sleepers k"
proof (cases c)
  case (In_sem_timedwait i)
  note D = runningD [OF R]
  have "current_pid k \<noteq> - 1" using D(7) by (auto simp: valid_def)
  then have "sleepers (snd (remove_tmr (current_pid k) k)) \<subseteq> sleepers k"
    using remove_tmr_view(2) [OF D(4,5)] by (metis Diff_subset prod.collapse)
  then show ?thesis using r In_sem_timedwait
    by (auto simp: sem_timedwait_resume_def sem_wait_end_def ret_def fail_def Let_def split: if_splits)
qed (use r in \<open>auto simp: sem_wait_end_def ret_def fail_def split: if_splits\<close>)


section \<open>Events and one semaphore\<close>

text \<open>A semaphore in use on which nobody waits with a timer.\<close>

definition untimed :: "nat \<Rightarrow> kernel \<Rightarrow> bool" where
  "untimed x k \<longleftrightarrow> x < 50 \<and> sem_id (sem_heap k ! x) \<noteq> - 1 \<and> sleepers k \<inter> set (wt k x) = {}"

definition leaves_alone :: "nat \<Rightarrow> event \<Rightarrow> kernel \<Rightarrow> bool" where
  "leaves_alone x e k =
     (case e of
        Call sc \<Rightarrow> operand sc k \<noteq> Some x
      | Resume \<Rightarrow> pcontext (pcb k (current_pid k)) \<noteq> In_sem_timedwait x
      | Tick \<Rightarrow> True)"

lemma wt_heap: "sem_heap k' ! x = sem_heap k ! x \<Longrightarrow> wt k' x = wt k x"
  by (simp add: wt_def wait_q_def)

lemma view_key: "sem_view k' x = sem_view k x" "sem_id (sem_heap k' ! x) = sem_id (sem_heap k ! x)"
  if "sem_key (sem_heap k' ! x) = sem_key (sem_heap k ! x)" "wt k' x = wt k x" "x < 50"
  using that by (simp_all add: sem_key_def sem_view_def wt_contents)

lemma current_not_waiting:
  assumes R: "running k" shows "current_pid k \<notin> set (wt k x)"
proof -
  note D = runningD [OF R]
  have "bq k (current_pid k) = None" using placed_waiting(3) [OF D(3), of "current_pid k"] D(8) by auto
  then show ?thesis using placed_waiting(2) [OF D(3), of "current_pid k" x] by simp
qed

lemma tick_view:
  assumes R: "running k" and u: "untimed x k"
  shows "sem_view (timer_interrupt k) x = sem_view k x \<and> untimed x (timer_interrupt k)"
proof -
  note I = interrupt_counts [OF R]
  let ?k = "k\<lparr>kernel_ticks := kernel_ticks k + 1\<rparr>"
  define k1 where "k1 = soft_tmr_handler ?k"
  have "kernel_inv ?k" using runningD(1) [OF R] by simp
  then have "sems_kept ?k k1" unfolding k1_def by (rule soft_tmr_handler_counts)
  then have s: "sem_key (sem_heap (timer_interrupt k) ! x) = sem_key (sem_heap k ! x)"
    by (simp add: timer_interrupt_def timer_int_handler_def Let_def sems_kept_def k1_def)
  have "set (expired (timers k)) \<subseteq> sleepers k" unfolding fst_timers [symmetric] by (auto simp: expired_def)
  then have "filter (\<lambda>p. p \<notin> set (expired (timers k))) (wt k x) = wt k x"
    using u by (intro filter_True) (auto simp: untimed_def)
  then have w: "wt (timer_interrupt k) x = wt k x" unfolding I(2) .
  have "sleepers (timer_interrupt k) \<subseteq> sleepers k"
    unfolding fst_timers [symmetric] I(1) by (force simp: counted_def)
  with view_key [OF s w] u show ?thesis by (auto simp: untimed_def w)
qed

lemma event_spares:
  assumes R: "running k" and S: "sems_ok k" and u: "untimed x k"
    and p: "possible e k" and t: "tidy e k" and a: "leaves_alone x e k" and e: "handle_event e k = Some (r, k')"
  shows "sem_view k' x = sem_view k x \<and> untimed x k'"
proof (cases e)
  case Tick
  with tick_view [OF R u] e show ?thesis by (simp add: handle_event_def)
next
  case (Call sc)
  note D = runningD [OF R]
  from e Call obtain r1 k1 where c: "call sc k = Some (r1, k1)" and k': "k' = k1 \<or> k' = leave_kernel k1"
    by (auto simp: handle_event_def finish_def split: option.splits)
  have "operand sc k \<noteq> Some x" "length (sem_heap k) = 50" using a Call D(2) by (simp_all add: leaves_alone_def shape_def)
  with call_other [OF c] u have h: "sem_heap k1 ! x = sem_heap k ! x" by (simp add: untimed_def)
  have "current_pid k \<noteq> 0" using p Call by simp
  from call_sleepers [OF R S this c] have "sleepers k' \<subseteq> insert (current_pid k) (sleepers k)"
    using k' leave_sleepers by auto
  moreover have h': "sem_heap k' ! x = sem_heap k ! x" using k' h leave_heap by auto
  ultimately show ?thesis using u current_not_waiting [OF R, of x] wt_heap [OF h']
    by (auto simp: untimed_def sem_view_def wait_q_def)
next
  case Resume
  note D = runningD [OF R]
  let ?c = "pcontext (pcb k (current_pid k))" and ?k = "upd_pcb (current_pid k) (pcontext_update (\<lambda>_. User)) k"
  from e Resume obtain r1 k1 where c: "resume ?c ?k = Some (r1, k1)" and k': "k' = k1 \<or> k' = leave_kernel k1"
    by (auto simp: handle_event_def finish_def split: option.splits)
  have "?c \<noteq> In_sem_timedwait x" using a Resume by (simp add: leaves_alone_def)
  with resume_other [OF c] have h: "sem_heap k1 ! x = sem_heap k ! x" by simp
  have "running ?k" using R D by (simp add: upd_inv(2))
  from resume_sleepers [OF this c] have "sleepers k' \<subseteq> sleepers k" using k' leave_sleepers by auto
  moreover have h': "sem_heap k' ! x = sem_heap k ! x" using k' h leave_heap by auto
  ultimately show ?thesis using u wt_heap [OF h'] by (auto simp: untimed_def sem_view_def wait_q_def)
qed

lemma set_queue_id: "sem_id (sem_heap (set_wait_q i q k) ! x) = sem_id (sem_heap k ! x)"
  by (cases "x = i"; cases "i < length (sem_heap k)") (simp_all add: set_wait_q_def list_update_beyond)

lemma block_id: "process_block c i y k = Some k' \<Longrightarrow> sem_id (sem_heap k' ! x) = sem_id (sem_heap k ! x)"
  by (auto simp: process_block_def Let_def set_queue_id dest!: suspend_heap)

lemma unblock_id: "sem_id (sem_heap (process_unblock i k) ! x) = sem_id (sem_heap k ! x)"
proof -
  have "remove_tmr p k = (a, k1) \<Longrightarrow> sem_heap k1 = sem_heap k" for p k a k1 using remove_heap by (metis snd_conv)
  then show ?thesis by (auto simp: process_unblock_def Let_def set_queue_id split: prod.splits)
qed

lemma leave_view: "untimed x k \<Longrightarrow> sem_view (leave_kernel k) x = sem_view k x \<and> untimed x (leave_kernel k)"
  using wt_heap [of "leave_kernel k" x k] by (simp add: leave_heap untimed_def leave_sleepers sem_view_def wait_q_def)

lemma event_wait:
  assumes R: "running k" and S: "sems_ok k" and u: "untimed x k" and p: "current_pid k \<noteq> 0"
    and x: "get_sem_by_semt k sem = Some x" and v: "- 128 < fst (sem_view k x)"
    and e: "handle_event (Call (Sem_wait sem)) k = Some (r, k')"
  shows "sem_view k' x = abs_wait (current_pid k) (sem_view k x) \<and> untimed x k' \<and>
    r = (if 0 < fst (sem_view k x) then Some (Returns 0 None) else None)"
proof -
  note D = runningD [OF R]
  from wait_result [OF R S p x] v obtain r1 k1 where c: "sys_sem_wait_x sem k = Some (r1, k1)" "timers k1 = timers k"
    "sem_view k1 x = abs_wait (current_pid k) (sem_view k x)"
    "r1 = (if 0 < fst (sem_view k x) then Some (Returns 0 None) else None)"
    by (fastforce simp: sem_view_def split: if_splits)
  have i: "sem_id (sem_heap k1 ! x) = sem_id (sem_heap k ! x)"
  proof -
    have l: "length (sem_heap k) = 50" using D(2) by (simp add: shape_def)
    show ?thesis using c(1) x u l
      by (auto simp: sys_sem_wait_x_def Let_def sem_wait_end_def ret_def fail_def sem_upd untimed_def set_errno_def
          split: if_splits dest!: block_id [of _ _ _ _ _ x])
  qed
  have nt: "current_pid k \<notin> sleepers k" using placed_timers(2) [OF D(3), of "current_pid k"] D(8) by auto
  have w: "set (wt k1 x) \<subseteq> insert (current_pid k) (set (wt k x))"
    using arg_cong [OF c(3), of snd] u by (auto simp: sem_view_def wt_contents untimed_def split: if_splits)
  have u1: "untimed x k1" using u i nt w sleepers_timers [OF c(2)] by (auto simp: untimed_def)
  have k': "k' = k1 \<or> k' = leave_kernel k1" and r: "r = r1" using e c(1) by (auto simp: handle_event_def finish_def split: option.splits)
  with leave_view [OF u1] u1 c(3,4) show ?thesis by auto
qed

lemma post_keeps_id:
  assumes R: "running k" and S: "sems_ok k" and x: "get_sem_by_semt k sem = Some x"
    and c: "sys_sem_post sem k = Some (r, k')"
  shows "sem_id (sem_heap k' ! x) = sem_id (sem_heap k ! x)"
proof -
  have l: "length (sem_heap k) = 50" using runningD(2) [OF R] by (simp add: shape_def)
  have i: "x < 50" using x by (auto dest: sem_found)
  then have "\<not> sem_unlink (sem_heap k ! x)" using S by (simp add: sems_ok_def)
  then show ?thesis using c x i l
    by (auto simp: sys_sem_post_def Let_def ret_def sem_upd unblock_id split: if_splits)
qed

lemma event_post:
  assumes R: "running k" and S: "sems_ok k" and u: "untimed x k"
    and x: "get_sem_by_semt k sem = Some x" and v: "fst (sem_view k x) < 127"
    and e: "handle_event (Call (Sem_post sem)) k = Some (r, k')"
  shows "sem_view k' x = abs_post (sem_view k x) \<and> untimed x k' \<and> r = Some (Returns 0 None)"
proof -
  note D = runningD [OF R]
  from post_result [OF R S x] v obtain k1 where c: "sys_sem_post sem k = Some (Some (Returns 0 None), k1)"
    "sleepers k1 \<subseteq> sleepers k" "sem_view k1 x = abs_post (sem_view k x)"
    by (fastforce simp: sem_view_def)
  have i: "sem_id (sem_heap k1 ! x) = sem_id (sem_heap k ! x)" using post_keeps_id [OF R S x c(1)] .
  have w: "set (wt k1 x) \<subseteq> set (wt k x)"
    using arg_cong [OF c(3), of snd] u set_tl [of "wt k x"] by (auto simp: sem_view_def wt_contents untimed_def split: if_splits)
  have u1: "untimed x k1" using u i w c(2) by (auto simp: untimed_def)
  have "k' = leave_kernel k1" "r = Some (Returns 0 None)" using e c(1) by (auto simp: handle_event_def finish_def)
  with leave_view [OF u1] c(3) show ?thesis by auto
qed


lemma event_trywait:
  assumes R: "running k" and u: "untimed x k" and x: "get_sem_by_semt k sem = Some x"
    and e: "handle_event (Call (Sem_trywait sem)) k = Some (r, k')"
  shows "untimed x k' \<and>
    (if 0 < fst (sem_view k x)
     then r = Some (Returns 0 None) \<and> sem_view k' x = (fst (sem_view k x) - 1, snd (sem_view k x))
     else r = Some (Returns (- 1) None) \<and> sem_view k' x = sem_view k x)"
proof -
  have l: "length (sem_heap k) = 50" using runningD(2) [OF R] by (simp add: shape_def)
  have x50: "x < 50" using u by (simp add: untimed_def)
  show ?thesis
  proof (cases "0 < fst (sem_view k x)")
    case True
    let ?k = "upd_sem x (sem_value_update (\<lambda>v. v - 1)) k"
    have "sys_sem_trywait sem k = Some (Some (Returns 0 None), ?k)"
      using True x by (simp add: sys_sem_trywait_def sem_view_def ret_def)
    then have k': "r = Some (Returns 0 None)" "k' = leave_kernel ?k" using e by (simp_all add: handle_event_def finish_def)
    have q: "wt ?k = wt k" "wait_q ?k = wait_q k" using upd_sem_queue [OF runningD(2) [OF R] x50] by simp_all
    have u1: "untimed x ?k" using u q l x50 by (simp add: untimed_def sem_upd)
    have "- 128 < sint (sem_value (sem_heap k ! x))" using True by (simp add: sem_view_def)
    then have "sem_view ?k x = (fst (sem_view k x) - 1, snd (sem_view k x))"
      using l x50 q by (simp add: sem_view_def sem_upd sint_pred)
    with leave_view [OF u1] u1 k' True show ?thesis by auto
  next
    case False
    then have "sys_sem_trywait sem k = fail EAGAIN k" using x by (simp add: sys_sem_trywait_def sem_view_def)
    then have k': "r = Some (Returns (- 1) None)" "k' = leave_kernel (set_errno EAGAIN k)"
      using e by (simp_all add: handle_event_def finish_def fail_def ret_def)
    have h: "sem_heap (set_errno EAGAIN k) = sem_heap k" by simp
    then have "sem_view (set_errno EAGAIN k) x = sem_view k x" by (simp add: sem_view_def wait_q_def)
    moreover have "untimed x (set_errno EAGAIN k)"
      using u wt_heap [of "set_errno EAGAIN k" x k] by (simp add: untimed_def)
    ultimately show ?thesis using leave_view [of x "set_errno EAGAIN k"] k' False by auto
  qed
qed

lemma resume_wait:
  assumes "pcontext (pcb k (current_pid k)) = In_sem_wait x" and "sem_id (sem_heap k ! x) \<noteq> - 1"
    and "handle_event Resume k = Some (r, k')"
  shows "r = Some (Returns 0 None)"
  using assms by (simp add: handle_event_def finish_def sem_wait_end_def ret_def)

lemma waiting_valid: "running k \<Longrightarrow> q \<in> set (wt k x) \<Longrightarrow> valid q"
proof -
  assume R: "running k" and q: "q \<in> set (wt k x)"
  have "al k q" using placed_waiting(2,3) [OF runningD(3) [OF R], of q] q by auto
  then show "valid q" by (simp add: al_def)
qed

end
