(* ===== verification/Lost_Wakeups.thy ===== *)
theory Lost_Wakeups
  imports Mutex_Steps
begin

text \<open>
  What a timed wait that runs out does to the others. The process that timed out gives its unit back
  only when it runs again; when another process has taken its place in the value of the semaphore by then,
  the last process in the queue is not woken any more, however often the semaphore is posted.
\<close>

section \<open>Posts\<close>

lemma sem_of_same_id:
  "get_sem_by_semt k sem = Some i \<Longrightarrow> sem_id (sem_heap k' ! i) = sem_id (sem_heap k ! i) \<Longrightarrow> get_sem_by_semt k' sem = Some i"
  by (auto simp: get_sem_by_semt_def split: option.splits if_splits)

lemma view_heap: "sem_heap k' ! i = sem_heap k ! i \<Longrightarrow> sem_view k' i = sem_view k i"
  by (simp add: sem_view_def wait_q_def)

lemma post_event_view:
  assumes R: "running k" and S: "sems_ok k" and x: "get_sem_by_semt k sem = Some i"
    and p: "possible (Call (Sem_post sem)) k" and v: "fst (sem_view k i) < 127"
    and e: "handle_event (Call (Sem_post sem)) k = Some (r, k')"
  shows "running k'" "sems_ok k'" "get_sem_by_semt k' sem = Some i" "sem_view k' i = abs_post (sem_view k i)"
proof -
  have t: "tidy (Call (Sem_post sem)) k" by (simp add: tidy_def)
  from handle_event_ok [OF R S p t] e show "running k'" "sems_ok k'" by (simp_all add: event_ok_def)
  from post_result [OF R S x] v obtain k1 where c: "sys_sem_post sem k = Some (Some (Returns 0 None), k1)"
    "sem_view k1 i = abs_post (sem_view k i)" by (auto simp: sem_view_def)
  then have k': "k' = leave_kernel k1" using e by (simp add: handle_event_def finish_def)
  then have h: "sem_heap k' ! i = sem_heap k1 ! i" by (simp add: leave_heap)
  with c(2) view_heap [OF h] show "sem_view k' i = abs_post (sem_view k i)" by simp
  have "sem_id (sem_heap k' ! i) = sem_id (sem_heap k ! i)" using post_keeps_id [OF R S x c(1)] h by simp
  with x show "get_sem_by_semt k' sem = Some i" by (rule sem_of_same_id)
qed

text \<open>Posts wake one process each while the value is negative, and nobody from then on.\<close>

lemma posts_view:
  "run_events (replicate n (Call (Sem_post sem))) k = Some k' \<Longrightarrow> running k \<Longrightarrow> sems_ok k \<Longrightarrow>
   get_sem_by_semt k sem = Some i \<Longrightarrow> sem_view k i = (v, ws) \<Longrightarrow> v + int n \<le> 127 \<Longrightarrow>
   sem_view k' i = (v + int n, drop (min n (nat (- v))) ws)"
proof (induction n arbitrary: k v ws)
  case (Suc n)
  from Suc.prems(1) obtain r k1 where e: "possible (Call (Sem_post sem)) k" "handle_event (Call (Sem_post sem)) k = Some (r, k1)"
    "run_events (replicate n (Call (Sem_post sem))) k1 = Some k'"
    by (auto split: if_splits option.splits)
  have "fst (sem_view k i) < 127" using Suc.prems(5,6) by simp
  note P = post_event_view [OF Suc.prems(2,3,4) e(1) this e(2)]
  have v1: "sem_view k1 i = (v + 1, if v < 0 then tl ws else ws)" using P(4) Suc.prems(5) by simp
  have "v + 1 + int n \<le> 127" using Suc.prems(6) by simp
  from Suc.IH [OF e(3) P(1-3) v1 this]
  have "sem_view k' i = (v + 1 + int n, drop (min n (nat (- (v + 1)))) (if v < 0 then tl ws else ws))" .
  moreover have "drop (min n (nat (- (v + 1)))) (if v < 0 then tl ws else ws) = drop (min (Suc n) (nat (- v))) ws"
  proof (cases "v < 0")
    case True
    then have "min (Suc n) (nat (- v)) = Suc (min n (nat (- (v + 1))))" by auto
    with True show ?thesis by (simp add: drop_Suc)
  qed simp
  ultimately show ?case by simp
qed simp

section \<open>A wait that timed out\<close>

lemma timeout_resume_view:
  assumes R: "running k" and x: "get_sem_by_semt k sem = Some i"
    and c: "pcontext (pcb k (current_pid k)) = In_sem_timedwait i" "p_timeout (pcb k (current_pid k))"
    and v: "fst (sem_view k i) < 127" and e: "handle_event Resume k = Some (r, k')"
  shows "get_sem_by_semt k' sem = Some i" "sem_view k' i = (fst (sem_view k i) + 1, snd (sem_view k i))"
proof -
  note D = runningD [OF R]
  have l: "length (sem_heap k) = 50" and i: "i < 50" using D(2) x by (auto simp: shape_def dest: sem_found)
  have len: "length (ptable k) = 20" using D(2) by (simp add: shape_def)
  have n: "nat (current_pid k) < 20" using D(7) by (auto simp: valid_def)
  have tm: "p_timeout (pcb (upd_pcb (current_pid k) (pcontext_update (\<lambda>_. User)) k) (current_pid k))"
    using c(2) len n by (simp add: pcb_def upd_pcb_def)
  obtain k1 where k1: "k' = leave_kernel k1" "sem_heap k1 = sem_heap (upd_sem i (sem_value_update (\<lambda>v. v + 1)) k)"
    using e tm c(1) by (auto simp: handle_event_def finish_def sem_timedwait_resume_def fail_def ret_def Let_def upd_sem_def
        set_errno_def upd_pcb_def)
  then have h: "sem_heap k' ! i = (sem_heap k ! i)\<lparr>sem_value := sem_value (sem_heap k ! i) + 1\<rparr>"
    using l i by (simp add: leave_heap sem_upd)
  then have "sem_id (sem_heap k' ! i) = sem_id (sem_heap k ! i)" by simp
  with x show "get_sem_by_semt k' sem = Some i" by (rule sem_of_same_id)
  show "sem_view k' i = (fst (sem_view k i) + 1, snd (sem_view k i))"
    using v by (simp add: sem_view_def wait_q_def h sint_succ)
qed

text \<open>C34: a wakeup is lost for good. A process has timed out and goes on in \<open>sem_timedwait\<close>, while the processes in
  the queue are exactly those that the value counts, because one of them came in after the timeout. From then on the value counts
  one process too few: after any number of posts that is enough to wake all of them, up to the overflow of the value,
  the last one is still in the queue, whatever the value is.\<close>

theorem wakeup_is_lost_for_good:
  assumes "tidy_run (xilkernel_init ts) es k"
    and "pcontext (pcb k (current_pid k)) = In_sem_timedwait i" "p_timeout (pcb k (current_pid k))"
    and "get_sem_by_semt k sem = Some i" "sem_view k i = (- int (length ws), ws)" "ws \<noteq> []"
    and "run_events (Resume # replicate n (Call (Sem_post sem))) k = Some k'" "length ws \<le> n + 1" "n < 127 + length ws"
  shows "sem_view k' i = (int (n + 1) - int (length ws), [last ws])"
proof -
  from reachable_ok [OF assms(1)] have R: "running k" "sems_ok k" by simp_all
  from assms(7) obtain r k1 where e: "possible Resume k" "handle_event Resume k = Some (r, k1)"
    "run_events (replicate n (Call (Sem_post sem))) k1 = Some k'" by (auto split: if_splits option.splits)
  have "tidy Resume k" by (simp add: tidy_def)
  from handle_event_ok [OF R e(1) this] e(2) have R1: "running k1" "sems_ok k1" by (simp_all add: event_ok_def)
  have "fst (sem_view k i) < 127" using assms(5) by simp
  note V = timeout_resume_view [OF R(1) assms(4,2,3) this e(2)]
  then have "sem_view k1 i = (1 - int (length ws), ws)" using assms(5) by simp
  from posts_view [OF e(3) R1 V(1) this] assms(9)
  have "sem_view k' i = (1 - int (length ws) + int n, drop (min n (length ws - 1)) ws)" by (simp add: nat_diff_distrib')
  moreover have "drop (min n (length ws - 1)) ws = [last ws]"
  proof -
    have "min n (length ws - 1) = length ws - 1" using assms(8) by simp
    moreover have "drop (length ws - 1) ws = [last ws]"
      using append_butlast_last_id [OF assms(6)] by (metis append_eq_conv_conj length_butlast)
    ultimately show ?thesis by simp
  qed
  ultimately show ?thesis by simp
qed

text \<open>Process 1 waits for one tick; the tick comes, process 2 posts and then waits, and process 1 goes on and posts twice.\<close>

theorem wakeup_is_lost_for_good_witness:
  "\<exists>k k'. run_events (butlast late_timeout) (xilkernel_init [0, 0, 0]) = Some k \<and>
    run_events [Resume, Call (Sem_post (Some 0)), Call (Sem_post (Some 0))] k = Some k' \<and> sem_view k' 0 = (2, [2])"
proof -
  have "map_option (\<lambda>k. (pcontext (pcb k (current_pid k)), p_timeout (pcb k (current_pid k)), get_sem_by_semt k (Some 0), sem_view k 0,
      run_events [Resume, Call (Sem_post (Some 0)), Call (Sem_post (Some 0))] k = None))
      (run_events (butlast late_timeout) (xilkernel_init [0, 0, 0])) =
    Some (In_sem_timedwait 0, True, Some 0, (- 1, [2]), False)"
    unfolding late_timeout_def by code_simp
  then obtain k where k: "run_events (butlast late_timeout) (xilkernel_init [0, 0, 0]) = Some k"
    "pcontext (pcb k (current_pid k)) = In_sem_timedwait 0" "p_timeout (pcb k (current_pid k))"
    "get_sem_by_semt k (Some 0) = Some 0" "sem_view k 0 = (- 1, [2])"
    "run_events [Resume, Call (Sem_post (Some 0)), Call (Sem_post (Some 0))] k \<noteq> None"
    by (auto simp del: run_events.simps)
  then obtain k' where k': "run_events (Resume # replicate 2 (Call (Sem_post (Some 0)))) k = Some k'"
    by (auto simp: numeral_2_eq_2 simp del: run_events.simps)
  have "tidy_run (xilkernel_init [0, 0, 0]) (butlast late_timeout) k"
    using run_events_tidy [OF k(1)] by (simp add: late_timeout_def)
  from wakeup_is_lost_for_good [OF this k(2-4), of "[2]" 2 k'] k(5) k'
  have "sem_view k' 0 = (2, [2])" by (simp del: run_events.simps)
  with k(1) k' show ?thesis by (auto simp: numeral_2_eq_2 simp del: run_events.simps)
qed

end
