(* ===== verification/Eth_Adapter.thy ===== *)
theory Eth_Adapter
  imports Axi_Dma Ring_Runs Pid_Queue
begin

text \<open>
  The adapter between lwIP and the Ethernet core: \<open>netif/xaxiemacif_dma.c\<close>, \<open>netif/xpqueue.c\<close> and
  the transmit and receive functions of \<open>netif/xaxiemacif.c\<close>. It is the user of the descriptor
  rings: DMA engine 0 moves frames between packet buffers of lwIP (\<open>pbuf\<close>) and the Ethernet core.

  Checksum offloading, jumbo frames and tracing are configured out, so their branches are absent.
  The counters of \<open>lwip_stats\<close> and messages on the console have no state here.
\<close>

section \<open>What lwIP provides\<close>

text \<open>
  lwIP is a parameter. Its answers depend on the log of the calls made to it (\<open>lw_log\<close>), so that
  an arbitrary \<open>lwip\<close> can give every sequence of answers. The log holds the calls with an effect
  on the state of lwIP or Xilkernel; a buffer is its address, and 0 is \<open>NULL\<close>.
\<close>

datatype lw_call =
    Pbuf_alloc u32              \<comment> \<open>\<open>pbuf_alloc(PBUF_RAW, 1518, PBUF_POOL)\<close> and its result\<close>
  | Pbuf_ref u32
  | Pbuf_free u32
  | Pbuf_realloc u32 u16
  | Sem_signal                  \<comment> \<open>\<open>sys_sem_signal(&xemac->sem_rx_data_available)\<close>\<close>
  | Mem_malloc u32 u32          \<comment> \<open>size and result\<close>
  | Netif_input u32             \<comment> \<open>the frame is handed to \<open>netif->input\<close>\<close>
  | Register_handler nat
  | Enable_interrupt nat

type_synonym lw_log = "lw_call list"

record lwip =
  pbuf_alloc :: "lw_log \<Rightarrow> u32"
  pbuf_payload :: "lw_log \<Rightarrow> u32 \<Rightarrow> u32"
  pbuf_len :: "lw_log \<Rightarrow> u32 \<Rightarrow> u16"
  mem_malloc :: "lw_log \<Rightarrow> u32 \<Rightarrow> u32"
  input_ok :: "lw_log \<Rightarrow> u32 \<Rightarrow> bool"

section \<open>The queue of received frames\<close>

abbreviation (input) "PQ_QUEUE_SIZE \<equiv> (128 :: nat)"

record pq_queue =
  pq_data :: "u32 list"
  pq_head :: nat
  pq_tail :: nat
  pq_len :: nat

text \<open>\<open>data\<close> is whatever \<open>malloc\<close> found in memory; \<open>None\<close> is a failed \<open>malloc\<close>.\<close>

definition pq_create_queue :: "u32 list option \<Rightarrow> pq_queue option" where
  "pq_create_queue mem =
     map_option (\<lambda>d. \<lparr>pq_data = d, pq_head = 0, pq_tail = 0, pq_len = 0\<rparr>) mem"

definition pq_enqueue :: "pq_queue \<Rightarrow> u32 \<Rightarrow> int \<times> pq_queue" where
  "pq_enqueue q p =
     (if pq_len q = PQ_QUEUE_SIZE then (- 1, q)
      else (0, q\<lparr>pq_data := (pq_data q)[pq_head q := p],
                 pq_head := (pq_head q + 1) mod PQ_QUEUE_SIZE, pq_len := pq_len q + 1\<rparr>))"

definition pq_dequeue :: "pq_queue \<Rightarrow> u32 \<times> pq_queue" where
  "pq_dequeue q =
     (if pq_len q = 0 then (0, q)
      else (pq_data q ! pq_tail q,
            q\<lparr>pq_tail := (pq_tail q + 1) mod PQ_QUEUE_SIZE, pq_len := pq_len q - 1\<rparr>))"

definition pq_qlength :: "pq_queue \<Rightarrow> nat" where
  "pq_qlength q = pq_len q"

section \<open>The adapter\<close>

abbreviation (input) "XAE_MAX_FRAME_SIZE \<equiv> (1518 :: u32)"
abbreviation (input) "XLWIP_CONFIG_N_RX_DESC \<equiv> (64 :: int)"
abbreviation (input) "XLWIP_CONFIG_N_TX_DESC \<equiv> (64 :: int)"
abbreviation (input) "BD_ALIGNMENT \<equiv> (128 :: u32)"
abbreviation (input) "XAXIDMA_ALL_BDS \<equiv> (0x0FFFFFFF :: int)"
abbreviation (input) "XAXIDMA_IRQ_IOC_MASK \<equiv> (0x1000 :: u32)"
abbreviation (input) "XAXIDMA_IRQ_DELAY_MASK \<equiv> (0x2000 :: u32)"
abbreviation (input) "XAXIDMA_IRQ_ERROR_MASK \<equiv> (0x4000 :: u32)"
abbreviation (input) "XAXIDMA_BD_USR4_OFFSET \<equiv> (0x30 :: u32)"
abbreviation (input) "XIN_IAR_OFFSET \<equiv> (12 :: u32)"

text \<open>
  The fields of \<open>xaxiemacif_s\<close> that the adapter uses, with the interrupt numbers of its Ethernet
  core and the base address of the interrupt controller from \<open>xtopology\<close>.
\<close>

record xaxiemacif =
  axidma :: XAxiDma
  recv_q :: pq_queue
  rx_bdspace :: u32
  tx_bdspace :: u32
  TemacIntr :: nat
  AxiDmaRxIntr :: nat
  AxiDmaTxIntr :: nat
  intc_baseaddr :: u32

abbreviation tx_ring :: "xaxiemacif \<Rightarrow> XAxiDma_BdRing" where
  "tx_ring e \<equiv> TxBdRing (axidma e)"

abbreviation rx_ring :: "xaxiemacif \<Rightarrow> XAxiDma_BdRing" where
  "rx_ring e \<equiv> RxBdRing (axidma e)"

definition set_tx_ring :: "XAxiDma_BdRing \<Rightarrow> xaxiemacif \<Rightarrow> xaxiemacif" where
  "set_tx_ring r e = e\<lparr>axidma := (axidma e)\<lparr>TxBdRing := r\<rparr>\<rparr>"

definition set_rx_ring :: "XAxiDma_BdRing \<Rightarrow> xaxiemacif \<Rightarrow> xaxiemacif" where
  "set_rx_ring r e = e\<lparr>axidma := (axidma e)\<lparr>RxBdRing := r\<rparr>\<rparr>"

definition XIntc_AckIntr :: "u32 \<Rightarrow> u32 \<Rightarrow> trace \<Rightarrow> trace" where
  "XIntc_AckIntr base msk t = Out32 (base + XIN_IAR_OFFSET) msk t"

text \<open>Both drivers' status codes meet in \<open>int\<close> results; \<open>Xst\<close> and \<open>Lwip\<close> keep them apart.\<close>

datatype eth_status = Xst xst | Lwip int

abbreviation (input) "ERR_OK \<equiv> (0 :: int)"
abbreviation (input) "ERR_MEM \<equiv> (- 1 :: int)"
abbreviation (input) "ERR_IF \<equiv> (- 15 :: int)"

section \<open>Transmission\<close>

definition is_tx_space_available :: "xaxiemacif \<Rightarrow> int" where
  "is_tx_space_available e = FreeCnt (tx_ring e)"

text \<open>The loop of \<open>process_sent_bds\<close>; \<open>n\<close> descriptors are left.\<close>

fun free_sent :: "device \<Rightarrow> XAxiDma_BdRing \<Rightarrow> nat \<Rightarrow> u32 \<Rightarrow> trace \<Rightarrow> lw_log \<Rightarrow> trace \<times> lw_log" where
  "free_sent dev r 0 txbd t l = (t, l)"
| "free_sent dev r (Suc n) txbd t l =
     (let (p, t) = BdGetId dev txbd t
      in free_sent dev r n (BdRingNext r txbd) t (l @ [Pbuf_free p]))"

definition process_sent_bds ::
    "device \<Rightarrow> XAxiDma_BdRing \<Rightarrow> trace \<Rightarrow> lw_log \<Rightarrow> int \<times> XAxiDma_BdRing \<times> trace \<times> lw_log" where
  "process_sent_bds dev txring t l =
     (let (n_bds, txbdset, txring, t) = BdRingFromHw dev txring XAXIDMA_ALL_BDS t
      in if n_bds = 0 then (- 1, txring, t, l)
         else
           let (t, l) = free_sent dev txring (nat n_bds) txbdset t l;
               (status, txring) = BdRingFree txring n_bds txbdset
           in (if status \<noteq> XST_SUCCESS then 1 else 0, txring, t, l))"

definition axidma_send_handler ::
    "device \<Rightarrow> xaxiemacif \<Rightarrow> trace \<Rightarrow> lw_log \<Rightarrow> xaxiemacif \<times> trace \<times> lw_log" where
  "axidma_send_handler dev e t l =
     (let (irq_status, t) = BdRingGetIrq dev (tx_ring e) t;
          t = BdRingAckIrq (tx_ring e) irq_status t;
          t = XIntc_AckIntr (intc_baseaddr e) (push_bit (AxiDmaTxIntr e) 1) t
      in if irq_status AND XAXIDMA_IRQ_ERROR_MASK \<noteq> 0
         then let (d, t) = Reset dev (axidma e) t in (e\<lparr>axidma := d\<rparr>, t, l)
         else if irq_status AND (XAXIDMA_IRQ_DELAY_MASK OR XAXIDMA_IRQ_IOC_MASK) \<noteq> 0
         then let (st, r, t, l) = process_sent_bds dev (tx_ring e) t l in (set_tx_ring r e, t, l)
         else (e, t, l))"

text \<open>
  The loop of \<open>axidma_sgsend\<close> over the buffers of a chain, with the last descriptor filled. The
  results of the setters are ignored. A flush of a range is the event \<open>Fls\<close> at its first address.
\<close>

fun fill_tx ::
    "device \<Rightarrow> lwip \<Rightarrow> XAxiDma_BdRing \<Rightarrow> u32 list \<Rightarrow> u32 \<Rightarrow> u32 \<Rightarrow> trace \<Rightarrow> lw_log
      \<Rightarrow> u32 \<times> trace \<times> lw_log" where
  "fill_tx dev lw r [] txbd last_txbd t l = (last_txbd, t, l)"
| "fill_tx dev lw r (q # qs) txbd last_txbd t l =
     (let max_frame_size = XAE_MAX_FRAME_SIZE - 18;
          qlen = (ucast (pbuf_len lw l q) :: u32);
          t = snd (BdSetBufAddr dev txbd (pbuf_payload lw l q) t);
          t = snd (BdSetLength dev txbd (if max_frame_size < qlen then max_frame_size else qlen) t);
          t = BdSetId txbd q t;
          t = BdSetCtrl dev txbd 0 t;
          t = t @ [Fls (pbuf_payload lw l q)]
      in fill_tx dev lw r qs (BdRingNext r txbd) txbd t (l @ [Pbuf_ref q]))"

definition axidma_sgsend ::
    "device \<Rightarrow> lwip \<Rightarrow> XAxiDma_BdRing \<Rightarrow> u32 list \<Rightarrow> trace \<Rightarrow> lw_log
      \<Rightarrow> eth_status \<times> XAxiDma_BdRing \<times> trace \<times> lw_log" where
  "axidma_sgsend dev lw txring p t l =
     (let n_pbufs = int (length p)
      in case BdRingAlloc txring n_pbufs of
           (XST_SUCCESS, Some txbdset, txring) \<Rightarrow>
             let (last_txbd, t, l) = fill_tx dev lw txring p txbdset 0 t l;
                 t = (if n_pbufs = 1
                      then BdSetCtrl dev txbdset (XAXIDMA_BD_CTRL_TXSOF_MASK OR XAXIDMA_BD_CTRL_TXEOF_MASK) t
                      else BdSetCtrl dev last_txbd XAXIDMA_BD_CTRL_TXEOF_MASK
                             (BdSetCtrl dev txbdset XAXIDMA_BD_CTRL_TXSOF_MASK t));
                 (status, txring, t) = BdRingToHw dev txring n_pbufs txbdset t
             in (Xst status, txring, t, l)
         | (_, _, txring) \<Rightarrow> (Lwip ERR_IF, txring, t, l))"

definition unbuffered_low_level_output ::
    "device \<Rightarrow> lwip \<Rightarrow> xaxiemacif \<Rightarrow> u32 list \<Rightarrow> trace \<Rightarrow> lw_log \<Rightarrow> int \<times> xaxiemacif \<times> trace \<times> lw_log" where
  "unbuffered_low_level_output dev lw e p t l =
     (let (status, r, t, l) = axidma_sgsend dev lw (tx_ring e) p t l in (ERR_OK, set_tx_ring r e, t, l))"

definition low_level_output ::
    "device \<Rightarrow> lwip \<Rightarrow> xaxiemacif \<Rightarrow> u32 list \<Rightarrow> trace \<Rightarrow> lw_log \<Rightarrow> int \<times> xaxiemacif \<times> trace \<times> lw_log" where
  "low_level_output dev lw e p t l =
     (if is_tx_space_available e \<noteq> 0
      then let (_, e, t, l) = unbuffered_low_level_output dev lw e p t l in (ERR_OK, e, t, l)
      else (ERR_MEM, e, t, l))"

section \<open>Reception\<close>

text \<open>The loop of \<open>_setup_rx_bds\<close>; \<open>n\<close> rounds are left, and every \<open>return\<close> ends it.\<close>

fun setup_rx_loop ::
    "device \<Rightarrow> lwip \<Rightarrow> XAxiDma_BdRing \<Rightarrow> nat \<Rightarrow> trace \<Rightarrow> lw_log \<Rightarrow> XAxiDma_BdRing \<times> trace \<times> lw_log" where
  "setup_rx_loop dev lw r 0 t l = (r, t, l)"
| "setup_rx_loop dev lw r (Suc n) t l =
     (case BdRingAlloc r 1 of
        (XST_SUCCESS, Some rxbd, r) \<Rightarrow>
          let p = pbuf_alloc lw l;
              l = l @ [Pbuf_alloc p]
          in if p = 0 then (r, t, l)
             else
               let t = snd (BdSetBufAddr dev rxbd (pbuf_payload lw l p) t);
                   (sts, t) = BdGetSts dev rxbd t;
                   t = BdWrite rxbd XAXIDMA_BD_STS_OFFSET (sts AND XAXIDMA_BD_STS_COMPLETE_MASK) t;
                   t = snd (BdSetLength dev rxbd (ucast (pbuf_len lw l p)) t);
                   t = BdSetCtrl dev rxbd 0 t;
                   t = BdSetId rxbd p t;
                   t = t @ [Fls p, Fls rxbd];
                   (status, r, t) = BdRingToHw dev r 1 rxbd t
               in if status \<noteq> XST_SUCCESS then (r, t, l) else setup_rx_loop dev lw r n t l
      | (_, _, r) \<Rightarrow> (r, t, l))"

definition setup_rx_bds ::
    "device \<Rightarrow> lwip \<Rightarrow> XAxiDma_BdRing \<Rightarrow> trace \<Rightarrow> lw_log \<Rightarrow> XAxiDma_BdRing \<times> trace \<times> lw_log" where
  "setup_rx_bds dev lw rxring t l =
     (let n_bds = FreeCnt rxring
      in if n_bds = 0 then (rxring, t, l) else setup_rx_loop dev lw rxring (nat n_bds) t l)"

definition extract_packet_len :: "device \<Rightarrow> u32 \<Rightarrow> trace \<Rightarrow> u16 \<times> trace" where
  "extract_packet_len dev rxbd t =
     (let (v, t) = BdRead dev rxbd XAXIDMA_BD_USR4_OFFSET t in (ucast (v AND 0x3FFF), t))"

text \<open>The loop of \<open>axidma_recv_handler\<close> over the completed descriptors; \<open>n\<close> are left.\<close>

fun recv_loop ::
    "device \<Rightarrow> lwip \<Rightarrow> XAxiDma_BdRing \<Rightarrow> nat \<Rightarrow> u32 \<Rightarrow> pq_queue \<Rightarrow> trace \<Rightarrow> lw_log
      \<Rightarrow> pq_queue \<times> trace \<times> lw_log" where
  "recv_loop dev lw r 0 rxbd q t l = (q, t, l)"
| "recv_loop dev lw r (Suc n) rxbd q t l =
     (let (p, t) = BdGetId dev rxbd t;
          (rx_bytes, t) = extract_packet_len dev rxbd t;
          l = l @ [Pbuf_realloc p rx_bytes];
          t = t @ [Inv (pbuf_payload lw l p)];
          (full, q) = pq_enqueue q p;
          l = (if full < 0 then l @ [Pbuf_free p] else l @ [Sem_signal])
      in recv_loop dev lw r n (BdRingNext r rxbd) q t l)"

definition axidma_recv_handler ::
    "device \<Rightarrow> lwip \<Rightarrow> xaxiemacif \<Rightarrow> trace \<Rightarrow> lw_log \<Rightarrow> xaxiemacif \<times> trace \<times> lw_log" where
  "axidma_recv_handler dev lw e t l =
     (let t = XIntc_AckIntr (intc_baseaddr e) (push_bit (AxiDmaRxIntr e) 1) t;
          t = BdRingIntDisable dev (rx_ring e) XAXIDMA_IRQ_ALL_MASK t;
          (irq_status, t) = BdRingGetIrq dev (rx_ring e) t;
          t = BdRingAckIrq (rx_ring e) irq_status t
      in if irq_status AND XAXIDMA_IRQ_ERROR_MASK \<noteq> 0
         then let (d, t) = Reset dev (axidma e) t in (e\<lparr>axidma := d\<rparr>, t, l)
         else
           let (e, t, l) =
                 (if irq_status AND (XAXIDMA_IRQ_DELAY_MASK OR XAXIDMA_IRQ_IOC_MASK) \<noteq> 0
                  then
                    let (bd_processed, rxbdset, r, t) = BdRingFromHw dev (rx_ring e) XAXIDMA_ALL_BDS t;
                        (q, t, l) = recv_loop dev lw r (nat bd_processed) rxbdset (recv_q e) t l;
                        (_, r) = BdRingFree r bd_processed rxbdset;
                        (r, t, l) = setup_rx_bds dev lw r t l
                    in ((set_rx_ring r e)\<lparr>recv_q := q\<rparr>, t, l)
                  else (e, t, l))
           in (e, BdRingIntEnable dev (rx_ring e) XAXIDMA_IRQ_ALL_MASK t, l))"

text \<open>\<open>low_level_input\<close>; 0 is \<open>NULL\<close>.\<close>

definition low_level_input :: "xaxiemacif \<Rightarrow> u32 \<times> xaxiemacif" where
  "low_level_input e =
     (if pq_qlength (recv_q e) = 0 then (0, e)
      else let (p, q) = pq_dequeue (recv_q e) in (p, e\<lparr>recv_q := q\<rparr>))"

text \<open>
  \<open>htons(ethhdr->type)\<close> is the two bytes at offset 12 of the frame, most significant first,
  whatever the byte order of the processor.
\<close>

definition ether_type :: "device \<Rightarrow> u32 \<Rightarrow> trace \<Rightarrow> u16" where
  "ether_type dev frame t = push_bit 8 (ucast (ram dev t (frame + 12))) OR ucast (ram dev t (frame + 13))"

abbreviation (input) "ETHTYPE_IP \<equiv> (0x0800 :: u16)"
abbreviation (input) "ETHTYPE_ARP \<equiv> (0x0806 :: u16)"

definition xaxiemacif_input ::
    "device \<Rightarrow> lwip \<Rightarrow> xaxiemacif \<Rightarrow> trace \<Rightarrow> lw_log \<Rightarrow> int \<times> xaxiemacif \<times> lw_log" where
  "xaxiemacif_input dev lw e t l =
     (let (p, e) = low_level_input e
      in if p = 0 then (0, e, l)
         else
           let ty = ether_type dev (pbuf_payload lw l p) t
           in if ty = ETHTYPE_IP \<or> ty = ETHTYPE_ARP
              then
                let accepted = input_ok lw l p;
                    l = l @ [Netif_input p]
                in (1, e, if \<not> accepted then l @ [Pbuf_free p] else l)
              else (1, e, l @ [Pbuf_free p]))"

section \<open>Bringing the adapter up\<close>

text \<open>\<open>None\<close> is a failed assertion.\<close>

definition alloc_bdspace :: "lwip \<Rightarrow> int \<Rightarrow> lw_log \<Rightarrow> u32 option \<times> lw_log" where
  "alloc_bdspace lw n_desc l =
     (let space = bd_separation BD_ALIGNMENT * of_int n_desc;
          padding = BD_ALIGNMENT * 2;
          unaligned_mem = mem_malloc lw l (space + padding * 4);
          aligned_mem = (unaligned_mem + BD_ALIGNMENT) AND NOT (BD_ALIGNMENT - 1);
          l = l @ [Mem_malloc (space + padding * 4) unaligned_mem]
      in (if aligned_mem > unaligned_mem \<and> aligned_mem + space < unaligned_mem + space + padding
          then Some aligned_mem else None, l))"

text \<open>The loop of \<open>init_axi_dma\<close> that hands the first buffers to the receive channel.\<close>

fun init_rx_loop ::
    "device \<Rightarrow> lwip \<Rightarrow> XAxiDma_BdRing \<Rightarrow> nat \<Rightarrow> trace \<Rightarrow> lw_log
      \<Rightarrow> eth_status option \<times> XAxiDma_BdRing \<times> trace \<times> lw_log" where
  "init_rx_loop dev lw r 0 t l = (None, r, t, l)"
| "init_rx_loop dev lw r (Suc n) t l =
     (case BdRingAlloc r 1 of
        (XST_SUCCESS, Some rxbd, r) \<Rightarrow>
          let p = pbuf_alloc lw l;
              l = l @ [Pbuf_alloc p]
          in if p = 0 then (Some (Lwip (- 1)), r, t, l)
             else
               let t = snd (BdSetBufAddr dev rxbd (pbuf_payload lw l p) t);
                   t = snd (BdSetLength dev rxbd (ucast (pbuf_len lw l p)) t);
                   t = BdSetCtrl dev rxbd 0 t;
                   t = BdSetId rxbd p t;
                   t = t @ [Fls p, Fls rxbd];
                   (status, r, t) = BdRingToHw dev r 1 rxbd t
               in if status \<noteq> XST_SUCCESS then (Some (Xst XST_FAILURE), r, t, l)
                  else init_rx_loop dev lw r n t l
      | (_, _, r) \<Rightarrow> (Some (Lwip ERR_IF), r, t, l))"

text \<open>The handlers that \<open>init_axi_dma\<close> registers and enables, in this order.\<close>

definition connect_interrupts :: "xaxiemacif \<Rightarrow> lw_log \<Rightarrow> lw_log" where
  "connect_interrupts e l =
     l @ [Register_handler (TemacIntr e), Enable_interrupt (TemacIntr e),
          Register_handler (AxiDmaTxIntr e), Enable_interrupt (AxiDmaTxIntr e),
          Register_handler (AxiDmaRxIntr e), Enable_interrupt (AxiDmaRxIntr e)]"

text \<open>Starting both channels and setting their coalescing: the last part of \<open>init_axi_dma\<close>.\<close>

definition start_channels ::
    "device \<Rightarrow> xaxiemacif \<Rightarrow> trace \<Rightarrow> lw_log \<Rightarrow> (eth_status \<times> xaxiemacif \<times> trace \<times> lw_log) option" where
  "start_channels dev e t l =
     (case BdRingStart dev (tx_ring e) t of
        None \<Rightarrow> None
      | Some (status, r, t) \<Rightarrow>
          let e = set_tx_ring r e
          in if status \<noteq> XST_SUCCESS then Some (Xst XST_FAILURE, e, t, l)
             else case BdRingStart dev (rx_ring e) t of
                    None \<Rightarrow> None
                  | Some (status, r, t) \<Rightarrow>
                      let e = set_rx_ring r e
                      in if status \<noteq> XST_SUCCESS then Some (Xst XST_FAILURE, e, t, l)
                         else
                           let (status, t) = BdRingSetCoalesce dev (tx_ring e) 1 1 t
                           in if status \<noteq> XST_SUCCESS then Some (Xst XST_FAILURE, e, t, l)
                              else
                                let (status, t) = BdRingSetCoalesce dev (rx_ring e) 1 1 t
                                in if status \<noteq> XST_SUCCESS then Some (Xst XST_FAILURE, e, t, l)
                                   else Some (Lwip 0, e, t, connect_interrupts e l))"

text \<open>
  \<open>tmpl\<close> is the address of the local variable \<open>BdTemplate\<close>. The result of
  \<open>XAxiDma_CfgInitialize\<close> is ignored. \<open>None\<close> is an assertion that fails or a start of a channel
  that searches for ever.
\<close>

definition init_axi_dma ::
    "device \<Rightarrow> lwip \<Rightarrow> u32 \<Rightarrow> xaxiemacif \<Rightarrow> trace \<Rightarrow> lw_log
      \<Rightarrow> (eth_status \<times> xaxiemacif \<times> trace \<times> lw_log) option" where
  "init_axi_dma dev lw tmpl e t l =
     (let (_, d, t) = CfgInitialize dev (axidma e) (LookupConfig 0) t;
          e = e\<lparr>axidma := d\<rparr>
      in case alloc_bdspace lw XLWIP_CONFIG_N_RX_DESC l of
           (None, l) \<Rightarrow> None
         | (Some rx_space, l) \<Rightarrow>
             case alloc_bdspace lw XLWIP_CONFIG_N_TX_DESC l of
               (None, l) \<Rightarrow> None
             | (Some tx_space, l) \<Rightarrow>
                 let e = e\<lparr>rx_bdspace := rx_space, tx_bdspace := tx_space\<rparr>
                 in if rx_space = 0 \<or> tx_space = 0 then Some (Xst XST_FAILURE, e, t, l)
                    else
                      let t = BdClear tmpl t;
                          (status, r, t) = BdRingCreate (rx_ring e) rx_space rx_space BD_ALIGNMENT
                            XLWIP_CONFIG_N_RX_DESC t;
                          e = set_rx_ring r e
                      in if status \<noteq> XST_SUCCESS then Some (Xst XST_FAILURE, e, t, l)
                         else
                           let t = BdClear tmpl t;
                               (status, t) = BdRingClone dev (rx_ring e) tmpl t
                           in if status \<noteq> XST_SUCCESS then Some (Xst XST_FAILURE, e, t, l)
                              else
                                let (status, r, t) = BdRingCreate (tx_ring e) tx_space tx_space
                                      BD_ALIGNMENT XLWIP_CONFIG_N_TX_DESC t;
                                    e = set_tx_ring r e
                                in if status \<noteq> XST_SUCCESS then Some (Xst XST_FAILURE, e, t, l)
                                   else
                                     let (status, t) = BdRingClone dev (tx_ring e) tmpl t
                                     in if status \<noteq> XST_SUCCESS then Some (Lwip ERR_IF, e, t, l)
                                        else
                                          let t = BdRingIntEnable dev (tx_ring e) XAXIDMA_IRQ_ALL_MASK t;
                                              t = BdRingIntEnable dev (rx_ring e) XAXIDMA_IRQ_ALL_MASK t;
                                              (failed, r, t, l) = init_rx_loop dev lw (rx_ring e)
                                                (nat XLWIP_CONFIG_N_RX_DESC) t l;
                                              e = set_rx_ring r e
                                          in case failed of
                                               Some status \<Rightarrow> Some (status, e, t, l)
                                             | None \<Rightarrow> start_channels dev e t l)"

end
