(* ===== verification/Eth_Rings.thy ===== *)
theory Eth_Rings
  imports Eth_Adapter
begin

text \<open>
  What the adapter does to the descriptor rings: a descriptor left in preparation blocks its
  channel, the buffers named in the descriptors, and the rings after each operation.
\<close>

section \<open>Rings with the same descriptors\<close>

text \<open>Resetting an engine changes the run state and the restart address only.\<close>

definition same_groups :: "XAxiDma_BdRing \<Rightarrow> XAxiDma_BdRing \<Rightarrow> bool" where
  "same_groups r r' \<longleftrightarrow> (\<exists>n x. r' = r\<lparr>RunState := n, BdaRestart := x\<rparr>)"

lemma same_groups_refl [simp, intro]: "same_groups r r"
  unfolding same_groups_def by (intro exI [of _ "RunState r"] exI [of _ "BdaRestart r"]) simp

lemma walk_update [simp]:
  "walk (r\<lparr>RunState := n\<rparr>) a k = walk r a k" "walk (r\<lparr>BdaRestart := x\<rparr>) a k = walk r a k"
  by (induction k arbitrary: a) (simp_all add: BdRingNext_def)

lemma same_groups:
  assumes "same_groups r r'"
  shows "ring_inv r' = ring_inv r" "hw_group r' = hw_group r" "pre_group r' = pre_group r"
    "post_group r' = post_group r" "free_group r' = free_group r" "slot r' = slot r"
    "FreeCnt r' = FreeCnt r" "ChanBase r' = ChanBase r" "IsRxChannel r' = IsRxChannel r"
  using assms
  by (auto simp: same_groups_def hw_group_def pre_group_def post_group_def free_group_def)

lemma Reset_rings:
  assumes "Reset dev d t = (d', t')"
  shows "same_groups (TxBdRing d) (TxBdRing d')" "same_groups (RxBdRing d) (RxBdRing d')"
proof -
  show "same_groups (TxBdRing d) (TxBdRing d')"
    using assms unfolding same_groups_def
    by (intro exI [of _ "RunState (TxBdRing d')"] exI [of _ "BdaRestart (TxBdRing d')"])
      (auto simp: Reset_def BdRingSnapShotCurrBd_def machine Let_def split: if_splits)
  show "same_groups (RxBdRing d) (RxBdRing d')"
    using assms unfolding same_groups_def
    by (intro exI [of _ "RunState (RxBdRing d')"] exI [of _ "BdaRestart (RxBdRing d')"])
      (auto simp: Reset_def BdRingSnapShotCurrBd_def machine Let_def split: if_splits)
qed

section \<open>A descriptor left in preparation\<close>

lemma alloc_result:
  "BdRingAlloc r n = (st, p, r') \<Longrightarrow>
   st = XST_SUCCESS \<and> p = Some (FreeHead r) \<and> 0 < n \<and> n \<le> FreeCnt r \<or> st \<noteq> XST_SUCCESS \<and> p = None \<and> r' = r"
  by (auto simp: BdRingAlloc_def split: if_splits)

definition jammed :: "XAxiDma_BdRing \<Rightarrow> bool" where
  "jammed r \<longleftrightarrow> ring_inv r \<and> pre_group r \<noteq> []"

lemma alloc_taken:
  assumes "ring_inv r" and "BdRingAlloc r (int n) = (XST_SUCCESS, Some bd, r')"
  shows "ring_inv r' \<and> 0 < n \<and> n \<le> length (free_group r) \<and> bd = hd (free_group r) \<and>
    free_group r' = drop n (free_group r) \<and> pre_group r' = pre_group r @ take n (free_group r) \<and>
    hw_group r' = hw_group r \<and> post_group r' = post_group r \<and> slot r' = slot r"
proof -
  from assms(1) obtain i a b c d where s: "ring_shape r i a b c d" by (elim ring_invE)
  from alloc_shape [OF s assms(2)] have n: "0 < n" "n \<le> d" "slot r' = slot r" by simp_all
  have "bd = FreeHead r" using alloc_result [OF assms(2)] by simp
  moreover have "FreeHead r = hd (free_group r)"
    using s n(1,2) by (simp add: shape_groups [OF s] upt_conv_Cons) (simp add: ring_shape_def)
  ultimately show ?thesis
    using n alloc_groups [OF assms(1), of n r'] assms(2) by (auto simp: alloc_step_def)
qed

lemma pre_head:
  assumes "ring_inv r" and "pre_group r \<noteq> []"
  shows "PreHead r = hd (pre_group r)"
proof -
  from assms(1) obtain i a b c d where s: "ring_shape r i a b c d" by (elim ring_invE)
  with assms(2) have "0 < c" by (auto simp: shape_groups [OF s])
  with s show ?thesis by (simp add: shape_groups [OF s] upt_conv_Cons) (simp add: ring_shape_def)
qed

lemma jammed_alloc:
  assumes "jammed r" and "BdRingAlloc r (int n) = (XST_SUCCESS, Some bd, r')"
  shows "jammed r' \<and> BdRingToHw dev r' (int n) bd t = (XST_DMA_SG_LIST_ERROR, r', t)"
proof -
  note taken = alloc_taken [OF _ assms(2)]
  have inv: "ring_inv r" and pre: "pre_group r \<noteq> []" using assms(1) by (simp_all add: jammed_def)
  have "PreHead r' = hd (pre_group r)"
    using taken [OF inv] pre pre_head [of r'] by simp
  moreover have "hd (pre_group r) \<noteq> hd (free_group r)"
  proof -
    have "free_group r \<noteq> []" using taken [OF inv] by auto
    then have "hd (free_group r) \<in> set (free_group r)" by simp
    moreover have "hd (pre_group r) \<in> set (pre_group r)" using pre by simp
    ultimately show ?thesis using groups_partition [OF inv] by auto
  qed
  ultimately have "PreHead r' \<noteq> bd" using taken [OF inv] by simp
  moreover have "0 < n" using taken [OF inv] by simp
  ultimately show ?thesis
    using taken [OF inv] pre by (simp add: jammed_def BdRingToHw_def)
qed

text \<open>A jammed receive channel takes another descriptor out of the free group, and none to the engine.\<close>

lemma setup_rx_jammed:
  assumes "jammed r" and "setup_rx_bds dev lw r t l = (r', t', l')"
  shows "jammed r' \<and> hw_group r' = hw_group r \<and> post_group r' = post_group r"
proof (cases "nat (FreeCnt r)")
  case 0
  with assms show ?thesis by (auto simp: setup_rx_bds_def Let_def split: if_splits)
next
  case (Suc n)
  obtain st p r1 where al: "BdRingAlloc r 1 = (st, p, r1)" by (cases "BdRingAlloc r 1")
  have run: "setup_rx_loop dev lw r (Suc n) t l = (r', t', l')"
    using assms(2) Suc by (simp add: setup_rx_bds_def Let_def del: setup_rx_loop.simps split: if_splits)
  show ?thesis
  proof (cases "st = XST_SUCCESS")
    case False
    with al run alloc_result [OF al] have "r' = r" by (auto split: xst.splits)
    with assms(1) show ?thesis by simp
  next
    case True
    with alloc_result [OF al] al obtain bd where al': "BdRingAlloc r (int 1) = (XST_SUCCESS, Some bd, r1)"
      by auto
    have tohw: "BdRingToHw dev r1 1 bd t'' = (XST_DMA_SG_LIST_ERROR, r1, t'')" for t''
      using jammed_alloc [OF assms(1) al', of dev t''] by simp
    have "r' = r1"
      using run al' by (auto simp: Let_def tohw split: if_splits prod.splits)
    then show ?thesis
      using jammed_alloc [OF assms(1) al'] alloc_taken [OF _ al'] assms(1) by (auto simp: jammed_def)
  qed
qed

lemma setup_rx_inv:
  "setup_rx_loop dev lw r n t l = (r', t', l') \<Longrightarrow> ring_inv r \<Longrightarrow>
   ring_inv r' \<and> post_group r' = post_group r \<and> slot r' = slot r \<and> ChanBase r' = ChanBase r \<and>
   (\<exists>calls. l' = l @ calls \<and> (Pbuf_alloc 0 \<in> set calls \<longrightarrow> jammed r'))"
proof (induction n arbitrary: r t l)
  case 0
  then show ?case by simp
next
  case (Suc n)
  obtain st p r1 where al: "BdRingAlloc r 1 = (st, p, r1)" by (cases "BdRingAlloc r 1")
  show ?case
  proof (cases "st = XST_SUCCESS")
    case False
    with al Suc.prems alloc_result [OF al] show ?thesis by (auto split: xst.splits)
  next
    case True
    with alloc_result [OF al] al obtain bd where al': "BdRingAlloc r (int 1) = (XST_SUCCESS, Some bd, r1)"
      by auto
    note taken = alloc_taken [OF Suc.prems(2) al']
    have base: "ChanBase r1 = ChanBase r" using al by (auto simp: BdRingAlloc_def split: if_splits)
    have pre: "pre_group r1 \<noteq> []" using taken by (cases "free_group r") auto
    let ?p = "pbuf_alloc lw l" and ?l = "l @ [Pbuf_alloc (pbuf_alloc lw l)]"
    show ?thesis
    proof (cases "?p = 0")
      case True
      with Suc.prems al' have "r' = r1" "l' = ?l" by auto
      with taken pre base show ?thesis by (simp add: jammed_def)
    next
      case False
      then obtain t1 st2 r2 t2 where hw: "BdRingToHw dev r1 1 bd t1 = (st2, r2, t2)"
        and rest: "(if st2 \<noteq> XST_SUCCESS then (r2, t2, ?l) else setup_rx_loop dev lw r2 n t2 ?l) = (r', t', l')"
        using Suc.prems(1) al' by (auto simp: Let_def split: prod.splits)
      show ?thesis
      proof (cases "st2 = XST_SUCCESS")
        case ok: False
        with hw have "r2 = r1" using failed_tohw by blast
        with ok rest taken base False show ?thesis by auto
      next
        case ok: True
        then have "tohw_step r1 1 r2" using hw unfolding tohw_step_def by auto
        with taken have g: "ring_inv r2" "post_group r2 = post_group r"
          using tohw_groups [of r1 1 r2] by auto
        have geo: "slot r2 = slot r1" "ChanBase r2 = ChanBase r1"
          using tohw_result [OF hw [unfolded ok]] by auto
        from ok rest have "setup_rx_loop dev lw r2 n t2 ?l = (r', t', l')" by simp
        from Suc.IH [OF this g(1)] obtain calls where "ring_inv r'" "post_group r' = post_group r2"
          "slot r' = slot r2" "ChanBase r' = ChanBase r2" "l' = ?l @ calls"
          "Pbuf_alloc 0 \<in> set calls \<longrightarrow> jammed r'" by blast
        with g geo taken base False show ?thesis by auto
      qed
    qed
  qed
qed

section \<open>The words of a descriptor\<close>

text \<open>The latest value that the processor wrote to an address.\<close>

primrec last_write :: "trace \<Rightarrow> u32 \<Rightarrow> u32 option" where
  "last_write [] a = None"
| "last_write (e # t) a =
     (case last_write t a of
        Some v \<Rightarrow> Some v
      | None \<Rightarrow> (case e of Wr b v \<Rightarrow> if b = a then Some v else None | _ \<Rightarrow> None))"

lemma last_write_append:
  "last_write (s @ t) a = (case last_write t a of Some v \<Rightarrow> Some v | None \<Rightarrow> last_write s a)"
  by (induction s) (auto split: option.splits)

lemma last_write_snoc [simp]:
  "last_write (t @ [Wr b v]) a = (if b = a then Some v else last_write t a)"
  "last_write (t @ [Rd b v]) a = last_write t a"
  "last_write (t @ [Fls b]) a = last_write t a"
  "last_write (t @ [Inv b]) a = last_write t a"
  "last_write (t @ [Sync]) a = last_write t a"
  by (simp_all add: last_write_append)

lemma last_write_none: "(\<And>v. Wr a v \<notin> set t) \<Longrightarrow> last_write t a = None"
  by (induction t) (auto split: io_event.splits)

text \<open>
  Documented behaviour of the engine: it never writes the control word or the identifier of a
  descriptor, so that these words read as last written by the processor.
\<close>

definition plain_word :: "device \<Rightarrow> u32 \<Rightarrow> bool" where
  "plain_word dev a \<longleftrightarrow> (\<forall>t v. last_write t a = Some v \<longrightarrow> reg dev t a = v)"

lemma plain_wordD: "plain_word dev a \<Longrightarrow> last_write t a = Some v \<Longrightarrow> reg dev t a = v"
  by (simp add: plain_word_def)

text \<open>A part of a run that writes to the addresses of a set only.\<close>

definition only_writes :: "u32 set \<Rightarrow> trace \<Rightarrow> trace \<Rightarrow> bool" where
  "only_writes A t t' \<longleftrightarrow> (\<exists>ev. t' = t @ ev \<and> (\<forall>a v. Wr a v \<in> set ev \<longrightarrow> a \<in> A))"

named_theorems confined "logs with writes to known addresses only"

lemma only_writes_refl [confined, intro]: "only_writes A t t"
  by (auto simp: only_writes_def)

lemma only_writes_trans: "only_writes A t t' \<Longrightarrow> only_writes A t' t'' \<Longrightarrow> only_writes A t t''"
  by (fastforce simp: only_writes_def)

lemma only_writes_mono: "only_writes A t t' \<Longrightarrow> A \<subseteq> B \<Longrightarrow> only_writes B t t'"
  by (fastforce simp: only_writes_def)

lemma only_writes_append:
  "only_writes A t t' \<Longrightarrow> (\<And>a v. Wr a v \<in> set ev \<Longrightarrow> a \<in> A) \<Longrightarrow> only_writes A t (t' @ ev)"
  by (fastforce simp: only_writes_def)

lemma only_writes_last:
  assumes "only_writes A t t'" and "a \<notin> A"
  shows "last_write t' a = last_write t a"
proof -
  from assms obtain ev where "t' = t @ ev" "\<And>v. Wr a v \<notin> set ev" by (auto simp: only_writes_def)
  then show ?thesis by (simp add: last_write_append last_write_none)
qed

definition fields :: "XAxiDma_BdRing \<Rightarrow> u32 set \<Rightarrow> u32 set" where
  "fields r F = {slot r i + f | i f. f \<in> F}"

lemma fieldsI: "f \<in> F \<Longrightarrow> slot r i + f \<in> fields r F"
  by (auto simp: fields_def)

definition wide :: "XAxiDma_BdRing \<Rightarrow> bool" where
  "wide r \<longleftrightarrow> 64 \<le> uint (Separation r)"

text \<open>Two words of descriptors are the same only if descriptor and offset are.\<close>

lemma field_inject:
  assumes g: "ring_geometry r" and w: "wide r" and f: "uint f < 64" "uint f' < 64"
  shows "slot r i + f = slot r j + f' \<longleftrightarrow> slot r i = slot r j \<and> f = f'"
proof
  assume eq: "slot r i + f = slot r j + f'"
  let ?S = "uint (Separation r)" and ?F = "uint (FirstBdAddr r)"
  have u: "uint (slot r k + h) = ?F + ?S * int (k mod ring_size r) + uint h"
    if h: "uint h < 64" for k h
  proof -
    have "?F + ?S * int (k mod ring_size r) + ?S \<le> 2 ^ 32"
      using g slot_bound(2) [OF g, of "k mod ring_size r"] ring_size_pos [OF g]
      by (simp add: ring_geometry_def algebra_simps)
    then have "?F + ?S * int (k mod ring_size r) + uint h < 2 ^ 32"
      using w h by (simp add: wide_def)
    then show ?thesis
      using uint_slot [OF g, of k] by (subst uint_add_lem [THEN iffD1]) simp_all
  qed
  let ?k = "int (i mod ring_size r)" and ?j = "int (j mod ring_size r)"
  have sum: "?S * ?k + uint f = ?S * ?j + uint f'"
    using eq u [OF f(1), of i] u [OF f(2), of j] by simp
  have S: "64 \<le> ?S" using w by (simp add: wide_def)
  have "?k = (?S * ?k + uint f) div ?S" "?j = (?S * ?j + uint f') div ?S"
    using S f by simp_all
  with sum have "?k = ?j" by simp
  with sum have "slot r i = slot r j" "uint f = uint f'"
    by (auto simp: slot_def)
  then show "slot r i = slot r j \<and> f = f'" by (simp add: word_uint_eq_iff)
qed simp

text \<open>What each access to a descriptor may write.\<close>

lemma bd_access:
  "only_writes {bd + XAXIDMA_BD_BUFA_OFFSET} t (snd (BdSetBufAddr dev bd a t))"
  "only_writes {bd + XAXIDMA_BD_CTRL_LEN_OFFSET} t (snd (BdSetLength dev bd n t))"
  "only_writes {bd + XAXIDMA_BD_CTRL_LEN_OFFSET} t (BdSetCtrl dev bd c t)"
  "only_writes {bd + XAXIDMA_BD_ID_OFFSET} t (BdSetId bd p t)"
  "only_writes {} t (snd (BdGetSts dev bd t))"
  "only_writes {} t (snd (BdGetCtrl dev bd t))"
  "only_writes {} t (snd (BdGetLength dev bd t))"
  "only_writes {} t (snd (BdGetId dev bd t))"
  "only_writes {bd + off} t (BdWrite bd off v t)"
  by (auto simp: only_writes_def BdSetBufAddr_def BdSetLength_def BdSetCtrl_def BdSetId_def
      BdGetSts_def BdGetCtrl_def BdGetLength_def BdGetId_def machine Let_def)

text \<open>Handing descriptors to the engine writes their status words and the tail pointer.\<close>

definition tail_register :: "XAxiDma_BdRing \<Rightarrow> u32 set" where
  "tail_register r =
     (if RunState r = AXIDMA_CHANNEL_NOT_HALTED then {ChanBase r + XAXIDMA_TDESC_OFFSET} else {})"

lemma only_writes_read [confined]:
  "only_writes A t t' \<Longrightarrow> only_writes A t (t' @ [Rd b v])"
  "only_writes A t t' \<Longrightarrow> only_writes A t (t' @ [Fls b])"
  "only_writes A t t' \<Longrightarrow> only_writes A t (t' @ [Inv b])"
  "only_writes A t t' \<Longrightarrow> only_writes A t (t' @ [Sync])"
  "only_writes A t t' \<Longrightarrow> b \<in> A \<Longrightarrow> only_writes A t (t' @ [Wr b v])"
  by (auto intro: only_writes_append)

lemma only_writes_events:
  "(\<And>a v. Wr a v \<in> set ev \<Longrightarrow> a \<in> A) \<Longrightarrow> only_writes A t (t @ ev)"
  by (auto simp: only_writes_def)

lemma tohw_loop_writes:
  assumes "ring_geometry r" and "tohw_loop dev r k (slot r i) cr sts t = (res, t')"
  shows "only_writes (fields r {XAXIDMA_BD_STS_OFFSET}) t t'"
  using assms(2)
proof (induction k arbitrary: i cr sts t)
  case (Suc k)
  let ?f = "fields r {XAXIDMA_BD_STS_OFFSET}"
  obtain len t1 where l: "BdGetLength dev (slot r i) t = (len, t1)" by fastforce
  define t2 where "t2 = BdWrite (slot r i) XAXIDMA_BD_STS_OFFSET (sts AND NOT XAXIDMA_BD_STS_COMPLETE_MASK) t1 @ [Fls (slot r i)]"
  obtain cr1 t3 where c: "BdRead dev (slot r (Suc i)) XAXIDMA_BD_CTRL_LEN_OFFSET t2 = (cr1, t3)" by fastforce
  obtain sts1 t4 where s: "BdRead dev (slot r (Suc i)) XAXIDMA_BD_STS_OFFSET t3 = (sts1, t4)" by fastforce
  from l c s have start: "only_writes ?f t t1" "only_writes ?f t t4"
    by (auto simp: t2_def BdGetLength_def machine intro!: only_writes_events fieldsI)
  show ?case
  proof (cases "len = 0")
    case True
    with Suc.prems l start show ?thesis by simp
  next
    case False
    then have "tohw_loop dev r k (slot r (Suc i)) cr1 sts1 t4 = (res, t')"
      using Suc.prems l c [unfolded t2_def] s by (simp add: next_slot [OF assms(1)] Let_def)
    from only_writes_trans [OF start(2) Suc.IH [OF this]] show ?thesis .
  qed
qed (auto simp: only_writes_def)

lemma tohw_writes:
  assumes inv: "ring_inv r" and run: "BdRingToHw dev r n p t = (st, r', t')"
  shows "only_writes (fields r {XAXIDMA_BD_STS_OFFSET} \<union> tail_register r) t t'"
proof -
  from inv obtain i a b c d where s: "ring_shape r i a b c d" by (elim ring_invE)
  then have g: "ring_geometry r" and pre: "PreHead r = slot r (i + a + b)"
    by (simp_all add: ring_shape_def)
  let ?f = "fields r {XAXIDMA_BD_STS_OFFSET}" and ?A = "fields r {XAXIDMA_BD_STS_OFFSET} \<union> tail_register r"
  show ?thesis
  proof (cases "n \<le> 0 \<or> PreCnt r < n \<or> PreHead r \<noteq> p")
    case True
    with run show ?thesis by (auto simp: BdRingToHw_def split: if_splits)
  next
    case False
    then have n: "0 < n" "n \<le> PreCnt r" "p = PreHead r" by auto
    obtain cr t1 where c: "BdGetCtrl dev p t = (cr, t1)" by fastforce
    obtain sts t2 where q: "BdGetSts dev p t1 = (sts, t2)" by fastforce
    obtain res t3 where loop: "tohw_loop dev r (nat (n - 1)) p cr sts t2 = (res, t3)" by fastforce
    have w2: "only_writes ?f t t2"
      using c q by (auto simp: BdGetCtrl_def BdGetSts_def machine intro!: only_writes_events)
    have w3: "only_writes ?f t t3"
      using only_writes_trans [OF w2 tohw_loop_writes [OF g, of dev]] loop n(3) pre by simp
    have A: "only_writes ?A t t2" "only_writes ?A t t3"
      using w2 w3 by (auto elim: only_writes_mono)
    show ?thesis
    proof (cases res)
      case None
      with run n c q loop A show ?thesis by (auto simp: BdRingToHw_def split: if_splits)
    next
      case (Some x)
      obtain bd cr' sts' where x: "x = (bd, cr', sts')" by (cases x)
      have bd: "bd = slot r (i + a + b + nat (n - 1))"
        using loop Some x n(3) pre
        by (intro tohw_loop_last [OF g, where dev = dev and cr = cr and sts = sts and t = t2
          and cr' = cr' and sts' = sts' and t' = t3]) simp
      obtain len t4 where l: "BdGetLength dev bd t3 = (len, t4)" by fastforce
      have "only_writes ?A t t4"
        using A(2) l by (auto simp: BdGetLength_def machine intro: confined)
      moreover have "bd + XAXIDMA_BD_STS_OFFSET \<in> ?A" unfolding bd by (auto intro: fieldsI)
      moreover have "RunState r = AXIDMA_CHANNEL_NOT_HALTED \<Longrightarrow> ChanBase r + XAXIDMA_TDESC_OFFSET \<in> ?A"
        by (simp add: tail_register_def)
      ultimately show ?thesis
        using run n c q loop A Some x l
        by (auto simp: BdRingToHw_def Let_def machine VIRT_TO_PHYS_def split: if_splits intro!: only_writes_append [of _ _ t4])
    qed
  qed
qed

text \<open>Taking descriptors back writes nothing.\<close>

lemma fromhw_loop_writes: "fromhw_loop dev r n bd cnt part t = (res, t') \<Longrightarrow> only_writes {} t t'"
proof (induction n arbitrary: bd cnt part t)
  case (Suc n)
  obtain sts t1 where s: "BdRead dev bd XAXIDMA_BD_STS_OFFSET (t @ [Inv bd]) = (sts, t1)" by fastforce
  obtain cr t2 where c: "BdRead dev bd XAXIDMA_BD_CTRL_LEN_OFFSET t1 = (cr, t2)" by fastforce
  have "only_writes {} t t2" using s c by (auto simp: machine intro!: only_writes_events)
  then show ?case
    using Suc.prems s c by (auto simp: Let_def split: if_splits intro: only_writes_trans Suc.IH)
qed (auto simp: only_writes_def)

lemma fromhw_writes:
  assumes "BdRingFromHw dev r limit t = (n, p, r', t')"
  shows "only_writes {} t t'"
proof -
  obtain res t1 where "fromhw_loop dev r (nat (if HwCnt r < limit then HwCnt r else limit)) (HwHead r) 0 0 t = (res, t1)"
    by fastforce
  with assms fromhw_loop_writes [OF this] show ?thesis
    by (auto simp: BdRingFromHw_def Let_def split: if_splits prod.splits)
qed

section \<open>The buffers named in the descriptors\<close>

definition named :: "trace \<Rightarrow> u32 list \<Rightarrow> u32 option list" where
  "named t bds = map (\<lambda>bd. last_write t (bd + XAXIDMA_BD_ID_OFFSET)) bds"

definition keeps_ids :: "device \<Rightarrow> XAxiDma_BdRing \<Rightarrow> bool" where
  "keeps_ids dev r \<longleftrightarrow> (\<forall>i. plain_word dev (slot r i + XAXIDMA_BD_ID_OFFSET))"

lemma keeps_idsD: "keeps_ids dev r \<Longrightarrow> plain_word dev (slot r i + XAXIDMA_BD_ID_OFFSET)"
  by (simp add: keeps_ids_def)

lemma named_append [simp]: "named t (xs @ ys) = named t xs @ named t ys"
  by (simp add: named_def)

lemma named_kept:
  assumes "only_writes A t t'" and "\<And>i. slot r i + XAXIDMA_BD_ID_OFFSET \<notin> A" and "set bds \<subseteq> range (slot r)"
  shows "named t' bds = named t bds"
  using assms(2,3) only_writes_last [OF assms(1)] by (fastforce simp: named_def)

text \<open>Every group is a run of descriptors of the ring.\<close>

lemma group_slots:
  assumes "ring_inv r"
  shows "set (hw_group r) \<subseteq> range (slot r)" "set (pre_group r) \<subseteq> range (slot r)"
    "set (post_group r) \<subseteq> range (slot r)" "set (free_group r) \<subseteq> range (slot r)"
proof -
  have "set (post_group r @ hw_group r @ pre_group r @ free_group r) \<subseteq> range (slot r)"
    using groups_partition [OF assms] by (simp only: image_mono subset_UNIV)
  then show "set (hw_group r) \<subseteq> range (slot r)" "set (pre_group r) \<subseteq> range (slot r)"
    "set (post_group r) \<subseteq> range (slot r)" "set (free_group r) \<subseteq> range (slot r)"
    by simp_all
qed

text \<open>A buffer is freed for each descriptor that is handed in, in the order of the ring.\<close>

lemma free_sent_result:
  assumes "ring_geometry r" and "keeps_ids dev r" and "named t (map (slot r) [i..<i + n]) = map Some ids"
    and "free_sent dev r n (slot r i) t l = (t', l')"
  shows "l' = l @ map Pbuf_free ids \<and> only_writes {} t t'"
  using assms(3,4)
proof (induction n arbitrary: i t l ids)
  case 0
  then show ?case by (simp add: named_def only_writes_refl)
next
  case (Suc n)
  let ?a = "slot r i + XAXIDMA_BD_ID_OFFSET"
  have upt: "[i..<i + Suc n] = i # [Suc i..<Suc i + n]" by (simp add: upt_conv_Cons del: upt_Suc)
  obtain p ps where ids: "ids = p # ps" "last_write t ?a = Some p"
      "named t (map (slot r) [Suc i..<Suc i + n]) = map Some ps"
    using Suc.prems(1) unfolding upt by (cases ids) (simp_all add: named_def)
  have g: "BdGetId dev (slot r i) t = (p, t @ [Rd ?a p])"
    using plain_wordD [OF keeps_idsD [OF assms(2)] ids(2)] by (simp add: BdGetId_def machine)
  have "named (t @ [Rd ?a p]) (map (slot r) [Suc i..<Suc i + n]) = map Some ps"
    using ids(3) by (simp add: named_def)
  moreover have "free_sent dev r n (slot r (Suc i)) (t @ [Rd ?a p]) (l @ [Pbuf_free p]) = (t', l')"
    using Suc.prems(2) g by (simp add: next_slot [OF assms(1)])
  ultimately have ih: "l' = (l @ [Pbuf_free p]) @ map Pbuf_free ps \<and> only_writes {} (t @ [Rd ?a p]) t'"
    by (rule Suc.IH)
  have "only_writes {} t (t @ [Rd ?a p])" by (intro confined)
  with ih ids(1) show ?case by (auto intro: only_writes_trans)
qed

text \<open>Filling descriptors names the buffers of the chain and takes a reference of each.\<close>

abbreviation (input) tx_fields :: "u32 set" where
  "tx_fields \<equiv> {XAXIDMA_BD_BUFA_OFFSET, XAXIDMA_BD_CTRL_LEN_OFFSET, XAXIDMA_BD_ID_OFFSET}"

lemma fill_tx_result:
  assumes g: "ring_geometry r" and w: "wide r" and n: "length qs \<le> ring_size r"
    and run: "fill_tx dev lw r qs (slot r i) lst t l = (lst', t', l')"
  shows "l' = l @ map Pbuf_ref qs \<and> only_writes (fields r tx_fields) t t' \<and>
    (\<forall>j. (\<forall>k<length qs. slot r j \<noteq> slot r (i + k)) \<longrightarrow>
       last_write t' (slot r j + XAXIDMA_BD_ID_OFFSET) = last_write t (slot r j + XAXIDMA_BD_ID_OFFSET)) \<and>
    named t' (map (slot r) [i..<i + length qs]) = map Some qs \<and>
    lst' = (if qs = [] then lst else slot r (i + length qs - 1))"
  using n run
proof (induction qs arbitrary: i lst t l)
  case Nil
  then show ?case by (simp add: named_def only_writes_refl)
next
  case (Cons q qs)
  let ?bd = "slot r i"
  define t1 where "t1 = snd (BdSetBufAddr dev ?bd (pbuf_payload lw l q) t)"
  define len where "len = (if 1500 < (ucast (pbuf_len lw l q) :: u32) then 1500 else (ucast (pbuf_len lw l q) :: u32))"
  define t2 where "t2 = snd (BdSetLength dev ?bd len t1)"
  define t3 where "t3 = BdSetId ?bd q t2"
  define t4 where "t4 = BdSetCtrl dev ?bd 0 t3"
  define t5 where "t5 = t4 @ [Fls (pbuf_payload lw l q)]"
  have w1: "only_writes {?bd + XAXIDMA_BD_BUFA_OFFSET, ?bd + XAXIDMA_BD_CTRL_LEN_OFFSET} t t2"
    unfolding t2_def t1_def
    by (rule only_writes_trans [OF only_writes_mono [OF bd_access(1)] only_writes_mono [OF bd_access(2)]]) auto
  have w2: "only_writes {?bd + XAXIDMA_BD_CTRL_LEN_OFFSET} t3 t5"
    unfolding t5_def t4_def by (intro confined bd_access)
  have t3: "t3 = t2 @ [Wr (?bd + XAXIDMA_BD_ID_OFFSET) q]" by (simp add: t3_def BdSetId_def machine)
  have id5: "last_write t5 (slot r j + XAXIDMA_BD_ID_OFFSET) =
     (if slot r j = ?bd then Some q else last_write t (slot r j + XAXIDMA_BD_ID_OFFSET))" for j
  proof -
    have ne: "slot r j + XAXIDMA_BD_ID_OFFSET \<notin> {?bd + XAXIDMA_BD_BUFA_OFFSET, ?bd + XAXIDMA_BD_CTRL_LEN_OFFSET}"
      by (simp add: field_inject [OF g w])
    have "last_write t5 (slot r j + XAXIDMA_BD_ID_OFFSET) = last_write t3 (slot r j + XAXIDMA_BD_ID_OFFSET)"
      using only_writes_last [OF w2] ne by simp
    moreover have "last_write t2 (slot r j + XAXIDMA_BD_ID_OFFSET) = last_write t (slot r j + XAXIDMA_BD_ID_OFFSET)"
      using only_writes_last [OF w1] ne by simp
    ultimately show ?thesis by (simp add: t3)
  qed
  have here: "only_writes (fields r tx_fields) t t5"
  proof -
    have "only_writes (fields r tx_fields) t t3"
      unfolding t3 by (intro confined only_writes_mono [OF w1]) (auto intro: fieldsI)
    then show ?thesis
      by (rule only_writes_trans [OF _ only_writes_mono [OF w2]]) (auto intro: fieldsI)
  qed
  have "fill_tx dev lw r qs (slot r (Suc i)) ?bd t5 (l @ [Pbuf_ref q]) = (lst', t', l')"
    using Cons.prems(2) by (simp add: Let_def next_slot [OF g] t1_def t2_def t3_def t4_def t5_def len_def split del: if_split)
  moreover have "length qs \<le> ring_size r" using Cons.prems(1) by simp
  ultimately have ih: "l' = (l @ [Pbuf_ref q]) @ map Pbuf_ref qs" "only_writes (fields r tx_fields) t5 t'"
    "\<And>j. (\<forall>k<length qs. slot r j \<noteq> slot r (Suc i + k)) \<Longrightarrow>
       last_write t' (slot r j + XAXIDMA_BD_ID_OFFSET) = last_write t5 (slot r j + XAXIDMA_BD_ID_OFFSET)"
    "named t' (map (slot r) [Suc i..<Suc i + length qs]) = map Some qs"
    "lst' = (if qs = [] then ?bd else slot r (Suc i + length qs - 1))"
    using Cons.IH by blast+
  have far: "\<forall>k<length qs. ?bd \<noteq> slot r (Suc i + k)"
  proof (intro allI impI)
    fix k assume "k < length qs"
    with Cons.prems(1) show "?bd \<noteq> slot r (Suc i + k)"
      using mod_inj_window [of i i "ring_size r" "Suc i + k" "ring_size r"]
      by (auto simp: slot_inject [OF g])
  qed
  have upt: "[i..<i + length (q # qs)] = i # [Suc i..<Suc i + length qs]"
    by (simp add: upt_conv_Cons del: upt_Suc)
  have "named t' (map (slot r) [i..<i + length (q # qs)]) = map Some (q # qs)"
    unfolding upt using ih(3) [OF far] ih(4) id5 [of i] by (simp add: named_def)
  moreover have "last_write t' (slot r j + XAXIDMA_BD_ID_OFFSET) = last_write t (slot r j + XAXIDMA_BD_ID_OFFSET)"
    if out: "\<forall>k<length (q # qs). slot r j \<noteq> slot r (i + k)" for j
  proof -
    from out have "slot r j \<noteq> ?bd" by force
    moreover from out have "\<forall>k<length qs. slot r j \<noteq> slot r (Suc i + k)"
      by (metis Suc_less_eq add_Suc_right add_Suc length_Cons)
    ultimately show ?thesis using ih(3) id5 [of j] by simp
  qed
  ultimately show ?case using ih(1,2,5) here by (auto intro: only_writes_trans)
qed

section \<open>Sending and collecting\<close>

text \<open>What no operation on a running ring changes.\<close>

definition same_place :: "XAxiDma_BdRing \<Rightarrow> XAxiDma_BdRing \<Rightarrow> bool" where
  "same_place r r' \<longleftrightarrow> slot r' = slot r \<and> Separation r' = Separation r \<and> AllCnt r' = AllCnt r \<and>
     ChanBase r' = ChanBase r \<and> IsRxChannel r' = IsRxChannel r \<and> RunState r' = RunState r"

named_theorems placed "operations that keep a ring where it is"

lemma same_place_refl [placed]: "same_place r r"
  by (simp add: same_place_def)

lemma same_place_trans: "same_place r r' \<Longrightarrow> same_place r' r'' \<Longrightarrow> same_place r r''"
  by (simp add: same_place_def)

lemma same_place_alloc [placed]: "BdRingAlloc r n = (st, p, r') \<Longrightarrow> same_place r r'"
  by (auto simp: BdRingAlloc_def same_place_def split: if_splits)

lemma same_place_tohw [placed]: "BdRingToHw dev r n p t = (st, r', t') \<Longrightarrow> same_place r r'"
  by (auto simp: BdRingToHw_def same_place_def Let_def split: if_splits prod.splits option.splits)

lemma same_place_fromhw [placed]: "BdRingFromHw dev r limit t = (n, p, r', t') \<Longrightarrow> same_place r r'"
  by (auto simp: BdRingFromHw_def same_place_def Let_def split: if_splits prod.splits)

lemma same_place_free [placed]: "BdRingFree r n p = (st, r') \<Longrightarrow> same_place r r'"
  by (auto simp: BdRingFree_def same_place_def split: if_splits)

lemma same_place_wide: "same_place r r' \<Longrightarrow> wide r' = wide r"
  and same_place_keeps: "same_place r r' \<Longrightarrow> keeps_ids dev r' = keeps_ids dev r"
  and same_place_fields: "same_place r r' \<Longrightarrow> fields r' F = fields r F"
  and same_place_tail: "same_place r r' \<Longrightarrow> tail_register r' = tail_register r"
  by (simp_all add: same_place_def wide_def keeps_ids_def fields_def tail_register_def)

text \<open>
  Collecting takes \<open>n\<close> descriptors from the front of the hardware's and, when the completed
  group was empty, frees exactly these.
\<close>

lemma collect:
  assumes inv: "ring_inv r" and post: "post_group r = []"
    and run: "BdRingFromHw dev r limit t = (n, p, r1, t1)"
  shows "0 \<le> n \<and> nat n \<le> length (hw_group r) \<and>
    (\<exists>i. take (nat n) (hw_group r) = map (slot r) [i..<i + nat n] \<and> (n \<noteq> 0 \<longrightarrow> p = slot r i)) \<and>
    (\<exists>r'. BdRingFree r1 n p = (XST_SUCCESS, r') \<and> ring_inv r' \<and> post_group r' = [] \<and>
       hw_group r' = drop (nat n) (hw_group r) \<and> pre_group r' = pre_group r \<and>
       free_group r' = free_group r @ take (nat n) (hw_group r) \<and> same_place r r')"
proof -
  have n: "0 \<le> n" using fromhw_count_nonneg [OF run] .
  have step: "fromhw_step r (nat n) r1"
    using run n unfolding fromhw_step_def by (intro exI) simp
  note g1 = fromhw_groups [OF inv step]
  from inv obtain i a b c d where s: "ring_shape r i a b c d" by (elim ring_invE)
  then have a: "a = 0" using post by (auto simp: shape_groups [OF s])
  from g1 have le: "nat n \<le> b" by (simp add: shape_groups [OF s])
  have run': "BdRingFromHw dev r limit t = (int (nat n), p, r1, t1)" using run n by simp
  have p: "n \<noteq> 0 \<Longrightarrow> p = slot r i"
    using run s a by (auto simp: BdRingFromHw_def ring_shape_def Let_def split: if_splits prod.splits)
  have "PostCnt r1 = n" "PostHead r1 = slot r i"
    using fromhw_shape [OF s run'] a n by (simp_all add: ring_shape_def)
  with p n have free: "\<exists>r'. BdRingFree r1 n p = (XST_SUCCESS, r')"
    by (auto simp: BdRingFree_def)
  then obtain r' where r': "BdRingFree r1 n p = (XST_SUCCESS, r')" by blast
  with n have "free_step r1 (nat n) r'" by (auto simp: free_step_def)
  note g2 = free_groups [OF conjunct1 [OF g1] this]
  have "take (nat n) (hw_group r) = map (slot r) [i..<i + nat n]"
    using le a by (simp add: shape_groups [OF s] take_map)
  moreover have "same_place r r'"
    using same_place_trans same_place_fromhw [OF run] same_place_free [OF r'] by blast
  ultimately show ?thesis
    using n g1 g2 post p r' by auto
qed

definition tx_holds :: "XAxiDma_BdRing \<Rightarrow> trace \<Rightarrow> u32 list \<Rightarrow> bool" where
  "tx_holds r t ids \<longleftrightarrow> ring_inv r \<and> post_group r = [] \<and> named t (hw_group r @ pre_group r) = map Some ids"

lemma inv_geometry: "ring_inv r \<Longrightarrow> ring_geometry r"
  by (auto simp: ring_shape_def elim: ring_invE)

lemma process_sent_result:
  assumes holds: "tx_holds r t ids" and mem: "keeps_ids dev r"
    and run: "process_sent_bds dev r t l = (st, r', t', l')"
  shows "\<exists>k. l' = l @ map Pbuf_free (take k ids) \<and> tx_holds r' t' (drop k ids) \<and>
    only_writes {} t t' \<and> same_place r r' \<and> free_group r' = free_group r @ take k (hw_group r)"
proof -
  obtain n p r1 t1 where f: "BdRingFromHw dev r XAXIDMA_ALL_BDS t = (n, p, r1, t1)"
    by (metis surj_pair)
  have inv: "ring_inv r" "post_group r = []" and ids: "named t (hw_group r @ pre_group r) = map Some ids"
    using holds by (simp_all add: tx_holds_def)
  from collect [OF inv f] obtain i r2 where n: "0 \<le> n" "nat n \<le> length (hw_group r)"
    and seg: "take (nat n) (hw_group r) = map (slot r) [i..<i + nat n]" "n \<noteq> 0 \<Longrightarrow> p = slot r i"
    and r2: "BdRingFree r1 n p = (XST_SUCCESS, r2)" "ring_inv r2" "post_group r2 = []"
      "hw_group r2 = drop (nat n) (hw_group r)" "pre_group r2 = pre_group r"
      "free_group r2 = free_group r @ take (nat n) (hw_group r)" "same_place r r2"
    by blast
  have w1: "only_writes {} t t1" using fromhw_writes [OF f] .
  have p1: "same_place r r1" using same_place_fromhw [OF f] .
  have same: "named t'' bds = named t bds" if "only_writes {} t t''" for t'' bds
    using only_writes_last [OF that] by (simp add: named_def)
  show ?thesis
  proof (cases "n = 0")
    case True
    with run f have "r' = r1" "t' = t1" "l' = l" by (simp_all add: process_sent_bds_def)
    moreover have "r1 = r" using f True by (auto simp: BdRingFromHw_def Let_def split: if_splits prod.splits)
    ultimately show ?thesis
      using holds w1 same [OF w1] by (intro exI [of _ 0]) (simp add: tx_holds_def placed)
  next
    case False
    obtain t2 l2 where loop: "free_sent dev r1 (nat n) p t1 l = (t2, l2)" by fastforce
    have eq: "r' = r2" "t' = t2" "l' = l2"
      using run f False loop r2(1) by (simp_all add: process_sent_bds_def)
    have split: "named t (take (nat n) (hw_group r)) = map Some (take (nat n) ids)"
      "named t (drop (nat n) (hw_group r) @ pre_group r) = map Some (drop (nat n) ids)"
      using arg_cong [OF ids, of "take (nat n)"] arg_cong [OF ids, of "drop (nat n)"] n(2)
      by (simp_all add: named_def take_map drop_map)
    have "ring_geometry r1" using inv_geometry p1 fromhw_groups [OF inv(1)] f n(1)
      unfolding fromhw_step_def by (metis nat_eq_iff2)
    moreover have "slot r1 = slot r" using p1 by (simp add: same_place_def)
    moreover have "keeps_ids dev r1" using mem same_place_keeps [OF p1] by simp
    ultimately have "l2 = l @ map Pbuf_free (take (nat n) ids) \<and> only_writes {} t1 t2"
      using free_sent_result [of r1 dev t1 i "nat n" "take (nat n) ids" l t2 l2]
        loop seg False split(1) same [OF w1] by simp
    moreover from this have "only_writes {} t t2" using w1 by (auto intro: only_writes_trans)
    ultimately show ?thesis
      using r2 split(2) same [of t2] by (intro exI [of _ "nat n"]) (simp add: eq tx_holds_def)
  qed
qed

lemma tohw_queue:
  assumes inv: "ring_inv r" and n: "0 \<le> n" and run: "BdRingToHw dev r n p t = (st, r', t')"
  shows "ring_inv r' \<and> post_group r' = post_group r \<and> free_group r' = free_group r \<and>
    hw_group r' @ pre_group r' = hw_group r @ pre_group r"
proof (cases "st = XST_SUCCESS")
  case True
  with run n have "tohw_step r (nat n) r'" unfolding tohw_step_def by (intro exI) simp
  from tohw_groups [OF inv this] show ?thesis by simp
next
  case False
  with run failed_tohw have "r' = r" by blast
  with inv show ?thesis by simp
qed

lemma sgsend_result:
  assumes holds: "tx_holds r t ids" and w: "wide r"
    and apart: "\<And>i. slot r i + XAXIDMA_BD_ID_OFFSET \<notin> tail_register r"
    and run: "axidma_sgsend dev lw r p t l = (st, r', t', l')"
  shows "\<exists>new. (new = p \<or> new = []) \<and> l' = l @ map Pbuf_ref new \<and> tx_holds r' t' (ids @ new) \<and>
    only_writes (fields r (insert XAXIDMA_BD_STS_OFFSET tx_fields) \<union> tail_register r) t t' \<and> same_place r r'"
proof -
  have inv: "ring_inv r" and post: "post_group r = []"
    and ids: "named t (hw_group r @ pre_group r) = map Some ids"
    using holds by (simp_all add: tx_holds_def)
  let ?A = "fields r (insert XAXIDMA_BD_STS_OFFSET tx_fields) \<union> tail_register r"
  let ?n = "length p"
  obtain st1 bdo r1 where al: "BdRingAlloc r (int ?n) = (st1, bdo, r1)" by (cases "BdRingAlloc r (int ?n)")
  show ?thesis
  proof (cases "st1 = XST_SUCCESS")
    case False
    with alloc_result [OF al] have "bdo = None" "r1 = r" by auto
    with False run al have "r' = r" "t' = t" "l' = l"
      by (cases st1; simp add: axidma_sgsend_def Let_def)+
    with holds show ?thesis by (intro exI [of _ "[]"]) (simp add: placed only_writes_refl)
  next
    case True
    with alloc_result [OF al] al obtain bd where al': "BdRingAlloc r (int ?n) = (XST_SUCCESS, Some bd, r1)"
      by auto
    note taken = alloc_taken [OF inv al']
    have p1: "same_place r r1" using same_place_alloc [OF al'] .
    from inv obtain i0 a b c d where s: "ring_shape r i0 a b c d" by (elim ring_invE)
    define i where "i = i0 + a + b + c"
    have free: "free_group r = map (slot r) [i..<i + d]" by (simp add: shape_groups [OF s] i_def)
    have d: "0 < ?n" "?n \<le> d" using taken by (simp_all add: free)
    then have "0 < d" by linarith
    then have bd: "bd = slot r i" using taken by (simp add: free upt_conv_Cons)
    have set: "take ?n (free_group r) = map (slot r) [i..<i + ?n]"
      using d by (simp add: free take_map)
    have g1: "ring_geometry r1" using taken inv_geometry by blast
    have sl: "slot r1 = slot r" using p1 by (simp add: same_place_def)
    have size: "?n \<le> ring_size r1"
      using d s p1 by (simp add: ring_shape_def same_place_def ring_size_def)
    obtain lst t1 l1 where fill: "fill_tx dev lw r1 p bd 0 t l = (lst, t1, l1)" by (metis surj_pair)
    note f = fill_tx_result [OF g1 _ size fill [unfolded bd sl [symmetric]]]
    have w1: "wide r1" using w same_place_wide [OF p1] by simp
    have f1: "l1 = l @ map Pbuf_ref p" "only_writes (fields r tx_fields) t t1"
      "named t1 (map (slot r) [i..<i + ?n]) = map Some p" "lst = slot r (i + ?n - 1)"
      and keep: "\<And>j. (\<forall>k<?n. slot r j \<noteq> slot r (i + k)) \<Longrightarrow>
        last_write t1 (slot r j + XAXIDMA_BD_ID_OFFSET) = last_write t (slot r j + XAXIDMA_BD_ID_OFFSET)"
      using f [OF w1] d same_place_fields [OF p1] by (auto simp: sl)
    have ctrl: "only_writes (fields r {XAXIDMA_BD_CTRL_LEN_OFFSET}) s (BdSetCtrl dev (slot r j) x s)" for j x s
      by (rule only_writes_mono [OF bd_access(3)]) (auto intro: fieldsI)
    define t2 where "t2 = (if int ?n = 1
                      then BdSetCtrl dev bd (XAXIDMA_BD_CTRL_TXSOF_MASK OR XAXIDMA_BD_CTRL_TXEOF_MASK) t1
                      else BdSetCtrl dev lst XAXIDMA_BD_CTRL_TXEOF_MASK
                             (BdSetCtrl dev bd XAXIDMA_BD_CTRL_TXSOF_MASK t1))"
    have w2: "only_writes (fields r {XAXIDMA_BD_CTRL_LEN_OFFSET}) t1 t2"
      using ctrl only_writes_trans [OF ctrl ctrl] unfolding t2_def bd f1(4) by simp
    obtain st3 r3 t3 where hw: "BdRingToHw dev r1 (int ?n) bd t2 = (st3, r3, t3)" by (metis surj_pair)
    have eq: "r' = r3" "t' = t3" "l' = l1"
      using run al' fill hw by (auto simp: axidma_sgsend_def t2_def Let_def)
    have w3: "only_writes (fields r {XAXIDMA_BD_STS_OFFSET} \<union> tail_register r) t2 t3"
      using tohw_writes [OF _ hw] taken same_place_fields [OF p1] same_place_tail [OF p1] by simp
    have q: "ring_inv r3" "post_group r3 = []" "hw_group r3 @ pre_group r3 = hw_group r1 @ pre_group r1"
      using tohw_queue [OF _ _ hw] taken post by simp_all
    have g: "ring_geometry r" using inv_geometry [OF inv] .
    have idw: "slot r i + XAXIDMA_BD_ID_OFFSET \<notin> fields r {XAXIDMA_BD_STS_OFFSET} \<union> tail_register r"
      "slot r i + XAXIDMA_BD_ID_OFFSET \<notin> fields r {XAXIDMA_BD_CTRL_LEN_OFFSET}" for i
      using apart by (auto simp: fields_def field_inject [OF g w])
    have slots: "set (hw_group r1 @ pre_group r1) \<subseteq> range (slot r)"
      using group_slots [of r1] taken by (simp add: sl)
    have "named t3 (hw_group r1 @ pre_group r1) = named t2 (hw_group r1 @ pre_group r1)"
      by (rule named_kept [OF w3 idw(1) slots])
    also have "\<dots> = named t1 (hw_group r1 @ pre_group r1)"
      by (rule named_kept [OF w2 idw(2) slots])
    also have "\<dots> = named t1 (hw_group r @ pre_group r) @ map Some p"
      using taken set f1(3) by simp
    also have "named t1 (hw_group r @ pre_group r) = named t (hw_group r @ pre_group r)"
    proof -
      have "last_write t1 (x + XAXIDMA_BD_ID_OFFSET) = last_write t (x + XAXIDMA_BD_ID_OFFSET)"
        if x: "x \<in> set (hw_group r @ pre_group r)" for x
      proof -
        from x obtain j where j: "x = slot r j" using group_slots [OF inv] by auto
        have "slot r j \<noteq> slot r (i + k)" if "k < ?n" for k
        proof -
          have "slot r (i + k) \<in> set (free_group r)" using that d by (simp add: free)
          with x j groups_partition [OF inv] show ?thesis by auto
        qed
        with j keep show ?thesis by simp
      qed
      then show ?thesis by (simp add: named_def)
    qed
    finally have "named t3 (hw_group r3 @ pre_group r3) = map Some (ids @ p)"
      using ids q(3) by simp
    moreover have "only_writes ?A t t3"
      by (rule only_writes_trans [OF only_writes_mono [OF f1(2)]
            only_writes_trans [OF only_writes_mono [OF w2] only_writes_mono [OF w3]]])
        (auto simp: fields_def)
    moreover have "same_place r r3" using same_place_trans [OF p1 same_place_tohw [OF hw]] .
    ultimately show ?thesis
      using q f1(1) by (intro exI [of _ p]) (simp add: eq tx_holds_def)
  qed
qed

end
