(* ===== verification/Eth_Runs.thy ===== *)
theory Eth_Runs
  imports Eth_Rings
begin

text \<open>
  Runs of the adapter: any sequence of frames to send, interrupts of both channels and frames
  taken by lwIP, interleaved with what the rest of the program does.
\<close>

section \<open>Events\<close>

datatype eth_event =
    Output "u32 list"             \<comment> \<open>\<open>low_level_output\<close> of a chain of buffers\<close>
  | Tx_interrupt
  | Rx_interrupt
  | Input                         \<comment> \<open>\<open>xaxiemacif_input\<close>\<close>
  | Elsewhere trace lw_log        \<comment> \<open>accesses and calls of other parts of the program\<close>

type_synonym eth_state = "xaxiemacif \<times> trace \<times> lw_log"

fun handle_eth :: "device \<Rightarrow> lwip \<Rightarrow> eth_event \<Rightarrow> eth_state \<Rightarrow> eth_state" where
  "handle_eth dev lw (Output p) (e, t, l) = snd (low_level_output dev lw e p t l)"
| "handle_eth dev lw Tx_interrupt (e, t, l) = axidma_send_handler dev e t l"
| "handle_eth dev lw Rx_interrupt (e, t, l) = axidma_recv_handler dev lw e t l"
| "handle_eth dev lw Input (e, t, l) = (let (_, e, l) = xaxiemacif_input dev lw e t l in (e, t, l))"
| "handle_eth dev lw (Elsewhere ev calls) (e, t, l) = (e, t @ ev, l @ calls)"

fun eth_run :: "device \<Rightarrow> lwip \<Rightarrow> eth_event list \<Rightarrow> eth_state \<Rightarrow> eth_state" where
  "eth_run dev lw [] s = s"
| "eth_run dev lw (ev # evs) s = eth_run dev lw evs (handle_eth dev lw ev s)"

lemma eth_run_append: "eth_run dev lw (xs @ ys) s = eth_run dev lw ys (eth_run dev lw xs s)"
  by (induction xs arbitrary: s) simp_all

section \<open>What every event keeps\<close>

definition located :: "XAxiDma_BdRing \<Rightarrow> XAxiDma_BdRing \<Rightarrow> bool" where
  "located r r' \<longleftrightarrow> slot r' = slot r \<and> Separation r' = Separation r \<and> ChanBase r' = ChanBase r"

lemma located_refl: "located r r"
  and located_trans: "located r r' \<Longrightarrow> located r' r'' \<Longrightarrow> located r r''"
  and same_place_located: "same_place r r' \<Longrightarrow> located r r'"
  by (simp_all add: located_def same_place_def)

lemma same_groups_located: "same_groups r r' \<Longrightarrow> located r r'"
  by (auto simp: same_groups_def located_def)

definition settled :: "xaxiemacif \<Rightarrow> xaxiemacif \<Rightarrow> bool" where
  "settled e e' \<longleftrightarrow> located (tx_ring e) (tx_ring e') \<and> located (rx_ring e) (rx_ring e') \<and>
     RegBase (axidma e') = RegBase (axidma e) \<and> intc_baseaddr e' = intc_baseaddr e"

lemma settled_refl: "settled e e"
  and settled_trans: "settled e e' \<Longrightarrow> settled e' e'' \<Longrightarrow> settled e e''"
  using located_trans by (auto simp: settled_def located_refl)

text \<open>The registers that the handlers write.\<close>

definition eth_registers :: "xaxiemacif \<Rightarrow> u32 set" where
  "eth_registers e =
     {ChanBase (tx_ring e) + XAXIDMA_CR_OFFSET, ChanBase (tx_ring e) + XAXIDMA_SR_OFFSET,
      ChanBase (rx_ring e) + XAXIDMA_CR_OFFSET, ChanBase (rx_ring e) + XAXIDMA_SR_OFFSET,
      intc_baseaddr e + XIN_IAR_OFFSET,
      RegBase (axidma e) + XAXIDMA_TX_OFFSET, RegBase (axidma e) + XAXIDMA_RX_OFFSET}"

abbreviation (input) bd_fields :: "u32 set" where
  "bd_fields \<equiv> insert XAXIDMA_BD_STS_OFFSET tx_fields"

lemma settled_sets:
  assumes "settled e e'"
  shows "eth_registers e' = eth_registers e" "fields (tx_ring e') F = fields (tx_ring e) F"
    "fields (rx_ring e') F = fields (rx_ring e) F"
  using assms by (simp_all add: settled_def located_def eth_registers_def fields_def)

lemma Reset_writes:
  assumes "Reset dev (axidma e) t = (d', t')"
  shows "only_writes (eth_registers e) t t'" "settled e (e\<lparr>axidma := d'\<rparr>)"
proof -
  show "only_writes (eth_registers e) t t'"
    using assms
    by (auto simp: Reset_def BdRingSnapShotCurrBd_def machine Let_def eth_registers_def
        split: if_splits intro!: only_writes_events)
  have "RegBase d' = RegBase (axidma e)"
    using assms by (auto simp: Reset_def BdRingSnapShotCurrBd_def machine Let_def split: if_splits)
  with Reset_rings [OF assms] show "settled e (e\<lparr>axidma := d'\<rparr>)"
    by (simp add: settled_def same_groups_located)
qed

lemma irq_access:
  "only_writes {} t (snd (BdRingGetIrq dev r t))"
  "only_writes {ChanBase r + XAXIDMA_SR_OFFSET} t (BdRingAckIrq r msk t)"
  "only_writes {ChanBase r + XAXIDMA_CR_OFFSET} t (BdRingIntEnable dev r msk t)"
  "only_writes {ChanBase r + XAXIDMA_CR_OFFSET} t (BdRingIntDisable dev r msk t)"
  "only_writes {base + XIN_IAR_OFFSET} t (XIntc_AckIntr base msk t)"
  by (auto simp: BdRingGetIrq_def BdRingAckIrq_def BdRingIntEnable_def BdRingIntDisable_def
      XIntc_AckIntr_def cr_set_def cr_clear_def machine intro!: only_writes_events)

section \<open>The receive channel\<close>

text \<open>The part of \<open>_setup_rx_bds\<close> and of \<open>init_axi_dma\<close> that fills one descriptor.\<close>

lemma rx_bd_writes:
  "only_writes {bd + XAXIDMA_BD_BUFA_OFFSET, bd + XAXIDMA_BD_CTRL_LEN_OFFSET, bd + XAXIDMA_BD_ID_OFFSET}
     t (BdSetId bd p (BdSetCtrl dev bd c (snd (BdSetLength dev bd n t))) @ [Fls p, Fls bd])"
  by (auto simp: only_writes_def BdSetLength_def BdSetCtrl_def BdSetId_def machine Let_def)

lemma setup_rx_writes:
  "setup_rx_loop dev lw r n t l = (r', t', l') \<Longrightarrow> ring_inv r \<Longrightarrow>
   only_writes (fields r bd_fields \<union> tail_register r) t t' \<and> same_place r r'"
proof (induction n arbitrary: r t l)
  case 0
  then show ?case by (simp add: placed only_writes_refl)
next
  case (Suc n)
  let ?A = "fields r bd_fields \<union> tail_register r"
  obtain st p r1 where al: "BdRingAlloc r 1 = (st, p, r1)" by (cases "BdRingAlloc r 1")
  show ?case
  proof (cases "st = XST_SUCCESS")
    case False
    with al Suc.prems alloc_result [OF al] show ?thesis by (auto simp: placed split: xst.splits)
  next
    case True
    with alloc_result [OF al] al obtain bd where al': "BdRingAlloc r (int 1) = (XST_SUCCESS, Some bd, r1)"
      by auto
    note taken = alloc_taken [OF Suc.prems(2) al']
    have p1: "same_place r r1" using same_place_alloc [OF al'] .
    have "bd \<in> set (free_group r)" using taken by (cases "free_group r") auto
    then obtain i where bd: "bd = slot r i" using group_slots [OF Suc.prems(2)] by auto
    let ?p = "pbuf_alloc lw l" and ?l = "l @ [Pbuf_alloc (pbuf_alloc lw l)]"
    show ?thesis
    proof (cases "?p = 0")
      case True
      with Suc.prems al' p1 show ?thesis by (auto intro: confined)
    next
      case False
      define t1 where "t1 = snd (BdSetBufAddr dev bd (pbuf_payload lw ?l ?p) t)"
      obtain sts t2 where sts: "BdGetSts dev bd t1 = (sts, t2)" by fastforce
      define t3 where "t3 = BdWrite bd XAXIDMA_BD_STS_OFFSET (sts AND XAXIDMA_BD_STS_COMPLETE_MASK) t2"
      define t4 where "t4 = BdSetId bd ?p (BdSetCtrl dev bd 0
        (snd (BdSetLength dev bd (ucast (pbuf_len lw ?l ?p)) t3))) @ [Fls ?p, Fls bd]"
      obtain st2 r2 t5 where hw: "BdRingToHw dev r1 1 bd t4 = (st2, r2, t5)" by (metis surj_pair)
      have rest: "(if st2 \<noteq> XST_SUCCESS then (r2, t5, ?l) else setup_rx_loop dev lw r2 n t5 ?l) = (r', t', l')"
        using Suc.prems(1) al' False sts hw by (simp add: Let_def t1_def t3_def t4_def)
      have in_A: "bd + f \<in> ?A" if "f \<in> bd_fields" for f
        using that unfolding bd by (auto intro: fieldsI)
      have "only_writes ?A t t1"
        unfolding t1_def using in_A by (intro only_writes_mono [OF bd_access(1)]) auto
      moreover have "only_writes ?A t1 t2"
        using bd_access(5) [of t1 dev bd] sts by (auto intro: only_writes_mono)
      moreover have "only_writes ?A t2 t3"
        unfolding t3_def using in_A by (intro only_writes_mono [OF bd_access(9)]) auto
      moreover have "only_writes ?A t3 t4"
        unfolding t4_def using in_A by (intro only_writes_mono [OF rx_bd_writes]) auto
      moreover have "only_writes ?A t4 t5"
        using tohw_writes [OF _ hw] taken p1
        by (auto simp: same_place_fields same_place_tail fields_def elim!: only_writes_mono)
      ultimately have w5: "only_writes ?A t t5" by (meson only_writes_trans)
      have p2: "same_place r r2" using same_place_trans [OF p1 same_place_tohw [OF hw]] .
      show ?thesis
      proof (cases "st2 = XST_SUCCESS")
        case False
        with rest w5 p2 show ?thesis by auto
      next
        case True
        have "ring_inv r2" using tohw_queue [OF _ _ hw] taken by simp
        with True rest Suc.IH [of r2 t5 ?l]
        have "only_writes (fields r2 bd_fields \<union> tail_register r2) t5 t' \<and> same_place r2 r'" by simp
        with w5 p2 show ?thesis
          by (auto simp: same_place_fields same_place_tail intro: only_writes_trans same_place_trans)
      qed
    qed
  qed
qed

lemma recv_loop_writes:
  "recv_loop dev lw r n bd q t l = (q', t', l') \<Longrightarrow> only_writes {} t t'"
proof (induction n arbitrary: bd q t l)
  case (Suc n)
  obtain p t1 where g: "BdGetId dev bd t = (p, t1)" by fastforce
  obtain len t2 where e: "extract_packet_len dev bd t1 = (len, t2)" by fastforce
  define t3 where "t3 = t2 @ [Inv (pbuf_payload lw (l @ [Pbuf_realloc p len]) p)]"
  have "only_writes {} t t3"
    using g e by (auto simp: t3_def BdGetId_def extract_packet_len_def machine intro!: only_writes_events)
  moreover have "\<exists>q1 l1. recv_loop dev lw r n (BdRingNext r bd) q1 t3 l1 = (q', t', l')"
    using Suc.prems g e by (auto simp: Let_def t3_def split: prod.splits)
  then have "only_writes {} t3 t'" using Suc.IH by blast
  ultimately show ?case by (rule only_writes_trans)
qed (auto simp: only_writes_def)

lemma recv_loop_calls:
  "recv_loop dev lw r n bd q t l = (q', t', l') \<Longrightarrow> \<exists>calls. l' = l @ calls \<and> Pbuf_alloc 0 \<notin> set calls"
proof (induction n arbitrary: bd q t l)
  case (Suc n)
  obtain p t1 where g: "BdGetId dev bd t = (p, t1)" by fastforce
  obtain len t2 where e: "extract_packet_len dev bd t1 = (len, t2)" by fastforce
  obtain f q1 where pq: "pq_enqueue q p = (f, q1)" by fastforce
  define l1 where "l1 = [Pbuf_realloc p len, if f < 0 then Pbuf_free p else Sem_signal]"
  have "\<exists>t1. recv_loop dev lw r n (BdRingNext r bd) q1 t1 (l @ l1) = (q', t', l')"
    using Suc.prems g e pq by (auto simp: Let_def l1_def split: if_splits)
  then obtain t1 where "recv_loop dev lw r n (BdRingNext r bd) q1 t1 (l @ l1) = (q', t', l')" ..
  from Suc.IH [OF this] obtain calls where "l' = (l @ l1) @ calls" "Pbuf_alloc 0 \<notin> set calls" by blast
  then show ?case by (intro exI [of _ "l1 @ calls"]) (simp add: l1_def)
qed simp

definition rx_ok :: "XAxiDma_BdRing \<Rightarrow> bool" where
  "rx_ok r \<longleftrightarrow> ring_inv r \<and> post_group r = []"

lemma jammed_kept: "jammed r \<Longrightarrow> ring_inv r' \<Longrightarrow> pre_group r' = pre_group r \<Longrightarrow> jammed r'"
  by (simp add: jammed_def)

text \<open>One service of the receive channel: collect, deliver, free and refill.\<close>

lemma rx_service:
  assumes ok: "rx_ok r"
    and collected: "BdRingFromHw dev r XAXIDMA_ALL_BDS t = (n, p, r1, t1)"
    and delivered: "recv_loop dev lw r1 (nat n) p q t1 l = (q', t2, l2)"
    and freed: "BdRingFree r1 n p = (st, r2)"
    and refilled: "setup_rx_bds dev lw r2 t2 l2 = (r', t', l')"
  shows "rx_ok r'" "same_place r r'" "only_writes (fields r bd_fields \<union> tail_register r) t t'"
    "jammed r \<Longrightarrow> jammed r' \<and> hw_group r' = drop (nat n) (hw_group r)"
    "\<exists>calls. l' = l @ calls \<and> (Pbuf_alloc 0 \<in> set calls \<longrightarrow> jammed r')"
proof -
  have inv: "ring_inv r" "post_group r = []" using ok by (simp_all add: rx_ok_def)
  from collect [OF inv collected] freed
  have r2: "ring_inv r2" "post_group r2 = []" "hw_group r2 = drop (nat n) (hw_group r)"
    "pre_group r2 = pre_group r" "same_place r r2"
    by auto
  have w2: "only_writes {} t t2"
    using only_writes_trans [OF fromhw_writes [OF collected] recv_loop_writes [OF delivered]] .
  from recv_loop_calls [OF delivered] obtain c where c: "l2 = l @ c" "Pbuf_alloc 0 \<notin> set c" by blast
  show "jammed r \<Longrightarrow> jammed r' \<and> hw_group r' = drop (nat n) (hw_group r)"
    using setup_rx_jammed [OF _ refilled] jammed_kept [of r r2] r2 by simp
  show "rx_ok r'" "same_place r r'" "only_writes (fields r bd_fields \<union> tail_register r) t t'"
    "\<exists>calls. l' = l @ calls \<and> (Pbuf_alloc 0 \<in> set calls \<longrightarrow> jammed r')"
  proof -
    show "rx_ok r'"
      using refilled setup_rx_inv [of dev lw r2 "nat (FreeCnt r2)" t2 l2 r' t' l'] r2
      by (auto simp: setup_rx_bds_def rx_ok_def Let_def split: if_splits)
    have w: "only_writes (fields r2 bd_fields \<union> tail_register r2) t2 t' \<and> same_place r2 r'"
      using refilled setup_rx_writes [of dev lw r2 "nat (FreeCnt r2)" t2 l2 r' t' l'] r2
      by (auto simp: setup_rx_bds_def Let_def placed split: if_splits intro: confined)
    with r2(5) show "same_place r r'" by (auto intro: same_place_trans)
    show "only_writes (fields r bd_fields \<union> tail_register r) t t'"
      using w r2(5) w2
      by (auto simp: same_place_fields same_place_tail elim!: only_writes_trans [OF only_writes_mono])
    show "\<exists>calls. l' = l @ calls \<and> (Pbuf_alloc 0 \<in> set calls \<longrightarrow> jammed r')"
      using refilled setup_rx_inv [of dev lw r2 "nat (FreeCnt r2)" t2 l2 r' t' l'] r2 c
      by (auto simp: setup_rx_bds_def Let_def split: if_splits)
  qed
qed

text \<open>Both channels are marked as halted, as a reset leaves them.\<close>

definition halted :: "xaxiemacif \<Rightarrow> bool" where
  "halted e \<longleftrightarrow> RunState (tx_ring e) = AXIDMA_CHANNEL_HALTED \<and> RunState (rx_ring e) = AXIDMA_CHANNEL_HALTED"

lemma Reset_halts:
  "Reset dev d t = (d', t') \<Longrightarrow> HasMm2S d \<Longrightarrow> HasS2Mm d \<Longrightarrow>
   RunState (TxBdRing d') = AXIDMA_CHANNEL_HALTED \<and> RunState (RxBdRing d') = AXIDMA_CHANNEL_HALTED"
  "Reset dev d t = (d', t') \<Longrightarrow> RunState (TxBdRing d) = AXIDMA_CHANNEL_HALTED \<Longrightarrow>
   RunState (RxBdRing d) = AXIDMA_CHANNEL_HALTED \<Longrightarrow>
   RunState (TxBdRing d') = AXIDMA_CHANNEL_HALTED \<and> RunState (RxBdRing d') = AXIDMA_CHANNEL_HALTED"
  by (auto simp: Reset_def BdRingSnapShotCurrBd_def machine Let_def split: if_splits)

lemma recv_handler_result:
  assumes ok: "rx_ok (rx_ring e)" and run: "axidma_recv_handler dev lw e t l = (e', t', l')"
  shows "rx_ok (rx_ring e') \<and> settled e e' \<and> same_groups (tx_ring e) (tx_ring e') \<and>
    only_writes (eth_registers e \<union> fields (rx_ring e) bd_fields \<union> tail_register (rx_ring e)) t t' \<and>
    (jammed (rx_ring e) \<longrightarrow> jammed (rx_ring e') \<and> (\<exists>k. hw_group (rx_ring e') = drop k (hw_group (rx_ring e)))) \<and>
    (\<exists>calls. l' = l @ calls \<and> (Pbuf_alloc 0 \<in> set calls \<longrightarrow> jammed (rx_ring e'))) \<and>
    (halted e \<longrightarrow> halted e')"
proof -
  let ?r = "rx_ring e"
  let ?A = "eth_registers e \<union> fields ?r bd_fields \<union> tail_register ?r"
  define t1 where "t1 = BdRingIntDisable dev ?r XAXIDMA_IRQ_ALL_MASK (XIntc_AckIntr (intc_baseaddr e) (push_bit (AxiDmaRxIntr e) 1) t)"
  obtain irq t2 where irq: "BdRingGetIrq dev ?r t1 = (irq, t2)" by fastforce
  define t3 where "t3 = BdRingAckIrq ?r irq t2"
  have "only_writes ?A t t1"
    unfolding t1_def
    by (rule only_writes_trans [OF only_writes_mono [OF irq_access(5)] only_writes_mono [OF irq_access(4)]])
      (auto simp: eth_registers_def)
  moreover have "only_writes ?A t1 t2" using irq_access(1) [of t1 dev ?r] irq by (auto intro: only_writes_mono)
  moreover have "only_writes ?A t2 t3"
    unfolding t3_def by (rule only_writes_mono [OF irq_access(2)]) (auto simp: eth_registers_def)
  ultimately have w3: "only_writes ?A t t3" by (meson only_writes_trans)
  show ?thesis
  proof (cases "irq AND XAXIDMA_IRQ_ERROR_MASK \<noteq> 0")
    case True
    obtain d t4 where reset: "Reset dev (axidma e) t3 = (d, t4)" by fastforce
    have eq: "e' = e\<lparr>axidma := d\<rparr>" "t' = t4" "l' = l"
      using True run irq [unfolded t1_def] reset [unfolded t3_def]
      by (simp_all add: axidma_recv_handler_def)
    note g = Reset_rings [OF reset]
    have "jammed (rx_ring e') = jammed ?r" "hw_group (rx_ring e') = hw_group ?r" "rx_ok (rx_ring e')"
      using same_groups [OF g(2)] ok by (simp_all add: eq jammed_def rx_ok_def)
    moreover have "only_writes ?A t t'"
      using only_writes_trans [OF w3 only_writes_mono [OF Reset_writes(1) [OF reset]]] eq by auto
    ultimately show ?thesis
      using g(1) Reset_writes(2) [OF reset] Reset_halts(2) [OF reset]
      by (auto simp: eq halted_def intro: exI [of _ 0])
  next
    case no_error: False
    show ?thesis
    proof (cases "irq AND (XAXIDMA_IRQ_DELAY_MASK OR XAXIDMA_IRQ_IOC_MASK) \<noteq> 0")
      case False
      then have eq: "e' = e" "t' = BdRingIntEnable dev ?r XAXIDMA_IRQ_ALL_MASK t3" "l' = l"
        using no_error run irq [unfolded t1_def]
        by (auto simp: axidma_recv_handler_def t3_def)
      have "only_writes ?A t t'"
        unfolding eq by (rule only_writes_trans [OF w3 only_writes_mono [OF irq_access(3)]])
          (auto simp: eth_registers_def)
      with ok show ?thesis
        by (auto simp: eq settled_refl intro: exI [of _ 0])
    next
      case True
      obtain n p r1 t4 where f: "BdRingFromHw dev ?r XAXIDMA_ALL_BDS t3 = (n, p, r1, t4)" by (metis surj_pair)
      obtain q t5 l5 where rl: "recv_loop dev lw r1 (nat n) p (recv_q e) t4 l = (q, t5, l5)" by (metis surj_pair)
      obtain st r2 where fr: "BdRingFree r1 n p = (st, r2)" by fastforce
      obtain r' t6 l6 where su: "setup_rx_bds dev lw r2 t5 l5 = (r', t6, l6)" by (metis surj_pair)
      note service = rx_service [OF ok f rl fr su]
      have eq: "e' = (set_rx_ring r' e)\<lparr>recv_q := q\<rparr>" "t' = BdRingIntEnable dev r' XAXIDMA_IRQ_ALL_MASK t6" "l' = l6"
        using no_error True run irq [unfolded t1_def] f [unfolded t3_def] rl fr su
        by (simp_all add: axidma_recv_handler_def set_rx_ring_def)
      have "only_writes ?A t3 t6" using service(3) by (auto elim: only_writes_mono)
      moreover have "only_writes ?A t6 t'"
        unfolding eq using service(2)
        by (intro only_writes_mono [OF irq_access(3)]) (auto simp: eth_registers_def same_place_def)
      ultimately have "only_writes ?A t t'" using w3 by (meson only_writes_trans)
      moreover have "settled e e'"
        using same_place_located [OF service(2)] by (simp add: eq settled_def set_rx_ring_def located_refl)
      ultimately show ?thesis
        using service(1,2,4,5) by (auto simp: eq set_rx_ring_def halted_def same_place_def)
    qed
  qed
qed

section \<open>The transmit channel\<close>

lemma output_rings:
  assumes "low_level_output dev lw e p t l = (st, e', t', l')"
  shows "(e', t', l') = (e, t, l) \<and> FreeCnt (tx_ring e) = 0 \<and> st = ERR_MEM \<or>
    FreeCnt (tx_ring e) \<noteq> 0 \<and> st = ERR_OK \<and>
    (\<exists>s r. axidma_sgsend dev lw (tx_ring e) p t l = (s, r, t', l') \<and> e' = set_tx_ring r e)"
  using assms
  by (auto simp: low_level_output_def is_tx_space_available_def unbuffered_low_level_output_def
      split: if_splits prod.splits)

lemma send_handler_cases:
  assumes run: "axidma_send_handler dev e t l = (e', t', l')"
  obtains t1 where "only_writes (eth_registers e) t t1"
    and "(\<exists>d. Reset dev (axidma e) t1 = (d, t') \<and> e' = e\<lparr>axidma := d\<rparr> \<and> l' = l) \<or>
      (\<exists>st r. process_sent_bds dev (tx_ring e) t1 l = (st, r, t', l') \<and> e' = set_tx_ring r e) \<or>
      (e', t', l') = (e, t1, l)"
proof -
  obtain irq t0 where irq: "BdRingGetIrq dev (tx_ring e) t = (irq, t0)" by fastforce
  define t1 where "t1 = XIntc_AckIntr (intc_baseaddr e) (push_bit (AxiDmaTxIntr e) 1) (BdRingAckIrq (tx_ring e) irq t0)"
  have "only_writes (eth_registers e) t t0"
    using irq_access(1) [of t dev "tx_ring e"] irq by (auto intro: only_writes_mono)
  moreover have "only_writes (eth_registers e) t0 t1"
    unfolding t1_def
    by (rule only_writes_trans [OF only_writes_mono [OF irq_access(2)] only_writes_mono [OF irq_access(5)]])
      (auto simp: eth_registers_def)
  ultimately have "only_writes (eth_registers e) t t1" by (rule only_writes_trans)
  moreover have "(\<exists>d. Reset dev (axidma e) t1 = (d, t') \<and> e' = e\<lparr>axidma := d\<rparr> \<and> l' = l) \<or>
      (\<exists>st r. process_sent_bds dev (tx_ring e) t1 l = (st, r, t', l') \<and> e' = set_tx_ring r e) \<or>
      (e', t', l') = (e, t1, l)"
    using run irq unfolding t1_def
    by (auto simp: axidma_send_handler_def Let_def split: if_splits prod.splits)
  ultimately show thesis by (rule that)
qed

text \<open>The send handler leaves the receive ring alone, but for a reset.\<close>

lemma send_handler_rx:
  assumes "axidma_send_handler dev e t l = (e', t', l')"
  shows "same_groups (rx_ring e) (rx_ring e')"
  using assms
  by (rule send_handler_cases) (auto simp: set_tx_ring_def dest: Reset_rings(2))

lemma input_rings:
  "xaxiemacif_input dev lw e t l = (n, e', l') \<Longrightarrow> axidma e' = axidma e \<and> intc_baseaddr e' = intc_baseaddr e"
  by (auto simp: xaxiemacif_input_def low_level_input_def pq_dequeue_def Let_def split: if_splits prod.splits)

section \<open>A receive channel that ran out of buffers\<close>

lemma jammed_event:
  assumes "rx_ok (rx_ring e)" and "jammed (rx_ring e)" and "handle_eth dev lw ev (e, t, l) = (e', t', l')"
  shows "rx_ok (rx_ring e') \<and> jammed (rx_ring e') \<and> (\<exists>k. hw_group (rx_ring e') = drop k (hw_group (rx_ring e)))"
proof (cases ev)
  case (Output p)
  obtain st e1 t1 l1 where o: "low_level_output dev lw e p t l = (st, e1, t1, l1)" by (metis surj_pair)
  with Output assms(3) have "e1 = e'" by simp
  with output_rings [OF o] have "rx_ring e' = rx_ring e" by (auto simp: set_tx_ring_def)
  with assms show ?thesis by (auto intro: exI [of _ 0])
next
  case Tx_interrupt
  with assms(3) have "same_groups (rx_ring e) (rx_ring e')" using send_handler_rx by auto
  from same_groups [OF this] assms(1,2) show ?thesis
    by (auto simp: rx_ok_def jammed_def intro: exI [of _ 0])
next
  case Rx_interrupt
  with assms recv_handler_result [OF assms(1), of dev lw t l e' t' l'] show ?thesis by auto
next
  case Input
  with assms(3) have "axidma e' = axidma e" using input_rings by (auto split: prod.splits)
  with assms show ?thesis by (auto intro: exI [of _ 0])
next
  case (Elsewhere a b)
  with assms show ?thesis by (auto intro: exI [of _ 0])
qed

lemma jammed_run:
  "eth_run dev lw evs (e, t, l) = (e', t', l') \<Longrightarrow> rx_ok (rx_ring e) \<Longrightarrow> jammed (rx_ring e) \<Longrightarrow>
   jammed (rx_ring e') \<and> (\<exists>k. hw_group (rx_ring e') = drop k (hw_group (rx_ring e)))"
proof (induction evs arbitrary: e t l)
  case Nil
  then show ?case by (auto intro: exI [of _ 0])
next
  case (Cons ev evs)
  obtain e1 t1 l1 where s: "handle_eth dev lw ev (e, t, l) = (e1, t1, l1)" by (metis surj_pair)
  with Cons.prems(1) have "eth_run dev lw evs (e1, t1, l1) = (e', t', l')" by simp
  moreover note jammed_event [OF Cons.prems(2,3) s]
  ultimately show ?case using Cons.IH by (metis drop_drop)
qed

section \<open>The buffers of sent frames\<close>

definition referenced :: "lw_log \<Rightarrow> u32 list" where
  "referenced calls = concat (map (\<lambda>c. case c of Pbuf_ref p \<Rightarrow> [p] | _ \<Rightarrow> []) calls)"

definition released :: "lw_log \<Rightarrow> u32 list" where
  "released calls = concat (map (\<lambda>c. case c of Pbuf_free p \<Rightarrow> [p] | _ \<Rightarrow> []) calls)"

lemma calls_simps [simp]:
  "referenced [] = []" "referenced (xs @ ys) = referenced xs @ referenced ys"
  "released [] = []" "released (xs @ ys) = released xs @ released ys"
  by (simp_all add: referenced_def released_def)

lemma calls_map [simp]:
  "referenced (map Pbuf_ref ps) = ps" "released (map Pbuf_ref ps) = []"
  "referenced (map Pbuf_free ps) = []" "released (map Pbuf_free ps) = ps"
  by (induction ps) (simp_all add: referenced_def released_def)

text \<open>What the transmit side calls in a run: the new calls of \<open>low_level_output\<close> and the send handler.\<close>

fun new_calls :: "eth_state \<Rightarrow> eth_state \<Rightarrow> lw_log" where
  "new_calls (e, t, l) (e', t', l') = drop (length l) l'"

fun tx_event :: "eth_event \<Rightarrow> bool" where
  "tx_event (Output p) = True"
| "tx_event Tx_interrupt = True"
| "tx_event _ = False"

fun tx_calls :: "device \<Rightarrow> lwip \<Rightarrow> eth_event list \<Rightarrow> eth_state \<Rightarrow> lw_log" where
  "tx_calls dev lw [] s = []"
| "tx_calls dev lw (ev # evs) s =
     (let s' = handle_eth dev lw ev s
      in (if tx_event ev then new_calls s s' else []) @ tx_calls dev lw evs s')"

text \<open>
  The identifier words of the transmit descriptors are apart from every other word that the
  adapter writes, and the rest of the program does not write them.
\<close>

definition tx_apart :: "xaxiemacif \<Rightarrow> bool" where
  "tx_apart e \<longleftrightarrow> (\<forall>i. slot (tx_ring e) i + XAXIDMA_BD_ID_OFFSET \<notin>
     eth_registers e \<union> fields (rx_ring e) bd_fields \<union>
     {ChanBase (tx_ring e) + XAXIDMA_TDESC_OFFSET, ChanBase (rx_ring e) + XAXIDMA_TDESC_OFFSET})"

fun spares :: "xaxiemacif \<Rightarrow> eth_event \<Rightarrow> bool" where
  "spares e (Elsewhere ev calls) =
     (\<forall>i v. Wr (slot (tx_ring e) i + XAXIDMA_BD_ID_OFFSET) v \<notin> set ev)"
| "spares e _ = True"

lemma settled_apart: "settled e e' \<Longrightarrow> tx_apart e' = tx_apart e"
  by (simp add: tx_apart_def settled_sets) (simp add: settled_def located_def)

lemma settled_spares: "settled e e' \<Longrightarrow> spares e' ev = spares e ev"
  by (cases ev) (simp_all add: settled_def located_def)

lemma tx_holds_kept:
  assumes "tx_holds r t ids" and "only_writes A t t'" and "\<And>i. slot r i + XAXIDMA_BD_ID_OFFSET \<notin> A"
    and "same_groups r r'"
  shows "tx_holds r' t' ids"
proof -
  have inv: "ring_inv r" using assms(1) by (simp add: tx_holds_def)
  have "named t' (hw_group r @ pre_group r) = named t (hw_group r @ pre_group r)"
    by (rule named_kept [OF assms(2,3)]) (use group_slots [OF inv] in auto)
  with assms(1) same_groups [OF assms(4)] show ?thesis by (simp add: tx_holds_def)
qed

definition tx_ready :: "device \<Rightarrow> xaxiemacif \<Rightarrow> bool" where
  "tx_ready dev e \<longleftrightarrow> wide (tx_ring e) \<and> keeps_ids dev (tx_ring e) \<and> tx_apart e \<and> rx_ok (rx_ring e)"

lemma tx_ready_kept:
  assumes "tx_ready dev e" and "settled e e'" and "rx_ok (rx_ring e')"
  shows "tx_ready dev e'"
  using assms settled_apart [OF assms(2)]
  by (simp add: tx_ready_def settled_def located_def wide_def keeps_ids_def)

lemma set_tx_settled: "same_place (tx_ring e) r \<Longrightarrow> settled e (set_tx_ring r e)"
  by (simp add: settled_def set_tx_ring_def located_refl same_place_located)

text \<open>One event: what the transmit side takes and gives back, and what stays in the descriptors.\<close>

lemma tx_step:
  assumes ready: "tx_ready dev e" and holds: "tx_holds (tx_ring e) t ids" and ok: "spares e ev"
    and run: "handle_eth dev lw ev (e, t, l) = (e', t', l')"
    and calls: "calls = (if tx_event ev then drop (length l) l' else [])"
  shows "settled e e' \<and> rx_ok (rx_ring e') \<and>
    (\<exists>ids'. tx_holds (tx_ring e') t' ids' \<and> ids @ referenced calls = released calls @ ids')"
proof -
  let ?r = "tx_ring e"
  have rx: "rx_ok (rx_ring e)" and w: "wide ?r" and mem: "keeps_ids dev ?r"
    and apart: "\<And>i. slot ?r i + XAXIDMA_BD_ID_OFFSET \<notin> eth_registers e \<union> fields (rx_ring e) bd_fields \<union>
       {ChanBase ?r + XAXIDMA_TDESC_OFFSET, ChanBase (rx_ring e) + XAXIDMA_TDESC_OFFSET}"
    using ready by (simp_all add: tx_ready_def tx_apart_def)
  have tail: "slot ?r i + XAXIDMA_BD_ID_OFFSET \<notin> tail_register ?r"
    "slot ?r i + XAXIDMA_BD_ID_OFFSET \<notin> tail_register (rx_ring e)" for i
    using apart [of i] by (simp_all add: tail_register_def)
  show ?thesis
  proof (cases ev)
    case (Output p)
    obtain st e1 t1 l1 where o: "low_level_output dev lw e p t l = (st, e1, t1, l1)" by (metis surj_pair)
    with Output run have eq: "e1 = e'" "t1 = t'" "l1 = l'" by simp_all
    from output_rings [OF o [unfolded eq]] consider "(e', t', l') = (e, t, l)"
      | s r where "axidma_sgsend dev lw ?r p t l = (s, r, t', l')" "e' = set_tx_ring r e"
      by blast
    then show ?thesis
    proof cases
      case 1
      with holds rx calls show ?thesis by (auto simp: settled_refl)
    next
      case 2
      from sgsend_result [OF holds w tail(1) 2(1)] obtain new where
        "l' = l @ map Pbuf_ref new" "tx_holds r t' (ids @ new)" "same_place ?r r" by blast
      with 2(2) rx calls Output show ?thesis
        by (simp add: set_tx_settled) (auto simp: set_tx_ring_def)
    qed
  next
    case Tx_interrupt
    with run have h: "axidma_send_handler dev e t l = (e', t', l')" by simp
    then obtain t1 where w1: "only_writes (eth_registers e) t t1"
      and cases: "(\<exists>d. Reset dev (axidma e) t1 = (d, t') \<and> e' = e\<lparr>axidma := d\<rparr> \<and> l' = l) \<or>
        (\<exists>st r. process_sent_bds dev ?r t1 l = (st, r, t', l') \<and> e' = set_tx_ring r e) \<or>
        (e', t', l') = (e, t1, l)"
      by (rule send_handler_cases)
    have holds1: "tx_holds ?r t1 ids"
      by (rule tx_holds_kept [OF holds w1]) (use apart in auto)
    from cases consider d where "Reset dev (axidma e) t1 = (d, t')" "e' = e\<lparr>axidma := d\<rparr>" "l' = l"
      | st r where "process_sent_bds dev ?r t1 l = (st, r, t', l')" "e' = set_tx_ring r e"
      | "(e', t', l') = (e, t1, l)" by blast
    then show ?thesis
    proof cases
      case 1
      have "tx_holds (TxBdRing d) t' ids"
        by (rule tx_holds_kept [OF holds1 Reset_writes(1) [OF 1(1)] _ Reset_rings(1) [OF 1(1)]])
          (use apart in auto)
      moreover have "rx_ok (RxBdRing d)"
        using same_groups [OF Reset_rings(2) [OF 1(1)]] rx by (simp add: rx_ok_def)
      ultimately show ?thesis
        using Reset_writes(2) [OF 1(1)] 1(2,3) calls Tx_interrupt by auto
    next
      case 2
      from process_sent_result [OF holds1 mem 2(1)] obtain k where
        "l' = l @ map Pbuf_free (take k ids)" "tx_holds r t' (drop k ids)" "same_place ?r r" by blast
      with 2(2) rx calls Tx_interrupt show ?thesis
        by (simp add: set_tx_settled) (auto simp: set_tx_ring_def)
    next
      case 3
      with holds1 rx calls show ?thesis by (auto simp: settled_refl)
    qed
  next
    case Rx_interrupt
    with run have "axidma_recv_handler dev lw e t l = (e', t', l')" by simp
    note r = recv_handler_result [OF rx this]
    have "tx_holds (tx_ring e') t' ids"
      by (rule tx_holds_kept [OF holds]) (use r apart tail in blast)+
    with r calls Rx_interrupt show ?thesis by auto
  next
    case Input
    with run have a: "axidma e' = axidma e" "intc_baseaddr e' = intc_baseaddr e" and t: "t' = t"
      using input_rings by (auto split: prod.splits)
    with holds rx calls Input show ?thesis by (auto simp: settled_def located_refl)
  next
    case (Elsewhere ev' calls')
    with run have eq: "e' = e" "t' = t @ ev'" by simp_all
    have "only_writes {a. \<exists>v. Wr a v \<in> set ev'} t t'" unfolding eq by (rule only_writes_events) auto
    then have "tx_holds ?r t' ids"
      by (rule tx_holds_kept [OF holds]) (use ok Elsewhere in auto)
    with rx calls Elsewhere show ?thesis by (auto simp: eq settled_refl)
  qed
qed

lemma tx_run:
  "eth_run dev lw evs (e, t, l) = (e', t', l') \<Longrightarrow> tx_ready dev e \<Longrightarrow> tx_holds (tx_ring e) t ids \<Longrightarrow>
   \<forall>ev\<in>set evs. spares e ev \<Longrightarrow>
   \<exists>ids'. tx_holds (tx_ring e') t' ids' \<and>
     ids @ referenced (tx_calls dev lw evs (e, t, l)) = released (tx_calls dev lw evs (e, t, l)) @ ids'"
proof (induction evs arbitrary: e t l ids)
  case (Cons ev evs)
  obtain e1 t1 l1 where s: "handle_eth dev lw ev (e, t, l) = (e1, t1, l1)" by (metis surj_pair)
  define calls where "calls = (if tx_event ev then drop (length l) l1 else [])"
  have "spares e ev" using Cons.prems(4) by simp
  from tx_step [OF Cons.prems(2,3) this s calls_def] obtain ids1 where
    st: "settled e e1" "rx_ok (rx_ring e1)" "tx_holds (tx_ring e1) t1 ids1"
      "ids @ referenced calls = released calls @ ids1" by blast
  have "eth_run dev lw evs (e1, t1, l1) = (e', t', l')" using Cons.prems(1) s by simp
  moreover have "\<forall>ev\<in>set evs. spares e1 ev" using Cons.prems(4) settled_spares [OF st(1)] by simp
  ultimately obtain ids' where ids': "tx_holds (tx_ring e') t' ids'"
    "ids1 @ referenced (tx_calls dev lw evs (e1, t1, l1)) = released (tx_calls dev lw evs (e1, t1, l1)) @ ids'"
    using Cons.IH [OF _ tx_ready_kept [OF Cons.prems(2) st(1,2)] st(3)] by blast
  have "tx_calls dev lw (ev # evs) (e, t, l) = calls @ tx_calls dev lw evs (e1, t1, l1)"
    by (simp add: s calls_def Let_def)
  with ids' st(4) show ?case by (metis append_assoc calls_simps(2,4))
qed auto

section \<open>After an error interrupt\<close>

text \<open>The status that each handler reads.\<close>

definition tx_irq :: "device \<Rightarrow> xaxiemacif \<Rightarrow> trace \<Rightarrow> u32" where
  "tx_irq dev e t = fst (BdRingGetIrq dev (tx_ring e) t)"

definition rx_irq :: "device \<Rightarrow> xaxiemacif \<Rightarrow> trace \<Rightarrow> u32" where
  "rx_irq dev e t =
     fst (BdRingGetIrq dev (rx_ring e) (BdRingIntDisable dev (rx_ring e) XAXIDMA_IRQ_ALL_MASK
            (XIntc_AckIntr (intc_baseaddr e) (push_bit (AxiDmaRxIntr e) 1) t)))"

fun inside :: "eth_event \<Rightarrow> bool" where
  "inside (Elsewhere ev calls) = False"
| "inside _ = True"

lemma error_halts:
  assumes "ev = Tx_interrupt \<and> tx_irq dev e t AND XAXIDMA_IRQ_ERROR_MASK \<noteq> 0 \<or>
      ev = Rx_interrupt \<and> rx_irq dev e t AND XAXIDMA_IRQ_ERROR_MASK \<noteq> 0"
    and "HasMm2S (axidma e)" and "HasS2Mm (axidma e)" and "handle_eth dev lw ev (e, t, l) = (e', t', l')"
  shows "halted e' \<and> l' = l"
  using assms(1,4) Reset_halts(1) [OF _ assms(2,3)]
  by (auto simp: tx_irq_def rx_irq_def axidma_send_handler_def axidma_recv_handler_def halted_def
      Let_def split: prod.splits)

lemma halted_step:
  assumes ready: "tx_ready dev e" and holds: "tx_holds (tx_ring e) t ids" and "inside ev" and h: "halted e"
    and run: "handle_eth dev lw ev (e, t, l) = (e', t', l')"
  shows "halted e' \<and>
    only_writes (fields (tx_ring e) bd_fields \<union> fields (rx_ring e) bd_fields \<union> eth_registers e) t t'"
proof -
  let ?A = "fields (tx_ring e) bd_fields \<union> fields (rx_ring e) bd_fields \<union> eth_registers e"
  have tail: "tail_register (tx_ring e) = {}" "tail_register (rx_ring e) = {}"
    using h by (simp_all add: tail_register_def halted_def)
  have rx: "rx_ok (rx_ring e)" and w: "wide (tx_ring e)" and mem: "keeps_ids dev (tx_ring e)"
    and apart: "\<And>i. slot (tx_ring e) i + XAXIDMA_BD_ID_OFFSET \<notin> eth_registers e"
    using ready by (simp_all add: tx_ready_def tx_apart_def)
  show ?thesis
  proof (cases ev)
    case (Output p)
    obtain st e1 t1 l1 where o: "low_level_output dev lw e p t l = (st, e1, t1, l1)" by (metis surj_pair)
    with Output run have eq: "e1 = e'" "t1 = t'" "l1 = l'" by simp_all
    from output_rings [OF o [unfolded eq]] consider "(e', t', l') = (e, t, l)"
      | s r where "axidma_sgsend dev lw (tx_ring e) p t l = (s, r, t', l')" "e' = set_tx_ring r e"
      by blast
    then show ?thesis
    proof cases
      case 2
      from sgsend_result [OF holds w _ 2(1)] tail
      have "only_writes (fields (tx_ring e) bd_fields) t t'" "same_place (tx_ring e) r" by auto
      with 2(2) h show ?thesis
        by (auto simp: halted_def set_tx_ring_def same_place_def elim!: only_writes_mono)
    qed (use h in auto)
  next
    case Tx_interrupt
    with run have s: "axidma_send_handler dev e t l = (e', t', l')" by simp
    then obtain t1 where w1: "only_writes (eth_registers e) t t1"
      and cases: "(\<exists>d. Reset dev (axidma e) t1 = (d, t') \<and> e' = e\<lparr>axidma := d\<rparr> \<and> l' = l) \<or>
        (\<exists>st r. process_sent_bds dev (tx_ring e) t1 l = (st, r, t', l') \<and> e' = set_tx_ring r e) \<or>
        (e', t', l') = (e, t1, l)"
      by (rule send_handler_cases)
    have holds1: "tx_holds (tx_ring e) t1 ids"
      by (rule tx_holds_kept [OF holds w1]) (use apart in auto)
    from cases consider d where "Reset dev (axidma e) t1 = (d, t')" "e' = e\<lparr>axidma := d\<rparr>"
      | st r where "process_sent_bds dev (tx_ring e) t1 l = (st, r, t', l')" "e' = set_tx_ring r e"
      | "e' = e" "t' = t1" by blast
    then have "halted e' \<and> only_writes (eth_registers e) t1 t'"
    proof cases
      case 1
      with Reset_halts(2) [OF 1(1)] Reset_writes(1) [OF 1(1)] h show ?thesis by (simp add: halted_def)
    next
      case 2
      with process_sent_result [OF holds1 mem 2(1)] h show ?thesis
        by (auto simp: halted_def set_tx_ring_def same_place_def elim: only_writes_mono)
    qed (use h in auto)
    then have "halted e'" "only_writes (eth_registers e) t t'" using only_writes_trans [OF w1] by auto
    then show ?thesis by (auto elim: only_writes_mono)
  next
    case Rx_interrupt
    with run have s: "axidma_recv_handler dev lw e t l = (e', t', l')" by simp
    have "only_writes (eth_registers e \<union> fields (rx_ring e) bd_fields) t t'"
      using recv_handler_result [OF rx s] tail by simp
    then show ?thesis
      using recv_handler_result [OF rx s] h by (auto elim: only_writes_mono)
  next
    case Input
    with run have "axidma e' = axidma e" "t' = t" using input_rings by (auto split: prod.splits)
    with h show ?thesis by (auto simp: halted_def)
  next
    case (Elsewhere a b)
    with assms(3) show ?thesis by simp
  qed
qed

lemma halted_run:
  "eth_run dev lw evs (e, t, l) = (e', t', l') \<Longrightarrow> tx_ready dev e \<Longrightarrow> tx_holds (tx_ring e) t ids \<Longrightarrow>
   \<forall>ev\<in>set evs. inside ev \<Longrightarrow> halted e \<Longrightarrow> halted e' \<and>
   only_writes (fields (tx_ring e) bd_fields \<union> fields (rx_ring e) bd_fields \<union> eth_registers e) t t'"
proof (induction evs arbitrary: e t l ids)
  case (Cons ev evs)
  obtain e1 t1 l1 where s: "handle_eth dev lw ev (e, t, l) = (e1, t1, l1)" by (metis surj_pair)
  have ev: "inside ev" using Cons.prems(4) by simp
  then have "spares e ev" by (cases ev) simp_all
  from tx_step [OF Cons.prems(2,3) this s refl] obtain ids1 where
    st: "settled e e1" "rx_ok (rx_ring e1)" "tx_holds (tx_ring e1) t1 ids1" by blast
  note first = halted_step [OF Cons.prems(2,3) ev Cons.prems(5) s]
  have "eth_run dev lw evs (e1, t1, l1) = (e', t', l')" using Cons.prems(1) s by simp
  from Cons.IH [OF this tx_ready_kept [OF Cons.prems(2) st(1,2)] st(3)] Cons.prems(4) first
  have "halted e'" "only_writes (fields (tx_ring e1) bd_fields \<union> fields (rx_ring e1) bd_fields \<union> eth_registers e1) t1 t'"
    by auto
  with first settled_sets [OF st(1)] show ?case by (auto intro: only_writes_trans)
qed auto

end
