(* ===== verification/Eth_Receive.thy ===== *)
theory Eth_Receive
  imports Eth_Runs
begin

text \<open>
  The receive side in normal operation: every received frame goes to lwIP once and in order, and
  every descriptor that came back is given to the engine again with a new buffer.
\<close>

section \<open>The queue of received frames\<close>

text \<open>The pointer queue is the ring buffer of \<open>Pid_Queue\<close> with a fixed size.\<close>

definition pq_view :: "pq_queue \<Rightarrow> u32 queue" where
  "pq_view q = \<lparr>max_items = 128, item_count = pq_len q, qfront = pq_tail q, qend = pq_head q, items = pq_data q\<rparr>"

definition pq_ok :: "pq_queue \<Rightarrow> bool" where
  "pq_ok q \<longleftrightarrow> queue_ok (pq_view q)"

definition pq_contents :: "pq_queue \<Rightarrow> u32 list" where
  "pq_contents q = contents (pq_view q)"

lemma pq_enqueue_view: "pq_view (snd (pq_enqueue q p)) = penq (pq_view q) p"
  by (simp add: pq_enqueue_def penq_def pq_view_def)

lemma pq_dequeue_contents:
  assumes "pq_ok q" "pq_contents q \<noteq> []" "pq_dequeue q = (p, q')"
  shows "pq_contents q = p # pq_contents q' \<and> pq_ok q'"
proof -
  let ?v = "(pq_view q)\<lparr>qfront := (qfront (pq_view q) + 1) mod max_items (pq_view q), item_count := item_count (pq_view q) - 1\<rparr>"
  have some: "item_count (pq_view q) \<noteq> 0"
    using assms(2) contents_Nil [of "pq_view q"] by (simp add: pq_contents_def)
  with assms(3) have "p = items (pq_view q) ! qfront (pq_view q)" "pq_view q' = ?v"
    by (auto simp: pq_dequeue_def pq_view_def)
  with advance_front [OF assms(1) [unfolded pq_ok_def] some refl] show ?thesis
    by (simp add: pq_ok_def pq_contents_def)
qed

interpretation recvq: fifo_queue pq_ok pq_contents "\<lambda>q. 128" "\<lambda>q p. snd (pq_enqueue q p)" pq_dequeue
proof
  fix q p q'
  assume ok: "pq_ok q"
  note view = ok [unfolded pq_ok_def]
  have cap: "max_items (pq_view q) = 128" by (simp add: pq_view_def)
  show "length (pq_contents q) \<le> 128"
    using queue_okD(4) [OF view] by (simp add: pq_contents_def cap)
  show "pq_contents (snd (pq_enqueue q p)) = pq_contents q @ [p]" if "length (pq_contents q) < 128"
    using penq_contents(1) [OF view] that by (simp add: pq_contents_def pq_enqueue_view cap)
  show "snd (pq_enqueue q p) = q" if "length (pq_contents q) = 128"
    using that by (simp add: pq_contents_def pq_enqueue_def pq_view_def)
  show "pq_ok (snd (pq_enqueue q p)) \<and> (128 :: nat) = 128"
    using penq_ok [OF view] by (simp add: pq_ok_def pq_enqueue_view)
  show "pq_contents q = p # pq_contents q' \<and> pq_ok q' \<and> (128 :: nat) = 128"
    if "pq_contents q \<noteq> []" "pq_dequeue q = (p, q')"
    using pq_dequeue_contents [OF ok that] by simp
qed

lemma pq_enqueue_full: "fst (pq_enqueue q p) < 0 \<longleftrightarrow> length (pq_contents q) = 128"
  by (simp add: pq_enqueue_def pq_contents_def pq_view_def)

section \<open>Delivery\<close>

text \<open>
  The calls for the frames in the buffers \<open>ps\<close> with lengths, when the queue has room for \<open>k\<close>: a
  frame is queued and announced, or its buffer freed.
\<close>

fun deliveries :: "nat \<Rightarrow> (u32 \<times> u16) list \<Rightarrow> lw_log" where
  "deliveries k [] = []"
| "deliveries k ((p, n) # ps) =
     [Pbuf_realloc p n, if k = 0 then Pbuf_free p else Sem_signal] @ deliveries (k - 1) ps"

lemma recv_loop_delivers:
  assumes g: "ring_geometry r" and mem: "keeps_ids dev r"
  shows "named t (map (slot r) [i..<i + n]) = map Some ids \<Longrightarrow> pq_ok q \<Longrightarrow>
    recv_loop dev lw r n (slot r i) q t l = (q', t', l') \<Longrightarrow>
    \<exists>lens. length lens = n \<and> l' = l @ deliveries (128 - length (pq_contents q)) (zip ids lens) \<and>
      pq_ok q' \<and> pq_contents q' = pq_contents q @ take (128 - length (pq_contents q)) ids"
proof (induction n arbitrary: i q t l ids)
  case 0
  then show ?case by (simp add: named_def)
next
  case (Suc n)
  let ?a = "slot r i + XAXIDMA_BD_ID_OFFSET"
  have upt: "[i..<i + Suc n] = i # [Suc i..<Suc i + n]" by (simp add: upt_conv_Cons del: upt_Suc)
  obtain p ps where ids: "ids = p # ps" "last_write t ?a = Some p"
      "named t (map (slot r) [Suc i..<Suc i + n]) = map Some ps"
    using Suc.prems(1) unfolding upt by (cases ids) (simp_all add: named_def)
  have get: "BdGetId dev (slot r i) t = (p, t @ [Rd ?a p])"
    using plain_wordD [OF keeps_idsD [OF mem] ids(2)] by (simp add: BdGetId_def machine)
  obtain len t2 where e: "extract_packet_len dev (slot r i) (t @ [Rd ?a p]) = (len, t2)" by fastforce
  obtain f q1 where pq: "pq_enqueue q p = (f, q1)" by fastforce
  let ?k = "128 - length (pq_contents q)"
  define t3 where "t3 = t2 @ [Inv (pbuf_payload lw (l @ [Pbuf_realloc p len]) p)]"
  define l1 where "l1 = l @ [Pbuf_realloc p len, if f < 0 then Pbuf_free p else Sem_signal]"
  have full: "f < 0 \<longleftrightarrow> ?k = 0"
    using pq_enqueue_full [of q p] pq recvq.bounded [OF Suc.prems(2)] by auto
  have q1: "pq_ok q1" "pq_contents q1 = (if ?k = 0 then pq_contents q else pq_contents q @ [p])"
    using recvq.put_ok [OF Suc.prems(2), of p] recvq.put_elems [OF Suc.prems(2), of p] pq by auto
  have run: "recv_loop dev lw r n (slot r (Suc i)) q1 t3 l1 = (q', t', l')"
    using Suc.prems(3) get e pq by (auto simp: Let_def next_slot [OF g] t3_def l1_def split: if_splits)
  have "only_writes {} t t3"
    using e by (auto simp: t3_def extract_packet_len_def machine intro!: only_writes_events)
  then have "named t3 (map (slot r) [Suc i..<Suc i + n]) = map Some ps"
    using ids(3) only_writes_last [of "{}" t t3] by (simp add: named_def)
  from Suc.IH [OF this q1(1) run] obtain lens where lens: "length lens = n"
    "l' = l1 @ deliveries (128 - length (pq_contents q1)) (zip ps lens)" "pq_ok q'"
    "pq_contents q' = pq_contents q1 @ take (128 - length (pq_contents q1)) ps" by blast
  have k: "128 - length (pq_contents q1) = ?k - 1" by (simp add: q1(2))
  have "l' = l @ deliveries ?k (zip ids (len # lens))"
    using lens(2) full by (simp add: k l1_def ids(1))
  moreover have "pq_contents q' = pq_contents q @ take ?k ids"
    using lens(4) unfolding k q1(2) ids(1) by (simp add: take_Cons')
  ultimately show ?case using lens(1,3) by (intro exI [of _ "len # lens"]) simp
qed

section \<open>Refilling\<close>

text \<open>
  Documented behaviour of the engine again: the control and length word of a receive descriptor is
  the processor's. The receive descriptors are apart from the tail register and the other
  registers.
\<close>

definition keeps_lengths :: "device \<Rightarrow> XAxiDma_BdRing \<Rightarrow> bool" where
  "keeps_lengths dev r \<longleftrightarrow> (\<forall>i. plain_word dev (slot r i + XAXIDMA_BD_CTRL_LEN_OFFSET))"

definition tail_apart :: "XAxiDma_BdRing \<Rightarrow> bool" where
  "tail_apart r \<longleftrightarrow> (\<forall>i. slot r i + XAXIDMA_BD_ID_OFFSET \<noteq> ChanBase r + XAXIDMA_TDESC_OFFSET)"

text \<open>A pool that always has a buffer of some length.\<close>

definition pool_ok :: "lwip \<Rightarrow> bool" where
  "pool_ok lw \<longleftrightarrow> (\<forall>l p. pbuf_alloc lw l \<noteq> 0 \<and> pbuf_len lw l p \<noteq> 0)"

lemma length_field:
  fixes n :: u16
  assumes mem: "plain_word dev (bd + XAXIDMA_BD_CTRL_LEN_OFFSET)" and n: "n \<noteq> 0"
    and t1: "t1 = BdSetCtrl dev bd 0 (snd (BdSetLength dev bd (ucast n) t))"
  shows "\<exists>w. last_write t1 (bd + XAXIDMA_BD_CTRL_LEN_OFFSET) = Some w \<and> w AND XAXIDMA_BD_CTRL_LENGTH_MASK \<noteq> 0"
proof -
  let ?a = "bd + XAXIDMA_BD_CTRL_LEN_OFFSET" and ?n = "ucast n :: u32"
  let ?L = "XAXIDMA_BD_CTRL_LENGTH_MASK" and ?C = "XAXIDMA_BD_CTRL_ALL_MASK"
  have u: "uint ?n = uint n"
    using uint_lt2p [of n] by (simp add: unsigned_ucast_eq take_bit_int_eq_self)
  then have small: "?n \<le> 0xFFFF" using uint_lt2p [of n] by (simp add: word_le_def)
  have nz: "?n \<noteq> 0" using n u by (auto simp: word_uint_eq_iff)
  define v where "v = reg dev t ?a"
  define w0 where "w0 = (v AND NOT ?L) OR ?n"
  have t0: "snd (BdSetLength dev bd ?n t) = t @ [Rd ?a v, Wr ?a w0]"
  proof -
    have "\<not> ?n \<le> 0" using nz by simp
    moreover have "\<not> XAXIDMA_MAX_TRANSFER_LEN < ?n"
      using order_trans [OF small, of XAXIDMA_MAX_TRANSFER_LEN] by (simp add: not_less)
    ultimately show ?thesis by (simp add: BdSetLength_def machine v_def w0_def)
  qed
  have "reg dev (t @ [Rd ?a v, Wr ?a w0]) ?a = w0"
    using plain_wordD [OF mem] by (simp add: last_write_append)
  then have "last_write t1 ?a = Some ((w0 AND NOT ?C) OR (0 AND ?C))"
    unfolding t1 t0 by (simp add: BdSetCtrl_def machine last_write_append)
  moreover have "((w0 AND NOT ?C) OR (0 AND ?C)) AND ?L = w0 AND ?L"
    by (rule field_kept) simp_all
  moreover have "w0 AND ?L = ?n"
    unfolding w0_def
  proof (rule field_written)
    have "?L = mask 23" by (simp add: mask_eq_exp_minus_1)
    moreover have "?n AND mask 23 = ?n"
      by (rule bit_word_eqI) (auto simp: bit_simps simp del: mask_numeral dest: bit_imp_le_length)
    ultimately show "?n AND ?L = ?n" by simp
  qed
  ultimately show ?thesis using nz by auto
qed

text \<open>A filled receive descriptor has a length and names its buffer.\<close>

lemma rx_bd_filled:
  fixes n :: u16
  assumes "plain_word dev (bd + XAXIDMA_BD_CTRL_LEN_OFFSET)" and "n \<noteq> 0"
    and "t1 = BdSetId bd p (BdSetCtrl dev bd 0 (snd (BdSetLength dev bd (ucast n) t))) @ [Fls p, Fls bd]"
  shows "\<exists>w. last_write t1 (bd + XAXIDMA_BD_CTRL_LEN_OFFSET) = Some w \<and> w AND XAXIDMA_BD_CTRL_LENGTH_MASK \<noteq> 0"
    and "last_write t1 (bd + XAXIDMA_BD_ID_OFFSET) = Some p"
  using length_field [OF assms(1,2) refl, of t]
  by (auto simp: assms(3) BdSetId_def machine last_write_append)

text \<open>A single receive descriptor with a length is accepted.\<close>

lemma tohw_one:
  assumes inv: "ring_inv r" and rx: "IsRxChannel r" and pre: "pre_group r = [bd]"
    and mem: "plain_word dev (bd + XAXIDMA_BD_CTRL_LEN_OFFSET)"
    and len: "last_write t (bd + XAXIDMA_BD_CTRL_LEN_OFFSET) = Some w" "w AND XAXIDMA_BD_CTRL_LENGTH_MASK \<noteq> 0"
  shows "fst (BdRingToHw dev r 1 bd t) = XST_SUCCESS"
proof -
  from inv obtain i a b c d where s: "ring_shape r i a b c d" by (elim ring_invE)
  then have "PreCnt r = 1" using arg_cong [OF pre, of length]
    by (simp add: shape_groups [OF s]) (simp add: ring_shape_def)
  moreover have "PreHead r = bd" using pre_head [OF inv] pre by simp
  moreover have "reg dev (t @ ev) (bd + XAXIDMA_BD_CTRL_LEN_OFFSET) = w" if "\<And>v. Wr (bd + XAXIDMA_BD_CTRL_LEN_OFFSET) v \<notin> set ev" for ev
    using that len(1) by (intro plain_wordD [OF mem]) (simp add: last_write_append last_write_none)
  ultimately show ?thesis
    using rx len(2) by (simp add: BdRingToHw_def BdGetCtrl_def BdGetSts_def BdGetLength_def machine Let_def)
qed

definition rx_memory :: "device \<Rightarrow> XAxiDma_BdRing \<Rightarrow> bool" where
  "rx_memory dev r \<longleftrightarrow> wide r \<and> IsRxChannel r \<and> keeps_ids dev r \<and> keeps_lengths dev r \<and> tail_apart r"

lemma rx_memory_kept: "same_place r r' \<Longrightarrow> rx_memory dev r \<Longrightarrow> rx_memory dev r'"
  by (auto simp: rx_memory_def same_place_wide same_place_keeps)
    (auto simp: same_place_def keeps_lengths_def tail_apart_def)

text \<open>One round of the refill loop with a buffer at hand.\<close>

lemma refill_round:
  assumes inv: "ring_inv r" and pre: "pre_group r = []" and free: "free_group r \<noteq> []"
    and mem: "rx_memory dev r" and pool: "pool_ok lw"
  shows "\<exists>r' t'. setup_rx_loop dev lw r (Suc n) t l = setup_rx_loop dev lw r' n t' (l @ [Pbuf_alloc (pbuf_alloc lw l)]) \<and>
    ring_inv r' \<and> same_place r r' \<and> post_group r' = post_group r \<and> pre_group r' = [] \<and>
    free_group r' = tl (free_group r) \<and> hw_group r' = hw_group r @ [hd (free_group r)] \<and>
    named t' (hw_group r') = named t (hw_group r) @ [Some (pbuf_alloc lw l)]"
proof -
  let ?p = "pbuf_alloc lw l" and ?l = "l @ [Pbuf_alloc (pbuf_alloc lw l)]"
  have g: "ring_geometry r" and w: "wide r" using inv_geometry [OF inv] mem by (simp_all add: rx_memory_def)
  from inv obtain i0 a b c d where s: "ring_shape r i0 a b c d" by (elim ring_invE)
  then have "0 < FreeCnt r" using free by (auto simp: shape_groups [OF s] ring_shape_def)
  then obtain r1 where al: "BdRingAlloc r (int 1) = (XST_SUCCESS, Some (FreeHead r), r1)"
    by (simp add: BdRingAlloc_def)
  note taken = alloc_taken [OF inv al]
  have p1: "same_place r r1" using same_place_alloc [OF al] .
  define bd where "bd = FreeHead r"
  have bd: "bd = hd (free_group r)" "pre_group r1 = [bd]" using taken pre free
    by (auto simp: bd_def take_Suc)
  have "bd \<in> set (free_group r)" using bd(1) free by simp
  then obtain i where sl: "bd = slot r i" using group_slots [OF inv] by auto
  define t1 where "t1 = snd (BdSetBufAddr dev bd (pbuf_payload lw ?l ?p) t)"
  obtain sts t2 where sts: "BdGetSts dev bd t1 = (sts, t2)" by fastforce
  define t3 where "t3 = BdWrite bd XAXIDMA_BD_STS_OFFSET (sts AND XAXIDMA_BD_STS_COMPLETE_MASK) t2"
  define t4 where "t4 = BdSetId bd ?p (BdSetCtrl dev bd 0
    (snd (BdSetLength dev bd (ucast (pbuf_len lw ?l ?p)) t3))) @ [Fls ?p, Fls bd]"
  obtain st r2 t5 where hw: "BdRingToHw dev r1 1 bd t4 = (st, r2, t5)" by (metis surj_pair)
  have plain: "plain_word dev (bd + XAXIDMA_BD_CTRL_LEN_OFFSET)"
    using mem sl by (simp add: rx_memory_def keeps_lengths_def)
  have buf: "?p \<noteq> 0" "pbuf_len lw ?l ?p \<noteq> 0" using pool by (simp_all add: pool_ok_def)
  note filled = rx_bd_filled [OF plain buf(2) t4_def]
  have "IsRxChannel r1" using p1 mem by (simp add: same_place_def rx_memory_def)
  with filled(1) tohw_one [OF _ _ bd(2) plain] taken
  have "fst (BdRingToHw dev r1 1 bd t4) = XST_SUCCESS" by blast
  then have ok: "st = XST_SUCCESS" by (simp add: hw)
  have run: "setup_rx_loop dev lw r (Suc n) t l = setup_rx_loop dev lw r2 n t5 ?l"
    using al [folded bd_def] buf(1) sts hw ok by (simp add: Let_def t1_def t3_def t4_def)
  have "tohw_step r1 1 r2" using hw ok unfolding tohw_step_def by auto
  note moved = tohw_groups [OF conjunct1 [OF taken] this]
  have groups: "ring_inv r2" "post_group r2 = post_group r" "pre_group r2 = []"
    "free_group r2 = tl (free_group r)" "hw_group r2 = hw_group r @ [bd]"
  proof -
    have "hw_group r1 = hw_group r" "post_group r1 = post_group r" "free_group r1 = drop 1 (free_group r)"
      using taken by auto
    with moved bd(2) show "ring_inv r2" "post_group r2 = post_group r" "pre_group r2 = []"
      "free_group r2 = tl (free_group r)" "hw_group r2 = hw_group r @ [bd]"
      by (simp_all add: drop_Suc)
  qed
  have names: "named t5 (hw_group r) = named t (hw_group r)" "last_write t5 (bd + XAXIDMA_BD_ID_OFFSET) = Some ?p"
  proof -
    have w14: "only_writes {bd + f | f. f \<in> bd_fields} t t4"
    proof -
      have "only_writes {bd + f | f. f \<in> bd_fields} t t1"
        unfolding t1_def by (rule only_writes_mono [OF bd_access(1)]) auto
      moreover have "only_writes {bd + f | f. f \<in> bd_fields} t1 t2"
        using bd_access(5) [of t1 dev bd] sts by (auto intro: only_writes_mono)
      moreover have "only_writes {bd + f | f. f \<in> bd_fields} t2 t3"
        unfolding t3_def by (rule only_writes_mono [OF bd_access(9)]) auto
      moreover have "only_writes {bd + f | f. f \<in> bd_fields} t3 t4"
        unfolding t4_def by (rule only_writes_mono [OF rx_bd_writes]) auto
      ultimately show ?thesis by (meson only_writes_trans)
    qed
    have w45: "only_writes (fields r {XAXIDMA_BD_STS_OFFSET} \<union> tail_register r) t4 t5"
      using tohw_writes [OF _ hw] taken same_place_fields [OF p1] same_place_tail [OF p1] by simp
    have safe: "slot r j + XAXIDMA_BD_ID_OFFSET \<notin> fields r {XAXIDMA_BD_STS_OFFSET} \<union> tail_register r" for j
      using mem by (auto simp: fields_def field_inject [OF g w] tail_register_def rx_memory_def tail_apart_def)
    show "last_write t5 (bd + XAXIDMA_BD_ID_OFFSET) = Some ?p"
      using only_writes_last [OF w45 safe [of i]] filled(2) sl by simp
    have "last_write t5 (x + XAXIDMA_BD_ID_OFFSET) = last_write t (x + XAXIDMA_BD_ID_OFFSET)"
      if x: "x \<in> set (hw_group r)" for x
    proof -
      from x obtain j where j: "x = slot r j" using group_slots [OF inv] by auto
      have "x \<noteq> bd" using x \<open>bd \<in> set (free_group r)\<close> groups_partition [OF inv] by auto
      then have "x + XAXIDMA_BD_ID_OFFSET \<notin> {bd + f | f. f \<in> bd_fields}"
        unfolding j sl by (auto simp: field_inject [OF g w])
      with only_writes_last [OF w14] only_writes_last [OF w45 safe [of j]] j show ?thesis by simp
    qed
    then show "named t5 (hw_group r) = named t (hw_group r)" by (simp add: named_def)
  qed
  have "same_place r r2" using same_place_trans [OF p1 same_place_tohw [OF hw]] .
  moreover have "named t5 (hw_group r2) = named t (hw_group r) @ [Some ?p]"
    using names groups(5) by (simp add: named_def)
  ultimately show ?thesis using run groups bd(1) by blast
qed

lemma refill:
  "ring_inv r \<Longrightarrow> pre_group r = [] \<Longrightarrow> n \<le> length (free_group r) \<Longrightarrow> rx_memory dev r \<Longrightarrow> pool_ok lw \<Longrightarrow>
   setup_rx_loop dev lw r n t l = (r', t', l') \<Longrightarrow>
   \<exists>fresh. length fresh = n \<and> l' = l @ map Pbuf_alloc fresh \<and> ring_inv r' \<and> same_place r r' \<and>
     post_group r' = post_group r \<and> pre_group r' = [] \<and> free_group r' = drop n (free_group r) \<and>
     hw_group r' = hw_group r @ take n (free_group r) \<and>
     named t' (hw_group r') = named t (hw_group r) @ map Some fresh"
proof (induction n arbitrary: r t l)
  case 0
  then show ?case by (simp add: placed)
next
  case (Suc n)
  have "free_group r \<noteq> []" using Suc.prems(3) by auto
  from refill_round [OF Suc.prems(1,2) this Suc.prems(4,5), of n t l] obtain r1 t1 where
    run: "setup_rx_loop dev lw r (Suc n) t l = setup_rx_loop dev lw r1 n t1 (l @ [Pbuf_alloc (pbuf_alloc lw l)])"
    and r1: "ring_inv r1" "same_place r r1" "post_group r1 = post_group r" "pre_group r1 = []"
    "free_group r1 = tl (free_group r)" "hw_group r1 = hw_group r @ [hd (free_group r)]"
    "named t1 (hw_group r1) = named t (hw_group r) @ [Some (pbuf_alloc lw l)]" by blast
  have "n \<le> length (free_group r1)" using Suc.prems(3) r1(5) by simp
  moreover have "setup_rx_loop dev lw r1 n t1 (l @ [Pbuf_alloc (pbuf_alloc lw l)]) = (r', t', l')"
    using Suc.prems(6) run by (simp only:)
  ultimately obtain fresh where f: "length fresh = n" "l' = (l @ [Pbuf_alloc (pbuf_alloc lw l)]) @ map Pbuf_alloc fresh"
    "ring_inv r'" "same_place r1 r'" "post_group r' = post_group r1" "pre_group r' = []"
    "free_group r' = drop n (free_group r1)" "hw_group r' = hw_group r1 @ take n (free_group r1)"
    "named t' (hw_group r') = named t1 (hw_group r1) @ map Some fresh"
    using Suc.IH [OF r1(1,4) _ rx_memory_kept [OF r1(2) Suc.prems(4)] Suc.prems(5)] by blast
  obtain x xs where fr: "free_group r = x # xs" using \<open>free_group r \<noteq> []\<close> by (cases "free_group r") auto
  show ?case
    using f r1 fr same_place_trans [OF r1(2) f(4)]
    by (intro exI [of _ "pbuf_alloc lw l # fresh"]) simp
qed

section \<open>The handler\<close>

text \<open>A receive channel at work: every descriptor is with the engine and names its buffer.\<close>

definition rx_armed :: "XAxiDma_BdRing \<Rightarrow> bool" where
  "rx_armed r \<longleftrightarrow> ring_inv r \<and> PostCnt r = 0 \<and> PreCnt r = 0 \<and> FreeCnt r = 0"

lemma rx_armed_groups: "rx_armed r \<longleftrightarrow> ring_inv r \<and> post_group r = [] \<and> pre_group r = [] \<and> free_group r = []"
proof -
  have "PostCnt r = 0 \<and> PreCnt r = 0 \<and> FreeCnt r = 0 \<longleftrightarrow> post_group r = [] \<and> pre_group r = [] \<and> free_group r = []"
    if "ring_inv r"
  proof -
    from that obtain i a b c d where s: "ring_shape r i a b c d" by (elim ring_invE)
    then show ?thesis by (auto simp: shape_groups [OF s]) (auto simp: ring_shape_def)
  qed
  then show ?thesis by (auto simp: rx_armed_def)
qed

definition rx_apart :: "xaxiemacif \<Rightarrow> bool" where
  "rx_apart e \<longleftrightarrow> (\<forall>i. slot (rx_ring e) i + XAXIDMA_BD_ID_OFFSET \<notin> eth_registers e)"

lemma named_unwritten:
  assumes "ring_inv r" and "only_writes A t t'" and "\<And>i. slot r i + XAXIDMA_BD_ID_OFFSET \<notin> A"
  shows "named t' (hw_group r) = named t (hw_group r)"
  using named_kept [OF assms(2,3)] group_slots(1) [OF assms(1)] by blast

lemma rx_service_delivers:
  assumes armed: "rx_armed r" and mem: "rx_memory dev r" and pool: "pool_ok lw" and q: "pq_ok q"
    and names: "named t (hw_group r) = map Some ids"
    and collected: "BdRingFromHw dev r XAXIDMA_ALL_BDS t = (n, p, r1, t1)"
    and delivered: "recv_loop dev lw r1 (nat n) p q t1 l = (q', t2, l2)"
    and freed: "BdRingFree r1 n p = (st, r2)"
    and refilled: "setup_rx_bds dev lw r2 t2 l2 = (r', t', l')"
  shows "\<exists>lens fresh. nat n \<le> length ids \<and> length lens = nat n \<and> length fresh = nat n \<and>
    l' = l @ deliveries (128 - length (pq_contents q)) (zip (take (nat n) ids) lens) @ map Pbuf_alloc fresh \<and>
    pq_ok q' \<and> pq_contents q' = pq_contents q @ take (128 - length (pq_contents q)) (take (nat n) ids) \<and>
    rx_armed r' \<and> same_place r r' \<and> named t' (hw_group r') = map Some (drop (nat n) ids @ fresh)"
proof -
  have inv: "ring_inv r" "post_group r = []" and empty: "pre_group r = []" "free_group r = []"
    using armed by (simp_all add: rx_armed_groups)
  from collect [OF inv collected] freed obtain i where n: "0 \<le> n" "nat n \<le> length (hw_group r)"
    and seg: "take (nat n) (hw_group r) = map (slot r) [i..<i + nat n]" "n \<noteq> 0 \<longrightarrow> p = slot r i"
    and r2: "ring_inv r2" "post_group r2 = []" "hw_group r2 = drop (nat n) (hw_group r)"
      "pre_group r2 = []" "free_group r2 = take (nat n) (hw_group r)" "same_place r r2"
    using empty by auto
  have p1: "same_place r r1" using same_place_fromhw [OF collected] .
  have w1: "only_writes {} t t1" using fromhw_writes [OF collected] .
  have len: "length ids = length (hw_group r)" using names by (metis length_map named_def)
  have same: "named t'' bds = named t bds" if "only_writes {} t t''" for t'' bds
    using only_writes_last [OF that] by (simp add: named_def)
  have head: "named t1 (map (slot r) [i..<i + nat n]) = map Some (take (nat n) ids)"
  proof -
    have "named t (take (nat n) (hw_group r)) = map Some (take (nat n) ids)"
      using arg_cong [OF names, of "take (nat n)"] by (simp add: named_def take_map)
    then show ?thesis by (simp only: seg(1) same [OF w1])
  qed
  have g1: "ring_geometry r1"
    using fromhw_groups [OF inv(1), of "nat n" r1] collected n(1) inv_geometry
    unfolding fromhw_step_def by (metis nat_eq_iff2)
  have sl: "slot r1 = slot r" using p1 by (simp add: same_place_def)
  have keeps: "keeps_ids dev r1" using mem same_place_keeps [OF p1] by (simp add: rx_memory_def)
  have "recv_loop dev lw r1 (nat n) (slot r1 i) q t1 l = (q', t2, l2)"
    using delivered seg(2) sl by (cases "n = 0") auto
  from recv_loop_delivers [OF g1 keeps _ q this, of "take (nat n) ids"] head sl obtain lens where
    lens: "length lens = nat n" "l2 = l @ deliveries (128 - length (pq_contents q)) (zip (take (nat n) ids) lens)"
      "pq_ok q'" "pq_contents q' = pq_contents q @ take (128 - length (pq_contents q)) (take (nat n) ids)"
    by auto
  have w2: "only_writes {} t t2" using only_writes_trans [OF w1 recv_loop_writes [OF delivered]] .
  have rest: "named t2 (hw_group r2) = map Some (drop (nat n) ids)"
  proof -
    have "named t (drop (nat n) (hw_group r)) = map Some (drop (nat n) ids)"
      using arg_cong [OF names, of "drop (nat n)"] by (simp add: named_def drop_map)
    then show ?thesis by (simp only: r2(3) same [OF w2])
  qed
  have "nat (FreeCnt r2) = length (free_group r2)"
    using r2(1) by (auto simp: shape_groups elim!: ring_invE) (simp add: ring_shape_def)
  then have "setup_rx_loop dev lw r2 (length (free_group r2)) t2 l2 = (r', t', l')"
    using refilled by (auto simp: setup_rx_bds_def Let_def split: if_splits)
  from refill [OF r2(1,4) order_refl rx_memory_kept [OF r2(6) mem] pool this] obtain fresh where
    f: "length fresh = length (free_group r2)" "l' = l2 @ map Pbuf_alloc fresh" "ring_inv r'"
      "same_place r2 r'" "post_group r' = []" "pre_group r' = []" "free_group r' = []"
      "named t' (hw_group r') = named t2 (hw_group r2) @ map Some fresh"
    using r2(2) by auto
  have "length fresh = nat n" using f(1) r2(5) n(2) by simp
  moreover have "rx_armed r'" using f by (simp add: rx_armed_groups)
  ultimately show ?thesis
    using n len lens f(2,8) rest same_place_trans [OF r2(6) f(4)]
    by (intro exI [of _ lens] exI [of _ fresh]) simp
qed

end
