(* ===== verification/Eth_Network.thy ===== *)
theory Eth_Network
  imports Eth_Receive
begin

text \<open>
  What the adapter does for the network and where it fails, with a small adapter on which the
  statements are applied.
\<close>

section \<open>A small adapter\<close>

text \<open>
  Two rings of two descriptors, the transmit ring empty and the receive ring with the engine,
  and an engine that has completed the first descriptor of each, keeps the words it does not own and shows
  the given interrupts.
\<close>

definition small_ring :: "u32 \<Rightarrow> u32 \<Rightarrow> bool \<Rightarrow> XAxiDma_BdRing" where
  "small_ring first base rx =
     zero_ring\<lparr>ChanBase := base, IsRxChannel := rx, RunState := 1, DataWidth := 4,
       FirstBdPhysAddr := first, FirstBdAddr := first, LastBdAddr := first + 0x40, Length := 0x80,
       Separation := 0x40, FreeHead := first, PreHead := first, HwHead := first,
       HwTail := (if rx then first + 0x40 else first), PostHead := first, BdaRestart := first,
       FreeCnt := (if rx then 0 else 2), HwCnt := (if rx then 2 else 0), AllCnt := 2\<rparr>"

definition small_adapter :: xaxiemacif where
  "small_adapter =
     \<lparr>axidma = zero_dma\<lparr>RegBase := 0x41E20000, HasMm2S := True, HasS2Mm := True, Initialized := True,
        HasSg := True, TxBdRing := small_ring 0x1000 0x41E20000 False,
        RxBdRing := small_ring 0x2000 0x41E20030 True\<rparr>,
      recv_q = \<lparr>pq_data = replicate 128 0, pq_head = 0, pq_tail = 0, pq_len = 0\<rparr>,
      rx_bdspace = 0x2000, tx_bdspace = 0x1000, TemacIntr = 4, AxiDmaRxIntr = 5, AxiDmaTxIntr = 6,
      intc_baseaddr = 0x41200000\<rparr>"

definition small_engine :: "u32 \<Rightarrow> device" where
  "small_engine irq =
     \<lparr>reg = (\<lambda>t a. if a = 0x41E20004 \<or> a = 0x41E20034 then irq
                   else if a = 0x101C \<or> a = 0x201C then 0x84000040
                   else if a AND 0x3F = 0x18 \<or> a AND 0x3F = 0x34
                   then case last_write t a of Some v \<Rightarrow> v | None \<Rightarrow> 0
                   else 0),
      ram = (\<lambda>t a. 0)\<rparr>"

text \<open>An lwIP whose pool is empty at its first use and never again.\<close>

definition small_lwip :: lwip where
  "small_lwip =
     \<lparr>pbuf_alloc = (\<lambda>l. if Pbuf_alloc 0 \<in> set l then 0x9000 else 0), pbuf_payload = (\<lambda>l p. p + 16),
      pbuf_len = (\<lambda>l p. 64), mem_malloc = (\<lambda>l n. 0x10000), input_ok = (\<lambda>l p. True)\<rparr>"

lemma small_slots:
  "slot (small_ring first base rx) i \<in> {first, first + 0x40}"
proof -
  have "i mod 2 < 2" by simp
  then have "i mod 2 \<in> {0, 1}" by (simp only: insert_iff empty_iff) linarith
  then show ?thesis by (auto simp: slot_def ring_size_def small_ring_def)
qed

lemma small_ring_inv:
  assumes "uint first + 128 \<le> 2 ^ 32"
  shows "ring_inv (small_ring first base rx)"
  by (rule ring_invI [of _ 0 0 "if rx then 2 else 0" 0 "if rx then 0 else 2"])
    (use assms in \<open>auto simp: ring_shape_def small_ring_def zero_ring_def ring_geometry_def slot_def ring_size_def
      intro!: exI [of _ "if rx then 1 else 0"]\<close>)

lemma small_fields [simp]:
  "ChanBase (small_ring first base rx) = base" "Separation (small_ring first base rx) = 0x40"
  "tx_ring small_adapter = small_ring 0x1000 0x41E20000 False"
  "rx_ring small_adapter = small_ring 0x2000 0x41E20030 True"
  "RegBase (axidma small_adapter) = 0x41E20000" "intc_baseaddr small_adapter = 0x41200000"
  "HasMm2S (axidma small_adapter)" "HasS2Mm (axidma small_adapter)"
  by (simp_all add: small_ring_def small_adapter_def)

lemma small_ready: "tx_ready (small_engine irq) small_adapter"
proof -
  have apart: "slot (small_ring 0x1000 b x) i + 0x34 \<noteq> slot (small_ring 0x2000 c y) j + f"
    if "f \<in> {0x1C, 8, 0x18, 0x34}" for b x i c y j f
    using small_slots [of "0x1000" b x i] small_slots [of "0x2000" c y j] that by auto
  have regs: "slot (small_ring 0x1000 b x) i + 0x34 \<notin> {0x41E20000, 0x41E20004, 0x41E20030, 0x41E20034,
      0x4120000C, 0x41E20010, 0x41E20040}" for b x i
    using small_slots [of "0x1000" b x i] by auto
  have mem: "plain_word (small_engine irq) (slot (small_ring 0x1000 b x) i + 0x34)" for b x i
    using small_slots [of "0x1000" b x i] by (auto simp: plain_word_def small_engine_def)
  show ?thesis
    unfolding tx_ready_def
  proof (intro conjI)
    show "wide (tx_ring small_adapter)" by (simp add: wide_def)
    show "keeps_ids (small_engine irq) (tx_ring small_adapter)"
      using mem by (simp add: keeps_ids_def)
    show "tx_apart small_adapter"
      using apart regs by (simp add: tx_apart_def eth_registers_def fields_def) blast
    show "rx_ok (rx_ring small_adapter)"
      using small_ring_inv [of "0x2000" "0x41E20030" True]
      by (simp add: rx_ok_def post_group_def) (simp add: small_ring_def zero_ring_def)
  qed
qed

lemma small_groups:
  "hw_group (small_ring first base False) = []" "pre_group (small_ring first base rx) = []"
  "post_group (small_ring first base rx) = []"
  by (simp_all add: hw_group_def pre_group_def post_group_def) (simp_all add: small_ring_def zero_ring_def)

text \<open>The receive descriptors name two buffers, and lwIP always has another one.\<close>

definition named_trace :: trace where
  "named_trace = [Wr 0x2034 0x8000, Wr 0x2074 0x8100]"

definition full_lwip :: lwip where
  "full_lwip = small_lwip\<lparr>pbuf_alloc := (\<lambda>l. 0x9000)\<rparr>"

lemma full_pool: "pool_ok full_lwip"
  by (simp add: pool_ok_def full_lwip_def small_lwip_def)

lemma small_queue: "pq_ok (recv_q small_adapter)"
  by (simp add: pq_ok_def queue_ok_def pq_view_def small_adapter_def)

lemma small_armed: "rx_armed (rx_ring small_adapter)"
  using small_ring_inv [of "0x2000" "0x41E20030" True]
  by (simp add: rx_armed_def) (simp add: small_ring_def zero_ring_def)

lemma small_named:
  "named named_trace (hw_group (rx_ring small_adapter)) = map Some [0x8000, 0x8100]"
  by code_simp

lemma small_memory: "rx_memory (small_engine irq) (rx_ring small_adapter)"
proof -
  have "plain_word (small_engine irq) (slot (small_ring 0x2000 b x) i + f)" if "f \<in> {0x34, 0x18}" for b x i f
    using small_slots [of "0x2000" b x i] that by (auto simp: plain_word_def small_engine_def)
  moreover have "slot (small_ring 0x2000 b x) i + 0x34 \<noteq> 0x41E20040" for b x i
    using small_slots [of "0x2000" b x i] by auto
  moreover have "IsRxChannel (small_ring 0x2000 b True)" for b by (simp add: small_ring_def)
  ultimately show ?thesis
    by (simp add: rx_memory_def wide_def keeps_ids_def keeps_lengths_def tail_apart_def)
qed

lemma small_apart: "rx_apart small_adapter"
proof -
  have "slot (small_ring 0x2000 b x) i + 0x34 \<notin> {0x41E20000, 0x41E20004, 0x41E20030, 0x41E20034, 0x4120000C}" for b x i
    using small_slots [of "0x2000" b x i] by auto
  then show ?thesis by (simp add: rx_apart_def eth_registers_def)
qed

section \<open>Reception\<close>

text \<open>C6: the receive handler in normal operation. When lwIP has buffers, a receive interrupt takes
  the completed descriptors at the front, hands the frames in their buffers to lwIP one after the
  other in the order of reception (queued and announced with one signal each, or freed when the
  queue of 128 is full, never both and none skipped), and gives each of the descriptors back to the
  engine with a fresh buffer: before and after, every descriptor is with the engine and names the
  buffer it receives into, the old ones first.\<close>

theorem receive_handler_delivers:
  assumes "rx_armed (rx_ring e)" and "rx_memory dev (rx_ring e)" and "rx_apart e" and "pool_ok lw"
    and "pq_ok (recv_q e)" and "named t (hw_group (rx_ring e)) = map Some ids"
    and "rx_irq dev e t AND XAXIDMA_IRQ_ERROR_MASK = 0"
    and "rx_irq dev e t AND (XAXIDMA_IRQ_DELAY_MASK OR XAXIDMA_IRQ_IOC_MASK) \<noteq> 0"
    and "axidma_recv_handler dev lw e t l = (e', t', l')"
  shows "\<exists>n lens fresh. n \<le> length ids \<and> length lens = n \<and> length fresh = n \<and>
    l' = l @ deliveries (128 - length (pq_contents (recv_q e))) (zip (take n ids) lens) @ map Pbuf_alloc fresh \<and>
    pq_contents (recv_q e') =
      pq_contents (recv_q e) @ take (128 - length (pq_contents (recv_q e))) (take n ids) \<and>
    (\<exists>t0 p r1 t1. BdRingFromHw dev (rx_ring e) XAXIDMA_ALL_BDS t0 = (int n, p, r1, t1)) \<and>
    pq_ok (recv_q e') \<and> rx_armed (rx_ring e') \<and>
    named t' (hw_group (rx_ring e')) = map Some (drop n ids @ fresh)"
proof -
  let ?r = "rx_ring e"
  define t1 where "t1 = BdRingIntDisable dev ?r XAXIDMA_IRQ_ALL_MASK (XIntc_AckIntr (intc_baseaddr e) (push_bit (AxiDmaRxIntr e) 1) t)"
  obtain irq t2 where irq: "BdRingGetIrq dev ?r t1 = (irq, t2)" by fastforce
  define t3 where "t3 = BdRingAckIrq ?r irq t2"
  have "only_writes (eth_registers e) t t1"
    unfolding t1_def
    by (rule only_writes_trans [OF only_writes_mono [OF irq_access(5)] only_writes_mono [OF irq_access(4)]])
      (auto simp: eth_registers_def)
  moreover have "only_writes (eth_registers e) t1 t2"
    using irq_access(1) [of t1 dev ?r] irq by (auto intro: only_writes_mono)
  moreover have "only_writes (eth_registers e) t2 t3"
    unfolding t3_def by (rule only_writes_mono [OF irq_access(2)]) (auto simp: eth_registers_def)
  ultimately have w3: "only_writes (eth_registers e) t t3" by (meson only_writes_trans)
  have inv: "ring_inv ?r" using assms(1) by (simp add: rx_armed_def)
  have names: "named t3 (hw_group ?r) = map Some ids"
    using named_unwritten [OF inv w3] assms(3,6) by (simp add: rx_apart_def)
  have st: "irq AND XAXIDMA_IRQ_ERROR_MASK = 0" "irq AND (XAXIDMA_IRQ_DELAY_MASK OR XAXIDMA_IRQ_IOC_MASK) \<noteq> 0"
    using assms(7,8) irq by (simp_all add: rx_irq_def t1_def)
  obtain n p r1 t4 where f: "BdRingFromHw dev ?r XAXIDMA_ALL_BDS t3 = (n, p, r1, t4)" by (metis surj_pair)
  obtain k where k: "n = int k" using fromhw_count_nonneg [OF f] nonneg_int_cases by blast
  obtain q t5 l5 where rl: "recv_loop dev lw r1 (nat n) p (recv_q e) t4 l = (q, t5, l5)" by (metis surj_pair)
  obtain s r2 where fr: "BdRingFree r1 n p = (s, r2)" by fastforce
  obtain r' t6 l6 where su: "setup_rx_bds dev lw r2 t5 l5 = (r', t6, l6)" by (metis surj_pair)
  have eq: "e' = (set_rx_ring r' e)\<lparr>recv_q := q\<rparr>" "t' = BdRingIntEnable dev r' XAXIDMA_IRQ_ALL_MASK t6" "l' = l6"
    using st assms(9) irq [unfolded t1_def] f [unfolded t3_def] rl fr su
    by (simp_all add: axidma_recv_handler_def set_rx_ring_def)
  from rx_service_delivers [OF assms(1,2,4,5) names f rl fr su] obtain lens fresh where
    d: "k \<le> length ids" "length lens = k" "length fresh = k"
      "l6 = l @ deliveries (128 - length (pq_contents (recv_q e))) (zip (take k ids) lens) @ map Pbuf_alloc fresh"
      "pq_ok q" "pq_contents q = pq_contents (recv_q e) @ take (128 - length (pq_contents (recv_q e))) (take k ids)"
      "rx_armed r'" "same_place ?r r'" "named t6 (hw_group r') = map Some (drop k ids @ fresh)"
    by (auto simp: k)
  have "only_writes (eth_registers e) t6 t'"
    unfolding eq using d(8) by (intro only_writes_mono [OF irq_access(3)]) (auto simp: eth_registers_def same_place_def)
  then have "named t' (hw_group r') = named t6 (hw_group r')"
    using named_unwritten [of r'] d(7,8) assms(3) by (simp add: rx_armed_def rx_apart_def same_place_def)
  moreover have "\<exists>t0 p r1 t1. BdRingFromHw dev ?r XAXIDMA_ALL_BDS t0 = (int k, p, r1, t1)"
    using f k by blast
  ultimately show ?thesis
    using d unfolding eq
    by (intro exI [of _ k] exI [of _ lens] exI [of _ fresh]) (auto simp: set_rx_ring_def)
qed

theorem receive_handler_delivers_witness:
  "\<exists>e t l fresh. axidma_recv_handler (small_engine 0x1000) full_lwip small_adapter named_trace [] = (e, t, l) \<and>
     pq_contents (recv_q e) = [0x8000] \<and> length fresh = 1 \<and>
     named t (hw_group (rx_ring e)) = map Some (0x8100 # fresh)"
proof -
  let ?dev = "small_engine 0x1000" and ?ids = "[0x8000, 0x8100]"
  let ?run = "axidma_recv_handler ?dev full_lwip small_adapter named_trace []"
  obtain e t l where run: "?run = (e, t, l)" by (metis surj_pair)
  have "pq_len (recv_q (fst ?run)) = 1" by code_simp
  then have got: "length (pq_contents (recv_q e)) = 1" using run by (simp add: pq_contents_def pq_view_def)
  have empty: "pq_contents (recv_q small_adapter) = []" by code_simp
  have "rx_irq ?dev small_adapter named_trace AND XAXIDMA_IRQ_ERROR_MASK = 0"
    "rx_irq ?dev small_adapter named_trace AND (XAXIDMA_IRQ_DELAY_MASK OR XAXIDMA_IRQ_IOC_MASK) \<noteq> 0" by code_simp+
  from receive_handler_delivers [OF small_armed small_memory small_apart full_pool small_queue small_named this run]
  obtain n fresh where "named t (hw_group (rx_ring e)) = map Some (drop n ?ids @ fresh)" "length fresh = n"
    "pq_contents (recv_q e) = pq_contents (recv_q small_adapter) @
       take (128 - length (pq_contents (recv_q small_adapter))) (take n ?ids)"
    by blast
  moreover from this(3) got have "n = 1" by (simp add: empty min_def split: if_splits)
  ultimately show ?thesis using run by (auto simp: empty)
qed

text \<open>C23: when the pool is empty once, so that \<open>pbuf_alloc\<close> fails in \<open>_setup_rx_bds\<close>, the descriptor
  taken for the buffer is not given back, and the receive channel never gets a buffer again:
  whatever happens afterwards, and however many buffers are free by then, the descriptors that the
  engine owns are some of those it owned after the failure, fewer after each received frame.\<close>

theorem receiver_starves:
  assumes "rx_ok (rx_ring e)" and "axidma_recv_handler dev lw e t l = (e1, t1, l @ calls)"
    and "Pbuf_alloc 0 \<in> set calls" and "eth_run dev lw evs (e1, t1, l @ calls) = (e2, t2, l2)"
  shows "0 < PreCnt (rx_ring e2) \<and> (\<exists>k. hw_group (rx_ring e2) = drop k (hw_group (rx_ring e1)))"
proof -
  from recv_handler_result [OF assms(1,2)] assms(3) have "rx_ok (rx_ring e1)" "jammed (rx_ring e1)" by auto
  from jammed_run [OF assms(4) this] show ?thesis
    by (auto simp: jammed_def pre_group_def intro: ccontr)
qed

theorem receiver_starves_witness:
  "\<exists>e1 t1 calls e2 t2 l2. axidma_recv_handler (small_engine 0x1000) small_lwip small_adapter [] [] = (e1, t1, calls) \<and>
     Pbuf_alloc 0 \<in> set calls \<and>
     eth_run (small_engine 0x1000) small_lwip [Rx_interrupt, Input, Rx_interrupt] (e1, t1, calls) = (e2, t2, l2) \<and>
     0 < PreCnt (rx_ring e2)"
proof -
  let ?dev = "small_engine 0x1000"
  let ?first = "axidma_recv_handler ?dev small_lwip small_adapter [] []"
  have empty: "Pbuf_alloc 0 \<in> set (snd (snd ?first))" by code_simp
  obtain e1 t1 calls where first: "?first = (e1, t1, calls)" by (metis surj_pair)
  obtain e2 t2 l2 where
    run: "eth_run ?dev small_lwip [Rx_interrupt, Input, Rx_interrupt] (e1, t1, calls) = (e2, t2, l2)"
    by (metis surj_pair)
  have "rx_ok (rx_ring small_adapter)" using small_ready by (simp add: tx_ready_def)
  then have "0 < PreCnt (rx_ring e2)"
    using receiver_starves [of small_adapter ?dev small_lwip "[]" "[]" e1 t1 calls "[Rx_interrupt, Input, Rx_interrupt]" e2 t2 l2]
      first empty run by (simp del: eth_run.simps)
  with first empty run show ?thesis by auto
qed

section \<open>Transmission\<close>

text \<open>C5: in every run of the adapter the references that \<open>axidma_sgsend\<close> takes of the buffers of
  sent frames are given back by the send handler one for one and in the same order; the ones not
  given back yet are exactly the buffers named in the transmit descriptors that are with the engine
  or stuck in preparation, failed sends and resets of the engine included. (The engine must leave
  the identifier words alone, and nothing else may write them.)\<close>

theorem sent_buffers_released_in_order:
  assumes "ring_inv (tx_ring e)" and "HwCnt (tx_ring e) = 0" and "PreCnt (tx_ring e) = 0"
    and "PostCnt (tx_ring e) = 0" and "tx_ready dev e" and "\<forall>ev\<in>set evs. spares e ev"
    and "eth_run dev lw evs (e, t, l) = (e', t', l')"
    and "calls = tx_calls dev lw evs (e, t, l)"
  shows "\<exists>pending. referenced calls = released calls @ pending \<and>
    named t' (hw_group (tx_ring e') @ pre_group (tx_ring e')) = map Some pending \<and>
    int (length pending) = HwCnt (tx_ring e') + PreCnt (tx_ring e')"
proof -
  have "tx_holds (tx_ring e) t []"
    using assms(1-4) by (simp add: tx_holds_def named_def hw_group_def pre_group_def post_group_def)
  from tx_run [OF assms(7,5) this assms(6)] assms(8) obtain pending where
    p: "tx_holds (tx_ring e') t' pending" "referenced calls = released calls @ pending" by auto
  have "length pending = length (hw_group (tx_ring e') @ pre_group (tx_ring e'))"
    using p(1) by (metis tx_holds_def length_map named_def)
  moreover from p(1) obtain i a b c d where "ring_shape (tx_ring e') i a b c d"
    by (auto simp: tx_holds_def elim: ring_invE)
  ultimately have "int (length pending) = HwCnt (tx_ring e') + PreCnt (tx_ring e')"
    by (simp add: shape_groups) (simp add: ring_shape_def)
  with p show ?thesis by (auto simp: tx_holds_def)
qed

theorem sent_buffers_released_in_order_witness:
  "\<exists>e t l calls. eth_run (small_engine 0x1000) small_lwip
       [Output [0x8000], Tx_interrupt, Output [0x8100]] (small_adapter, [], []) = (e, t, l) \<and>
     calls = tx_calls (small_engine 0x1000) small_lwip
       [Output [0x8000], Tx_interrupt, Output [0x8100]] (small_adapter, [], []) \<and>
     released calls = [0x8000] \<and> referenced calls = released calls @ [0x8100] \<and>
     named t (hw_group (tx_ring e) @ pre_group (tx_ring e)) = [Some 0x8100]"
proof -
  let ?dev = "small_engine 0x1000"
  let ?evs = "[Output [0x8000], Tx_interrupt, Output [0x8100]]"
  define calls where "calls = tx_calls ?dev small_lwip ?evs (small_adapter, [], [])"
  have "calls = [Pbuf_ref 0x8000, Pbuf_free 0x8000, Pbuf_ref 0x8100]" unfolding calls_def by code_simp
  then have calls: "released calls = [0x8000]" "referenced calls = [0x8000, 0x8100]"
    by (simp_all add: released_def referenced_def)
  obtain e t l where run: "eth_run ?dev small_lwip ?evs (small_adapter, [], []) = (e, t, l)" by (metis surj_pair)
  have "ring_inv (tx_ring small_adapter)" "\<forall>ev\<in>set ?evs. spares small_adapter ev"
    using small_ring_inv [of "0x1000" "0x41E20000" False] by simp_all
  moreover have "HwCnt (tx_ring small_adapter) = 0" "PreCnt (tx_ring small_adapter) = 0"
    "PostCnt (tx_ring small_adapter) = 0" by code_simp+
  ultimately obtain pending where "referenced calls = released calls @ pending"
    "named t (hw_group (tx_ring e) @ pre_group (tx_ring e)) = map Some pending"
    using sent_buffers_released_in_order [OF _ _ _ _ small_ready _ run calls_def] by blast
  with calls run calls_def show ?thesis by auto
qed

section \<open>Errors\<close>

text \<open>An error interrupt of either channel is the end of the network: the handler resets the
  engine and nothing initialises it again. From then on both channels stay marked as halted, and
  whatever the adapter is asked to do it writes only descriptors in memory and the control, status
  and acknowledge registers, never a tail pointer, so that the engine is not told of any descriptor
  any more. \<open>low_level_output\<close> goes on to report frames as sent as long as there are free descriptors.\<close>

theorem error_interrupt_is_final:
  assumes "tx_ready dev e" and "tx_holds (tx_ring e) t ids"
    and "HasMm2S (axidma e)" and "HasS2Mm (axidma e)"
    and "ev = Tx_interrupt \<and> tx_irq dev e t AND XAXIDMA_IRQ_ERROR_MASK \<noteq> 0 \<or>
      ev = Rx_interrupt \<and> rx_irq dev e t AND XAXIDMA_IRQ_ERROR_MASK \<noteq> 0"
    and "handle_eth dev lw ev (e, t, l) = (e1, t1, l1)"
    and "\<forall>x\<in>set evs. inside x" and "eth_run dev lw evs (e1, t1, l1) = (e2, t2, l2)"
  shows "RunState (tx_ring e2) = AXIDMA_CHANNEL_HALTED \<and> RunState (rx_ring e2) = AXIDMA_CHANNEL_HALTED \<and>
    only_writes (fields (tx_ring e) bd_fields \<union> fields (rx_ring e) bd_fields \<union> eth_registers e) t1 t2 \<and>
    (FreeCnt (tx_ring e2) \<noteq> 0 \<longrightarrow> fst (low_level_output dev lw e2 p t2 l2) = ERR_OK)"
proof -
  have "spares e ev" using assms(5) by auto
  from tx_step [OF assms(1,2) this assms(6) refl] obtain ids1 where
    st: "settled e e1" "rx_ok (rx_ring e1)" "tx_holds (tx_ring e1) t1 ids1" by blast
  have "halted e1" using error_halts [OF assms(5,3,4,6)] by simp
  from halted_run [OF assms(8) tx_ready_kept [OF assms(1) st(1,2)] st(3) assms(7) this] settled_sets [OF st(1)]
  show ?thesis
    by (auto simp: halted_def low_level_output_def is_tx_space_available_def split: prod.splits)
qed

theorem error_interrupt_is_final_witness:
  "\<exists>e1 t1 l1 e2 t2 l2. handle_eth (small_engine 0x4000) small_lwip Rx_interrupt (small_adapter, [], []) = (e1, t1, l1) \<and>
     eth_run (small_engine 0x4000) small_lwip [Output [0x8000], Rx_interrupt] (e1, t1, l1) = (e2, t2, l2) \<and>
     RunState (tx_ring e2) = AXIDMA_CHANNEL_HALTED \<and> FreeCnt (tx_ring e2) = 1 \<and>
     fst (low_level_output (small_engine 0x4000) small_lwip e2 [0x8100] t2 l2) = ERR_OK"
proof -
  let ?dev = "small_engine 0x4000"
  obtain e1 t1 l1 where first: "handle_eth ?dev small_lwip Rx_interrupt (small_adapter, [], []) = (e1, t1, l1)"
    by (metis surj_pair)
  obtain e2 t2 l2 where run: "eth_run ?dev small_lwip [Output [0x8000], Rx_interrupt] (e1, t1, l1) = (e2, t2, l2)"
    by (metis surj_pair)
  have "FreeCnt (tx_ring (fst (eth_run ?dev small_lwip [Rx_interrupt, Output [0x8000], Rx_interrupt]
      (small_adapter, [], [])))) = 1" by code_simp
  then have free: "FreeCnt (tx_ring e2) = 1" using first run by simp
  have "tx_holds (tx_ring small_adapter) [] []"
    using small_ring_inv [of "0x1000" "0x41E20000" False] by (simp add: tx_holds_def named_def small_groups)
  moreover have "rx_irq ?dev small_adapter [] AND XAXIDMA_IRQ_ERROR_MASK \<noteq> 0" by code_simp
  ultimately have "RunState (tx_ring e2) = AXIDMA_CHANNEL_HALTED \<and>
      (FreeCnt (tx_ring e2) \<noteq> 0 \<longrightarrow> fst (low_level_output ?dev small_lwip e2 [0x8100] t2 l2) = ERR_OK)"
    using error_interrupt_is_final [OF small_ready _ _ _ _ first _ run] by simp
  with first run free show ?thesis by auto
qed

end
