(* ===== verification/Eth_Start.thy ===== *)
theory Eth_Start
  imports Eth_Network
begin

text \<open>Bringing the adapter up: the memory of the descriptors and \<open>init_axi_dma\<close>.\<close>

section \<open>Memory for the descriptors\<close>

lemma clear_low_bits: "uint (x AND NOT 127 :: u32) = uint x div 128 * 128"
proof -
  have "(127 :: u32) = mask 7" by (simp add: mask_eq_exp_minus_1)
  moreover have "x AND NOT (mask 7) = push_bit 7 (drop_bit 7 x)"
    by (rule bit_word_eqI) (auto simp: bit_simps simp del: mask_numeral)
  ultimately have "x AND NOT 127 = push_bit 7 (drop_bit 7 x)" by (simp only:)
  then have "uint (x AND NOT 127) = take_bit 32 (push_bit 7 (drop_bit 7 (uint x)))"
    using uint_lt2p [of x]
    by (simp only: unsigned_push_bit_eq unsigned_drop_bit_eq) (simp add: take_bit_int_eq_self)
  also have "push_bit 7 (drop_bit 7 (uint x)) = uint x div 128 * 128"
    by (simp add: push_bit_eq_mult drop_bit_eq_div)
  also have "take_bit 32 (uint x div 128 * 128) = uint x div 128 * 128"
  proof (rule take_bit_int_eq_self)
    have "uint x div 128 * 128 \<le> uint x" by presburger
    with uint_lt2p [of x] show "uint x div 128 * 128 < 2 ^ 32" by simp
  qed (simp add: pos_imp_zdiv_nonneg_iff)
  finally show ?thesis .
qed

lemma separation_128: "bd_separation 128 = 128"
  by (simp add: bd_separation_def)

text \<open>
  64 descriptors of 128 bytes are 8192 bytes, and 1024 more are asked for; \<open>m\<close> is what
  \<open>mem_malloc\<close> answers.
\<close>

lemma alloc_bdspace_result:
  assumes "mem_malloc lw l 9216 = m" and "uint m + 9216 \<le> 2 ^ 32"
  shows "\<exists>a. alloc_bdspace lw 64 l = (Some a, l @ [Mem_malloc 9216 m]) \<and> uint a mod 128 = 0 \<and>
    uint m < uint a \<and> uint a + 8192 \<le> uint m + 9216 \<and> (m = 0 \<longrightarrow> a = 0x80)"
proof -
  define a where "a = (m + 128) AND NOT 127"
  have low: "m + 128 AND - 128 = a" by (simp add: a_def)
  have um: "uint (m + 128) = uint m + 128"
    using assms(2) by (subst uint_add_lem [THEN iffD1]) simp_all
  have ua: "uint a = (uint m + 128) div 128 * 128" by (simp only: a_def clear_low_bits um)
  have lo: "uint m < uint a" and hi: "uint a \<le> uint m + 128"
    unfolding ua by (simp_all add: div_times_less_eq_dividend)
  have u1: "uint (a + 8192) = uint a + 8192" "uint (m + 8192) = uint m + 8192"
    using hi assms(2) by (subst uint_add_lem [THEN iffD1]; simp)+
  have u2: "uint (m + 8448) = uint m + 8448"
    using assms(2) by (subst uint_add_lem [THEN iffD1]) simp_all
  have "a > m" "a + 8192 < m + 8448"
    using lo hi u1 u2 by (simp_all add: word_less_def)
  then have "alloc_bdspace lw 64 l = (Some a, l @ [Mem_malloc 9216 m])"
    using assms(1) low by (simp add: alloc_bdspace_def separation_128 Let_def add.commute [of m])
  moreover have "m = 0 \<Longrightarrow> a = 0x80" by (simp add: a_def)
  moreover have "uint a mod 128 = 0" by (simp add: ua)
  ultimately show ?thesis using lo hi assms(2) by auto
qed

section \<open>The rings after creation\<close>

text \<open>What \<open>XAxiDma_BdRingCreate\<close> with the parameters of the adapter leaves.\<close>

definition fresh_ring :: "XAxiDma_BdRing \<Rightarrow> bool" where
  "fresh_ring r \<longleftrightarrow> ring_inv r \<and> AllCnt r = 64 \<and> FreeCnt r = 64 \<and> HwCnt r = 0 \<and> PreCnt r = 0 \<and> PostCnt r = 0 \<and>
     RunState r = AXIDMA_CHANNEL_HALTED \<and> Separation r = 128 \<and> BdaRestart r = slot r 0"

lemma create_result:
  assumes run: "BdRingCreate r a a 128 64 t = (st, r', t')" and "uint a mod 128 = 0" and "uint a + 8192 \<le> 2 ^ 32"
  shows "st = XST_SUCCESS \<and> fresh_ring r' \<and> ChanBase r' = ChanBase r \<and> IsRxChannel r' = IsRxChannel r \<and>
    FirstBdAddr r' = a"
proof -
  have "a mod 128 = 0" using assms(2) by (simp add: word_uint_eq_iff uint_mod)
  moreover have "\<not> a + 8192 - 1 < a"
  proof -
    have "uint (a + 8191) = uint a + 8191"
      using assms(3) by (subst uint_add_lem [THEN iffD1]) simp_all
    then show ?thesis by (simp add: word_less_def add.commute)
  qed
  ultimately have st: "st = XST_SUCCESS"
    using run by (auto simp: BdRingCreate_def separation_128 Let_def split: prod.splits)
  have "uint (128 :: u32) * 64 < 2 ^ 32" by simp
  note ring = create_ring [OF run [unfolded st] this]
  have fields: "AllCnt r' = 64" "RunState r' = AXIDMA_CHANNEL_HALTED" "BdaRestart r' = a" "ChanBase r' = ChanBase r"
    "IsRxChannel r' = IsRxChannel r"
    using run [unfolded st] by (auto simp: BdRingCreate_def Let_def split: if_splits prod.splits)
  with st ring show ?thesis by (simp add: fresh_ring_def slot_def)
qed

lemma clone_result:
  "AllCnt r = 64 \<Longrightarrow> FreeCnt r = 64 \<Longrightarrow> RunState r = AXIDMA_CHANNEL_HALTED \<Longrightarrow> fst (BdRingClone dev r tmpl t) = XST_SUCCESS"
  by (simp add: BdRingClone_def split: prod.splits)

section \<open>The first buffers\<close>

lemma init_rx_result:
  "init_rx_loop dev lw r n t l = (res, r', t', l') \<Longrightarrow> ring_inv r \<Longrightarrow> pre_group r = [] \<Longrightarrow>
   ring_inv r' \<and> same_place r r' \<and> BdaRestart r' = BdaRestart r \<and>
   (res = None \<longrightarrow> n \<le> length (free_group r) \<and> pre_group r' = [] \<and> post_group r' = post_group r \<and>
      free_group r' = drop n (free_group r) \<and> hw_group r' = hw_group r @ take n (free_group r))"
proof (induction n arbitrary: r t l)
  case 0
  then show ?case by (simp add: placed)
next
  case (Suc n)
  obtain st p r1 where al: "BdRingAlloc r 1 = (st, p, r1)" by (cases "BdRingAlloc r 1")
  show ?case
  proof (cases "st = XST_SUCCESS")
    case False
    with al Suc.prems alloc_result [OF al] show ?thesis by (auto simp: placed split: xst.splits)
  next
    case True
    with alloc_result [OF al] al obtain bd where al': "BdRingAlloc r (int 1) = (XST_SUCCESS, Some bd, r1)"
      by auto
    note taken = alloc_taken [OF Suc.prems(2) al']
    have p1: "same_place r r1" "BdaRestart r1 = BdaRestart r"
      using same_place_alloc [OF al'] al' by (auto simp: BdRingAlloc_def split: if_splits)
    let ?l = "l @ [Pbuf_alloc (pbuf_alloc lw l)]"
    show ?thesis
    proof (cases "pbuf_alloc lw l = 0")
      case True
      with Suc.prems al' p1 taken show ?thesis by auto
    next
      case False
      then obtain t1 st2 r2 t2 where hw: "BdRingToHw dev r1 1 bd t1 = (st2, r2, t2)"
        and rest: "(if st2 \<noteq> XST_SUCCESS then (Some (Xst XST_FAILURE), r2, t2, ?l) else init_rx_loop dev lw r2 n t2 ?l) = (res, r', t', l')"
        using Suc.prems(1) al' by (auto simp: Let_def split: prod.splits)
      have p2: "same_place r r2" using same_place_trans [OF p1(1) same_place_tohw [OF hw]] .
      have inv2: "ring_inv r2" using tohw_queue [OF _ _ hw] taken by simp
      show ?thesis
      proof (cases "st2 = XST_SUCCESS")
        case ok: False
        with hw have "r2 = r1" using failed_tohw by blast
        with ok rest inv2 p1 show ?thesis by auto
      next
        case ok: True
        then have "tohw_step r1 1 r2" using hw unfolding tohw_step_def by auto
        note moved = tohw_groups [OF conjunct1 [OF taken] this]
        have r1: "hw_group r1 = hw_group r" "post_group r1 = post_group r" "free_group r1 = drop 1 (free_group r)"
          "pre_group r1 = take 1 (free_group r)" using taken Suc.prems(3) by auto
        have r2: "pre_group r2 = []" "post_group r2 = post_group r" "free_group r2 = drop 1 (free_group r)"
          "hw_group r2 = hw_group r @ take 1 (free_group r)"
          using moved r1 by simp_all
        have "BdaRestart r2 = BdaRestart r" using tohw_result [OF hw [unfolded ok]] p1 by auto
        moreover from ok rest have "init_rx_loop dev lw r2 n t2 ?l = (res, r', t', l')" by simp
        note Suc.IH [OF this inv2 r2(1)]
        moreover have "free_group r \<noteq> []" using taken by auto
        then obtain x xs where "free_group r = x # xs" by (cases "free_group r") auto
        ultimately show ?thesis using r2 p2 by (auto intro: same_place_trans)
      qed
    qed
  qed
qed

lemma init_rx_calls: "init_rx_loop dev lw r n t l = (res, r', t', l') \<Longrightarrow> \<exists>calls. l' = l @ calls"
  by (induction n arbitrary: r t l)
    (fastforce simp: Let_def split: xst.splits option.splits prod.splits if_splits)+

lemma init_rx_failed: "init_rx_loop dev lw r n t l = (Some status, r', t', l') \<Longrightarrow> status \<noteq> Lwip 0"
  by (induction n arbitrary: r t l)
    (auto simp: Let_def split: xst.splits option.splits prod.splits if_splits)

section \<open>Starting\<close>

lemma ring_start:
  assumes "ring_geometry r" and "BdaRestart r = slot r j"
  shows "\<exists>st r' t'. BdRingStart dev r t = Some (st, r', t') \<and> (\<exists>n. r' = r\<lparr>RunState := n\<rparr>) \<and>
    (st = XST_SUCCESS \<and> AllCnt r \<noteq> 0 \<longrightarrow> RunState r' = AXIDMA_CHANNEL_NOT_HALTED)"
proof -
  from start_hw_returns [OF assms] have "BdRingStart dev r t \<noteq> None"
    by (auto simp: BdRingStart_def Let_def simp del: not_None_eq split: prod.splits option.splits)
  then obtain st r' t' where run: "BdRingStart dev r t = Some (st, r', t')" by auto
  have "r' = r \<or> (\<exists>n. r' = r\<lparr>RunState := n\<rparr>)" by (rule start_ring [OF run])
  moreover have "r = r\<lparr>RunState := RunState r\<rparr>" by simp
  ultimately have "\<exists>n. r' = r\<lparr>RunState := n\<rparr>" by blast
  moreover have "st = XST_SUCCESS \<and> AllCnt r \<noteq> 0 \<longrightarrow> RunState r' = AXIDMA_CHANNEL_NOT_HALTED"
    using run by (auto simp: BdRingStart_def Let_def machine split: if_splits prod.splits option.splits)
  ultimately show ?thesis using run by blast
qed

section \<open>The engine of the adapter\<close>

definition eth_engine :: "XAxiDma \<Rightarrow> bool" where
  "eth_engine d \<longleftrightarrow> RegBase d = 0x41E20000 \<and> HasMm2S d \<and> HasS2Mm d \<and> HasSg d \<and>
     ChanBase (TxBdRing d) = 0x41E20000 \<and> \<not> IsRxChannel (TxBdRing d) \<and>
     ChanBase (RxBdRing d) = 0x41E20030 \<and> IsRxChannel (RxBdRing d)"

lemma lookup_engine:
  "LookupConfig 0 = Some \<lparr>DeviceId = 0, BaseAddr = 0x41E20000, CfgHasStsCntrlStrm = 1, CfgHasMm2S = True,
       CfgHasMm2SDRE = 1, Mm2SDataWidth = 32, CfgHasS2Mm = True, CfgHasS2MmDRE = 1,
       S2MmDataWidth = 32, CfgHasSg = True\<rparr>"
  by (simp add: LookupConfig_def XAxiDma_ConfigTable_def)

lemma cfg_engine:
  assumes "CfgInitialize dev d (LookupConfig 0) t = (st, d', t')"
  shows "eth_engine d'"
  using assms
  by (auto simp: CfgInitialize_def lookup_engine eth_engine_def Reset_def channel_ring_def
      BdRingSnapShotCurrBd_def zero_dma_def zero_ring_def machine Let_def split: if_splits prod.splits)

definition running :: "xaxiemacif \<Rightarrow> bool" where
  "running e \<longleftrightarrow> eth_engine (axidma e) \<and>
     RunState (tx_ring e) = AXIDMA_CHANNEL_NOT_HALTED \<and> RunState (rx_ring e) = AXIDMA_CHANNEL_NOT_HALTED \<and>
     ring_inv (tx_ring e) \<and> FreeCnt (tx_ring e) = 64 \<and> HwCnt (tx_ring e) = 0 \<and> PreCnt (tx_ring e) = 0 \<and>
     PostCnt (tx_ring e) = 0 \<and> rx_armed (rx_ring e) \<and> HwCnt (rx_ring e) = 64 \<and>
     AllCnt (tx_ring e) = 64 \<and> AllCnt (rx_ring e) = 64 \<and>
     Separation (tx_ring e) = 128 \<and> Separation (rx_ring e) = 128"

lemma start_channels_result:
  assumes tx: "fresh_ring (tx_ring e)" and rx: "ring_geometry (rx_ring e)" "BdaRestart (rx_ring e) = slot (rx_ring e) j"
    and all: "AllCnt (rx_ring e) \<noteq> 0"
  shows "\<exists>st e' t' l'. start_channels dev e t l = Some (st, e', t', l') \<and>
    (st = Lwip 0 \<longrightarrow> l' = connect_interrupts e' l \<and>
      e' = set_rx_ring ((rx_ring e)\<lparr>RunState := AXIDMA_CHANNEL_NOT_HALTED\<rparr>)
        (set_tx_ring ((tx_ring e)\<lparr>RunState := AXIDMA_CHANNEL_NOT_HALTED\<rparr>) e))"
proof -
  have "ring_geometry (tx_ring e)" "BdaRestart (tx_ring e) = slot (tx_ring e) 0" "AllCnt (tx_ring e) \<noteq> 0"
    using tx inv_geometry by (auto simp: fresh_ring_def)
  with ring_start [of "tx_ring e" 0 dev t] obtain st1 r1 t1 n where
    s1: "BdRingStart dev (tx_ring e) t = Some (st1, r1, t1)" "r1 = (tx_ring e)\<lparr>RunState := n\<rparr>"
      "st1 = XST_SUCCESS \<longrightarrow> RunState r1 = AXIDMA_CHANNEL_NOT_HALTED" by auto
  let ?e1 = "set_tx_ring r1 e"
  have same: "rx_ring ?e1 = rx_ring e" by (simp add: set_tx_ring_def)
  from ring_start [OF rx, of dev t1] all obtain st2 r2 t2 m where
    s2: "BdRingStart dev (rx_ring e) t1 = Some (st2, r2, t2)" "r2 = (rx_ring e)\<lparr>RunState := m\<rparr>"
      "st2 = XST_SUCCESS \<longrightarrow> RunState r2 = AXIDMA_CHANNEL_NOT_HALTED" by auto
  show ?thesis
    using s1 s2 by (auto simp: start_channels_def same set_rx_ring_def set_tx_ring_def Let_def split: prod.splits)
qed

lemma start_channels_frame:
  "start_channels dev e t l = Some (st, e', t', l') \<Longrightarrow> rx_bdspace e' = rx_bdspace e \<and> tx_bdspace e' = tx_bdspace e"
  by (auto simp: start_channels_def set_rx_ring_def set_tx_ring_def Let_def split: if_splits option.splits prod.splits)

lemma heap_space:
  assumes "uint m + 9216 \<le> 2 ^ 32" and "m = mem_malloc lw l 9216"
  shows "\<exists>a. alloc_bdspace lw 64 l = (Some a, l @ [Mem_malloc 9216 m]) \<and>
    uint a mod 128 = 0 \<and> 0 < uint a \<and> uint a + 8192 \<le> 2 ^ 32 \<and> (m = 0 \<longrightarrow> a = 0x80)"
proof -
  from alloc_bdspace_result [OF sym [OF assms(2)] assms(1)] obtain a where
    a: "alloc_bdspace lw 64 l = (Some a, l @ [Mem_malloc 9216 m])" "uint a mod 128 = 0"
      "uint m < uint a" "uint a + 8192 \<le> uint m + 9216" "m = 0 \<longrightarrow> a = 0x80" by auto
  have "0 < uint a" using a(3) uint_ge_0 [of m] by linarith
  moreover have "uint a + 8192 \<le> 2 ^ 32" using a(4) assms(1) by (rule order_trans)
  ultimately show ?thesis using a(1,2,5) by simp
qed

lemma fresh_shape:
  "fresh_ring r \<Longrightarrow> ring_inv r \<and> pre_group r = [] \<and> post_group r = [] \<and> hw_group r = [] \<and> length (free_group r) = 64"
  by (auto simp: fresh_ring_def pre_group_def post_group_def hw_group_def shape_groups elim!: ring_invE)
    (simp add: ring_shape_def)

lemma filled_armed:
  assumes inv: "ring_inv r" and "pre_group r = []" "post_group r = []" "free_group r = []" and "length (hw_group r) = n"
  shows "rx_armed r \<and> HwCnt r = int n"
proof -
  from inv obtain i a b c d where s: "ring_shape r i a b c d" by (elim ring_invE)
  with assms show ?thesis
    by (simp add: rx_armed_groups) (simp add: shape_groups [OF s], simp add: ring_shape_def)
qed

text \<open>
  \<open>init_axi_dma\<close> up to the first buffers; \<open>m1\<close> and \<open>m2\<close> are what \<open>mem_malloc\<close> answers.
\<close>

lemma init_prefix:
  assumes m1: "m1 = mem_malloc lw l 9216" "uint m1 + 9216 \<le> 2 ^ 32"
    and m2: "m2 = mem_malloc lw (l @ [Mem_malloc 9216 m1]) 9216" "uint m2 + 9216 \<le> 2 ^ 32"
  shows "\<exists>e2 t2. eth_engine (axidma e2) \<and> fresh_ring (rx_ring e2) \<and> fresh_ring (tx_ring e2) \<and>
    FirstBdAddr (rx_ring e2) = rx_bdspace e2 \<and> FirstBdAddr (tx_ring e2) = tx_bdspace e2 \<and>
    (m1 = 0 \<longrightarrow> rx_bdspace e2 = 0x80) \<and> (m2 = 0 \<longrightarrow> tx_bdspace e2 = 0x80) \<and>
    init_axi_dma dev lw tmpl e t l =
      (let (res, r, t, l) = init_rx_loop dev lw (rx_ring e2) 64 t2 (l @ [Mem_malloc 9216 m1, Mem_malloc 9216 m2]);
           e = set_rx_ring r e2
       in case res of Some status \<Rightarrow> Some (status, e, t, l) | None \<Rightarrow> start_channels dev e t l)"
proof -
  obtain st0 d t0 where cfg: "CfgInitialize dev (axidma e) (LookupConfig 0) t = (st0, d, t0)" by (metis surj_pair)
  note engine = cfg_engine [OF cfg]
  from heap_space [OF m1(2,1)] obtain rx where
    rx: "alloc_bdspace lw 64 l = (Some rx, l @ [Mem_malloc 9216 m1])"
      "uint rx mod 128 = 0" "0 < uint rx" "uint rx + 8192 \<le> 2 ^ 32" "m1 = 0 \<longrightarrow> rx = 0x80" by auto
  from heap_space [OF m2(2,1)] obtain tx where
    tx: "alloc_bdspace lw 64 (l @ [Mem_malloc 9216 m1]) = (Some tx, l @ [Mem_malloc 9216 m1, Mem_malloc 9216 m2])"
      "uint tx mod 128 = 0" "0 < uint tx" "uint tx + 8192 \<le> 2 ^ 32" "m2 = 0 \<longrightarrow> tx = 0x80" by auto
  have nz: "rx \<noteq> 0" "tx \<noteq> 0" using rx(3) tx(3) by auto
  let ?e0 = "e\<lparr>axidma := d, rx_bdspace := rx, tx_bdspace := tx\<rparr>"
  obtain st1 r1 t1 where c1: "BdRingCreate (rx_ring ?e0) rx rx 128 64 (BdClear tmpl t0) = (st1, r1, t1)"
    by (metis surj_pair)
  note R1 = create_result [OF c1 rx(2,4)]
  let ?e1 = "set_rx_ring r1 ?e0"
  obtain st2 t2 where k1: "BdRingClone dev (rx_ring ?e1) tmpl (BdClear tmpl t1) = (st2, t2)" by fastforce
  have st2: "st2 = XST_SUCCESS"
    using clone_result [of "rx_ring ?e1" dev tmpl "BdClear tmpl t1"] k1 R1 by (simp add: set_rx_ring_def fresh_ring_def)
  obtain st3 r3 t3 where c2: "BdRingCreate (tx_ring ?e1) tx tx 128 64 t2 = (st3, r3, t3)" by (metis surj_pair)
  note R3 = create_result [OF c2 tx(2,4)]
  let ?e2 = "set_tx_ring r3 ?e1"
  obtain st4 t4 where k2: "BdRingClone dev (tx_ring ?e2) tmpl t3 = (st4, t4)" by fastforce
  have st4: "st4 = XST_SUCCESS"
    using clone_result [of "tx_ring ?e2" dev tmpl t3] k2 R3 by (simp add: set_tx_ring_def fresh_ring_def)
  let ?t5 = "BdRingIntEnable dev (rx_ring ?e2) XAXIDMA_IRQ_ALL_MASK (BdRingIntEnable dev (tx_ring ?e2) XAXIDMA_IRQ_ALL_MASK t4)"
  have run: "init_axi_dma dev lw tmpl e t l =
      (let (res, r, t, l) = init_rx_loop dev lw (rx_ring ?e2) 64 ?t5 (l @ [Mem_malloc 9216 m1, Mem_malloc 9216 m2]);
           e = set_rx_ring r ?e2
       in case res of Some status \<Rightarrow> Some (status, e, t, l) | None \<Rightarrow> start_channels dev e t l)"
    unfolding init_axi_dma_def using cfg rx(1) tx(1) nz c1 R1 k1 st2 c2 R3 k2 st4
    by (simp add: Let_def case_prod_beta split: option.split)
  have "eth_engine (axidma ?e2)" "fresh_ring (rx_ring ?e2)" "fresh_ring (tx_ring ?e2)"
    "FirstBdAddr (rx_ring ?e2) = rx_bdspace ?e2" "FirstBdAddr (tx_ring ?e2) = tx_bdspace ?e2"
    "m1 = 0 \<longrightarrow> rx_bdspace ?e2 = 0x80" "m2 = 0 \<longrightarrow> tx_bdspace ?e2 = 0x80"
    using engine R1 R3 rx(5) tx(5) by (simp_all add: eth_engine_def set_rx_ring_def set_tx_ring_def)
  with run show ?thesis by blast
qed

text \<open>Every run returns, and one that reports success leaves the adapter running.\<close>

lemma init_run:
  assumes m1: "m1 = mem_malloc lw l 9216" "uint m1 + 9216 \<le> 2 ^ 32"
    and m2: "m2 = mem_malloc lw (l @ [Mem_malloc 9216 m1]) 9216" "uint m2 + 9216 \<le> 2 ^ 32"
  shows "\<exists>st e' t' l'. init_axi_dma dev lw tmpl e t l = Some (st, e', t', l') \<and>
    (m1 = 0 \<longrightarrow> rx_bdspace e' = 0x80) \<and> (m2 = 0 \<longrightarrow> tx_bdspace e' = 0x80) \<and>
    (st = Lwip 0 \<longrightarrow> running e' \<and> FirstBdAddr (rx_ring e') = rx_bdspace e' \<and>
       FirstBdAddr (tx_ring e') = tx_bdspace e' \<and>
       (\<exists>fresh. l' = connect_interrupts e' (l @ [Mem_malloc 9216 m1, Mem_malloc 9216 m2] @ fresh)))"
proof -
  let ?l2 = "l @ [Mem_malloc 9216 m1, Mem_malloc 9216 m2]"
  from init_prefix [OF assms, where dev = dev and tmpl = tmpl and e = e and t = t] obtain e2 t2 where
    e2: "eth_engine (axidma e2)" "fresh_ring (rx_ring e2)" "fresh_ring (tx_ring e2)"
      "FirstBdAddr (rx_ring e2) = rx_bdspace e2" "FirstBdAddr (tx_ring e2) = tx_bdspace e2"
      "m1 = 0 \<longrightarrow> rx_bdspace e2 = 0x80" "m2 = 0 \<longrightarrow> tx_bdspace e2 = 0x80"
    and init: "init_axi_dma dev lw tmpl e t l = (let (res, r, t, l) = init_rx_loop dev lw (rx_ring e2) 64 t2 ?l2;
           e = set_rx_ring r e2
       in case res of Some status \<Rightarrow> Some (status, e, t, l) | None \<Rightarrow> start_channels dev e t l)" by blast
  obtain res r5 t6 l6 where fill: "init_rx_loop dev lw (rx_ring e2) 64 t2 ?l2 = (res, r5, t6, l6)" by (metis surj_pair)
  let ?e3 = "set_rx_ring r5 e2"
  have run: "init_axi_dma dev lw tmpl e t l =
    (case res of Some status \<Rightarrow> Some (status, ?e3, t6, l6) | None \<Rightarrow> start_channels dev ?e3 t6 l6)"
    unfolding init by (simp add: fill Let_def)
  note F = fresh_shape [OF e2(2)]
  note filled = init_rx_result [OF fill conjunct1 [OF F] conjunct1 [OF conjunct2 [OF F]]]
  from init_rx_calls [OF fill] obtain calls where calls: "l6 = ?l2 @ calls" by blast
  show ?thesis
  proof (cases res)
    case (Some status)
    then have "status \<noteq> Lwip 0" using init_rx_failed fill by blast
    with Some run e2(6,7) show ?thesis by (auto simp: set_rx_ring_def)
  next
    case None
    have sp: "same_place (rx_ring e2) r5" and br: "BdaRestart r5 = BdaRestart (rx_ring e2)"
      using filled by simp_all
    have r5: "rx_ring ?e3 = r5" "tx_ring ?e3 = tx_ring e2" by (simp_all add: set_rx_ring_def)
    have g: "ring_geometry (rx_ring ?e3)" using filled inv_geometry by (simp add: r5)
    have b: "BdaRestart (rx_ring ?e3) = slot (rx_ring ?e3) 0" and n: "AllCnt (rx_ring ?e3) \<noteq> 0"
      using e2(2) sp br by (simp_all add: r5 fresh_ring_def same_place_def)
    have "slot r5 0 = slot (rx_ring e2) 0" using sp by (simp add: same_place_def)
    then have first: "FirstBdAddr r5 = rx_bdspace e2" using e2(4) by (simp add: slot_def)
    from start_channels_result [OF e2(3) [folded r5(2)] g b n, of dev t6 l6] obtain st e' t' l' where
      start: "start_channels dev ?e3 t6 l6 = Some (st, e', t', l')"
        "st = Lwip 0 \<longrightarrow> l' = connect_interrupts e' l6 \<and>
          e' = set_rx_ring (r5\<lparr>RunState := AXIDMA_CHANNEL_NOT_HALTED\<rparr>)
            (set_tx_ring ((tx_ring e2)\<lparr>RunState := AXIDMA_CHANNEL_NOT_HALTED\<rparr>) ?e3)"
      unfolding r5 by blast
    have armed: "rx_armed r5 \<and> HwCnt r5 = int 64"
      using filled None F by (intro filled_armed) simp_all
    have c: "ChanBase r5 = 0x41E20030" "IsRxChannel r5" "Separation r5 = 128" "AllCnt r5 = 64"
      using e2(1,2) sp by (simp_all add: eth_engine_def same_place_def fresh_ring_def)
    have good: "running e' \<and> FirstBdAddr (rx_ring e') = rx_bdspace e' \<and> FirstBdAddr (tx_ring e') = tx_bdspace e'"
      if "st = Lwip 0"
      using that start(2) e2 armed c first
      by (auto simp: running_def eth_engine_def fresh_ring_def rx_armed_def wide_def set_rx_ring_def set_tx_ring_def)
    have frame: "rx_bdspace e' = rx_bdspace e2" "tx_bdspace e' = tx_bdspace e2"
      using start_channels_frame [OF start(1)] by (simp_all add: set_rx_ring_def)
    have "l' = connect_interrupts e' (?l2 @ calls)" if "st = Lwip 0" using that start(2) calls by simp
    then have "st = Lwip 0 \<longrightarrow> (\<exists>fresh. l' = connect_interrupts e' (l @ [Mem_malloc 9216 m1, Mem_malloc 9216 m2] @ fresh))"
      by auto
    with run None start(1) good frame e2(6,7) show ?thesis by auto
  qed
qed

text \<open>C24: \<open>init_axi_dma\<close> returns whatever the engine answers, if the memory that \<open>mem_malloc\<close> hands out
  lies below the end of the address space (so that no assertion fails). When it returns 0, both channels
  run, the transmit ring has all its 64 descriptors free, the receive ring has all 64 with the engine,
  and after the two allocations and the buffers the last calls register and
  enable the three interrupts.\<close>

theorem init_axi_dma_ready:
  assumes "uint (mem_malloc lw l 9216) + 9216 \<le> 2 ^ 32"
    and "uint (mem_malloc lw (l @ [Mem_malloc 9216 (mem_malloc lw l 9216)]) 9216) + 9216 \<le> 2 ^ 32"
  shows "\<exists>st e' t' l'. init_axi_dma dev lw tmpl e t l = Some (st, e', t', l') \<and>
    (st = Lwip 0 \<longrightarrow> running e' \<and>
       (\<exists>m1 m2 fresh. l' = connect_interrupts e' (l @ [Mem_malloc 9216 m1, Mem_malloc 9216 m2] @ fresh)))"
  using init_run [OF refl assms(1) refl assms(2), of dev tmpl e t] by blast

text \<open>C37: \<open>init_axi_dma\<close> does not notice that it got no memory: \<open>alloc_bdspace\<close> aligns the \<open>NULL\<close> of
  \<open>mem_malloc\<close> to address 128, which passes the assertions and the test for \<open>NULL\<close>. When both
  allocations fail, both rings lie on the same 64 descriptors at the start of memory, and if
  nothing else goes wrong the initialisation reports success.\<close>

theorem out_of_memory_not_noticed:
  assumes "mem_malloc lw l 9216 = 0" and "mem_malloc lw (l @ [Mem_malloc 9216 0]) 9216 = 0"
  shows "\<exists>st e' t' l'. init_axi_dma dev lw tmpl e t l = Some (st, e', t', l') \<and>
    rx_bdspace e' = 0x80 \<and> tx_bdspace e' = 0x80 \<and>
    (st = Lwip 0 \<longrightarrow> running e' \<and> (\<forall>i<64. slot (rx_ring e') i = slot (tx_ring e') i))"
proof -
  from init_run [OF sym [OF assms(1)] _ sym [OF assms(2)], of dev tmpl e t] obtain st e' t' l' where
    run: "init_axi_dma dev lw tmpl e t l = Some (st, e', t', l')" "rx_bdspace e' = 0x80" "tx_bdspace e' = 0x80"
      "st = Lwip 0 \<longrightarrow> running e' \<and> FirstBdAddr (rx_ring e') = rx_bdspace e' \<and> FirstBdAddr (tx_ring e') = tx_bdspace e'"
    by auto
  then have "st = Lwip 0 \<longrightarrow> running e' \<and> (\<forall>i<64. slot (rx_ring e') i = slot (tx_ring e') i)"
    by (simp add: running_def slot_def ring_size_def)
  with run show ?thesis by blast
qed

section \<open>A run that succeeds\<close>

text \<open>An engine whose registers and descriptors all read 64: running, no interrupts, some length.\<close>

definition calm_engine :: device where
  "calm_engine = \<lparr>reg = (\<lambda>t a. 0x40), ram = (\<lambda>t a. 0)\<rparr>"

lemma calm_tohw:
  assumes "IsRxChannel r" and "PreCnt r = 1" and "PreHead r = bd"
  shows "\<exists>t'. BdRingToHw calm_engine r 1 bd t =
    (XST_SUCCESS, r\<lparr>PreHead := RING_SEEKAHEAD r bd 1, PreCnt := 0, HwTail := bd, HwCnt := HwCnt r + 1\<rparr>, t')"
  using assms by (simp add: BdRingToHw_def BdGetCtrl_def BdGetSts_def BdGetLength_def machine calm_engine_def Let_def)

lemma calm_fill:
  "IsRxChannel r \<Longrightarrow> PreCnt r = 0 \<Longrightarrow> PreHead r = FreeHead r \<Longrightarrow> int n \<le> FreeCnt r \<Longrightarrow> pool_ok lw \<Longrightarrow>
   fst (init_rx_loop calm_engine lw r n t l) = None"
proof (induction n arbitrary: r t l)
  case (Suc n)
  let ?r = "r\<lparr>FreeHead := RING_SEEKAHEAD r (FreeHead r) 1, FreeCnt := FreeCnt r - 1, PreCnt := 1\<rparr>"
  have al: "BdRingAlloc r 1 = (XST_SUCCESS, Some (FreeHead r), ?r)"
    using Suc.prems by (simp add: BdRingAlloc_def)
  have "\<exists>t'. BdRingToHw calm_engine ?r 1 (FreeHead r) t = (XST_SUCCESS,
      ?r\<lparr>PreHead := RING_SEEKAHEAD ?r (FreeHead r) 1, PreCnt := 0, HwTail := FreeHead r, HwCnt := HwCnt ?r + 1\<rparr>, t')" for t
    using Suc.prems(1,3) by (intro calm_tohw) simp_all
  then obtain f where hw: "BdRingToHw calm_engine ?r 1 (FreeHead r) t = (XST_SUCCESS,
      ?r\<lparr>PreHead := RING_SEEKAHEAD ?r (FreeHead r) 1, PreCnt := 0, HwTail := FreeHead r, HwCnt := HwCnt ?r + 1\<rparr>, f t)" for t
    by metis
  have "RING_SEEKAHEAD ?r (FreeHead r) 1 = RING_SEEKAHEAD r (FreeHead r) 1" by (simp add: RING_SEEKAHEAD_def Let_def)
  moreover have "pbuf_alloc lw l \<noteq> 0" for l using Suc.prems(5) by (simp add: pool_ok_def)
  ultimately show ?case using Suc.prems al by (simp add: hw Let_def) (intro Suc.IH, simp_all)
qed simp

lemma fresh_heads:
  assumes "fresh_ring r" shows "PreHead r = FreeHead r"
proof -
  from assms obtain i a b c d where "ring_shape r i a b c d" by (auto simp: fresh_ring_def elim: ring_invE)
  with assms show ?thesis by (auto simp: ring_shape_def fresh_ring_def)
qed

lemma calm_start:
  assumes "AllCnt (tx_ring e) \<noteq> 0" "AllCnt (rx_ring e) \<noteq> 0"
  shows "\<exists>e' t' l'. start_channels calm_engine e t l = Some (Lwip 0, e', t', l')"
proof -
  have "\<exists>r' t'. BdRingStart calm_engine r t = Some (XST_SUCCESS, r', t')" if "AllCnt r \<noteq> 0" for r t
    using that by (simp add: BdRingStart_def BdRingHwIsStarted_def machine calm_engine_def Let_def)
  moreover have "\<exists>t'. BdRingSetCoalesce calm_engine r 1 1 t = (XST_SUCCESS, t')" for r t
    by (simp add: BdRingSetCoalesce_def machine calm_engine_def Let_def)
  moreover have "rx_ring (set_tx_ring r e) = rx_ring e" for r by (simp add: set_tx_ring_def)
  ultimately obtain r1 t1 r2 t2 t3 t4 where
    "BdRingStart calm_engine (tx_ring e) t = Some (XST_SUCCESS, r1, t1)"
    "BdRingStart calm_engine (rx_ring (set_tx_ring r1 e)) t1 = Some (XST_SUCCESS, r2, t2)"
    "BdRingSetCoalesce calm_engine (tx_ring (set_rx_ring r2 (set_tx_ring r1 e))) 1 1 t2 = (XST_SUCCESS, t3)"
    "BdRingSetCoalesce calm_engine (rx_ring (set_rx_ring r2 (set_tx_ring r1 e))) 1 1 t3 = (XST_SUCCESS, t4)"
    using assms by metis
  then show ?thesis by (simp add: start_channels_def Let_def)
qed

lemma calm_init:
  assumes m1: "uint (mem_malloc lw l 9216) + 9216 \<le> 2 ^ 32"
    and m2: "uint (mem_malloc lw (l @ [Mem_malloc 9216 (mem_malloc lw l 9216)]) 9216) + 9216 \<le> 2 ^ 32"
    and pool: "pool_ok lw"
  shows "\<exists>e' t' l'. init_axi_dma calm_engine lw tmpl e t l = Some (Lwip 0, e', t', l')"
proof -
  let ?l2 = "l @ [Mem_malloc 9216 (mem_malloc lw l 9216),
    Mem_malloc 9216 (mem_malloc lw (l @ [Mem_malloc 9216 (mem_malloc lw l 9216)]) 9216)]"
  from init_prefix [OF refl m1 refl m2, of calm_engine tmpl e t] obtain e2 t2 where
    e2: "eth_engine (axidma e2)" "fresh_ring (rx_ring e2)" "fresh_ring (tx_ring e2)"
    and init: "init_axi_dma calm_engine lw tmpl e t l = (let (res, r, t, l) = init_rx_loop calm_engine lw (rx_ring e2) 64 t2 ?l2;
           e = set_rx_ring r e2
       in case res of Some status \<Rightarrow> Some (status, e, t, l) | None \<Rightarrow> start_channels calm_engine e t l)" by blast
  obtain res r t3 l3 where fill: "init_rx_loop calm_engine lw (rx_ring e2) 64 t2 ?l2 = (res, r, t3, l3)" by (metis surj_pair)
  have "fst (init_rx_loop calm_engine lw (rx_ring e2) 64 t2 ?l2) = None"
    using e2(1,2) fresh_heads [OF e2(2)] pool by (intro calm_fill) (simp_all add: fresh_ring_def eth_engine_def)
  with fill have res: "res = None" by simp
  note F = fresh_shape [OF e2(2)]
  have "same_place (rx_ring e2) r"
    using init_rx_result [OF fill conjunct1 [OF F] conjunct1 [OF conjunct2 [OF F]]] by simp
  then have "AllCnt (rx_ring (set_rx_ring r e2)) \<noteq> 0" "AllCnt (tx_ring (set_rx_ring r e2)) \<noteq> 0"
    using e2(2,3) by (simp_all add: same_place_def fresh_ring_def set_rx_ring_def)
  from calm_start [OF this(2,1)] show ?thesis by (simp add: init fill res)
qed

theorem init_axi_dma_ready_witness:
  "\<exists>e t l. init_axi_dma calm_engine full_lwip 0x3000 small_adapter [] [] = Some (Lwip 0, e, t, l) \<and> running e"
proof -
  have mem: "uint (mem_malloc full_lwip l n) + 9216 \<le> 2 ^ 32" for l n by (simp add: full_lwip_def small_lwip_def)
  from calm_init [OF mem mem full_pool, where l = "[]" and tmpl = "0x3000" and e = small_adapter and t = "[]"] show ?thesis
    using init_axi_dma_ready [OF mem mem, where l = "[]" and dev = calm_engine and tmpl = "0x3000"
      and e = small_adapter and t = "[]"] by auto
qed

theorem out_of_memory_not_noticed_witness:
  "\<exists>e t l. init_axi_dma calm_engine (full_lwip\<lparr>mem_malloc := \<lambda>l n. 0\<rparr>) 0x3000 small_adapter [] [] = Some (Lwip 0, e, t, l) \<and>
     running e \<and> slot (rx_ring e) 0 = slot (tx_ring e) 0"
proof -
  let ?lw = "full_lwip\<lparr>mem_malloc := \<lambda>l n. 0\<rparr>"
  have none: "mem_malloc ?lw l n = 0" for l n by simp
  then have mem: "uint (mem_malloc ?lw l n) + 9216 \<le> 2 ^ 32" for l n by simp
  have "pool_ok ?lw" using full_pool by (simp add: pool_ok_def)
  from calm_init [OF mem mem this, where l = "[]" and tmpl = "0x3000" and e = small_adapter and t = "[]"]
    out_of_memory_not_noticed [OF none none, where l = "[]" and dev = calm_engine and tmpl = "0x3000"
      and e = small_adapter and t = "[]"] show ?thesis by auto
qed

end
