(* ===== verification/Sys_Arch.thy ===== *)
theory Sys_Arch
  imports Semaphores
begin

text \<open>
  The operating system layer of lwIP on Xilkernel (\<open>contrib/ports/xilinx/sys_arch.c\<close>): mailboxes made
  of two semaphores, and waits that tell how long they took. Threads of lwIP run this code; each
  is a process of the kernel, and the code is cut into steps at the system calls and at the
  statements in between, so that other threads can come in anywhere.
\<close>

section \<open>Mailboxes\<close>

abbreviation (input) "SYS_MBOX_SIZE \<equiv> (500 :: nat)"
abbreviation (input) "SYS_ARCH_TIMEOUT \<equiv> (0xFFFFFFFF :: u32)"

text \<open>
  \<open>first\<close> and \<open>last\<close> stay below \<open>SYS_MBOX_SIZE\<close>, so their 16 bits do not matter. \<open>mail\<close> and \<open>mutex\<close> are
  the handles of the semaphores.
\<close>

record mbox =
  m_used :: bool
  m_first :: nat
  m_last :: nat
  m_msgs :: "u32 list"
  m_mail :: u32
  m_mutex :: u32

definition sys_mbox_valid :: "mbox \<Rightarrow> int" where
  "sys_mbox_valid b = (if \<not> m_used b then 0 else 1)"

text \<open>\<open>i++; if (i == SYS_MBOX_SIZE) i = 0;\<close>\<close>

definition mbox_next :: "nat \<Rightarrow> nat" where
  "mbox_next i = (let i = i + 1 in if i = SYS_MBOX_SIZE then 0 else i)"

text \<open>
  The time between two readings of the clock in milliseconds; the second branch is the code's way
  with an overflow.
\<close>

definition elapsed_ms :: "u32 \<Rightarrow> u32 \<Rightarrow> u32" where
  "elapsed_ms start stop =
     (if start \<le> stop then ticks_to_ms (stop - start) else ticks_to_ms (0xFFFFFFFF - start + stop))"

section \<open>The code of a thread\<close>

text \<open>
  Where a thread is in the functions on mailboxes. \<open>Out\<close> is outside of them. The parameters of the
  fetch are the timeout and the local variables \<open>start_ticks\<close> and \<open>stop_ticks\<close>; its \<open>msg\<close> is not \<open>NULL\<close>.
\<close>

datatype mbox_pc =
    Out
  | New_start int | New_mail | New_mutex
  | Free_lock | Free_mail | Free_mutex | Free_used
  | Post_lock u32 | Trypost_lock u32 | Post_store u32 | Post_advance u32 | Post_mail | Post_unlock
  | Fetch_lock u32 u32 u32 | Fetch_test u32 u32 u32 | Fetch_release u32 u32 u32 | Fetch_clock u32 u32 u32
  | Fetch_wait u32 u32 u32 | Fetch_stop u32 u32 u32 | Fetch_relock u32 u32 u32
  | Fetch_read u32 u32 | Fetch_advance u32 u32 u32 | Fetch_unlock u32 u32 u32
  | Wait_start u32 u32 | Wait_call u32 u32 u32 | Wait_stop u32

text \<open>The functions; \<open>Arch_sem_wait\<close> takes the handle of a semaphore and the timeout.\<close>

datatype mbox_op =
    Mbox_new int | Mbox_free | Mbox_post u32 | Mbox_trypost u32 | Mbox_fetch u32 | Mbox_tryfetch
  | Arch_sem_wait u32 u32

fun entry :: "mbox_op \<Rightarrow> mbox_pc" where
  "entry (Mbox_new sz) = New_start sz"
| "entry Mbox_free = Free_lock"
| "entry (Mbox_post msg) = Post_lock msg"
| "entry (Mbox_trypost msg) = Trypost_lock msg"
| "entry (Mbox_fetch timeout) = Fetch_lock timeout 0 0"
| "entry Mbox_tryfetch = Fetch_lock 1 0 0"
| "entry (Arch_sem_wait sem timeout) = Wait_start sem timeout"

text \<open>What the functions do and return: \<open>Put\<close> and \<open>Got\<close> are the moments when a message enters and leaves.\<close>

datatype traffic =
    Put u32 | Got u32
  | Posted int                \<comment> \<open>\<open>sys_mbox_trypost\<close> returns \<open>ERR_OK\<close> or \<open>ERR_MEM\<close>; \<open>sys_mbox_post\<close> returns\<close>
  | Fetched "u32 option" u32  \<comment> \<open>the message, if any, and the time\<close>
  | Waited u32
  | Opened int
  | Closed

text \<open>The system call that a thread makes next, if it is at one.\<close>

fun request :: "mbox \<Rightarrow> mbox_pc \<Rightarrow> syscall option" where
  "request b New_mail = Some (Sem_init 0 0)"
| "request b New_mutex = Some (Sem_init 0 1)"
| "request b Free_lock = Some (Sem_wait (Some (m_mutex b)))"
| "request b Free_mail = Some (Sem_destroy (Some (m_mail b)))"
| "request b Free_mutex = Some (Sem_destroy (Some (m_mutex b)))"
| "request b (Post_lock msg) = Some (Sem_wait (Some (m_mutex b)))"
| "request b (Trypost_lock msg) = Some (Sem_trywait (Some (m_mutex b)))"
| "request b Post_mail = Some (Sem_post (Some (m_mail b)))"
| "request b Post_unlock = Some (Sem_post (Some (m_mutex b)))"
| "request b (Fetch_lock t start stop) = Some (Sem_wait (Some (m_mutex b)))"
| "request b (Fetch_release t start stop) = Some (Sem_post (Some (m_mutex b)))"
| "request b (Fetch_wait t start stop) =
     Some (if t \<noteq> 0 then Sem_timedwait (Some (m_mail b)) t else Sem_wait (Some (m_mail b)))"
| "request b (Fetch_relock t start stop) = Some (Sem_wait (Some (m_mutex b)))"
| "request b (Fetch_unlock msg start stop) = Some (Sem_post (Some (m_mutex b)))"
| "request b (Wait_call sem t start) = Some (if t \<noteq> 0 then Sem_timedwait (Some sem) t else Sem_wait (Some sem))"
| "request b _ = None"

text \<open>Where it goes on with the return value \<open>v\<close> and the handle \<open>h\<close> that \<open>sem_init\<close> stores.\<close>

fun deliver :: "mbox_pc \<Rightarrow> int \<Rightarrow> int option \<Rightarrow> mbox \<Rightarrow> mbox_pc \<times> mbox \<times> traffic list" where
  "deliver New_mail v h b =
     (if v < 0 then (Out, b, [Opened (- 1)]) else (New_mutex, b\<lparr>m_mail := word_of_int (the h)\<rparr>, []))"
| "deliver New_mutex v h b =
     (if v < 0 then (Out, b, [Opened (- 1)])
      else (Out, b\<lparr>m_mutex := word_of_int (the h), m_used := True\<rparr>, [Opened 0]))"
| "deliver Free_lock v h b = (Free_mail, b, [])"
| "deliver Free_mail v h b = (Free_mutex, b, [])"
| "deliver Free_mutex v h b = (Free_used, b, [])"
| "deliver (Post_lock msg) v h b = (if v \<noteq> 0 then (Out, b, []) else (Post_store msg, b, []))"
| "deliver (Trypost_lock msg) v h b = (if v < 0 then (Out, b, [Posted (- 1)]) else (Post_store msg, b, []))"
| "deliver Post_mail v h b = (Post_unlock, b, [])"
| "deliver Post_unlock v h b = (Out, b, [Posted 0])"
| "deliver (Fetch_lock t start stop) v h b = (Fetch_test t start stop, b, [])"
| "deliver (Fetch_release t start stop) v h b =
     (if t \<noteq> 0 then Fetch_clock t start stop else Fetch_wait t start stop, b, [])"
| "deliver (Fetch_wait t start stop) v h b =
     (if t \<noteq> 0 then if v \<noteq> 0 then (Out, b, [Fetched None SYS_ARCH_TIMEOUT]) else (Fetch_stop t start stop, b, [])
      else (Fetch_relock t start stop, b, []))"
| "deliver (Fetch_relock t start stop) v h b = (Fetch_test t start stop, b, [])"
| "deliver (Fetch_unlock msg start stop) v h b = (Out, b, [Fetched (Some msg) (elapsed_ms start stop)])"
| "deliver (Wait_call sem t start) v h b =
     (if t \<noteq> 0 then if v = 0 then (Wait_stop start, b, []) else (Out, b, [Waited SYS_ARCH_TIMEOUT])
      else (Out, b, [Waited 0]))"
| "deliver pc v h b = (pc, b, [])"

text \<open>
  The statements between the calls; \<open>ticks\<close> is what \<open>xget_clock_ticks\<close> returns and \<open>table\<close> the array
  \<open>lwip_mbox\<close>, which only \<open>sys_init\<close> writes.
\<close>

fun statement :: "u32 \<Rightarrow> mbox list \<Rightarrow> mbox_pc \<Rightarrow> mbox \<Rightarrow> mbox_pc \<times> mbox \<times> traffic list" where
  "statement ticks table (New_start sz) b =
     (if sz > int SYS_MBOX_SIZE then (Out, b, [Opened (- 1)])
      else case filter (\<lambda>m. \<not> m_used m) table of
             [] \<Rightarrow> (Out, b, [Opened (- 1)])
           | m # _ \<Rightarrow> (New_mail, m\<lparr>m_first := 0, m_last := 0\<rparr>, []))"
| "statement ticks table Free_used b = (Out, b\<lparr>m_used := False\<rparr>, [Closed])"
| "statement ticks table (Post_store msg) b =
     (Post_advance msg, b\<lparr>m_msgs := (m_msgs b)[m_last b := msg]\<rparr>, [])"
| "statement ticks table (Post_advance msg) b = (Post_mail, b\<lparr>m_last := mbox_next (m_last b)\<rparr>, [Put msg])"
| "statement ticks table (Fetch_test t start stop) b =
     (if m_first b = m_last b then Fetch_release t start stop else Fetch_read start stop, b, [])"
| "statement ticks table (Fetch_clock t start stop) b = (Fetch_wait t ticks stop, b, [])"
| "statement ticks table (Fetch_stop t start stop) b = (Fetch_relock t start ticks, b, [])"
| "statement ticks table (Fetch_read start stop) b = (Fetch_advance (m_msgs b ! m_first b) start stop, b, [])"
| "statement ticks table (Fetch_advance msg start stop) b =
     (Fetch_unlock msg start stop, b\<lparr>m_first := mbox_next (m_first b)\<rparr>, [Got msg])"
| "statement ticks table (Wait_start sem t) b = (Wait_call sem t (if t \<noteq> 0 then ticks else 0), b, [])"
| "statement ticks table (Wait_stop start) b = (Out, b, [Waited (elapsed_ms start ticks)])"
| "statement ticks table pc b = (pc, b, [])"

section \<open>Threads on the kernel\<close>

text \<open>The kernel, a mailbox, where every thread is in the functions above, and what has happened.\<close>

record net =
  kern :: kernel
  box :: mbox
  table :: "mbox list"
  code :: "int \<Rightarrow> mbox_pc"
  history :: "traffic list"

definition set_thread :: "int \<Rightarrow> mbox_pc \<times> mbox \<times> traffic list \<Rightarrow> net \<Rightarrow> net" where
  "set_thread p out s =
     (let (pc, b, news) = out in s\<lparr>code := (code s)(p := pc), box := b, history := history s @ news\<rparr>)"

text \<open>A call or its end: the result reaches the thread, unless it has been switched away in the call.\<close>

definition kernel_event :: "event \<Rightarrow> net \<Rightarrow> net option" where
  "kernel_event e s =
     (let p = current_pid (kern s)
      in case handle_event e (kern s) of
           None \<Rightarrow> None
         | Some (None, k) \<Rightarrow> Some (s\<lparr>kern := k\<rparr>)
         | Some (Some (Returns v h), k) \<Rightarrow> Some (set_thread p (deliver (code s p) v h (box s)) (s\<lparr>kern := k\<rparr>)))"

text \<open>
  What can happen next: the current thread calls one of the functions or goes on in one, it makes
  another system call from outside, or the timer interrupts. \<open>None\<close> is a move that is not possible
  (or a kernel that hangs).
\<close>

datatype move = Begin mbox_op | Go_on | Other syscall | Interrupt

definition in_user_code :: "net \<Rightarrow> bool" where
  "in_user_code s \<longleftrightarrow> pcontext (pcb (kern s) (current_pid (kern s))) = User"

definition net_move :: "move \<Rightarrow> net \<Rightarrow> net option" where
  "net_move mv s =
     (let p = current_pid (kern s)
      in case mv of
           Begin op \<Rightarrow>
             if in_user_code s \<and> p \<noteq> idle_task_pid \<and> code s p = Out
             then Some (s\<lparr>code := (code s)(p := entry op)\<rparr>) else None
         | Other sc \<Rightarrow>
             if in_user_code s \<and> p \<noteq> idle_task_pid \<and> code s p = Out then kernel_event (Call sc) s else None
         | Interrupt \<Rightarrow> if in_user_code s then kernel_event Tick s else None
         | Go_on \<Rightarrow>
             if \<not> in_user_code s then kernel_event Resume s
             else if p = idle_task_pid \<or> code s p = Out then None
             else case request (box s) (code s p) of
                    Some sc \<Rightarrow> kernel_event (Call sc) s
                  | None \<Rightarrow> Some (set_thread p (statement (kernel_ticks (kern s)) (table s) (code s p) (box s)) s))"

end
