(* ===== verification/Mailbox.thy ===== *)
theory Mailbox
  imports Sys_Arch Mutex_Steps
begin

text \<open>
  Mailboxes on the kernel: at most one thread is between the lock and the unlock of a mailbox, and
  so the mailbox is a first-in first-out queue, whatever the threads do and wherever the timer
  interrupts them.
\<close>

section \<open>Runs\<close>

text \<open>
  What the rest of the program may do (\<open>lawful\<close>): use any semaphore but the mutex of the mailbox, and neither open nor
  free the mailbox meanwhile. For the messages to be safe (\<open>allowed\<close>) one may besides only go in while there is room;
  the code does not check.
\<close>

definition mutex :: "net \<Rightarrow> nat" where
  "mutex s = unat (m_mutex (box s))"

definition room :: "mbox \<Rightarrow> bool" where
  "room b \<longleftrightarrow> mbox_next (m_last b) \<noteq> m_first b"

fun in_service :: "mbox \<Rightarrow> mbox_op \<Rightarrow> bool" where
  "in_service b (Mbox_new sz) = False"
| "in_service b Mbox_free = False"
| "in_service b (Arch_sem_wait sem t) = (sem \<noteq> m_mutex b)"
| "in_service b _ = True"

fun lawful :: "move \<Rightarrow> net \<Rightarrow> bool" where
  "lawful (Begin op) s = in_service (box s) op"
| "lawful (Other sc) s = (operand sc (kern s) \<noteq> Some (mutex s) \<and> tidy (Call sc) (kern s))"
| "lawful Go_on s = True"
| "lawful Interrupt s = True"

fun allowed :: "move \<Rightarrow> net \<Rightarrow> bool" where
  "allowed (Begin op) s = in_service (box s) op"
| "allowed (Other sc) s = (operand sc (kern s) \<noteq> Some (mutex s) \<and> tidy (Call sc) (kern s))"
| "allowed Go_on s = (case code s (current_pid (kern s)) of Post_advance msg \<Rightarrow> room (box s) | _ \<Rightarrow> True)"
| "allowed Interrupt s = True"

inductive thread_run :: "net \<Rightarrow> move list \<Rightarrow> net \<Rightarrow> bool" where
  thread_run_refl: "thread_run s [] s"
| thread_run_step: "thread_run s mvs s' \<Longrightarrow> lawful mv s' \<Longrightarrow> net_move mv s' = Some s'' \<Longrightarrow> thread_run s (mvs @ [mv]) s''"

inductive net_run :: "net \<Rightarrow> move list \<Rightarrow> net \<Rightarrow> bool" where
  net_run_refl: "net_run s [] s"
| net_run_step: "net_run s mvs s' \<Longrightarrow> allowed mv s' \<Longrightarrow> net_move mv s' = Some s'' \<Longrightarrow> net_run s (mvs @ [mv]) s''"

lemma allowed_lawful: "allowed mv s \<Longrightarrow> lawful mv s"
  by (cases mv) simp_all

lemma net_thread_run: "net_run s mvs s' \<Longrightarrow> thread_run s mvs s'"
  by (induction rule: net_run.induct) (auto intro: thread_run.intros allowed_lawful)

section \<open>The lock\<close>

text \<open>The part of the code that holds the mutex, the calls that take it, and the calls that may block.\<close>

fun critical :: "mbox_pc \<Rightarrow> bool" where
  "critical (Post_store msg) = True"
| "critical (Post_advance msg) = True"
| "critical Post_mail = True"
| "critical Post_unlock = True"
| "critical (Fetch_test t start stop) = True"
| "critical (Fetch_release t start stop) = True"
| "critical (Fetch_read start stop) = True"
| "critical (Fetch_advance msg start stop) = True"
| "critical (Fetch_unlock msg start stop) = True"
| "critical _ = False"

fun locking :: "mbox_pc \<Rightarrow> bool" where
  "locking (Post_lock msg) = True"
| "locking (Fetch_lock t start stop) = True"
| "locking (Fetch_relock t start stop) = True"
| "locking _ = False"

fun at_risk :: "mbox_pc \<Rightarrow> bool" where
  "at_risk Out = True"
| "at_risk (Fetch_wait t start stop) = True"
| "at_risk (Wait_call sem t start) = True"
| "at_risk pc = locking pc"

fun served :: "mbox \<Rightarrow> mbox_pc \<Rightarrow> bool" where
  "served b (New_start sz) = False"
| "served b New_mail = False"
| "served b New_mutex = False"
| "served b Free_lock = False"
| "served b Free_mail = False"
| "served b Free_mutex = False"
| "served b Free_used = False"
| "served b (Wait_start sem t) = (sem \<noteq> m_mutex b)"
| "served b (Wait_call sem t start) = (sem \<noteq> m_mutex b)"
| "served b _ = True"

abbreviation where_is :: "net \<Rightarrow> int \<Rightarrow> saved_context" where
  "where_is s p \<equiv> pctx (kern s) ! nat p"

text \<open>A thread that has been let through the mutex holds it before its call has returned.\<close>

definition holds_lock :: "net \<Rightarrow> int \<Rightarrow> bool" where
  "holds_lock s p \<longleftrightarrow> valid p \<and>
     (critical (code s p) \<or> where_is s p = In_sem_wait (mutex s) \<and> p \<notin> set (wt (kern s) (mutex s)))"

text \<open>A thread is where its code says.\<close>

definition consistent :: "net \<Rightarrow> int \<Rightarrow> bool" where
  "consistent s p \<longleftrightarrow> served (box s) (code s p) \<and>
     (where_is s p \<noteq> User \<longrightarrow> at_risk (code s p)) \<and> where_is s p \<noteq> In_sem_timedwait (mutex s) \<and>
     (where_is s p = In_sem_wait (mutex s) \<longleftrightarrow> locking (code s p) \<and> where_is s p \<noteq> User)"

definition lock_state :: "net \<Rightarrow> bool" where
  "lock_state s \<longleftrightarrow>
     (let (v, ws) = sem_view (kern s) (mutex s)
      in (v = 1 \<and> ws = [] \<and> (\<forall>p. \<not> holds_lock s p)) \<or> (\<exists>h. v = - int (length ws) \<and> (\<forall>p. holds_lock s p \<longleftrightarrow> p = h)))"

definition locked :: "net \<Rightarrow> bool" where
  "locked s \<longleftrightarrow> running (kern s) \<and> sems_ok (kern s) \<and> untimed (mutex s) (kern s) \<and> m_mail (box s) \<noteq> m_mutex (box s) \<and>
     (\<forall>p. valid p \<longrightarrow> consistent s p) \<and> (\<forall>p. code s p \<noteq> Out \<longrightarrow> valid p \<and> p \<noteq> 0) \<and>
     (\<forall>p\<in>set (wt (kern s) (mutex s)). where_is s p = In_sem_wait (mutex s)) \<and> lock_state s"

lemma exclusive: "locked s \<Longrightarrow> critical (code s p) \<Longrightarrow> critical (code s q) \<Longrightarrow> p = q"
proof -
  assume l: "locked s" and c: "critical (code s p)" "critical (code s q)"
  then have "holds_lock s p" "holds_lock s q" unfolding locked_def holds_lock_def by (metis critical.simps(10))+
  with l show "p = q" by (auto simp: locked_def lock_state_def split: prod.splits)
qed


text \<open>One thread, the current one, moves on, and the kernel changes with it.\<close>

definition moves_on :: "int \<Rightarrow> saved_context \<Rightarrow> mbox_pc \<Rightarrow> net \<Rightarrow> net \<Rightarrow> bool" where
  "moves_on p c pc s s' \<longleftrightarrow> valid p \<and> running (kern s') \<and> sems_ok (kern s') \<and> untimed (mutex s) (kern s') \<and>
     pctx (kern s') = (pctx (kern s))[nat p := c] \<and> code s' = (code s)(p := pc) \<and>
     m_mutex (box s') = m_mutex (box s) \<and> m_mail (box s') = m_mail (box s)"

lemma pctx_length: "running k \<Longrightarrow> length (pctx k) = 20"
  using shape_table [OF runningD(2)] by (simp add: pctx_def)

lemma moved:
  assumes m: "moves_on p c pc s s'" and l: "locked s"
  shows "mutex s' = mutex s" "where_is s' p = c" "code s' p = pc" "valid q \<Longrightarrow> q \<noteq> p \<Longrightarrow> where_is s' q = where_is s q"
    "q \<noteq> p \<Longrightarrow> code s' q = code s q" "q \<noteq> p \<Longrightarrow> consistent s q \<Longrightarrow> valid q \<Longrightarrow> consistent s' q"
proof -
  have v: "valid p" and len: "length (pctx (kern s)) = 20" using m l pctx_length by (simp_all add: moves_on_def locked_def)
  show x: "mutex s' = mutex s" using m by (simp add: moves_on_def mutex_def)
  show "where_is s' p = c" "code s' p = pc" using m v len by (simp_all add: moves_on_def)
  show w: "valid q \<Longrightarrow> q \<noteq> p \<Longrightarrow> where_is s' q = where_is s q" for q
    using m v by (simp add: moves_on_def)
  show o: "q \<noteq> p \<Longrightarrow> code s' q = code s q" for q using m by (simp add: moves_on_def)
  have "served (box s') (code s q) = served (box s) (code s q)"
    using m by (cases "code s q") (simp_all add: moves_on_def)
  then show "q \<noteq> p \<Longrightarrow> consistent s q \<Longrightarrow> valid q \<Longrightarrow> consistent s' q" by (simp add: consistent_def x w o)
qed

lemma lockedI:
  assumes l: "locked s" and m: "moves_on p c pc s s'" and p: "pc \<noteq> Out \<longrightarrow> p \<noteq> 0" "consistent s' p"
    and w: "set (wt (kern s') (mutex s)) \<subseteq> insert p (set (wt (kern s) (mutex s)))"
      "p \<in> set (wt (kern s') (mutex s)) \<Longrightarrow> c = In_sem_wait (mutex s)"
    and "lock_state s'"
  shows "locked s'"
proof -
  note M = moved [OF m l]
  have x: "consistent s' q" if "valid q" for q
    using l M(6) [of q] p(2) that by (cases "q = p") (auto simp: locked_def)
  have "running (kern s)" using l by (simp add: locked_def)
  then have "q \<in> set (wt (kern s) (mutex s)) \<Longrightarrow> valid q" for q by (rule waiting_valid)
  then have "\<forall>q\<in>set (wt (kern s') (mutex s)). where_is s' q = In_sem_wait (mutex s)"
    using l w M(2,4) unfolding locked_def by (metis insertE subsetD)
  moreover have "code s' q \<noteq> Out \<longrightarrow> valid q \<and> q \<noteq> 0" for q
    using l m p(1) by (cases "q = p") (simp_all add: moves_on_def locked_def)
  ultimately show ?thesis using x m l assms(7) M(1) by (simp add: locked_def moves_on_def)
qed

text \<open>A move that leaves the mutex alone.\<close>

lemma neutral:
  assumes l: "locked s" and m: "moves_on p c pc s s'" and p: "pc \<noteq> Out \<longrightarrow> p \<noteq> 0" "consistent s' p"
    and v: "sem_view (kern s') (mutex s) = sem_view (kern s) (mutex s)"
    and cur: "p \<notin> set (wt (kern s) (mutex s))" and h: "holds_lock s' p = holds_lock s p"
  shows "locked s'"
proof (rule lockedI [OF l m p])
  note M = moved [OF m l]
  have x: "mutex s < 50" using l by (simp add: locked_def untimed_def)
  have w: "wt (kern s') (mutex s) = wt (kern s) (mutex s)"
    using arg_cong [OF v, of snd] x by (simp add: sem_view_def wt_contents)
  then show "set (wt (kern s') (mutex s)) \<subseteq> insert p (set (wt (kern s) (mutex s)))"
    "p \<in> set (wt (kern s') (mutex s)) \<Longrightarrow> c = In_sem_wait (mutex s)" using cur by auto
  have "holds_lock s' q = holds_lock s q" for q
  proof (cases "q = p")
    case False
    then show ?thesis using M(1) M(4) [of q] M(5) [of q] w by (auto simp: holds_lock_def)
  qed (use h in simp)
  then have "holds_lock s' = holds_lock s" by (rule ext)
  then show "lock_state s'" using l by (simp add: locked_def lock_state_def M(1) v)
qed


section \<open>Every move keeps the lock\<close>

lemma sem_of_handle:
  assumes "untimed (unat h) k"
  shows "get_sem_by_semt k (Some h) = Some (unat h)"
  using assms by (simp add: get_sem_by_semt_def untimed_def word_less_nat_alt)

lemma handle_of_sem: "get_sem_by_semt k (Some h) = Some i \<Longrightarrow> i = unat h"
  by (simp add: get_sem_by_semt_def split: if_splits)

text \<open>The calls that do not block.\<close>

fun waits :: "syscall \<Rightarrow> bool" where
  "waits (Sem_wait sem) = True"
| "waits (Sem_timedwait sem ms) = True"
| "waits (Sleep ms) = True"
| "waits _ = False"

lemma not_blocked:
  assumes "\<not> waits sc" and "handle_event (Call sc) k = Some (r, k')"
  shows "r \<noteq> None"
proof
  assume "r = None"
  then have "\<exists>k1. call sc k = Some (None, k1)" using assms(2)
    by (auto simp: handle_event_def finish_def split: option.splits)
  then show False using assms(1)
    by (cases sc; auto simp: sys_sem_init_def sys_sem_getvalue_def sys_sem_trywait_def sys_sem_destroy_def sys_sem_post_def
        sys_yield_def ret_def fail_def Let_def split: option.splits if_splits)
qed

lemma served_deliver:
  "served b pc \<Longrightarrow> deliver pc v h b = (pc', b', news) \<Longrightarrow> served b' pc' \<and> m_mutex b' = m_mutex b \<and> m_mail b' = m_mail b"
  by (cases pc) (auto split: if_splits)

lemma served_statement:
  "served b pc \<Longrightarrow> statement n tab pc b = (pc', b', news) \<Longrightarrow>
   served b' pc' \<and> m_mutex b' = m_mutex b \<and> m_mail b' = m_mail b"
  by (cases pc) (auto split: if_splits list.splits)

lemma tidy_other: "\<forall>sem. sc \<noteq> Sem_destroy sem \<Longrightarrow> tidy (Call sc) k"
  by (cases sc) (auto simp: tidy_def)

text \<open>What the kernel does to the current thread.\<close>

lemma kernel_event_moves:
  assumes l: "locked s" and poss: "possible e (kern s)" and t: "tidy e (kern s)" and ev: "kernel_event e s = Some s'"
    and u: "\<forall>r k'. handle_event e (kern s) = Some (r, k') \<longrightarrow> untimed (mutex s) k'"
  shows "\<exists>r k' c pc news. handle_event e (kern s) = Some (r, k') \<and> kern s' = k' \<and> moves_on (current_pid (kern s)) c pc s s' \<and>
    c = (case e of Call sc \<Rightarrow> if r = None then blocked_in sc (kern s) else User | _ \<Rightarrow> User) \<and>
    (case r of None \<Rightarrow> pc = code s (current_pid (kern s)) \<and> box s' = box s \<and> history s' = history s
     | Some (Returns v h) \<Rightarrow> deliver (code s (current_pid (kern s))) v h (box s) = (pc, box s', news) \<and> history s' = history s @ news)"
proof -
  let ?p = "current_pid (kern s)"
  have R: "running (kern s)" "sems_ok (kern s)" using l by (simp_all add: locked_def)
  have v: "valid ?p" using runningD(7) [OF R(1)] .
  then have srv: "served (box s) (code s ?p)" using l by (simp add: locked_def consistent_def)
  obtain r k' where h: "handle_event e (kern s) = Some (r, k')"
    using ev by (cases "handle_event e (kern s)") (auto simp: kernel_event_def Let_def)
  have "event_ok (kern s) (handle_event e (kern s))" by (rule handle_event_ok [OF R poss t])
  then have k': "running k'" "sems_ok k'" using h by (simp_all add: event_ok_def)
  note C = event_pctx(1) [OF R poss t h]
  show ?thesis
  proof (cases r)
    case None
    then have s': "s' = s\<lparr>kern := k'\<rparr>" using ev h by (simp add: kernel_event_def)
    have "moves_on ?p (case e of Call sc \<Rightarrow> if r = None then blocked_in sc (kern s) else User | _ \<Rightarrow> User) (code s ?p) s s'"
      using v k' u h C by (simp add: moves_on_def s')
    then show ?thesis using h None s' by (intro exI [of _ r] exI [of _ k'] exI) auto
  next
    case (Some res)
    obtain v h' where res: "res = Returns v h'" by (cases res)
    obtain pc b news where d: "deliver (code s ?p) v h' (box s) = (pc, b, news)" by (metis surj_pair)
    then have s': "s' = set_thread ?p (pc, b, news) (s\<lparr>kern := k'\<rparr>)" using ev h Some res by (simp add: kernel_event_def)
    have "moves_on ?p (case e of Call sc \<Rightarrow> if r = None then blocked_in sc (kern s) else User | _ \<Rightarrow> User) pc s s'"
      using \<open>valid ?p\<close> k' u h C served_deliver [OF srv d] by (simp add: moves_on_def s' set_thread_def)
    then show ?thesis using h Some res s' d
      by (intro exI [of _ r] exI [of _ k'] exI [of _ "(case e of Call sc \<Rightarrow> if r = None then blocked_in sc (kern s) else User | _ \<Rightarrow> User)"]
          exI [of _ pc] exI [of _ news]) (simp add: set_thread_def)
  qed
qed


lemma blocked_operand:
  assumes "handle_event (Call sc) k = Some (None, k')"
  shows "waits sc \<and> (blocked_in sc k = In_sem_wait x \<or> blocked_in sc k = In_sem_timedwait x \<longrightarrow> operand sc k = Some x)"
proof -
  have w: "waits sc" using not_blocked assms by blast
  have "\<exists>k1. call sc k = Some (None, k1)" using assms
    by (auto simp: handle_event_def finish_def split: option.splits)
  with w show ?thesis
    by (cases sc; auto simp: sys_sem_wait_x_def sys_sem_timedwait_def ret_def fail_def split: option.splits)
qed

text \<open>An event that leaves the mutex alone.\<close>

lemma neutral_event:
  assumes l: "locked s" and poss: "possible e (kern s)" and t: "tidy e (kern s)" and ev: "kernel_event e s = Some s'"
    and a: "leaves_alone (mutex s) e (kern s)" and pc: "pc = code s (current_pid (kern s))"
    and d: "e \<noteq> Tick \<Longrightarrow> \<not> locking pc \<and> (\<forall>v h. critical (fst (deliver pc v h (box s))) = critical pc \<and>
        (fst (deliver pc v h (box s)) \<noteq> Out \<longrightarrow> pc \<noteq> Out))"
    and b: "\<And>sc. e = Call sc \<Longrightarrow> waits sc \<Longrightarrow> at_risk pc"
  shows "locked s'"
proof -
  let ?p = "current_pid (kern s)" and ?x = "mutex s"
  have R: "running (kern s)" "sems_ok (kern s)" "untimed ?x (kern s)" using l by (simp_all add: locked_def)
  have v: "valid ?p" using runningD(7) [OF R(1)] .
  have cs: "consistent s ?p" using l v by (simp add: locked_def)
  have wi: "pcontext (pcb (kern s) ?p) = where_is s ?p" using pctx_nth runningD(2) [OF R(1)] v by blast
  note E = event_spares [OF R poss t a]
  have u: "\<forall>r k'. handle_event e (kern s) = Some (r, k') \<longrightarrow> untimed ?x k'" using E by blast
  from kernel_event_moves [OF l poss t ev u] obtain r k' c pc' news where
    h: "handle_event e (kern s) = Some (r, k')" "kern s' = k'" and m: "moves_on ?p c pc' s s'"
    and c: "c = (case e of Call sc \<Rightarrow> if r = None then blocked_in sc (kern s) else User | _ \<Rightarrow> User)"
    and out: "case r of None \<Rightarrow> pc' = pc \<and> box s' = box s \<and> history s' = history s
     | Some (Returns v h) \<Rightarrow> deliver pc v h (box s) = (pc', box s', news) \<and> history s' = history s @ news"
    unfolding pc by blast
  note M = moved [OF m l]
  have cur: "?p \<notin> set (wt (kern s) ?x)" using current_not_waiting [OF R(1)] .
  have srv: "served (box s') pc'"
    using out cs served_deliver [of "box s" pc] pc by (auto simp: consistent_def split: option.splits result.splits)
  have now: "c = User \<or> c \<noteq> In_sem_wait ?x \<and> c \<noteq> In_sem_timedwait ?x \<and> pc' = pc \<and> at_risk pc \<and> \<not> locking pc"
  proof (cases "c = User")
    case False
    then obtain sc where sc: "e = Call sc" "r = None" "c = blocked_in sc (kern s)" using c by (auto split: event.splits if_splits)
    then have "handle_event (Call sc) (kern s) = Some (None, k')" using h by simp
    from blocked_operand [OF this, of ?x] a sc b [OF sc(1)] d out show ?thesis by (auto simp: leaves_alone_def)
  qed simp
  have crit: "critical pc' = critical pc \<and> (pc' \<noteq> Out \<longrightarrow> pc \<noteq> Out)"
  proof (cases r)
    case (Some res)
    have "e \<noteq> Tick" using Some h by (auto simp: handle_event_def)
    obtain w h' where "res = Returns w h'" by (cases res)
    then have "fst (deliver pc w h' (box s)) = pc'" using Some out by simp
    with d [OF \<open>e \<noteq> Tick\<close>] show ?thesis by auto
  qed (use out in simp)
  have was: "where_is s ?p = In_sem_wait ?x \<Longrightarrow> locking pc \<and> e \<noteq> Tick"
    using cs poss wi pc by (auto simp: consistent_def)
  show ?thesis
  proof (rule neutral [OF l m])
    show "pc' \<noteq> Out \<longrightarrow> ?p \<noteq> 0" using crit l pc by (auto simp: locked_def)
    show "consistent s' ?p" using now srv M(1-3) by (auto simp: consistent_def)
    show "sem_view (kern s') ?x = sem_view (kern s) ?x" using E h by blast
    show "holds_lock s' ?p = holds_lock s ?p"
    proof -
      have "where_is s ?p \<noteq> In_sem_wait ?x" using was d by blast
      moreover have "where_is s' ?p \<noteq> In_sem_wait ?x" using now M(2) by auto
      ultimately show ?thesis using crit M(1,3) pc by (simp add: holds_lock_def)
    qed
  qed (rule cur)
qed


lemma locked_current:
  assumes "locked s"
  defines "p \<equiv> current_pid (kern s)" and "x \<equiv> mutex s"
  shows "running (kern s)" "sems_ok (kern s)" "untimed x (kern s)" "valid p" "consistent s p"
    "pcontext (pcb (kern s) p) = where_is s p" "p \<notin> set (wt (kern s) x)" "x < 50"
    "get_sem_by_semt (kern s) (Some (m_mutex (box s))) = Some x"
    "sem_view (kern s) x = (fst (sem_view (kern s) x), wt (kern s) x)"
proof -
  show R: "running (kern s)" "sems_ok (kern s)" "untimed x (kern s)" using assms by (simp_all add: locked_def)
  show v: "valid p" using runningD(7) [OF R(1)] by (simp add: p_def)
  then show "consistent s p" using assms by (simp add: locked_def)
  show "pcontext (pcb (kern s) p) = where_is s p" using pctx_nth runningD(2) [OF R(1)] v by blast
  show "p \<notin> set (wt (kern s) x)" using current_not_waiting [OF R(1)] by (simp add: p_def)
  show x: "x < 50" using R(3) by (simp add: untimed_def)
  show "get_sem_by_semt (kern s) (Some (m_mutex (box s))) = Some x"
    using sem_of_handle R(3) by (simp add: x_def mutex_def)
  show "sem_view (kern s) x = (fst (sem_view (kern s) x), wt (kern s) x)"
    using x by (simp add: sem_view_def wt_contents)
qed

lemma busy: "locked s \<Longrightarrow> code s p \<noteq> Out \<Longrightarrow> valid p \<and> p \<noteq> 0"
  by (simp add: locked_def)

lemma kinds: "locking pc \<Longrightarrow> pc \<noteq> Out \<and> \<not> critical pc \<and> at_risk pc" "critical pc \<Longrightarrow> pc \<noteq> Out \<and> \<not> locking pc \<and> \<not> at_risk pc"
  by (cases pc; simp)+

lemma lock_cases:
  assumes "locked s"
  obtains (free) "sem_view (kern s) (mutex s) = (1, [])" "\<And>p. \<not> holds_lock s p"
  | (held) h where "sem_view (kern s) (mutex s) = (- int (length (wt (kern s) (mutex s))), wt (kern s) (mutex s))"
      "\<And>p. holds_lock s p \<longleftrightarrow> p = h"
proof -
  obtain v where v: "sem_view (kern s) (mutex s) = (v, wt (kern s) (mutex s))" using locked_current(10) [OF assms] by blast
  with assms consider "v = 1" "wt (kern s) (mutex s) = []" "\<forall>p. \<not> holds_lock s p"
    | h where "v = - int (length (wt (kern s) (mutex s)))" "\<forall>p. holds_lock s p \<longleftrightarrow> p = h"
    by (auto simp: locked_def lock_state_def)
  then show ?thesis using v that by cases auto
qed

lemma view_queue: "x < 50 \<Longrightarrow> sem_view k x = (v, ws) \<Longrightarrow> wt k x = ws"
  by (simp add: sem_view_def wt_contents)

text \<open>Taking the mutex.\<close>

lemma lock_call:
  assumes l: "locked s" and pc: "locking (code s (current_pid (kern s)))" and user: "in_user_code s"
    and ev: "kernel_event (Call (Sem_wait (Some (m_mutex (box s))))) s = Some s'"
  shows "locked s'"
proof -
  let ?p = "current_pid (kern s)" and ?x = "mutex s" and ?e = "Call (Sem_wait (Some (m_mutex (box s))))"
  note L = locked_current [OF l]
  have p0: "?p \<noteq> 0" using busy [OF l] kinds(1) [OF pc] by blast
  have poss: "possible ?e (kern s)" using user p0 by (simp add: in_user_code_def)
  have t: "tidy ?e (kern s)" by (simp add: tidy_def)
  have np: "\<not> holds_lock s ?p"
    using pc L(6) user by (cases "code s ?p") (auto simp: holds_lock_def in_user_code_def)
  have "- 128 < fst (sem_view (kern s) ?x)"
    using l wait_queue_short [OF L(1,8)] by (cases rule: lock_cases) auto
  note E = event_wait [OF L(1,2,3) p0 L(9) this]
  have u: "\<forall>r k'. handle_event ?e (kern s) = Some (r, k') \<longrightarrow> untimed ?x k'" using E by blast
  from kernel_event_moves [OF l poss t ev u] obtain r k' c pc' news where
    h: "handle_event ?e (kern s) = Some (r, k')" "kern s' = k'" and m: "moves_on ?p c pc' s s'"
    and c': "c = (case ?e of Call sc \<Rightarrow> if r = None then blocked_in sc (kern s) else User | _ \<Rightarrow> User)"
    and out: "case r of None \<Rightarrow> pc' = code s ?p \<and> box s' = box s \<and> history s' = history s
     | Some (Returns v h) \<Rightarrow> deliver (code s ?p) v h (box s) = (pc', box s', news) \<and> history s' = history s @ news"
    by blast
  have c: "c = (if r = None then In_sem_wait ?x else User)" using c' L(9) by simp
  note M = moved [OF m l]
  from E [OF h(1)] have view: "sem_view (kern s') ?x = abs_wait ?p (sem_view (kern s) ?x)"
    and r: "r = (if 0 < fst (sem_view (kern s) ?x) then Some (Returns 0 None) else None)" by (simp_all add: h(2))
  have srv: "served (box s') pc'"
    using out L(5) served_deliver [of "box s" "code s ?p"] by (auto simp: consistent_def split: option.splits result.splits)
  have pc': "if r = None then pc' = code s ?p else critical pc' \<and> \<not> locking pc'"
    using out pc r by (cases "code s ?p") (auto split: if_splits)
  have cs: "consistent s' ?p"
    using srv M(1-3) c pc' kinds(1) [OF pc] pc by (auto simp: consistent_def split: if_splits)
  show ?thesis
    using l
  proof (cases rule: lock_cases)
    case free
    then have r: "r = Some (Returns 0 None)" and v': "sem_view (kern s') ?x = (0, [])" using r view by simp_all
    have w: "wt (kern s') ?x = []" using view_queue [OF L(8) v'] .
    have "holds_lock s' q \<longleftrightarrow> q = ?p" for q
    proof (cases "q = ?p")
      case True
      then show ?thesis using pc' r L(4) M(3) by (simp add: holds_lock_def)
    next
      case False
      then show ?thesis using free(2) [of q] M(1) M(4) [of q] M(5) [of q] view_queue [OF L(8) free(1)] w
        by (auto simp: holds_lock_def)
    qed
    then have "lock_state s'" by (auto simp: lock_state_def M(1) v')
    from lockedI [OF l m _ cs _ _ this] p0 w show ?thesis by simp
  next
    case (held h)
    have r: "r = None" and v': "sem_view (kern s') ?x = (- int (length (wt (kern s) ?x)) - 1, wt (kern s) ?x @ [?p])"
      using r view held(1) by simp_all
    have w: "wt (kern s') ?x = wt (kern s) ?x @ [?p]" using view_queue [OF L(8) v'] .
    have "holds_lock s' q \<longleftrightarrow> q = h" for q
    proof (cases "q = ?p")
      case True
      then show ?thesis using pc' r M(1,3) np held(2) [of ?p] w kinds(1) [OF pc] by (auto simp: holds_lock_def)
    next
      case False
      then show ?thesis using held(2) [of q] M(1) M(4) [of q] M(5) [of q] w by (auto simp: holds_lock_def)
    qed
    then have "lock_state s'" by (auto simp: lock_state_def M(1) v')
    from lockedI [OF l m _ cs _ _ this] p0 w c r show ?thesis by auto
  qed
qed

text \<open>Giving it back; the first thread in the queue got it.\<close>

lemma unlock_call:
  assumes l: "locked s" and pc: "critical (code s (current_pid (kern s)))"
    and pc': "\<And>v h. \<exists>pc b news. deliver (code s (current_pid (kern s))) v h (box s) = (pc, b, news) \<and> \<not> critical pc \<and> \<not> locking pc"
    and ev: "kernel_event (Call (Sem_post (Some (m_mutex (box s))))) s = Some s'"
  shows "locked s'"
proof -
  let ?p = "current_pid (kern s)" and ?x = "mutex s" and ?e = "Call (Sem_post (Some (m_mutex (box s))))"
  note L = locked_current [OF l]
  have p0: "?p \<noteq> 0" using busy [OF l] kinds(2) [OF pc] by blast
  have user: "where_is s ?p = User" using L(5) kinds(2) [OF pc] by (auto simp: consistent_def)
  then have poss: "possible ?e (kern s)" using L(6) p0 by simp
  have t: "tidy ?e (kern s)" by (simp add: tidy_def)
  have hp: "holds_lock s ?p" using pc L(4) by (simp add: holds_lock_def)
  have held: "sem_view (kern s) ?x = (- int (length (wt (kern s) ?x)), wt (kern s) ?x)"
    using l hp by (cases rule: lock_cases) auto
  have "\<exists>h. \<forall>q. holds_lock s q \<longleftrightarrow> q = h" using l hp by (cases rule: lock_cases) auto
  then have mine: "holds_lock s q \<longleftrightarrow> q = ?p" for q using hp by metis
  from held have "fst (sem_view (kern s) ?x) < 127" by simp
  note E = event_post [OF L(1,2,3,9) this]
  have u: "\<forall>r k'. handle_event ?e (kern s) = Some (r, k') \<longrightarrow> untimed ?x k'" using E by blast
  from kernel_event_moves [OF l poss t ev u] obtain r k' c q' news where
    h: "handle_event ?e (kern s) = Some (r, k')" "kern s' = k'" and m: "moves_on ?p c q' s s'"
    and c': "c = (case ?e of Call sc \<Rightarrow> if r = None then blocked_in sc (kern s) else User | _ \<Rightarrow> User)"
    and out: "case r of None \<Rightarrow> q' = code s ?p \<and> box s' = box s \<and> history s' = history s
     | Some (Returns v h) \<Rightarrow> deliver (code s ?p) v h (box s) = (q', box s', news) \<and> history s' = history s @ news"
    by blast
  have c: "r \<noteq> None \<longrightarrow> c = User" using c' by simp
  note M = moved [OF m l]
  from E [OF h(1)] have view: "sem_view (kern s') ?x = abs_post (sem_view (kern s) ?x)" and r: "r = Some (Returns 0 None)"
    by (simp_all add: h(2))
  have nc: "\<not> critical q' \<and> \<not> locking q'" using out r pc' [of 0 None] by auto
  have srv: "served (box s') q'"
    using out r L(5) served_deliver [of "box s" "code s ?p"] by (auto simp: consistent_def)
  have cs: "consistent s' ?p" using srv M(1-3) c r nc by (simp add: consistent_def)
  have np: "\<not> holds_lock s' ?p" using M(1-3) c r nc by (simp add: holds_lock_def)
  show ?thesis
  proof (cases "wt (kern s) ?x")
    case Nil
    then have v': "sem_view (kern s') ?x = (1, [])" using view held by simp
    have w: "wt (kern s') ?x = []" using view_queue [OF L(8) v'] .
    have "\<not> holds_lock s' q" for q
    proof (cases "q = ?p")
      case False
      then show ?thesis using mine [of q] M(1) M(4) [of q] M(5) [of q] w Nil by (auto simp: holds_lock_def)
    qed (use np in simp)
    then have "lock_state s'" by (simp add: lock_state_def M(1) v')
    from lockedI [OF l m _ cs _ _ this] p0 w show ?thesis by simp
  next
    case (Cons q ws)
    then have v': "sem_view (kern s') ?x = (- int (length ws), ws)" using view held by simp
    have w: "wt (kern s') ?x = ws" using view_queue [OF L(8) v'] .
    have d: "distinct (wt (kern s) ?x)" using placed_waiting(1) [OF runningD(3) [OF L(1)]] .
    have qp: "q \<noteq> ?p" using L(7) Cons by auto
    have vq: "valid q" using waiting_valid [OF L(1), of q ?x] Cons by simp
    have "where_is s q = In_sem_wait ?x" using l Cons by (auto simp: locked_def)
    then have "holds_lock s' q" using vq qp M(1) M(4) [of q] d Cons w by (simp add: holds_lock_def)
    moreover have "\<not> holds_lock s' y" if "y \<noteq> q" for y
    proof (cases "y = ?p")
      case False
      then show ?thesis using that mine [of y] M(1) M(4) [of y] M(5) [of y] w Cons by (auto simp: holds_lock_def)
    qed (use np in simp)
    ultimately have "lock_state s'" by (auto simp: lock_state_def M(1) v')
    moreover have "?p \<notin> set ws" using L(7) Cons by auto
    ultimately show ?thesis using lockedI [OF l m _ cs] p0 w Cons by auto
  qed
qed


text \<open>\<open>sys_mbox_trypost\<close> takes the mutex if it is free.\<close>

lemma try_call:
  assumes l: "locked s" and pc: "code s (current_pid (kern s)) = Trypost_lock msg" and user: "in_user_code s"
    and ev: "kernel_event (Call (Sem_trywait (Some (m_mutex (box s))))) s = Some s'"
  shows "locked s'"
proof -
  let ?p = "current_pid (kern s)" and ?x = "mutex s" and ?e = "Call (Sem_trywait (Some (m_mutex (box s))))"
  note L = locked_current [OF l]
  have p0: "?p \<noteq> 0" using busy [OF l, of ?p] pc by simp
  have poss: "possible ?e (kern s)" using user p0 by (simp add: in_user_code_def)
  have t: "tidy ?e (kern s)" by (simp add: tidy_def)
  have us: "where_is s ?p = User" using user L(6) by (simp add: in_user_code_def)
  have np: "\<not> holds_lock s ?p" using pc us by (simp add: holds_lock_def)
  note E = event_trywait [OF L(1,3,9)]
  have u: "\<forall>r k'. handle_event ?e (kern s) = Some (r, k') \<longrightarrow> untimed ?x k'" using E by blast
  from kernel_event_moves [OF l poss t ev u] obtain r k' c pc' news where
    h: "handle_event ?e (kern s) = Some (r, k')" "kern s' = k'" and m: "moves_on ?p c pc' s s'"
    and c': "c = (case ?e of Call sc \<Rightarrow> if r = None then blocked_in sc (kern s) else User | _ \<Rightarrow> User)"
    and out: "case r of None \<Rightarrow> pc' = code s ?p \<and> box s' = box s \<and> history s' = history s
     | Some (Returns v h) \<Rightarrow> deliver (code s ?p) v h (box s) = (pc', box s', news) \<and> history s' = history s @ news"
    by blast
  note M = moved [OF m l]
  note V = E [OF h(1), folded h(2)]
  have c: "c = User" using c' V by (auto split: if_splits)
  show ?thesis
    using l
  proof (cases rule: lock_cases)
    case free
    then have v': "sem_view (kern s') ?x = (0, [])" and pc': "pc' = Post_store msg" using V out pc by auto
    have w: "wt (kern s') ?x = []" using view_queue [OF L(8) v'] .
    have cs: "consistent s' ?p" using M(1-3) c pc' by (simp add: consistent_def)
    have "holds_lock s' q \<longleftrightarrow> q = ?p" for q
    proof (cases "q = ?p")
      case True
      then show ?thesis using pc' L(4) M(3) by (simp add: holds_lock_def)
    next
      case False
      then show ?thesis using free(2) [of q] M(1) M(4) [of q] M(5) [of q] view_queue [OF L(8) free(1)] w
        by (auto simp: holds_lock_def)
    qed
    then have "lock_state s'" by (auto simp: lock_state_def M(1) v')
    from lockedI [OF l m _ cs _ _ this] p0 w show ?thesis by simp
  next
    case (held y)
    then have v': "sem_view (kern s') ?x = sem_view (kern s) ?x" and pc': "pc' = Out" using V out pc by auto
    have cs: "consistent s' ?p" using M(1-3) c pc' by (simp add: consistent_def)
    have "holds_lock s' ?p = holds_lock s ?p" using np M(1-3) c pc' by (simp add: holds_lock_def)
    from neutral [OF l m _ cs v' L(7) this] pc' show ?thesis by simp
  qed
qed

lemma lock_delivered: "locking pc \<Longrightarrow> deliver pc 0 h b = (pc', b', news) \<Longrightarrow> critical pc' \<and> \<not> locking pc'"
  by (cases pc) auto

text \<open>A thread that was let through comes back from its call.\<close>

lemma lock_resumed:
  assumes l: "locked s" and pc: "locking (code s (current_pid (kern s)))" and out: "\<not> in_user_code s"
    and ev: "kernel_event Resume s = Some s'"
  shows "locked s'"
proof -
  let ?p = "current_pid (kern s)" and ?x = "mutex s"
  note L = locked_current [OF l]
  have p0: "?p \<noteq> 0" using busy [OF l] kinds(1) [OF pc] by blast
  have w: "where_is s ?p = In_sem_wait ?x" using L(5,6) pc out by (auto simp: consistent_def in_user_code_def)
  have poss: "possible Resume (kern s)" using out by (simp add: in_user_code_def)
  have t: "tidy Resume (kern s)" by (simp add: tidy_def)
  have a: "leaves_alone ?x Resume (kern s)" using w L(6) by (simp add: leaves_alone_def)
  note E = event_spares [OF L(1-3) poss t a]
  have u: "\<forall>r k'. handle_event Resume (kern s) = Some (r, k') \<longrightarrow> untimed ?x k'" using E by blast
  from kernel_event_moves [OF l poss t ev u] obtain r k' c pc' news where
    h: "handle_event Resume (kern s) = Some (r, k')" "kern s' = k'" and m: "moves_on ?p c pc' s s'" and c: "c = User"
    and o: "case r of None \<Rightarrow> pc' = code s ?p \<and> box s' = box s \<and> history s' = history s
     | Some (Returns v h) \<Rightarrow> deliver (code s ?p) v h (box s) = (pc', box s', news) \<and> history s' = history s @ news"
    by auto
  note M = moved [OF m l]
  have "r = Some (Returns 0 None)" using resume_wait [OF _ _ h(1)] w L(3,6) by (simp add: untimed_def)
  then have d: "deliver (code s ?p) 0 None (box s) = (pc', box s', news)" using o by simp
  then have pc': "critical pc' \<and> \<not> locking pc'" by (rule lock_delivered [OF pc])
  have "served (box s') pc'" using served_deliver [OF _ d] L(5) by (simp add: consistent_def)
  then have cs: "consistent s' ?p" using M(1-3) c pc' by (simp add: consistent_def)
  have hl: "holds_lock s' ?p = holds_lock s ?p" using w L(4,7) pc' M(3) by (simp add: holds_lock_def)
  have v': "sem_view (kern s') ?x = sem_view (kern s) ?x" using E h by blast
  from neutral [OF l m _ cs v' L(7) hl] p0 show ?thesis by simp
qed

text \<open>A statement between calls, and the start of a function.\<close>

lemma thread_moves:
  assumes l: "locked s" and s': "kern s' = kern s" "code s' = (code s)(current_pid (kern s) := pc)"
      "m_mutex (box s') = m_mutex (box s)" "m_mail (box s') = m_mail (box s)"
    and user: "in_user_code s" and p0: "current_pid (kern s) \<noteq> 0" and pc: "served (box s') pc"
      "critical pc = critical (code s (current_pid (kern s)))"
  shows "locked s'"
proof -
  let ?p = "current_pid (kern s)"
  note L = locked_current [OF l]
  have us: "where_is s ?p = User" using user L(6) by (simp add: in_user_code_def)
  have m: "moves_on ?p User pc s s'"
    using L(1-4) s' us pctx_same_set [of "kern s" "nat ?p" User] by (simp add: moves_on_def)
  note M = moved [OF m l]
  have cs: "consistent s' ?p" using pc(1) M(1-3) by (simp add: consistent_def)
  have "holds_lock s' ?p = holds_lock s ?p" using pc(2) us M(1-3) by (simp add: holds_lock_def)
  from neutral [OF l m _ cs _ L(7) this] p0 s'(1) show ?thesis by simp
qed


lemma call_operand:
  assumes "request b pc = Some sc" and "served b pc" and "m_mail b \<noteq> m_mutex b"
  shows "locking pc \<and> sc = Sem_wait (Some (m_mutex b)) \<or> (\<exists>msg. pc = Trypost_lock msg) \<and> sc = Sem_trywait (Some (m_mutex b)) \<or>
    critical pc \<and> sc = Sem_post (Some (m_mutex b)) \<and>
      (\<forall>v h. \<exists>pc' b' news. deliver pc v h b = (pc', b', news) \<and> \<not> critical pc' \<and> \<not> locking pc') \<or>
    operand sc k \<noteq> Some (unat (m_mutex b)) \<and> (\<forall>sem. sc \<noteq> Sem_destroy sem) \<and> \<not> locking pc \<and> (waits sc \<longrightarrow> at_risk pc) \<and>
      (\<forall>v h. critical (fst (deliver pc v h b)) = critical pc)"
proof -
  have "get_sem_by_semt k (Some h) \<noteq> Some (unat (m_mutex b))" if "h \<noteq> m_mutex b" for h
    using handle_of_sem [of k h] that by (auto simp: word_unat_eq_iff)
  with assms show ?thesis by (cases pc) (auto split: if_splits)
qed

lemma statement_kept:
  "request b pc = None \<Longrightarrow> pc \<noteq> Out \<Longrightarrow> served b pc \<Longrightarrow> statement n tab pc b = (pc', b', news) \<Longrightarrow> critical pc' = critical pc"
  by (cases pc) (auto split: if_splits)

lemma locked_step:
  assumes l: "locked s" and a: "lawful mv s" and mv: "net_move mv s = Some s'"
  shows "locked s'"
proof -
  let ?p = "current_pid (kern s)" and ?x = "mutex s" and ?pc = "code s (current_pid (kern s))"
  note L = locked_current [OF l]
  have neq: "m_mail (box s) \<noteq> m_mutex (box s)" using l by (simp add: locked_def)
  have srv: "served (box s) ?pc" using L(5) by (simp add: consistent_def)
  show ?thesis
  proof (cases mv)
    case (Begin op)
    then have u: "in_user_code s" "?p \<noteq> 0" "?pc = Out" and s': "s' = s\<lparr>code := (code s)(?p := entry op)\<rparr>"
      using mv by (auto simp: net_move_def Let_def split: if_splits)
    have "served (box s) (entry op)" "\<not> critical (entry op)" using a Begin by (cases op; simp)+
    with u s' show ?thesis by (intro thread_moves [OF l, of s' "entry op"]) simp_all
  next
    case Interrupt
    then have u: "in_user_code s" and ev: "kernel_event Tick s = Some s'" using mv by (auto simp: net_move_def Let_def split: if_splits)
    show ?thesis
      by (rule neutral_event [OF l _ _ ev _ refl]) (use u in \<open>simp_all add: in_user_code_def tidy_def leaves_alone_def\<close>)
  next
    case (Other sc)
    then have u: "in_user_code s" "?p \<noteq> 0" "?pc = Out" and ev: "kernel_event (Call sc) s = Some s'"
      using mv by (auto simp: net_move_def Let_def split: if_splits)
    show ?thesis
      by (rule neutral_event [OF l _ _ ev _ refl]) (use u a Other in \<open>simp_all add: in_user_code_def leaves_alone_def\<close>)
  next
    case Go_on
    show ?thesis
    proof (cases "in_user_code s")
      case False
      then have ev: "kernel_event Resume s = Some s'" using mv Go_on by (simp add: net_move_def Let_def)
      show ?thesis
      proof (cases "locking ?pc")
        case True
        from lock_resumed [OF l True False ev] show ?thesis .
      next
        case nl: False
        have nu: "where_is s ?p \<noteq> User" using False L(6) by (simp add: in_user_code_def)
        then have r: "at_risk ?pc" "where_is s ?p \<noteq> In_sem_timedwait ?x" using L(5) by (auto simp: consistent_def)
        have d: "critical (fst (deliver ?pc v h (box s))) = critical ?pc \<and> (fst (deliver ?pc v h (box s)) \<noteq> Out \<longrightarrow> ?pc \<noteq> Out)" for v h
          using r(1) nl by (cases ?pc) auto
        show ?thesis
          by (rule neutral_event [OF l _ _ ev _ refl])
            (use False r d nl L(6) in \<open>simp_all add: in_user_code_def tidy_def leaves_alone_def\<close>)
      qed
    next
      case u: True
      then have p0: "?p \<noteq> 0" and o: "?pc \<noteq> Out" using mv Go_on by (auto simp: net_move_def Let_def split: if_splits)
      show ?thesis
      proof (cases "request (box s) ?pc")
        case None
        obtain pc b news where st: "statement (kernel_ticks (kern s)) (table s) ?pc (box s) = (pc, b, news)" by (metis surj_pair)
        then have s': "s' = set_thread ?p (pc, b, news) s" using mv Go_on u p0 o None by (simp add: net_move_def Let_def)
        from served_statement [OF srv st] statement_kept [OF None o srv st] u p0 s' show ?thesis
          by (intro thread_moves [OF l, of s' pc]) (simp_all add: set_thread_def)
      next
        case (Some sc)
        then have ev: "kernel_event (Call sc) s = Some s'" using mv Go_on u p0 o by (simp add: net_move_def Let_def)
        from call_operand [OF Some srv neq, of "kern s"] consider
          "locking ?pc" "sc = Sem_wait (Some (m_mutex (box s)))"
          | msg where "?pc = Trypost_lock msg" "sc = Sem_trywait (Some (m_mutex (box s)))"
          | "critical ?pc" "sc = Sem_post (Some (m_mutex (box s)))"
            "\<And>v h. \<exists>pc' b' news. deliver ?pc v h (box s) = (pc', b', news) \<and> \<not> critical pc' \<and> \<not> locking pc'"
          | "operand sc (kern s) \<noteq> Some ?x" "\<forall>sem. sc \<noteq> Sem_destroy sem" "\<not> locking ?pc" "waits sc \<longrightarrow> at_risk ?pc"
            "\<forall>v h. critical (fst (deliver ?pc v h (box s))) = critical ?pc"
          by (auto simp: mutex_def)
        then show ?thesis
        proof cases
          case 1
          from lock_call [OF l 1(1) u] ev 1(2) show ?thesis by simp
        next
          case (2 msg)
          from try_call [OF l 2(1) u] ev 2(2) show ?thesis by simp
        next
          case 3
          from unlock_call [OF l 3(1,3)] ev 3(2) show ?thesis by simp
        next
          case 4
          show ?thesis
            by (rule neutral_event [OF l _ _ ev _ refl])
              (use u p0 o 4 tidy_other in \<open>auto simp: in_user_code_def leaves_alone_def\<close>)
        qed
      qed
    qed
  qed
qed

lemma locked_run: "thread_run s mvs s' \<Longrightarrow> locked s \<Longrightarrow> locked s'"
  by (induction rule: thread_run.induct) (auto intro: locked_step)

end
