(* ===== verification/Mail_Queue.thy ===== *)
theory Mail_Queue
  imports Mailbox
begin

text \<open>
  What is in a mailbox: a first-in first-out queue as long as there is room, because of the lock.
  What happens without room, and the times the functions return.
\<close>

section \<open>The messages of a mailbox\<close>

definition mbox_size :: "mbox \<Rightarrow> nat" where
  "mbox_size b = (m_last b + SYS_MBOX_SIZE - m_first b) mod SYS_MBOX_SIZE"

definition mbox_contents :: "mbox \<Rightarrow> u32 list" where
  "mbox_contents b = map (\<lambda>i. m_msgs b ! ((m_first b + i) mod SYS_MBOX_SIZE)) [0..<mbox_size b]"

definition mbox_shape :: "mbox \<Rightarrow> bool" where
  "mbox_shape b \<longleftrightarrow> m_first b < SYS_MBOX_SIZE \<and> m_last b < SYS_MBOX_SIZE \<and> length (m_msgs b) = SYS_MBOX_SIZE"

definition messages_in :: "traffic list \<Rightarrow> u32 list" where
  "messages_in h = concat (map (\<lambda>t. case t of Put msg \<Rightarrow> [msg] | _ \<Rightarrow> []) h)"

definition messages_out :: "traffic list \<Rightarrow> u32 list" where
  "messages_out h = concat (map (\<lambda>t. case t of Got msg \<Rightarrow> [msg] | _ \<Rightarrow> []) h)"

lemma traffic_append [simp]: "messages_in (h @ h') = messages_in h @ messages_in h'" "messages_out (h @ h') = messages_out h @ messages_out h'"
  by (simp_all add: messages_in_def messages_out_def)

lemma mbox_next_mod: "i < SYS_MBOX_SIZE \<Longrightarrow> mbox_next i = (i + 1) mod SYS_MBOX_SIZE"
  by (auto simp: mbox_next_def Let_def)

lemma mbox_next_less: "i < SYS_MBOX_SIZE \<Longrightarrow> mbox_next i < SYS_MBOX_SIZE"
  by (simp add: mbox_next_mod)

lemma mbox_size_cases:
  assumes "mbox_shape b"
  shows "mbox_size b = (if m_first b \<le> m_last b then m_last b - m_first b else m_last b + SYS_MBOX_SIZE - m_first b)"
proof (cases "m_first b \<le> m_last b")
  case True
  then have "m_last b + SYS_MBOX_SIZE - m_first b = (m_last b - m_first b) + SYS_MBOX_SIZE" by simp
  moreover have "m_last b - m_first b < SYS_MBOX_SIZE" using assms by (auto simp: mbox_shape_def)
  ultimately have "mbox_size b = m_last b - m_first b" unfolding mbox_size_def by (metis mod_add_self2 mod_less)
  then show ?thesis using True by simp
qed (use assms in \<open>simp add: mbox_size_def mbox_shape_def\<close>)

lemma mbox_slot_last:
  assumes "mbox_shape b"
  shows "(m_first b + mbox_size b) mod SYS_MBOX_SIZE = m_last b"
  using assms by (auto simp: mbox_size_cases mbox_shape_def)

lemma mbox_empty: "mbox_shape b \<Longrightarrow> mbox_size b = 0 \<longleftrightarrow> m_first b = m_last b"
  by (auto simp: mbox_size_cases mbox_shape_def)

text \<open>A store does not touch the messages; going on with \<open>last\<close> appends the message stored, if there is room.\<close>

lemma store_contents:
  assumes "mbox_shape b"
  shows "mbox_contents (b\<lparr>m_msgs := (m_msgs b)[m_last b := msg]\<rparr>) = mbox_contents b"
proof -
  have "m_last b \<noteq> (m_first b + i) mod SYS_MBOX_SIZE" if i: "i < mbox_size b" for i
  proof (cases "m_first b + i < SYS_MBOX_SIZE")
    case True
    then show ?thesis using i assms by (auto simp: mbox_size_cases mbox_shape_def split: if_splits)
  next
    case False
    have "m_first b + i < 2 * SYS_MBOX_SIZE" using i assms by (auto simp: mbox_size_cases mbox_shape_def split: if_splits)
    with False have "(m_first b + i) mod SYS_MBOX_SIZE = m_first b + i - SYS_MBOX_SIZE" by (simp add: le_mod_geq)
    then show ?thesis using False i assms by (auto simp: mbox_size_cases mbox_shape_def split: if_splits)
  qed
  then show ?thesis by (auto simp: mbox_contents_def mbox_size_def nth_list_update_neq)
qed

lemma advance_contents:
  assumes s: "mbox_shape b" and r: "room b"
  shows "mbox_contents (b\<lparr>m_last := mbox_next (m_last b)\<rparr>) = mbox_contents b @ [m_msgs b ! m_last b]"
proof -
  let ?b = "b\<lparr>m_last := mbox_next (m_last b)\<rparr>"
  have "mbox_shape ?b" using s by (simp add: mbox_shape_def mbox_next_less)
  then have "mbox_size ?b = Suc (mbox_size b)"
    using s r by (auto simp: mbox_size_cases room_def mbox_next_def mbox_shape_def Let_def)
  then show ?thesis using mbox_slot_last [OF s] by (simp add: mbox_contents_def)
qed

lemma take_contents:
  assumes s: "mbox_shape b" and ne: "m_first b \<noteq> m_last b"
  shows "mbox_contents b = m_msgs b ! m_first b # mbox_contents (b\<lparr>m_first := mbox_next (m_first b)\<rparr>)"
proof -
  let ?b = "b\<lparr>m_first := mbox_next (m_first b)\<rparr>"
  have "mbox_shape ?b" using s by (simp add: mbox_shape_def mbox_next_less)
  then have n: "mbox_size b = Suc (mbox_size ?b)"
    using s ne by (auto simp: mbox_size_cases mbox_next_def mbox_shape_def Let_def)
  have "(mbox_next (m_first b) + i) mod SYS_MBOX_SIZE = (m_first b + Suc i) mod SYS_MBOX_SIZE" for i
    using s by (simp add: mbox_next_mod mbox_shape_def mod_simps)
  moreover have "m_first b mod SYS_MBOX_SIZE = m_first b" using s by (simp add: mbox_shape_def)
  ultimately show ?thesis by (simp add: mbox_contents_def n upt_conv_Cons map_Suc_upt [symmetric] comp_def del: upt_Suc)
qed

text \<open>One message too many.\<close>

lemma overflow_contents:
  assumes s: "mbox_shape b" and r: "\<not> room b"
  shows "mbox_contents (b\<lparr>m_last := mbox_next (m_last b)\<rparr>) = []"
  using r by (simp add: mbox_contents_def mbox_size_def room_def)

lemma room_iff: "mbox_shape b \<Longrightarrow> room b \<longleftrightarrow> length (mbox_contents b) < 499"
  by (auto simp: room_def mbox_contents_def mbox_size_cases mbox_next_def mbox_shape_def Let_def)

text \<open>
  What the statements of a post and of a fetch do to the mailbox. This is a bounded queue, but none that
  drops the message when it is full.
\<close>

definition mail_put :: "mbox \<Rightarrow> u32 \<Rightarrow> mbox" where
  "mail_put b msg = (let (pc, b, news) = statement 0 [] (Post_store msg) b in fst (snd (statement 0 [] pc b)))"

definition mail_get :: "mbox \<Rightarrow> u32 \<times> mbox" where
  "mail_get b = (m_msgs b ! m_first b, fst (snd (statement 0 [] (Fetch_advance (m_msgs b ! m_first b) 0 0) b)))"

interpretation mailq: bounded_queue mbox_shape mbox_contents "\<lambda>b. 499" mail_put mail_get
proof
  fix b b' :: mbox and msg
  assume s: "mbox_shape b"
  let ?b = "b\<lparr>m_msgs := (m_msgs b)[m_last b := msg]\<rparr>"
  have put: "mail_put b msg = ?b\<lparr>m_last := mbox_next (m_last ?b)\<rparr>" by (simp add: mail_put_def)
  have s': "mbox_shape ?b" "m_msgs ?b ! m_last ?b = msg" using s by (auto simp: mbox_shape_def)
  show "length (mbox_contents b) \<le> 499" by (simp add: mbox_contents_def mbox_size_def)
  show "mbox_shape (mail_put b msg) \<and> (499 :: nat) = 499"
    using s unfolding put by (auto simp: mbox_shape_def mbox_next_less)
  show "mbox_contents (mail_put b msg) = mbox_contents b @ [msg]" if "length (mbox_contents b) < 499"
  proof -
    have "room ?b" using that room_iff [OF s] by (simp add: room_def)
    from advance_contents [OF s'(1) this] show ?thesis unfolding put s'(2) store_contents [OF s] .
  qed
  show "mbox_contents b = msg # mbox_contents b' \<and> mbox_shape b' \<and> (499 :: nat) = 499"
    if "mbox_contents b \<noteq> []" "mail_get b = (msg, b')"
  proof -
    have "m_first b \<noteq> m_last b" using that(1) mbox_empty [OF s] by (auto simp: mbox_contents_def)
    from take_contents [OF s this] that(2) s show ?thesis by (auto simp: mail_get_def mbox_shape_def mbox_next_less)
  qed
qed

text \<open>Up to 499 messages posted to an empty mailbox come out in order, wherever its indices stand.\<close>

lemma mail_batch:
  "mbox_shape b \<Longrightarrow> mbox_contents b = [] \<Longrightarrow> length msgs \<le> 499 \<Longrightarrow>
   mailq.gets (length msgs) (foldl mail_put b msgs) = msgs"
  using mailq.first_in_first_out [of b msgs] by simp

section \<open>Threads and messages\<close>

text \<open>What a thread relies on while it is between the lock and the unlock.\<close>

fun agrees :: "mbox \<Rightarrow> mbox_pc \<Rightarrow> bool" where
  "agrees b (Post_advance msg) = (m_msgs b ! m_last b = msg)"
| "agrees b (Fetch_read start stop) = (m_first b \<noteq> m_last b)"
| "agrees b (Fetch_advance msg start stop) = (m_first b \<noteq> m_last b \<and> m_msgs b ! m_first b = msg)"
| "agrees b _ = True"

lemma agrees_outside: "\<not> critical pc \<Longrightarrow> agrees b pc"
  by (cases pc) auto

lemma statement_contents:
  assumes st: "statement n tab pc b = (pc', b', news)" and srv: "served b pc" and s: "mbox_shape b" and a: "agrees b pc"
    and r: "case pc of Post_advance msg \<Rightarrow> room b | _ \<Rightarrow> True"
  shows "mbox_shape b' \<and> agrees b' pc' \<and> mbox_contents b @ messages_in news = messages_out news @ mbox_contents b' \<and>
    (\<not> critical pc \<longrightarrow> b' = b)"
proof (cases pc)
  case (Post_store msg)
  with assms store_contents [OF s] show ?thesis by (auto simp: mbox_shape_def messages_in_def messages_out_def)
next
  case (Post_advance msg)
  with assms advance_contents [OF s] show ?thesis by (auto simp: mbox_shape_def messages_in_def messages_out_def mbox_next_less)
next
  case (Fetch_advance msg start stop)
  with assms take_contents [OF s] show ?thesis by (auto simp: mbox_shape_def messages_in_def messages_out_def mbox_next_less)
qed (use assms in \<open>auto simp: messages_in_def messages_out_def split: if_splits\<close>)

lemma deliver_contents:
  "deliver pc v h b = (pc', b', news) \<Longrightarrow> served b pc \<Longrightarrow> agrees b pc \<Longrightarrow>
   b' = b \<and> agrees b pc' \<and> messages_in news = [] \<and> messages_out news = []"
  by (cases pc) (auto simp: messages_in_def messages_out_def split: if_splits)

definition mail_ok :: "net \<Rightarrow> bool" where
  "mail_ok s \<longleftrightarrow> mbox_shape (box s) \<and> (\<forall>p. agrees (box s) (code s p))"

lemma mail_event:
  assumes l: "locked s" and ok: "mail_ok s" and ev: "kernel_event e s = Some s'"
  shows "mail_ok s' \<and> (\<exists>news. history s' = history s @ news \<and>
    mbox_contents (box s) @ messages_in news = messages_out news @ mbox_contents (box s'))"
proof -
  let ?p = "current_pid (kern s)"
  have srv: "served (box s) (code s ?p)" using locked_current(5) [OF l] by (simp add: consistent_def)
  obtain r k where h: "handle_event e (kern s) = Some (r, k)"
    using ev by (cases "handle_event e (kern s)") (auto simp: kernel_event_def Let_def)
  show ?thesis
  proof (cases r)
    case None
    then have "s' = s\<lparr>kern := k\<rparr>" using ev h by (simp add: kernel_event_def)
    then show ?thesis using ok by (simp add: mail_ok_def messages_in_def messages_out_def)
  next
    case (Some res)
    obtain v h' where res: "res = Returns v h'" by (cases res)
    obtain pc b news where d: "deliver (code s ?p) v h' (box s) = (pc, b, news)" by (metis surj_pair)
    then have s': "s' = set_thread ?p (pc, b, news) (s\<lparr>kern := k\<rparr>)" using ev h Some res by (simp add: kernel_event_def)
    have "agrees (box s) (code s ?p)" using ok by (simp add: mail_ok_def)
    from deliver_contents [OF d srv this] ok show ?thesis unfolding s' by (auto simp: mail_ok_def set_thread_def)
  qed
qed

lemma mail_step:
  assumes l: "locked s" and ok: "mail_ok s" and a: "allowed mv s" and mv: "net_move mv s = Some s'"
  shows "mail_ok s' \<and> (\<exists>news. history s' = history s @ news \<and>
    mbox_contents (box s) @ messages_in news = messages_out news @ mbox_contents (box s'))"
proof -
  let ?p = "current_pid (kern s)"
  have srv: "served (box s) (code s ?p)" using locked_current(5) [OF l] by (simp add: consistent_def)
  consider (event) e where "kernel_event e s = Some s'"
    | (start) op where "s' = s\<lparr>code := (code s)(?p := entry op)\<rparr>"
    | (go) "mv = Go_on" "s' = set_thread ?p (statement (kernel_ticks (kern s)) (table s) (code s ?p) (box s)) s"
  proof (cases mv)
    case Go_on
    then show ?thesis using mv event go
      by (cases "request (box s) (code s ?p)") (simp_all add: net_move_def Let_def split: if_splits)
  next
    case (Begin op)
    then show ?thesis using mv start [of op] by (auto simp: net_move_def Let_def split: if_splits)
  qed (use mv event in \<open>simp_all add: net_move_def Let_def split: if_splits\<close>)
  then show ?thesis
  proof cases
    case event
    from mail_event [OF l ok this] show ?thesis .
  next
    case start
    have "agrees (box s) (entry op)" by (cases op) simp_all
    then show ?thesis using ok by (auto simp: start mail_ok_def messages_in_def messages_out_def)
  next
    case go
    obtain pc b news where st: "statement (kernel_ticks (kern s)) (table s) (code s ?p) (box s) = (pc, b, news)"
      by (metis surj_pair)
    have "mbox_shape (box s)" "agrees (box s) (code s ?p)" using ok by (simp_all add: mail_ok_def)
    from statement_contents [OF st srv this] a go(1) have c: "mbox_shape b" "agrees b pc"
      "mbox_contents (box s) @ messages_in news = messages_out news @ mbox_contents b" "\<not> critical (code s ?p) \<longrightarrow> b = box s" by auto
    have "agrees b (code s q)" if "q \<noteq> ?p" for q
    proof (cases "critical (code s ?p)")
      case True
      then have "\<not> critical (code s q)" using exclusive [OF l] that by blast
      then show ?thesis by (rule agrees_outside)
    qed (use c(4) ok in \<open>simp add: mail_ok_def\<close>)
    with c(1-3) show ?thesis by (auto simp: go(2) st mail_ok_def set_thread_def)
  qed
qed

lemma mail_run:
  "net_run s mvs s' \<Longrightarrow> locked s \<Longrightarrow> mail_ok s \<Longrightarrow>
   mail_ok s' \<and> (\<exists>news. history s' = history s @ news \<and> mbox_contents (box s) @ messages_in news = messages_out news @ mbox_contents (box s'))"
proof (induction rule: net_run.induct)
  case (net_run_step s mvs s' mv s'')
  have l: "locked s'" using locked_run [OF net_thread_run [OF net_run_step.hyps(1)]] net_run_step.prems(1) .
  from net_run_step obtain news where i: "mail_ok s'" "history s' = history s @ news"
    "mbox_contents (box s) @ messages_in news = messages_out news @ mbox_contents (box s')" by blast
  from mail_step [OF l i(1) net_run_step.hyps(2,3)] obtain more where m: "mail_ok s''" "history s'' = history s' @ more"
    "mbox_contents (box s') @ messages_in more = messages_out more @ mbox_contents (box s'')" by blast
  have "mbox_contents (box s) @ messages_in (news @ more) = (mbox_contents (box s) @ messages_in news) @ messages_in more" by simp
  also have "\<dots> = messages_out (news @ more) @ mbox_contents (box s'')" unfolding i(3) using m(3) by simp
  finally show ?case using i(2) m(1,2) by auto
qed (auto simp: messages_in_def messages_out_def)

end
