(* ===== verification/Mail_Service.thy ===== *)
theory Mail_Service
  imports Mail_Queue
begin

text \<open>
  The mailboxes in service: the lock, the order of the messages and the two limits of the code,
  from a mailbox that has been opened on a kernel that has been running.
\<close>

section \<open>A mailbox in service\<close>

text \<open>
  What \<open>sys_mbox_new\<close> leaves: two different semaphores, one unit on the mutex, nobody in the functions.
\<close>

definition mbox_ready :: "net \<Rightarrow> bool" where
  "mbox_ready s \<longleftrightarrow> (\<exists>ts es. tidy_run (xilkernel_init ts) es (kern s)) \<and>
     mutex s < 50 \<and> sem_id (sem_heap (kern s) ! mutex s) \<noteq> - 1 \<and> sem_view (kern s) (mutex s) = (1, []) \<and>
     m_mail (box s) \<noteq> m_mutex (box s) \<and> mbox_shape (box s) \<and> (\<forall>p. code s p = Out) \<and>
     set (pctx (kern s)) \<inter> {In_sem_wait (mutex s), In_sem_timedwait (mutex s)} = {}"

lemma ready_locked:
  assumes r: "mbox_ready s"
  shows "locked s"
proof -
  have R: "running (kern s)" "sems_ok (kern s)" using r reachable_ok by (auto simp: mbox_ready_def)
  have w: "wt (kern s) (mutex s) = []" using r by (auto simp: mbox_ready_def sem_view_def wt_contents)
  have c: "where_is s p \<noteq> In_sem_wait (mutex s)" "where_is s p \<noteq> In_sem_timedwait (mutex s)" if "valid p" for p
  proof -
    have "where_is s p \<in> set (pctx (kern s))" using pctx_length [OF R(1)] that by (simp add: valid_def)
    then show "where_is s p \<noteq> In_sem_wait (mutex s)" "where_is s p \<noteq> In_sem_timedwait (mutex s)"
      using r by (auto simp: mbox_ready_def)
  qed
  have "\<not> holds_lock s p" for p using c(1) r by (auto simp: holds_lock_def mbox_ready_def)
  then have "lock_state s" using r by (simp add: lock_state_def mbox_ready_def)
  moreover have "untimed (mutex s) (kern s)" using r w by (simp add: untimed_def mbox_ready_def)
  moreover have "consistent s p" if "valid p" for p using c [OF that] r by (simp add: consistent_def mbox_ready_def)
  ultimately show ?thesis using R w r by (simp add: locked_def mbox_ready_def)
qed

lemma ready_mail: "mbox_ready s \<Longrightarrow> mail_ok s"
  by (simp add: mbox_ready_def mail_ok_def)

text \<open>C10: Mutual exclusion. From a mailbox in service, wherever the timer interrupts the threads and whatever they
  do, full mailboxes included, at most one thread is between the lock and the unlock of the mailbox. They may not
  free the mailbox or open it again, use its lock other than by the functions on mailboxes, or destroy a semaphore
  with a unit to give and a process in its queue.\<close>

theorem mailbox_mutual_exclusion:
  assumes "mbox_ready s" "thread_run s mvs s'" "critical (code s' p)" "critical (code s' q)"
  shows "p = q"
  using exclusive [OF locked_run [OF assms(2) ready_locked [OF assms(1)]]] assms(3,4) .

text \<open>C11: A mailbox is a first-in first-out queue. In every run in which no message goes in without room,
  the messages taken out so far, followed by the ones in the mailbox, are the messages that were in it at the
  start followed by the ones put in, in the order in which the threads got the lock.\<close>

theorem mailbox_is_fifo:
  assumes "mbox_ready s" "net_run s mvs s'"
  shows "\<exists>news. history s' = history s @ news \<and>
    messages_out news @ mbox_contents (box s') = mbox_contents (box s) @ messages_in news"
  using mail_run [OF assms(2) ready_locked ready_mail] assms(1) by fastforce

text \<open>C35: One message too many empties a mailbox. A thread that posts while 499 messages wait goes on without an
  error, and after its step the mailbox is empty: the 499 messages and its own are lost.\<close>

theorem overflow_empties_mailbox:
  assumes "mbox_ready s" "net_run s mvs s'"
    and "code s' (current_pid (kern s')) = Post_advance msg" "in_user_code s'" "length (mbox_contents (box s')) = 499"
  shows "\<exists>s''. net_move Go_on s' = Some s'' \<and> code s'' (current_pid (kern s')) = Post_mail \<and> mbox_contents (box s'') = []"
proof -
  have l: "locked s'" using locked_run [OF net_thread_run [OF assms(2)] ready_locked [OF assms(1)]] .
  have s: "mbox_shape (box s')"
    using mail_run [OF assms(2) ready_locked ready_mail] assms(1) by (auto simp: mail_ok_def)
  have "current_pid (kern s') \<noteq> 0" using busy [OF l, of "current_pid (kern s')"] assms(3) by simp
  moreover have "\<not> room (box s')" using room_iff [OF s] assms(5) by simp
  ultimately show ?thesis
    using assms(3,4) overflow_contents [OF s] by (simp add: net_move_def Let_def set_thread_def)
qed

section \<open>Times\<close>

text \<open>The time that a wait returns: exact when the clock has not wrapped in between, one tick short when it has.\<close>

lemma elapsed_exact:
  "elapsed_ms start (start + d) = ticks_to_ms (if unat start + unat d < 2 ^ 32 then d else d - 1)"
proof -
  have "unat start < 2 ^ 32" "unat d < 2 ^ 32"
    using unsigned_less [of start, where 'a = nat] unsigned_less [of d, where 'a = nat] by simp_all
  then have "unat (start + d) = (if unat start + unat d < 2 ^ 32 then unat start + unat d else unat start + unat d - 2 ^ 32)"
    by (simp add: unat_word_ariths le_mod_geq)
  with \<open>unat d < 2 ^ 32\<close> have c: "start \<le> start + d \<longleftrightarrow> unat start + unat d < 2 ^ 32"
    by (simp add: word_le_nat_alt split: if_splits)
  have w: "0xFFFFFFFF - start + (start + d) = d - 1" by simp
  show ?thesis unfolding elapsed_ms_def c w by simp
qed

section \<open>Two threads\<close>

text \<open>
  Two threads and a mailbox with \<open>first = i\<close> and \<open>last = j\<close>, and runs of them: a thread is in the middle of a
  post; another one waits for the lock; and the message has been fetched.
\<close>

fun net_exec :: "move list \<Rightarrow> net \<Rightarrow> net option" where
  "net_exec [] s = Some s"
| "net_exec (mv # mvs) s = (if allowed mv s then Option.bind (net_move mv s) (net_exec mvs) else None)"

lemma net_exec_append: "net_run s mvs s' \<Longrightarrow> net_exec mvs' s' = Some s'' \<Longrightarrow> net_run s (mvs @ mvs') s''"
proof (induction mvs' arbitrary: mvs s')
  case (Cons mv mvs')
  then obtain t where "allowed mv s'" "net_move mv s' = Some t" "net_exec mvs' t = Some s''"
    by (cases "net_move mv s'") (auto split: if_splits)
  with Cons.IH [of "mvs @ [mv]" t] net_run_step [OF Cons.prems(1)] show ?case by simp
qed simp

lemma net_exec_run: "net_exec mvs s = Some s' \<Longrightarrow> net_run s mvs s'"
  using net_exec_append [OF net_run_refl] by fastforce

definition two_threads :: "nat \<Rightarrow> nat \<Rightarrow> kernel \<Rightarrow> net" where
  "two_threads i j k =
     \<lparr>kern = k, box = \<lparr>m_used = True, m_first = i, m_last = j, m_msgs = replicate SYS_MBOX_SIZE 0, m_mail = 0, m_mutex = 1\<rparr>,
      table = [], code = (\<lambda>_. Out), history = []\<rparr>"

definition opened :: "event list" where
  "opened = [Tick, Call (Sem_init 0 0), Call (Sem_init 0 1)]"

definition half_posted :: "move list" where
  "half_posted = [Begin (Mbox_post 7), Go_on, Go_on]"

definition fetch_waits :: "move list" where
  "fetch_waits = half_posted @ [Interrupt, Begin (Mbox_fetch 0), Go_on]"

definition post_fetched :: "move list" where
  "post_fetched = fetch_waits @ [Go_on, Go_on, Go_on, Interrupt, Interrupt, Go_on, Go_on, Go_on, Go_on, Go_on]"

lemma ready_two_threads:
  "\<exists>k. run_events opened (xilkernel_init [0, 0]) = Some k \<and> (i < 500 \<longrightarrow> j < 500 \<longrightarrow> mbox_ready (two_threads i j k))"
proof -
  have "map_option (\<lambda>k. (sem_id (sem_heap k ! 1), sem_view k 1, pctx k))
      (run_events opened (xilkernel_init [0, 0])) = Some (1, (1, []), replicate 20 User)"
    unfolding opened_def by code_simp
  then obtain k where k: "run_events opened (xilkernel_init [0, 0]) = Some k" "sem_id (sem_heap k ! 1) = 1"
    "sem_view k 1 = (1, [])" "pctx k = replicate 20 User" by auto
  have "tidy_run (xilkernel_init [0, 0]) opened k" using run_events_tidy [OF k(1)] by (simp add: opened_def)
  with k show ?thesis by (intro exI [of _ k]) (auto simp: mbox_ready_def two_threads_def mutex_def mbox_shape_def)
qed

lemma half_posted_state:
  "map_option (\<lambda>s. (current_pid (kern s), in_user_code s, code s 1, m_first (box s), m_last (box s)))
     (Option.bind (run_events opened (xilkernel_init [0, 0])) (\<lambda>k. net_exec half_posted (two_threads 1 0 k))) =
   Some (1, True, Post_advance 7, 1, 0)"
  unfolding opened_def half_posted_def two_threads_def by code_simp

lemma fetch_waits_state:
  "map_option (\<lambda>s. (current_pid (kern s), code s 1, code s 2))
     (Option.bind (run_events opened (xilkernel_init [0, 0])) (\<lambda>k. net_exec fetch_waits (two_threads 0 0 k))) =
   Some (1, Post_advance 7, Fetch_lock 0 0 0)"
  unfolding opened_def half_posted_def fetch_waits_def two_threads_def by code_simp

lemma post_fetched_state:
  "map_option (\<lambda>s. (history s, m_first (box s), m_last (box s)))
     (Option.bind (run_events opened (xilkernel_init [0, 0])) (\<lambda>k. net_exec post_fetched (two_threads 0 0 k))) =
   Some ([Put 7, Posted 0, Got 7, Fetched (Some 7) 0], 1, 1)"
  unfolding opened_def half_posted_def fetch_waits_def post_fetched_def two_threads_def by code_simp

lemma run_two_threads:
  assumes "i < 500" "j < 500"
    and "map_option f (Option.bind (run_events opened (xilkernel_init [0, 0])) (\<lambda>k. net_exec mvs (two_threads i j k))) = Some v"
  shows "\<exists>k s. mbox_ready (two_threads i j k) \<and> net_run (two_threads i j k) mvs s \<and> f s = v"
proof -
  from ready_two_threads [of i j] assms obtain k where
    "run_events opened (xilkernel_init [0, 0]) = Some k" "mbox_ready (two_threads i j k)" by blast
  with assms(3) net_exec_run [of mvs "two_threads i j k"] show ?thesis by auto
qed

text \<open>One thread has locked the mailbox and is interrupted; another one fetches, and cannot come in.\<close>

theorem mailbox_mutual_exclusion_witness:
  "\<exists>k s. net_run (two_threads 0 0 k) fetch_waits s \<and> code s 2 = Fetch_lock 0 0 0 \<and> critical (code s 1) \<and>
    (\<forall>q. critical (code s q) \<longrightarrow> q = 1)"
proof -
  from run_two_threads [OF _ _ fetch_waits_state] obtain k s where r: "mbox_ready (two_threads 0 0 k)"
    "net_run (two_threads 0 0 k) fetch_waits s" "code s 1 = Post_advance 7" "code s 2 = Fetch_lock 0 0 0" by auto
  then have "critical (code s 1)" by simp
  with r mailbox_mutual_exclusion [OF r(1) net_thread_run [OF r(2)] _ this] show ?thesis by blast
qed

theorem mailbox_is_fifo_witness:
  "\<exists>k s. net_run (two_threads 0 0 k) post_fetched s \<and> [7] @ mbox_contents (box s) = [7]"
proof -
  from run_two_threads [OF _ _ post_fetched_state] obtain k s where r: "mbox_ready (two_threads 0 0 k)"
    "net_run (two_threads 0 0 k) post_fetched s" "history s = [Put 7, Posted 0, Got 7, Fetched (Some 7) 0]" by auto
  from mailbox_is_fifo [OF r(1,2)] r show ?thesis
    by (intro exI [of _ k] exI [of _ s]) (simp add: two_threads_def mbox_contents_def [of "\<lparr>m_used = _, m_first = 0, m_last = 0, m_msgs = _, m_mail = _, m_mutex = _\<rparr>"] mbox_size_def messages_in_def messages_out_def)
qed

theorem overflow_empties_mailbox_witness:
  "\<exists>k s s'. net_run (two_threads 1 0 k) half_posted s \<and> length (mbox_contents (box s)) = 499 \<and>
    net_move Go_on s = Some s' \<and> mbox_contents (box s') = []"
proof -
  from run_two_threads [OF _ _ half_posted_state] obtain k s where r: "mbox_ready (two_threads 1 0 k)"
    "net_run (two_threads 1 0 k) half_posted s" "current_pid (kern s) = 1" "in_user_code s" "code s 1 = Post_advance 7"
    "m_first (box s) = 1" "m_last (box s) = 0" by auto
  then have "length (mbox_contents (box s)) = 499" by (simp add: mbox_contents_def mbox_size_def)
  with overflow_empties_mailbox [OF r(1,2), of 7] r show ?thesis by auto
qed

end
