(* ===== verification/Mail_Counter.thy ===== *)
theory Mail_Counter
  imports Mail_Service
begin

text \<open>
  The semaphore that counts the mail of a mailbox. A fetch that finds a message at once does not take its unit,
  so one thread that posts and fetches in turn raises the value with every message, until its signed char
  wraps and a thread that waits for mail sleeps although there is some.
\<close>

section \<open>The kernel under one thread\<close>

text \<open>
  Process \<open>p\<close> runs, nobody waits on the semaphores \<open>i\<close> and \<open>j\<close>, which have the values \<open>v\<close> and \<open>w\<close>.
\<close>

definition lone_kernel :: "nat \<Rightarrow> nat \<Rightarrow> int \<Rightarrow> 8 word \<Rightarrow> 8 word \<Rightarrow> kernel \<Rightarrow> bool" where
  "lone_kernel i j p v w k \<longleftrightarrow> running k \<and> sems_ok k \<and> \<not> resched k \<and> current_pid k = p \<and> p \<noteq> 0 \<and>
     pcontext (pcb k p) = User \<and> i < 50 \<and> j < 50 \<and> i \<noteq> j \<and>
     sem_id (sem_heap k ! i) \<noteq> - 1 \<and> sem_id (sem_heap k ! j) \<noteq> - 1 \<and> wt k i = [] \<and> wt k j = [] \<and>
     sem_value (sem_heap k ! i) = v \<and> sem_value (sem_heap k ! j) = w"

lemma lone_swap: "lone_kernel i j p v w k \<longleftrightarrow> lone_kernel j i p w v k"
  by (auto simp: lone_kernel_def)

lemma lone_value:
  assumes "lone_kernel i j p v w k"
  shows "lone_kernel i j p (f v) w (upd_sem i (sem_value_update f) k)"
proof -
  have R: "running k" "sems_ok k" "i < 50" "sem_id (sem_heap k ! i) \<noteq> - 1" using assms by (simp_all add: lone_kernel_def)
  have l: "length (sem_heap k) = 50" using runningD(2) [OF R(1)] by (simp add: shape_def)
  note V = value_upd [OF R, of f]
  show ?thesis using assms V l by (auto simp: lone_kernel_def sem_upd)
qed

lemma lone_handle:
  "lone_kernel i j p v w k \<Longrightarrow> unat h = i \<Longrightarrow> get_sem_by_semt k (Some h) = Some i"
  by (auto simp: get_sem_by_semt_def lone_kernel_def word_less_nat_alt)

lemma lone_post:
  assumes k: "lone_kernel i j p v w k" and h: "unat h = i"
  shows "\<exists>k'. handle_event (Call (Sem_post (Some h))) k = Some (Some (Returns 0 None), k') \<and> lone_kernel i j p (v + 1) w k'"
proof -
  let ?k = "upd_sem i (sem_value_update (\<lambda>v. v + 1)) k"
  have k': "lone_kernel i j p (v + 1) w ?k" by (rule lone_value [OF k])
  then have u: "\<not> sem_unlink (sem_heap ?k ! i)" "wt ?k i = []" "i < 50" by (simp_all add: lone_kernel_def sems_ok_def)
  then have "item_count (sem_wait_q (sem_heap ?k ! i)) = 0" by (simp add: contents_Nil wt_def wait_q_def)
  then have "sys_sem_post (Some h) k = Some (Some (Returns 0 None), ?k)"
    using u(1) lone_handle [OF k h] by (simp add: sys_sem_post_def Let_def ret_def)
  moreover have "leave_kernel ?k = ?k" using k' by (simp add: leave_kernel_def lone_kernel_def)
  ultimately show ?thesis using k' by (simp add: handle_event_def finish_def)
qed

lemma lone_wait:
  assumes k: "lone_kernel i j p 1 w k" and h: "unat h = i"
  shows "\<exists>k'. handle_event (Call (Sem_wait (Some h))) k = Some (Some (Returns 0 None), k') \<and> lone_kernel i j p 0 w k'"
proof -
  let ?k = "upd_sem i (sem_value_update (\<lambda>v. v - 1)) k"
  have k': "lone_kernel i j p 0 w ?k" using lone_value [OF k, of "\<lambda>v. v - 1"] by simp
  then have "sys_sem_wait_x (Some h) k = Some (Some (Returns 0 None), ?k)"
    using lone_handle [OF k h] by (simp add: sys_sem_wait_x_def sem_wait_end_def Let_def ret_def lone_kernel_def)
  moreover have "leave_kernel ?k = ?k" using k' by (simp add: leave_kernel_def lone_kernel_def)
  ultimately show ?thesis using k' by (simp add: handle_event_def finish_def)
qed

section \<open>One thread at a mailbox\<close>

text \<open>The thread \<open>p\<close> is at \<open>pc\<close> in the functions on mailbox \<open>b\<close>.\<close>

definition lone :: "int \<Rightarrow> 8 word \<Rightarrow> 8 word \<Rightarrow> mbox_pc \<Rightarrow> mbox \<Rightarrow> net \<Rightarrow> bool" where
  "lone p v w pc b s \<longleftrightarrow> lone_kernel (unat (m_mail b)) (unat (m_mutex b)) p v w (kern s) \<and> box s = b \<and> code s p = pc"

definition leads :: "(net \<Rightarrow> bool) \<Rightarrow> move list \<Rightarrow> (net \<Rightarrow> bool) \<Rightarrow> bool" where
  "leads P mvs Q \<longleftrightarrow> (\<forall>s. P s \<longrightarrow> (\<exists>s'. net_exec mvs s = Some s' \<and> Q s'))"

lemma leads_Cons:
  assumes "\<And>s. P s \<Longrightarrow> allowed mv s \<and> (\<exists>s'. net_move mv s = Some s' \<and> Q s')" and "leads Q mvs R"
  shows "leads P (mv # mvs) R"
  unfolding leads_def
proof (intro allI impI)
  fix s assume "P s"
  with assms(1) obtain s1 where "allowed mv s" "net_move mv s = Some s1" "Q s1" by blast
  with assms(2) show "\<exists>s'. net_exec (mv # mvs) s = Some s' \<and> R s'" by (auto simp: leads_def)
qed

lemma leads_Nil: "leads P [] P"
  by (simp add: leads_def)

lemma net_exec_append_eq: "net_exec (xs @ ys) s = Option.bind (net_exec xs s) (net_exec ys)"
  by (induction xs arbitrary: s) (simp_all split: bind_split)

lemma leads_append: "leads P xs Q \<Longrightarrow> leads Q ys R \<Longrightarrow> leads P (xs @ ys) R"
  unfolding leads_def net_exec_append_eq by fastforce

lemma lone_user: "lone p v w pc b s \<Longrightarrow> current_pid (kern s) = p \<and> p \<noteq> 0 \<and> in_user_code s"
  by (simp add: lone_def lone_kernel_def in_user_code_def)

lemma lone_begin:
  "lone p v w Out b s \<Longrightarrow> in_service b op \<Longrightarrow>
   allowed (Begin op) s \<and> (\<exists>s'. net_move (Begin op) s = Some s' \<and> lone p v w (entry op) b s')"
  using lone_user [of p v w Out b s] by (auto simp: net_move_def Let_def lone_def)

lemma lone_call:
  assumes s: "lone p v w pc b s" and pc: "request b pc = Some sc" "deliver pc 0 None b = (pc', b, news)"
    and sc: "\<And>k. lone_kernel (unat (m_mail b)) (unat (m_mutex b)) p v w k \<Longrightarrow>
      \<exists>k'. handle_event (Call sc) k = Some (Some (Returns 0 None), k') \<and> lone_kernel (unat (m_mail b)) (unat (m_mutex b)) p v' w' k'"
  shows "allowed Go_on s \<and> (\<exists>s'. net_move Go_on s = Some s' \<and> lone p v' w' pc' b s')"
proof -
  note u = lone_user [OF s]
  have k: "lone_kernel (unat (m_mail b)) (unat (m_mutex b)) p v w (kern s)" "box s = b" "code s p = pc"
    using s by (simp_all add: lone_def)
  obtain k' where k': "handle_event (Call sc) (kern s) = Some (Some (Returns 0 None), k')"
    "lone_kernel (unat (m_mail b)) (unat (m_mutex b)) p v' w' k'" using sc [OF k(1)] by blast
  have "pc \<noteq> Out" "\<forall>msg. pc \<noteq> Post_advance msg" using pc(1) by auto
  then have "net_move Go_on s = Some (set_thread p (pc', b, news) (s\<lparr>kern := k'\<rparr>))" "allowed Go_on s"
    using u k pc k'(1) by (auto simp: net_move_def kernel_event_def Let_def split: mbox_pc.split)
  then show ?thesis using k'(2) by (simp add: lone_def set_thread_def)
qed

lemma lone_statement:
  assumes s: "lone p v w pc b s" and pc: "request b pc = None" "pc \<noteq> Out"
    and st: "\<And>n tab. statement n tab pc b = (pc', b', news)" "m_mail b' = m_mail b" "m_mutex b' = m_mutex b"
    and r: "case pc of Post_advance msg \<Rightarrow> room b | _ \<Rightarrow> True"
  shows "allowed Go_on s \<and> (\<exists>s'. net_move Go_on s = Some s' \<and> lone p v w pc' b' s')"
proof -
  note u = lone_user [OF s]
  have k: "lone_kernel (unat (m_mail b)) (unat (m_mutex b)) p v w (kern s)" "box s = b" "code s p = pc"
    using s by (simp_all add: lone_def)
  have "case code s p of Post_advance msg \<Rightarrow> room (box s) | _ \<Rightarrow> True" unfolding k(2,3) by (rule r)
  then have "net_move Go_on s = Some (set_thread p (pc', b', news) s)" "allowed Go_on s"
    using u k(2,3) pc st(1) by (simp_all add: net_move_def Let_def)
  then show ?thesis using k st(2,3) by (simp add: lone_def set_thread_def)
qed

text \<open>The rules that put a step in front of a run.\<close>

lemma leads_begin:
  "leads (lone p v w (entry op) b) mvs R \<Longrightarrow> in_service b op \<Longrightarrow> leads (lone p v w Out b) (Begin op # mvs) R"
  by (rule leads_Cons [OF lone_begin])

lemma leads_call:
  assumes "leads (lone p v' w' pc' b) mvs R" "request b pc = Some sc" "deliver pc 0 None b = (pc', b, news)"
    and "\<And>k. lone_kernel (unat (m_mail b)) (unat (m_mutex b)) p v w k \<Longrightarrow>
      \<exists>k'. handle_event (Call sc) k = Some (Some (Returns 0 None), k') \<and> lone_kernel (unat (m_mail b)) (unat (m_mutex b)) p v' w' k'"
  shows "leads (lone p v w pc b) (Go_on # mvs) R"
  by (rule leads_Cons [OF lone_call [OF _ assms(2-4)] assms(1)])

lemma leads_statement:
  assumes "leads (lone p v w pc' b') mvs R" "request b pc = None" "pc \<noteq> Out"
    and "\<And>n tab. statement n tab pc b = (pc', b', news)" "m_mail b' = m_mail b" "m_mutex b' = m_mutex b"
    and "case pc of Post_advance msg \<Rightarrow> room b | _ \<Rightarrow> True"
  shows "leads (lone p v w pc b) (Go_on # mvs) R"
  by (rule leads_Cons [OF lone_statement [OF _ assms(2-7)] assms(1)])

text \<open>A post, and a fetch that finds a message.\<close>

definition post_moves :: "u32 \<Rightarrow> move list" where
  "post_moves msg = [Begin (Mbox_post msg), Go_on, Go_on, Go_on, Go_on, Go_on]"

definition fetch_moves :: "move list" where
  "fetch_moves = [Begin (Mbox_fetch 0), Go_on, Go_on, Go_on, Go_on, Go_on]"

lemma lone_mutex_wait:
  "lone_kernel i j p v 1 k \<Longrightarrow> unat h = j \<Longrightarrow>
   \<exists>k'. handle_event (Call (Sem_wait (Some h))) k = Some (Some (Returns 0 None), k') \<and> lone_kernel i j p v 0 k'"
  using lone_wait [of j i p v k h] lone_swap by metis

lemma lone_mutex_post:
  "lone_kernel i j p v 0 k \<Longrightarrow> unat h = j \<Longrightarrow>
   \<exists>k'. handle_event (Call (Sem_post (Some h))) k = Some (Some (Returns 0 None), k') \<and> lone_kernel i j p v 1 k'"
  using lone_post [of j i p 0 v k h] lone_swap [of i j] by auto

lemma post_leads:
  assumes s: "mbox_shape b" and r: "length (mbox_contents b) < 499"
  shows "leads (lone p v 1 Out b) (post_moves msg) (lone p (v + 1) 1 Out (mail_put b msg))"
proof -
  let ?b = "b\<lparr>m_msgs := (m_msgs b)[m_last b := msg]\<rparr>" and ?c = "mail_put b msg"
  have room: "room ?b" using room_iff [OF s] r by (simp add: room_def)
  have c: "?c = ?b\<lparr>m_last := mbox_next (m_last b)\<rparr>" by (simp add: mail_put_def)
  have "leads (lone p (v + 1) 1 Out ?c) [] (lone p (v + 1) 1 Out ?c)" by (rule leads_Nil)
  then have "leads (lone p (v + 1) 0 Post_unlock ?c) [Go_on] (lone p (v + 1) 1 Out ?c)"
    by (rule leads_call [OF _ _ _ lone_mutex_post]) simp_all
  then have "leads (lone p v 0 Post_mail ?c) [Go_on, Go_on] (lone p (v + 1) 1 Out ?c)"
    by (rule leads_call [OF _ _ _ lone_post]) simp_all
  then have "leads (lone p v 0 (Post_advance msg) ?b) [Go_on, Go_on, Go_on] (lone p (v + 1) 1 Out ?c)"
    by (rule leads_statement) (simp_all add: c room)
  then have "leads (lone p v 0 (Post_store msg) b) [Go_on, Go_on, Go_on, Go_on] (lone p (v + 1) 1 Out ?c)"
    by (rule leads_statement) simp_all
  then have "leads (lone p v 1 (Post_lock msg) b) [Go_on, Go_on, Go_on, Go_on, Go_on] (lone p (v + 1) 1 Out ?c)"
    by (rule leads_call [OF _ _ _ lone_mutex_wait]) simp_all
  then show ?thesis unfolding post_moves_def by (intro leads_begin) simp_all
qed

lemma fetch_leads:
  assumes s: "mbox_shape b" and ne: "mbox_contents b \<noteq> []"
  shows "leads (lone p v 1 Out b) fetch_moves (lone p v 1 Out (snd (mail_get b)))"
proof -
  let ?m = "m_msgs b ! m_first b" and ?c = "snd (mail_get b)"
  have f: "m_first b \<noteq> m_last b" using ne mbox_empty [OF s] by (auto simp: mbox_contents_def)
  have c: "?c = b\<lparr>m_first := mbox_next (m_first b)\<rparr>" by (simp add: mail_get_def)
  have "leads (lone p v 1 Out ?c) [] (lone p v 1 Out ?c)" by (rule leads_Nil)
  then have "leads (lone p v 0 (Fetch_unlock ?m 0 0) ?c) [Go_on] (lone p v 1 Out ?c)"
    by (rule leads_call [OF _ _ _ lone_mutex_post]) simp_all
  then have "leads (lone p v 0 (Fetch_advance ?m 0 0) b) [Go_on, Go_on] (lone p v 1 Out ?c)"
    by (rule leads_statement) (simp_all add: c)
  then have "leads (lone p v 0 (Fetch_read 0 0) b) [Go_on, Go_on, Go_on] (lone p v 1 Out ?c)"
    by (rule leads_statement) simp_all
  then have "leads (lone p v 0 (Fetch_test 0 0 0) b) [Go_on, Go_on, Go_on, Go_on] (lone p v 1 Out ?c)"
    by (rule leads_statement) (simp_all add: f)
  then have "leads (lone p v 1 (Fetch_lock 0 0 0) b) [Go_on, Go_on, Go_on, Go_on, Go_on] (lone p v 1 Out ?c)"
    by (rule leads_call [OF _ _ _ lone_mutex_wait]) simp_all
  then show ?thesis unfolding fetch_moves_def by (intro leads_begin) simp_all
qed

section \<open>The counter wraps\<close>

lemma uint_of_nat_byte: "m < 256 \<Longrightarrow> uint (of_nat m :: 8 word) = int m"
  by (simp add: unsigned_of_nat take_bit_nat_eq_self)

lemma word_of_sint: "word_of_int (sint w) = (w :: 8 word)"
  by simp

lemma empty_round:
  assumes s: "mbox_shape b" and e: "mbox_contents b = []"
  shows "\<exists>b'. mbox_shape b' \<and> mbox_contents b' = [] \<and> m_mail b' = m_mail b \<and> m_mutex b' = m_mutex b \<and>
    leads (lone p v 1 Out b) (post_moves msg @ fetch_moves) (lone p (v + 1) 1 Out b')"
proof -
  let ?b = "mail_put b msg" and ?c = "snd (mail_get (mail_put b msg))"
  have p: "mbox_shape ?b" "mbox_contents ?b = [msg]" using mailq.put_ok [OF s] mailq.put_room [OF s] e by simp_all
  obtain m where g: "mail_get ?b = (m, ?c)" by (simp add: mail_get_def)
  have "mbox_contents ?b \<noteq> []" using p(2) by simp
  note G = mailq.get_first [OF p(1) this g]
  have "m_mail ?c = m_mail b" "m_mutex ?c = m_mutex b" by (simp_all add: mail_get_def mail_put_def)
  moreover have "leads (lone p v 1 Out b) (post_moves msg) (lone p (v + 1) 1 Out ?b)"
    by (rule post_leads [OF s]) (simp add: e)
  then have "leads (lone p v 1 Out b) (post_moves msg @ fetch_moves) (lone p (v + 1) 1 Out ?c)"
    by (rule leads_append) (rule fetch_leads [OF p(1)], simp add: p(2))
  moreover have "mbox_contents ?c = []" "mbox_shape ?c" using G p(2) by auto
  ultimately show ?thesis by (intro exI [of _ ?c]) simp
qed

lemma rounds:
  "mbox_shape b \<Longrightarrow> mbox_contents b = [] \<Longrightarrow>
   \<exists>b'. mbox_shape b' \<and> mbox_contents b' = [] \<and> m_mail b' = m_mail b \<and> m_mutex b' = m_mutex b \<and>
    leads (lone p v 1 Out b) (concat (map (\<lambda>msg. post_moves msg @ fetch_moves) msgs))
      (lone p (v + of_nat (length msgs)) 1 Out b')"
proof (induction msgs arbitrary: b v)
  case Nil
  then show ?case using leads_Nil by auto
next
  case (Cons msg msgs)
  from empty_round [OF Cons.prems, of p v msg] obtain b1 where b1: "mbox_shape b1" "mbox_contents b1 = []"
    "m_mail b1 = m_mail b" "m_mutex b1 = m_mutex b"
    "leads (lone p v 1 Out b) (post_moves msg @ fetch_moves) (lone p (v + 1) 1 Out b1)" by blast
  from Cons.IH [OF b1(1,2), of "v + 1"] obtain b2 where b2: "mbox_shape b2" "mbox_contents b2 = []"
    "m_mail b2 = m_mail b" "m_mutex b2 = m_mutex b"
    "leads (lone p (v + 1) 1 Out b1) (concat (map (\<lambda>msg. post_moves msg @ fetch_moves) msgs))
      (lone p (v + 1 + of_nat (length msgs)) 1 Out b2)" using b1(3,4) by auto
  from leads_append [OF b1(5) b2(5)] b2(1-4) show ?case by (intro exI [of _ b2]) (simp add: add.assoc)
qed

lemma lone_ready:
  assumes "mbox_ready s" "p = current_pid (kern s)" "p \<noteq> 0" "in_user_code s" "\<not> resched (kern s)"
    and "get_sem_by_semt (kern s) (Some (m_mail (box s))) = Some i" "sem_view (kern s) i = (0, [])"
  shows "lone p 0 1 Out (box s) s"
proof -
  let ?b = "box s"
  have l: "locked s" using ready_locked [OF assms(1)] .
  have i: "i = unat (m_mail ?b)" using handle_of_sem [OF assms(6)] .
  have j: "sem_view (kern s) (unat (m_mutex ?b)) = (1, [])" "unat (m_mutex ?b) < 50"
    "sem_id (sem_heap (kern s) ! unat (m_mutex ?b)) \<noteq> - 1" "m_mail ?b \<noteq> m_mutex ?b" "code s p = Out"
    using assms(1) by (simp_all add: mbox_ready_def mutex_def)
  have x: "i < 50" "sem_id (sem_heap (kern s) ! i) \<noteq> - 1" using assms(6) by (auto dest: sem_found)
  have "sint (sem_value (sem_heap (kern s) ! i)) = 0" "sint (sem_value (sem_heap (kern s) ! unat (m_mutex ?b))) = 1"
    using assms(7) j(1) by (simp_all add: sem_view_def)
  then have "sem_value (sem_heap (kern s) ! i) = 0" "sem_value (sem_heap (kern s) ! unat (m_mutex ?b)) = 1"
    using word_of_sint [of "sem_value (sem_heap (kern s) ! i)"]
      word_of_sint [of "sem_value (sem_heap (kern s) ! unat (m_mutex ?b))"] by simp_all
  moreover have "wt (kern s) i = []" "wt (kern s) (unat (m_mutex ?b)) = []"
    using assms(7) j(1,2) x by (simp_all add: sem_view_def wt_contents)
  moreover have "running (kern s)" "sems_ok (kern s)" using l by (simp_all add: locked_def)
  ultimately show ?thesis
    using assms(2-5) j(2-5) x i by (simp add: lone_def lone_kernel_def in_user_code_def word_unat_eq_iff)
qed

lemma lone_blocks:
  assumes s: "lone p v w pc b s" and v: "- 128 < sint v" "sint v \<le> 0" and i: "i = unat (m_mail b)"
  shows "\<exists>k. handle_event (Call (Sem_wait (Some (m_mail b)))) (kern s) = Some (None, k) \<and>
    sem_view (kern s) i = (sint v, []) \<and> sem_view k i = (sint v - 1, [p])"
proof -
  have k: "lone_kernel i (unat (m_mutex b)) p v w (kern s)" using s i by (simp add: lone_def)
  then have K: "running (kern s)" "sems_ok (kern s)" "current_pid (kern s) = p" "wt (kern s) i = []" "i < 50" "p \<noteq> 0"
    "sem_value (sem_heap (kern s) ! i) = v" by (simp_all add: lone_kernel_def)
  have view: "sem_view (kern s) i = (sint v, [])" using K(4,5,7) by (simp add: sem_view_def wt_contents)
  have g: "get_sem_by_semt (kern s) (Some (m_mail b)) = Some i" using lone_handle [OF k] i by simp
  have "current_pid (kern s) \<noteq> 0" "- 128 < sint (sem_value (sem_heap (kern s) ! i))" using v(1) K(3,6,7) by simp_all
  from wait_result [OF K(1,2) this(1) g this(2)] K(3,7) view v(2) obtain k' where
    "sys_sem_wait_x (Some (m_mail b)) (kern s) = Some (None, k')" "sem_view k' i = (sint v - 1, [p])" by auto
  with view show ?thesis by (simp add: handle_event_def finish_def)
qed

text \<open>C36: In normal use the counter of the mail wraps. When one thread has posted and fetched \<open>n\<close> messages in turn, at least 129
  and at most 254 of them, and then posts one more, the message is in the mailbox, but the semaphore \<open>mail\<close> of the mailbox has
  the value \<open>n - 255\<close>, below 0; so the wait for mail that a fetch makes after it has found the mailbox empty, when
  it comes after this post, blocks the thread although there is a message.\<close>

theorem mail_counter_wraps:
  assumes "mbox_ready s" "p = current_pid (kern s)" "p \<noteq> 0" "in_user_code s" "\<not> resched (kern s)"
    and "get_sem_by_semt (kern s) (Some (m_mail (box s))) = Some i" "sem_view (kern s) i = (0, [])"
    and "mbox_contents (box s) = []" "129 \<le> length msgs" "length msgs \<le> 254"
  shows "\<exists>s' k. net_run s (concat (map (\<lambda>msg. post_moves msg @ fetch_moves) msgs) @ post_moves msg') s' \<and>
    mbox_contents (box s') = [msg'] \<and> sem_view (kern s') i = (int (length msgs) - 255, []) \<and>
    current_pid (kern s') = p \<and> request (box s') (Fetch_wait 0 0 0) = Some (Sem_wait (Some (m_mail (box s)))) \<and>
    handle_event (Call (Sem_wait (Some (m_mail (box s))))) (kern s') = Some (None, k) \<and> p \<in> set (contents (wait_q k i))"
proof -
  let ?b = "box s" and ?n = "of_nat (length msgs) :: 8 word" and ?mvs = "concat (map (\<lambda>msg. post_moves msg @ fetch_moves) msgs)"
  have s: "mbox_shape ?b" using assms(1) by (simp add: mbox_ready_def)
  from rounds [OF s assms(8), of p 0 msgs] obtain b where b: "mbox_shape b" "mbox_contents b = []"
    "m_mail b = m_mail ?b" "leads (lone p 0 1 Out ?b) ?mvs (lone p ?n 1 Out b)" by auto
  moreover have "leads (lone p ?n 1 Out b) (post_moves msg') (lone p (?n + 1) 1 Out (mail_put b msg'))"
    by (rule post_leads [OF b(1)]) (simp add: b(2))
  ultimately obtain s' where run: "net_exec (?mvs @ post_moves msg') s = Some s'"
    and s': "lone p (?n + 1) 1 Out (mail_put b msg') s'"
    using leads_append lone_ready [OF assms(1-7)] unfolding leads_def by blast
  have h: "m_mail (mail_put b msg') = m_mail ?b" using b(3) by (simp add: mail_put_def)
  have "?n + 1 = of_nat (length msgs + 1)" by simp
  moreover have "uint (of_nat (length msgs + 1) :: 8 word) = int (length msgs + 1)"
    using assms(10) by (subst uint_of_nat_byte) simp_all
  ultimately have "uint (?n + 1) = int (length msgs) + 1" by (simp add: add.commute)
  then have v: "sint (?n + 1) = int (length msgs) - 255" using assms(9,10) by (simp add: sint_cases)
  have "i = unat (m_mail (mail_put b msg'))" using handle_of_sem [OF assms(6)] h by simp
  with lone_blocks [OF s', of i] v h assms(9,10) obtain k where
    k: "handle_event (Call (Sem_wait (Some (m_mail ?b)))) (kern s') = Some (None, k)"
    "sem_view (kern s') i = (int (length msgs) - 255, [])" "sem_view k i = (int (length msgs) - 256, [p])" by auto
  have "box s' = mail_put b msg'" "current_pid (kern s') = p" using s' by (simp_all add: lone_def lone_kernel_def)
  moreover from this(1) have "mbox_contents (box s') = [msg']" using mailq.put_room [OF b(1)] b(2) by simp
  ultimately show ?thesis
    using net_exec_run [OF run] k h by (intro exI [of _ s'] exI [of _ k]) (simp add: sem_view_def)
qed

text \<open>A mailbox that has just been opened, and 129 messages.\<close>

theorem mail_counter_wraps_witness:
  "\<exists>k s' k'. net_run (two_threads 0 0 k) (concat (map (\<lambda>msg. post_moves msg @ fetch_moves) (replicate 129 7)) @ post_moves 8) s' \<and>
    mbox_contents (box s') = [8] \<and> handle_event (Call (Sem_wait (Some 0))) (kern s') = Some (None, k') \<and> 1 \<in> set (contents (wait_q k' 0))"
proof -
  have "map_option (\<lambda>k. (current_pid k, pcontext (pcb k 1), resched k, get_sem_by_semt k (Some 0), sem_view k 0))
      (run_events opened (xilkernel_init [0, 0])) = Some (1, User, False, Some 0, (0, []))"
    unfolding opened_def by code_simp
  then obtain k where k: "run_events opened (xilkernel_init [0, 0]) = Some k" "current_pid k = 1"
    "pcontext (pcb k 1) = User" "\<not> resched k" "get_sem_by_semt k (Some 0) = Some 0" "sem_view k 0 = (0, [])"
    by auto
  have "mbox_ready (two_threads 0 0 k)" using ready_two_threads [of 0 0] k(1) by auto
  moreover have "in_user_code (two_threads 0 0 k)" using k(2,3) by (simp add: in_user_code_def two_threads_def)
  moreover have "mbox_contents (box (two_threads 0 0 k)) = []" by (simp add: two_threads_def mbox_contents_def mbox_size_def)
  ultimately show ?thesis
    using mail_counter_wraps [of "two_threads 0 0 k" 1 0 "replicate 129 7" 8] k(2-6) by (fastforce simp: two_threads_def)
qed

end
