(* ===== verification/Spec2Isabelle.thy ===== *)
theory Spec2Isabelle
  imports Bpm_Prelude Float754 Pack Axi_Bd Ring_Runs Axi_Dma Sessions Command_Text Lost_Wakeups Eth_Start Mail_Counter
begin

text \<open>
  The acquisition server of a beam position monitor.

  The program runs on a MicroBlaze in an FPGA. It brings up an FMC150 converter board,
  captures ADC and DDC samples into DDR memory through two AXI DMA engines, and serves a
  client over one TCP connection: a command of four words comes in, and a response packet or,
  for samples, a sequence of packets goes out. The threads of the server run on the Xilkernel
  operating system. Everything below is under \<open>sw/fmc150_acquisition_lwip_0/src\<close> (the application),
  under \<open>axidma_v5_00_a/src\<close> of the board support package (the DMA driver), under
  \<open>xilkernel_v5_01_a/src\<close> (the operating system) and under \<open>contrib/ports/xilinx\<close> of
  \<open>lwip140_v1_00_a/src\<close> (the adapter to the Ethernet core, and what lwIP needs of the operating system).

  How the parts interact. \<open>init_platform\<close> (\<open>platform.c\<close>, \<open>init.c\<close>) programs the clock distributor
  and the converter over SPI and initialises both DMA engines. \<open>process_client_request\<close>
  (\<open>server.c\<close>) loops: \<open>recv_command_packet\<close> (\<open>connection_server.c\<close>) reads a command through
  \<open>recvall\<close> and \<open>unpack\<close> (\<open>pack/pack.c\<close>); \<open>handle_request\<close> looks up the handlers of the command and
  calls a low-level operation (\<open>low_level_op.c\<close>) on one of the devices, which talks to a core by
  register accesses or to its DMA engine by \<open>XAxiDma_SimpleTransfer\<close> (\<open>xaxidma.c\<close>);
  \<open>send_response_packet\<close> packs the answer and sends it through \<open>sendall\<close>. A request for samples
  repeats the last two steps until the requested number has been handed out.

  The operating system is below all of this and is modelled on its own. A process makes a system
  call, which returns (\<open>leave_kernel\<close>) or blocks the process (\<open>process_block\<close>, \<open>suspend\<close>); the timer
  interrupt counts the software timers down and ends time slices; \<open>scheduler\<close> picks the process that
  runs next. Processes meet in semaphores. All of them keep processes in the queues of \<open>queue.c\<close>.

  Below the connection is the network interface. lwIP hands frames to \<open>low_level_output\<close>
  (\<open>xaxiemacif.c\<close>), which puts their buffers into descriptors of DMA engine 0 (\<open>axidma_sgsend\<close> in
  \<open>xaxiemacif_dma.c\<close>); the send handler releases the buffers of completed descriptors. The receive
  handler queues the buffers of received frames (\<open>xpqueue.c\<close>), signals the thread that passes them on
  by \<open>xaxiemacif_input\<close>, and fills the descriptors again. This is the user of the descriptor rings.

  The threads of lwIP talk to each other through mailboxes (\<open>sys_arch.c\<close>), arrays of messages with
  a semaphore as a lock and a semaphore that counts the mail. This is the user of the kernel.

  Which theory models what.
  \<^item> \<open>Bpm_Prelude\<close>: words, the log of register accesses and memory stores, the \<open>device\<close> that
    answers reads, the interface of a codec.
  \<^item> \<open>Float754\<close>, \<open>Pack\<close>: \<open>pack/pack.c\<close>. The variadic arguments are a list of tagged values.
  \<^item> \<open>Axi_Bd\<close>, \<open>Bd_Ring\<close>: \<open>xaxidma_bd.[ch]\<close>, \<open>xaxidma_hw.h\<close>, \<open>xaxidma_bdring.[ch]\<close>; the record
    \<open>XAxiDma_BdRing\<close> has the fields of the struct. \<open>Ring_Fifo\<close> and \<open>Ring_Runs\<close> prove them correct.
  \<^item> \<open>Axi_Dma\<close>: \<open>xaxidma.[ch]\<close>, \<open>xaxidma_sinit.c\<close> and the configuration table \<open>xaxidma_g.c\<close>.
  \<^item> \<open>Low_Level\<close>: \<open>low_level_op.[ch]\<close>, the two capture devices, registers, LEDs; \<open>Sampling\<close> proves
    what \<open>capture_samples\<close> and \<open>get_samples\<close> promise.
  \<^item> \<open>Init_Board\<close>: \<open>init.c\<close> and \<open>init_platform\<close>.
  \<^item> \<open>Server\<close>: the packets and handlers of \<open>common.h\<close>, the handler tables of \<open>low_level_op.c\<close>, and
    \<open>handle_request\<close>; \<open>Requests\<close> proves its invariant and its answers.
  \<^item> \<open>Connection\<close>: \<open>connection_server.c\<close> and \<open>process_client_request\<close>; \<open>Wire\<close>, \<open>Delivery\<close> and \<open>Sessions\<close>
    prove what goes over the connection.
  \<^item> \<open>Command_Text\<close>: \<open>tokenize_send_buffer\<close> of \<open>common.c\<close>.
  \<^item> \<open>Pid_Queue\<close>: \<open>sys/queue.c\<close>, the ring buffers of process identifiers, with the locales
    \<open>bounded_queue\<close>, \<open>fifo_queue\<close> and \<open>deletable_queue\<close> as their contracts.
  \<^item> \<open>Kernel\<close>: \<open>sys/process.c\<close>, \<open>sys/sched.c\<close>, \<open>sys/timer.c\<close>, \<open>timer_intr_handler.c\<close> and the parts of
    \<open>mb-hw.c\<close> and \<open>entry.S\<close> that keep variables of the kernel. The record \<open>kernel\<close> holds the global
    variables; the registers of a process that is switched away are the program point where it
    goes on (\<open>saved_context\<close>).
  \<^item> \<open>Semaphores\<close>: \<open>ipc/semaphore.c\<close>, the start of the kernel (\<open>xilkernel_init\<close>), and the events
    (\<open>Call\<close>, \<open>Resume\<close>, \<open>Tick\<close>) with the step relation \<open>kernel_step\<close>.
  \<^item> \<open>Kernel_Inv\<close>, \<open>Kernel_Timers\<close>, \<open>Kernel_Moves\<close>, \<open>Kernel_Steps\<close>, \<open>Kernel_Ticks\<close>: the invariant of the
    kernel (every process in its place) and that timers, scheduler, system calls and interrupts keep it.
    \<open>Kernel_Runs\<close>, \<open>Kernel_Calls\<close>, \<open>Kernel_Wakeups\<close> and \<open>Lost_Wakeups\<close> draw the conclusions for runs
    of the kernel. Most of them are about runs that destroy no semaphore with a unit to give and a process in its
    queue (\<open>tidy\<close>); with no unit to give the kernel refuses that by itself.

  \<^item> \<open>Eth_Adapter\<close>: \<open>netif/xaxiemacif_dma.c\<close>, \<open>netif/xpqueue.c\<close> and the output and input functions of
    \<open>netif/xaxiemacif.c\<close>. lwIP is the parameter \<open>lwip\<close>, and what the adapter calls is a log
    (\<open>lw_log\<close>). \<open>Eth_Rings\<close> proves what sending and receiving do to the rings and to the buffers named
    in descriptors, \<open>Eth_Runs\<close> has the events (\<open>eth_event\<close>) and the lemmas on every run, \<open>Eth_Receive\<close>
    the receive side in normal operation (the queue of frames interprets \<open>fifo_queue\<close>),
    \<open>Eth_Network\<close> the conclusions for runs, and \<open>Eth_Start\<close> the initialisation.
  \<^item> \<open>Sys_Arch\<close>: \<open>sys_arch.c\<close>. Every thread is at a program point (\<open>mbox_pc\<close>) of the functions on a
    mailbox; \<open>request\<close> is the system call it makes there, \<open>deliver\<close> what it does with the result, and
    \<open>statement\<close> the code between the calls. The record \<open>net\<close> puts the threads on the kernel of
    \<open>Semaphores\<close>, and a \<open>move\<close> is one step of the thread that runs, or an interrupt.
    \<open>Mutex_Steps\<close> has what the events of the kernel do to one semaphore, \<open>Mailbox\<close> the proof that the
    lock works (\<open>locked\<close>), \<open>Mail_Queue\<close> the contents of a mailbox (it interprets \<open>bounded_queue\<close>), and \<open>Mail_Service\<close> and
    \<open>Mail_Counter\<close> the conclusions.

  State and effects. Structs are records, unsigned integers are words, a C \<open>int\<close> that counts is
  an \<open>int\<close> with the conversions of the source written out. The code's effect on the hardware is
  the log (\<open>trace\<close>) it extends; a theorem about every \<open>device\<close> is a theorem about every answer the
  cores can give. An error code is the number or constructor the source returns; a dereference
  of \<open>NULL\<close>, a store through a pointer that was never set and a read of an uninitialised field are
  values of \<open>fault\<close>.

  What the lemmas show.
  \<^item> Wire format: integers and floating-point numbers round-trip, \<open>pack\<close> followed by \<open>unpack\<close> under
    the same format of integers and strings is the identity (except for \<open>c\<close>), strings respect the bound of the format.
  \<^item> Descriptor ring: every operation keeps the partition of the ring into four groups and moves
    descriptors first in, first out, through a pipeline of three stages (the locales
    \<open>descriptor_stage\<close> and \<open>descriptor_pipeline\<close> with their interpretations); the engine sees
    flushed descriptors only; only whole packets are collected; starting a channel terminates.
  \<^item> DMA engine and capture: the register writes of a transfer and of a capture, exactly and in
    order; the window of memory that a request may read.
  \<^item> Requests and sessions: the invariant \<open>server_ok\<close> of the two devices, absence of faults once a
    buffer has been set, the answer to each kind of request, termination of the answer loop, and
    end to end the bytes that a client receives for a capture (\<open>request_delivers_capture\<close>).
  \<^item> Board: \<open>init_platform\<close> returns unless the SPI core stays busy, sends the register table in
    order, and leaves both devices ready.
  \<^item> Kernel: in every tidy run every process is in exactly one place and the kernel never stops in one
    of its endless loops; a ready process runs within a bounded number of ticks; the timer
    interrupt, \<open>sleep\<close> and the semaphore calls refine operations on lists; without timed waits no
    wakeup is lost, and with them one can be (\<open>wakeup_is_lost\<close>) and then for good
    (\<open>wakeup_is_lost_for_good\<close>), because the source gives the unit of a wait that timed out back too late.
  \<^item> Network interface: in every run each buffer of a sent frame is released once and in order
    (\<open>sent_buffers_released_in_order\<close>); received frames are delivered once and in order and their
    descriptors filled again; the initialisation returns and leaves both channels running. One failed
    allocation of a buffer stops reception for good (\<open>receiver_starves\<close>), and an error interrupt stops
    everything (\<open>error_interrupt_is_final\<close>). Hypotheses about the engine are its documented behaviour
    (\<open>keeps_ids\<close>, \<open>keeps_lengths\<close>: it does not write words of a descriptor that belong to the
    processor) and that descriptors, registers and the rest of the program do not share words.
  \<^item> Mailboxes: at most one thread is between the lock and the unlock (\<open>mailbox_mutual_exclusion\<close>),
    whatever the threads do and wherever they are interrupted, as long as nobody else uses the lock, frees the
    mailbox or leaves the tidy runs; and as long as besides no message goes in without room, a mailbox is
    a first-in first-out queue of at most 499 messages (\<open>mailbox_is_fifo\<close>). The code does not test for room: one
    message too many loses all (\<open>overflow_empties_mailbox\<close>), and the counter of the mail wraps
    (\<open>mail_counter_wraps\<close>).
  \<^item> Several theorems state behaviour of the code that a client must know and that the comments do
    not promise: stale samples after a failed capture, silence after an error, and so on.

  Loops and bounds. Loops over a buffer are recursive functions with a measure;
  \<open>ResetIsDone\<close> is polled at most 500 times and a DMA transfer at most 5 times, as in
  the source, by recursion on that number; the loops over descriptors of the adapter recurse on
  the number of descriptors left. Loops that the source does not bound (the SPI polling, the
  answer loop, the session loop, the search for a descriptor in
  \<open>XAxiDma_StartBdRingHw\<close>) are \<open>partial_function (option)\<close>, and
  returning is proved, under a hypothesis on the SPI core or the client where one is needed. The
  loop of \<open>sem_force_destroy\<close> is bounded by the number of entries in the queue at its
  start, of which every round takes one. An endless loop that the kernel enters on a scheduling
  error is the value \<open>None\<close>. No other fuel is used.

  Not modelled. Console output (\<open>print_*\<close>, \<open>dump_*\<close>) has no state;
  \<open>main.c\<close> and \<open>dispatch.c\<close> only call lwIP and Xilkernel. Of Xilkernel,
  what this configuration leaves out (priority scheduling, named semaphores, message queues),
  \<open>sys_kill\<close>, which only a hardware exception calls, mutexes, the exit and join of
  threads, memory, and device interrupts other than the timer; a thread is a process that
  \<open>xilkernel_init\<close> creates. lwIP is vendored: the socket is a parameter
  (\<open>socket\<close>) that may split and fail as it likes, and so are its buffers and its heap
  (\<open>lwip\<close>). Of the network interface \<open>low_level_init\<close>, which calls the
  driver of the Ethernet core, the handler of errors of that core, and what the configuration
  leaves out: checksum offloading, jumbo frames, multicast filters, the FIFO. Of \<open>sys_arch.c\<close>
  the threads (\<open>sys_thread_new\<close>), a fetch that throws its message away (\<open>msg\<close> is \<open>NULL\<close>) and
  the count of semaphores, which only decides about debug messages; \<open>sys_sem_new\<close>, \<open>sys_sem_signal\<close>
  and \<open>sys_sem_free\<close> are the system calls of \<open>Semaphores\<close>. The cache switches
  of \<open>platform.c\<close> and the other drivers of the board support package are not called
  on the paths above or have no state of their own here.
\<close>

end
